(* ===== verification/Regatta_Prelude.thy ===== *)
theory Regatta_Prelude
  imports Main "HOL-Library.Word" "HOL-Library.List_Lexorder"
begin

text \<open>
  The prelude of the development: the machine types of the Go sources (bytes, unsigned
  and signed 64-bit integers), the result monad that models Go's \<^verbatim>\<open>(value, error)\<close>
  returns, the lexicographic order \<^verbatim>\<open>bytes.Compare\<close> uses, strictly sorted key/value
  lists, and the little-endian encoding of \<^verbatim>\<open>encoding/binary\<close>.
\<close>

unbundle bit_operations_syntax

section \<open>Machine types\<close>

type_synonym byte = "8 word"
type_synonym bytes = "8 word list"
type_synonym u32 = "32 word"
type_synonym u64 = "64 word"

text \<open>Facts about results, about byte order and about key/value lists that the
  component theories hand to the simplifier as a group.\<close>

named_theorems result_simps
named_theorems order_simps
named_theorems alist_simps

section \<open>Results: a value or an error\<close>

text \<open>
  A Go function that returns \<^verbatim>\<open>(T, error)\<close> is a function into \<open>'e + 'a\<close>: \<open>Inl\<close> carries
  the error, \<open>Inr\<close> the value. \<open>rbind\<close> is the idiom \<^verbatim>\<open>x, err := f(); if err != nil { return err }\<close>.
\<close>

fun rbind :: "'e + 'a \<Rightarrow> ('a \<Rightarrow> 'e + 'b) \<Rightarrow> 'e + 'b" where
  "rbind (Inl e) f = Inl e"
| "rbind (Inr x) f = f x"

lemma rbind_Inr_iff [result_simps]:
  "rbind r f = Inr y \<longleftrightarrow> (\<exists>x. r = Inr x \<and> f x = Inr y)"
  by (cases r) auto

lemma rbind_Inl_iff [result_simps]:
  "rbind r f = Inl e \<longleftrightarrow> r = Inl e \<or> (\<exists>x. r = Inr x \<and> f x = Inl e)"
  by (cases r) auto

lemma rbind_case_prod: "rbind (case x of (a, b) \<Rightarrow> f a b) g = (case x of (a, b) \<Rightarrow> rbind (f a b) g)"
  by (cases x) simp

lemma rbind_assoc [result_simps]:
  "rbind (rbind r f) g = rbind r (\<lambda>x. rbind (f x) g)"
  by (cases r) auto

lemma rbind_cong [fundef_cong]:
  assumes "r = r'" and "\<And>x. r' = Inr x \<Longrightarrow> f x = f' x"
  shows "rbind r f = rbind r' f'"
  using assms by (cases r') auto

lemma rbind_split:
  "P (rbind r f) \<longleftrightarrow> (\<forall>e. r = Inl e \<longrightarrow> P (Inl e)) \<and> (\<forall>x. r = Inr x \<longrightarrow> P (f x))"
  by (cases r) auto

text \<open>The loop \<^verbatim>\<open>for _, x := range xs\<close> whose body may return an error and which threads a state.\<close>

fun rfold :: "('s \<Rightarrow> 'a \<Rightarrow> 'e + 's) \<Rightarrow> 's \<Rightarrow> 'a list \<Rightarrow> 'e + 's" where
  "rfold f s [] = Inr s"
| "rfold f s (x # xs) = rbind (f s x) (\<lambda>s'. rfold f s' xs)"

lemma rfold_append:
  "rfold f s (xs @ ys) = rbind (rfold f s xs) (\<lambda>s'. rfold f s' ys)"
  by (induction xs arbitrary: s) (simp_all add: rbind_assoc)

lemma rfold_invariant:
  assumes "rfold f s xs = Inr s'" and "I s"
    and "\<And>s x s'. I s \<Longrightarrow> x \<in> set xs \<Longrightarrow> f s x = Inr s' \<Longrightarrow> I s'"
  shows "I s'"
  using assms
proof (induction xs arbitrary: s)
  case Nil
  then show ?case by simp
next
  case (Cons x xs)
  from Cons.prems(1) obtain t where t: "f s x = Inr t" and r: "rfold f t xs = Inr s'"
    by (auto simp: result_simps)
  have "I t"
    by (rule Cons.prems(3) [OF Cons.prems(2) _ t]) simp
  from r this show ?case
    by (rule Cons.IH) (rule Cons.prems(3), simp_all)
qed

section \<open>The order of byte strings\<close>

text \<open>
  \<^verbatim>\<open>bytes.Compare\<close> is the lexicographic order with a proper prefix below its extensions,
  which is the order \<^verbatim>\<open>HOL-Library.List_Lexorder\<close> puts on lists.
\<close>

lemma append_le_append [order_simps]: "(xs @ ys \<le> xs @ zs) = (ys \<le> (zs :: 'a :: linorder list))"
  by (induction xs) auto

lemma append_less_append [order_simps]: "(xs @ ys < xs @ zs) = (ys < (zs :: 'a :: linorder list))"
  by (induction xs) auto

lemma byte_le_255 [simp]: "(b :: byte) \<le> 255"
  using unsigned_less [of b, where 'a = nat] by (simp add: word_le_nat_alt)

text \<open>\<^verbatim>\<open>bytes.Compare(a, b)\<close>: -1, 0 or 1.\<close>

definition bytes_Compare :: "bytes \<Rightarrow> bytes \<Rightarrow> int" where
  "bytes_Compare a b = (if a < b then -1 else if a = b then 0 else 1)"

lemma bytes_Compare_simps [order_simps]:
  "bytes_Compare a b = 1 \<longleftrightarrow> b < a"
  "bytes_Compare a b = -1 \<longleftrightarrow> a < b"
  "bytes_Compare a b = 0 \<longleftrightarrow> a = b"
  by (auto simp: bytes_Compare_def)

section \<open>Strictly sorted key/value lists\<close>

abbreviation sorted_keys :: "('k :: linorder \<times> 'v) list \<Rightarrow> bool" where
  "sorted_keys kvs \<equiv> sorted_wrt (<) (map fst kvs)"

lemma sorted_keys_distinct: "sorted_keys kvs \<Longrightarrow> distinct (map fst kvs)"
  using strict_sorted_iff by blast

lemma sorted_keys_filter: "sorted_keys kvs \<Longrightarrow> sorted_keys (filter P kvs)"
  by (induction kvs) auto

lemma map_of_filter_keys [alist_simps]:
  "map_of (filter (\<lambda>kv. P (fst kv)) kvs) k = (if P k then map_of kvs k else None)"
  by (induction kvs) auto

lemma alist_eq_map_keys:
  assumes "distinct (map fst kvs)"
  shows "kvs = map (\<lambda>k. (k, the (map_of kvs k))) (map fst kvs)"
proof (rule nth_equalityI)
  fix i assume i: "i < length kvs"
  then have "map_of kvs (fst (kvs ! i)) = Some (snd (kvs ! i))"
    using assms by (intro map_of_is_SomeI) simp_all
  with i show "kvs ! i = map (\<lambda>k. (k, the (map_of kvs k))) (map fst kvs) ! i"
    by simp
qed simp

lemma sorted_keys_map_of_inject:
  assumes "sorted_keys xs" and "sorted_keys ys" and "map_of xs = map_of ys"
  shows "xs = ys"
proof -
  have "set (map fst xs) = set (map fst ys)"
    using assms(3) by (metis dom_map_of_conv_image_fst set_map)
  with assms(1,2) have "map fst xs = map fst ys"
    using strict_sorted_equal by blast
  with alist_eq_map_keys [OF sorted_keys_distinct [OF assms(1)]]
    alist_eq_map_keys [OF sorted_keys_distinct [OF assms(2)]] assms(3)
  show ?thesis by simp
qed

text \<open>Insertion into and deletion from a strictly sorted list.\<close>

fun alist_put :: "'k :: linorder \<Rightarrow> 'v \<Rightarrow> ('k \<times> 'v) list \<Rightarrow> ('k \<times> 'v) list" where
  "alist_put k v [] = [(k, v)]"
| "alist_put k v ((k', v') # kvs) =
     (if k < k' then (k, v) # (k', v') # kvs
      else if k = k' then (k, v) # kvs
      else (k', v') # alist_put k v kvs)"

lemma map_of_alist_put [alist_simps]: "map_of (alist_put k v kvs) = (map_of kvs)(k \<mapsto> v)"
  by (induction kvs) auto

lemma fst_set_alist_put: "fst ` set (alist_put k v kvs) = insert k (fst ` set kvs)"
  by (induction k v kvs rule: alist_put.induct) (auto simp: image_iff)

lemma sorted_keys_alist_put: "sorted_keys kvs \<Longrightarrow> sorted_keys (alist_put k v kvs)"
proof (induction kvs)
  case Nil
  then show ?case by simp
next
  case (Cons kv kvs)
  then show ?case
    using fst_set_alist_put [of k v kvs] by (cases kv) (auto simp: image_iff)
qed

section \<open>Little-endian integers\<close>

text \<open>\<^verbatim>\<open>binary.LittleEndian.PutUint64\<close> and \<^verbatim>\<open>binary.LittleEndian.Uint64\<close>. The reader indexes
  \<^verbatim>\<open>b[7]\<close> first and panics on a shorter slice, which is \<open>None\<close> here.\<close>

definition PutUint64 :: "u64 \<Rightarrow> bytes" where
  "PutUint64 v = map (\<lambda>i. ucast (drop_bit (8 * i) v)) [0..<8]"

definition Uint64 :: "bytes \<Rightarrow> u64 option" where
  "Uint64 b = (if length b < 8 then None
     else Some (foldr (\<lambda>i acc. push_bit (8 * i) (ucast (b ! i)) OR acc) [0..<8] 0))"

lemma length_PutUint64 [simp]: "length (PutUint64 v) = 8"
  by (simp add: PutUint64_def)

lemma bit_foldr_or:
  "bit (foldr (\<lambda>i acc. f i OR acc) is (0 :: u64)) n \<longleftrightarrow> (\<exists>i\<in>set is. bit (f i) n)"
  by (induction "is") (auto simp: bit_or_iff)

lemma Uint64_PutUint64 [simp]: "Uint64 (PutUint64 v) = Some v"
proof -
  let ?w = "foldr (\<lambda>i acc. push_bit (8 * i) (ucast (PutUint64 v ! i)) OR acc) [0..<8] (0::u64)"
  have "?w = v"
  proof (rule bit_word_eqI)
    fix n assume n: "n < LENGTH(64)"
    have "bit ?w n \<longleftrightarrow> (\<exists>i\<in>{0..<8}. bit (push_bit (8 * i) (ucast (PutUint64 v ! i)) :: u64) n)"
      by (simp only: bit_foldr_or set_upt)
    also have "\<dots> \<longleftrightarrow> bit v n" (is "?L \<longleftrightarrow> ?R")
    proof
      assume ?L then show ?R
        by (auto simp: PutUint64_def bit_push_bit_iff bit_unsigned_iff bit_drop_bit_eq)
    next
      assume ?R
      moreover have "8 * (n div 8) \<le> n" "n - 8 * (n div 8) < 8" "n div 8 < 8"
        using n by auto
      ultimately show ?L
        by (intro bexI [of _ "n div 8"])
          (auto simp: PutUint64_def bit_push_bit_iff bit_unsigned_iff bit_drop_bit_eq)
    qed
    finally show "bit ?w n = bit v n" .
  qed
  then show ?thesis by (simp add: Uint64_def)
qed

end
