(* ===== verification/Proto_Wire.thy ===== *)
theory Proto_Wire
  imports Regatta_Prelude
begin

text \<open>
  The wire format helpers of the generated protobuf code
  (\<^verbatim>\<open>regattapb/mvcc_vtproto.pb.go\<close>): variable-length integers, tags, length-delimited
  chunks, the skipping of unknown fields, and the decoding loop that every
  \<^verbatim>\<open>UnmarshalVT\<close> method instantiates with its own \<^verbatim>\<open>switch fieldNum\<close>.
  A position \<^verbatim>\<open>iNdEx\<close> in the input \<^verbatim>\<open>dAtA\<close> is represented by the bytes that remain,
  and \<open>l\<close> is \<^verbatim>\<open>len(dAtA)\<close>, so \<^verbatim>\<open>iNdEx\<close> is \<open>l - length rest\<close>. The encoder writes
  from the end of the buffer towards its start; the accumulator of the encoders is
  \<^verbatim>\<open>dAtA[i:]\<close>.
\<close>

datatype proto_error =
    ErrInvalidLength | ErrIntOverflow | ErrUnexpectedEndOfGroup
  | ErrUnexpectedEOF | ErrEndGroup | ErrIllegalTag | ErrWireType

section \<open>Variable-length integers\<close>

text \<open>\<^verbatim>\<open>bits.Len64\<close>.\<close>

fun bits_Len :: "nat \<Rightarrow> nat" where
  "bits_Len n = (if n = 0 then 0 else Suc (bits_Len (n div 2)))"

declare bits_Len.simps [simp del]

definition sov :: "u64 \<Rightarrow> nat" where
  "sov x = (bits_Len (unat (x OR 1)) + 6) div 7"

function encodeVarint :: "u64 \<Rightarrow> bytes" where
  "encodeVarint v =
     (if v \<ge> 128 then ucast (v AND 0x7F OR 0x80) # encodeVarint (drop_bit 7 v) else [ucast v])"
  by pat_completeness auto
termination
proof (relation "measure unat")
  fix v :: u64
  assume "128 \<le> v"
  then have "0 < unat v"
    by (simp add: word_le_nat_alt)
  then show "(drop_bit 7 v, v) \<in> measure unat"
    by (simp add: drop_bit_eq_div unat_div)
qed simp

declare encodeVarint.simps [simp del]

fun readVarint :: "nat \<Rightarrow> u64 \<Rightarrow> bytes \<Rightarrow> proto_error + (u64 \<times> bytes)" where
  "readVarint shift acc bs =
     (if shift \<ge> 64 then Inl ErrIntOverflow
      else case bs of
        [] \<Rightarrow> Inl ErrUnexpectedEOF
      | b # bs' \<Rightarrow>
          let acc' = acc OR push_bit shift (ucast (b AND 0x7F)) in
          if b < 0x80 then Inr (acc', bs') else readVarint (shift + 7) acc' bs')"

declare readVarint.simps [simp del]

lemma readVarint_shorter:
  "readVarint shift acc bs = Inr (v, rest) \<Longrightarrow> length rest < length bs"
proof (induction shift acc bs rule: readVarint.induct)
  case (1 shift acc bs)
  then show ?case
    by (subst (asm) (2) readVarint.simps)
      (fastforce simp: Let_def split: if_splits list.splits)
qed

section \<open>Length-delimited chunks\<close>

definition readChunk :: "nat \<Rightarrow> bytes \<Rightarrow> proto_error + (bytes \<times> bytes)" where
  "readChunk l bs = rbind (readVarint 0 0 bs) (\<lambda>(byteLen, rest).
     if sint byteLen < 0 then Inl ErrInvalidLength
     else if (l - length rest) + unat byteLen \<ge> 2 ^ 63 then Inl ErrInvalidLength
     else if unat byteLen > length rest then Inl ErrUnexpectedEOF
     else Inr (take (unat byteLen) rest, drop (unat byteLen) rest))"

lemma readChunk_shorter:
  assumes "readChunk l bs = Inr (chunk, rest)"
  shows "length rest < length bs" and "length chunk < length bs"
  using assms
  by (auto simp: readChunk_def result_simps split: if_splits dest: readVarint_shorter)

section \<open>Skipping an unknown field\<close>

text \<open>One round of the loop of \<^verbatim>\<open>skip\<close>, at \<^verbatim>\<open>iNdEx = n\<close> with the bytes from there on in
  \<open>bs\<close>: the new position, the new depth of open groups and the bytes that remain.\<close>

definition skip_step :: "nat \<Rightarrow> nat \<Rightarrow> bytes \<Rightarrow> proto_error + (nat \<times> nat \<times> bytes)" where
  "skip_step n depth bs = rbind (readVarint 0 0 bs) (\<lambda>(wire, rest).
     let n1 = n + (length bs - length rest); wireType = wire AND 7 in
     if wireType = 0 then
       rbind (readVarint 0 0 rest) (\<lambda>(_, rest').
         Inr (n1 + (length rest - length rest'), depth, rest'))
     else if wireType = 1 then Inr (n1 + 8, depth, drop 8 rest)
     else if wireType = 2 then
       rbind (readVarint 0 0 rest) (\<lambda>(len, rest').
         let n2 = n1 + (length rest - length rest') in
         if sint len < 0 then Inl ErrInvalidLength
         else if n2 + unat len \<ge> 2 ^ 63 then Inl ErrInvalidLength
         else Inr (n2 + unat len, depth, drop (unat len) rest'))
     else if wireType = 3 then Inr (n1, depth + 1, rest)
     else if wireType = 4 then
       (if depth = 0 then Inl ErrUnexpectedEndOfGroup else Inr (n1, depth - 1, rest))
     else if wireType = 5 then Inr (n1 + 4, depth, drop 4 rest)
     else Inl ErrWireType)"

lemma skip_step_advances:
  assumes "skip_step n depth bs = Inr (n', depth', rest')"
  shows "n < n'" and "length rest' < length bs"
proof -
  from assms obtain wire rest where rd: "readVarint 0 0 bs = Inr (wire, rest)"
    by (auto simp: skip_step_def result_simps)
  note sh = readVarint_shorter [OF rd]
  have "n < n' \<and> length rest' < length bs"
    using assms sh
    by (auto simp: skip_step_def rd Let_def result_simps split: if_splits
        dest!: readVarint_shorter)
  then show "n < n'" and "length rest' < length bs" by simp_all
qed

function skip_loop :: "nat \<Rightarrow> nat \<Rightarrow> bytes \<Rightarrow> proto_error + nat" where
  "skip_loop n depth bs =
     (if bs = [] then Inl ErrUnexpectedEOF
      else case skip_step n depth bs of
        Inl e \<Rightarrow> Inl e
      | Inr (n', depth', rest) \<Rightarrow> if depth' = 0 then Inr n' else skip_loop n' depth' rest)"
  by pat_completeness auto
termination
  by (relation "measure (\<lambda>(n, depth, bs). length bs)")
    (auto dest: skip_step_advances)

declare skip_loop.simps [simp del]

definition skip :: "bytes \<Rightarrow> proto_error + nat" where
  "skip dAtA = skip_loop 0 0 dAtA"

lemma skip_loop_advances: "skip_loop n depth bs = Inr k \<Longrightarrow> n < k"
proof (induction n depth bs rule: skip_loop.induct)
  case (1 n depth bs)
  from "1.prems" obtain n' depth' rest where
    ne: "bs \<noteq> []" and st: "skip_step n depth bs = Inr (n', depth', rest)"
    by (subst (asm) skip_loop.simps) (auto split: if_splits sum.splits)
  have eq: "skip_loop n depth bs = (if depth' = 0 then Inr n' else skip_loop n' depth' rest)"
    using ne by (simp add: skip_loop.simps [of n] st)
  with "1.prems" "1.IH" [OF ne st refl refl] skip_step_advances(1) [OF st] show ?case
    by (auto split: if_splits)
qed

lemma skip_positive: "skip bs = Inr n \<Longrightarrow> 0 < n"
  unfolding skip_def by (rule skip_loop_advances)

section \<open>The decoding loop\<close>

text \<open>
  What a case of a message's \<^verbatim>\<open>switch fieldNum\<close> does: \<open>VarintField f\<close> wants wire type 0,
  reads an integer and stores it; \<open>BytesField f\<close> wants wire type 2, reads a
  length-delimited chunk and stores or decodes it. Field numbers without a case are
  skipped and their bytes appended to \<^verbatim>\<open>unknownFields\<close>.
\<close>

datatype 'm field =
    VarintField "u64 \<Rightarrow> 'm \<Rightarrow> 'm"
  | BytesField "bytes \<Rightarrow> 'm \<Rightarrow> proto_error + 'm"

definition wireFieldNum :: "u64 \<Rightarrow> int" where
  "wireFieldNum wire = sint (ucast (drop_bit 3 wire) :: u32)"

definition unmarshal_field ::
  "(int \<Rightarrow> 'm field option) \<Rightarrow> (bytes \<Rightarrow> 'm \<Rightarrow> 'm) \<Rightarrow> nat \<Rightarrow> bytes \<Rightarrow> 'm \<Rightarrow> proto_error + ('m \<times> bytes)"
where
  "unmarshal_field fields addUnknown l bs m = rbind (readVarint 0 0 bs) (\<lambda>(wire, rest).
     let fieldNum = wireFieldNum wire; wireType = wire AND 7 in
     if wireType = 4 then Inl ErrEndGroup
     else if fieldNum \<le> 0 then Inl ErrIllegalTag
     else case fields fieldNum of
       Some (VarintField f) \<Rightarrow>
         if wireType \<noteq> 0 then Inl ErrWireType
         else rbind (readVarint 0 0 rest) (\<lambda>(v, rest'). Inr (f v m, rest'))
     | Some (BytesField f) \<Rightarrow>
         if wireType \<noteq> 2 then Inl ErrWireType
         else rbind (readChunk l rest) (\<lambda>(chunk, rest').
           rbind (f chunk m) (\<lambda>m'. Inr (m', rest')))
     | None \<Rightarrow>
         rbind (skip bs) (\<lambda>skippy.
           if (l - length bs) + skippy \<ge> 2 ^ 63 then Inl ErrInvalidLength
           else if skippy > length bs then Inl ErrUnexpectedEOF
           else Inr (addUnknown (take skippy bs) m, drop skippy bs)))"

lemma unmarshal_field_shorter:
  assumes "unmarshal_field fields unk l bs m = Inr (m', rest)"
  shows "length rest < length bs"
  using assms
  by (auto simp: unmarshal_field_def result_simps Let_def
      split: if_splits option.splits field.splits
      dest!: readVarint_shorter readChunk_shorter(1) skip_positive)

function unmarshal_loop ::
  "(int \<Rightarrow> 'm field option) \<Rightarrow> (bytes \<Rightarrow> 'm \<Rightarrow> 'm) \<Rightarrow> nat \<Rightarrow> bytes \<Rightarrow> 'm \<Rightarrow> proto_error + 'm"
where
  "unmarshal_loop fields unk l bs m =
     (if bs = [] then Inr m
      else case unmarshal_field fields unk l bs m of
        Inl e \<Rightarrow> Inl e
      | Inr (m', rest) \<Rightarrow> unmarshal_loop fields unk l rest m')"
  by pat_completeness auto
termination
  by (relation "measure (\<lambda>(fields, unk, l, bs, m). length bs)")
    (auto dest: unmarshal_field_shorter)

declare unmarshal_loop.simps [simp del]

lemma unmarshal_loop_Nil [simp]: "unmarshal_loop fields unk l [] m = Inr m"
  by (simp add: unmarshal_loop.simps)

lemma unmarshal_loop_step:
  assumes "unmarshal_field fields unk l bs m = Inr (m', rest)"
  shows "unmarshal_loop fields unk l bs m = unmarshal_loop fields unk l rest m'"
proof -
  have "bs \<noteq> []" using unmarshal_field_shorter [OF assms] by auto
  then show ?thesis by (simp add: unmarshal_loop.simps [of _ _ _ bs] assms)
qed

text \<open>
  Two tables that treat every chunk shorter than the input alike decode it alike: the fact
  behind unfolding a recursive decoder.
\<close>

definition field_agree :: "nat \<Rightarrow> 'm field option \<Rightarrow> 'm field option \<Rightarrow> bool" where
  "field_agree n x y \<longleftrightarrow> x = y \<or>
     (\<exists>f g. x = Some (BytesField f) \<and> y = Some (BytesField g) \<and> (\<forall>c m. length c < n \<longrightarrow> f c m = g c m))"

lemma unmarshal_field_cong:
  assumes "\<And>fn. field_agree n (fields fn) (fields' fn)" and "length bs \<le> n"
  shows "unmarshal_field fields unk l bs m = unmarshal_field fields' unk l bs m"
proof (cases "readVarint 0 0 bs")
  case (Inl e)
  then show ?thesis by (simp add: unmarshal_field_def)
next
  case (Inr p)
  obtain wire rest where p: "p = (wire, rest)" by (cases p)
  then have "length rest < length bs" using Inr readVarint_shorter by blast
  then have "\<And>c r. readChunk l rest = Inr (c, r) \<Longrightarrow> length c < n"
    using readChunk_shorter(2) assms(2) by fastforce
  then show ?thesis
    using assms(1) [of "wireFieldNum wire"] Inr p
    by (auto simp: unmarshal_field_def field_agree_def Let_def intro!: rbind_cong)
qed

lemma unmarshal_loop_cong:
  assumes "\<And>fn. field_agree n (fields fn) (fields' fn)" and "length bs \<le> n"
  shows "unmarshal_loop fields unk l bs m = unmarshal_loop fields' unk l bs m"
  using assms(2)
proof (induction "length bs" arbitrary: bs m rule: less_induct)
  case less
  show ?case
  proof (cases "bs = []")
    case False
    have "unmarshal_field fields unk l bs m = unmarshal_field fields' unk l bs m"
      using assms(1) less.prems by (rule unmarshal_field_cong)
    moreover have "unmarshal_loop fields unk l rest m' = unmarshal_loop fields' unk l rest m'"
      if "unmarshal_field fields unk l bs m = Inr (m', rest)" for m' rest
      using less unmarshal_field_shorter [OF that] by simp
    ultimately show ?thesis
      using False by (auto simp: unmarshal_loop.simps [of _ _ _ bs] split: sum.splits)
  qed simp
qed

section \<open>The encoders of single fields\<close>

text \<open>Each writes in front of \<open>d\<close>, the part \<^verbatim>\<open>dAtA[i:]\<close> of the buffer already written.\<close>

definition putVarint :: "bytes \<Rightarrow> u64 \<Rightarrow> bytes \<Rightarrow> bytes" where
  "putVarint tag v d = tag @ encodeVarint v @ d"

definition putBytes :: "bytes \<Rightarrow> bytes \<Rightarrow> bytes \<Rightarrow> bytes" where
  "putBytes tag b d = tag @ encodeVarint (of_nat (length b)) @ b @ d"

definition putBool :: "bytes \<Rightarrow> bool \<Rightarrow> bytes \<Rightarrow> bytes" where
  "putBool tag b d = tag @ (if b then 1 else 0) # d"

section \<open>Integers survive the round trip\<close>

lemma bits_Len_le: "n < 2 ^ k \<Longrightarrow> bits_Len n \<le> k"
proof (induction k arbitrary: n)
  case 0
  then show ?case by (simp add: bits_Len.simps)
next
  case (Suc k)
  then have "n div 2 < 2 ^ k" by (simp add: less_mult_imp_div_less)
  then have "bits_Len (n div 2) \<le> k" by (rule Suc.IH)
  then show ?case by (subst bits_Len.simps) simp
qed

lemma bits_Len_add_seven:
  assumes "64 \<le> n"
  shows "bits_Len n = 7 + bits_Len (n div 128)"
proof -
  have pos: "bits_Len m = Suc (bits_Len (m div 2))" if "m \<noteq> 0" for m
    using that by (subst bits_Len.simps) simp
  have "n div 2 ^ k \<noteq> 0" if "k \<le> 6" for k
  proof -
    have "(2::nat) ^ k \<le> 2 ^ 6" using that by (intro power_increasing) auto
    with assms show ?thesis by (simp add: div_eq_0_iff)
  qed
  from this [of 0] this [of 1] this [of 2] this [of 3] this [of 4] this [of 5] this [of 6]
  have nz: "n \<noteq> 0" "n div 2 \<noteq> 0" "n div 4 \<noteq> 0" "n div 8 \<noteq> 0" "n div 16 \<noteq> 0"
    "n div 32 \<noteq> 0" "n div 64 \<noteq> 0" by simp_all
  show ?thesis
    using pos [OF nz(1)] pos [OF nz(2)] pos [OF nz(3)] pos [OF nz(4)] pos [OF nz(5)]
      pos [OF nz(6)] pos [OF nz(7)]
    by (simp add: div_mult2_eq [symmetric])
qed

lemma sov_eq: "sov v = 1 + bits_Len (unat v div 2) div 7"
proof -
  have or1: "unat (v OR 1) = unat v + of_bool (even (unat v))"
    by (simp add: unsigned_or_eq or_Suc_0_eq)
  then have "unat (v OR 1) div 2 = unat v div 2" and "unat (v OR 1) \<noteq> 0"
    by (auto simp: or1 elim!: evenE intro: odd_pos)
  then have "bits_Len (unat (v OR 1)) = Suc (bits_Len (unat v div 2))"
    by (simp only: bits_Len.simps [of "unat (v OR 1)"] if_False)
  then show ?thesis by (simp add: sov_def)
qed

lemma length_encodeVarint: "length (encodeVarint v) = sov v"
proof (induction v rule: encodeVarint.induct)
  case (1 v)
  show ?case
  proof (cases "128 \<le> v")
    case True
    then have ge: "64 \<le> unat v div 2" by (simp add: word_le_nat_alt)
    have "unat (drop_bit 7 v) = unat v div 128"
      by (simp add: drop_bit_eq_div unat_div)
    then have "sov v = Suc (sov (drop_bit 7 v))"
      using bits_Len_add_seven [OF ge] by (simp add: sov_eq div_mult2_eq [symmetric])
    with True "1.IH" show ?thesis by (simp add: encodeVarint.simps [of v])
  next
    case False
    then have "unat v div 2 < 2 ^ 6" by (simp add: word_le_nat_alt)
    then have "bits_Len (unat v div 2) \<le> 6" by (rule bits_Len_le)
    with False show ?thesis by (simp add: encodeVarint.simps [of v] sov_eq)
  qed
qed

lemma and_7F: "(w :: 'a :: len word) AND 0x7F = take_bit 7 w"
proof -
  have "(0x7F :: 'a word) = mask 7" by (simp add: mask_eq_exp_minus_1)
  then show ?thesis by (simp add: take_bit_eq_mask)
qed

lemma byte_take_bit_7: "b < 128 \<Longrightarrow> take_bit 7 (b :: byte) = b"
  by (simp add: word_unat_eq_iff unsigned_take_bit_eq word_less_nat_alt take_bit_nat_eq_self)

lemma readVarint_single: "b < 128 \<Longrightarrow> readVarint 0 0 (b # rest) = Inr (ucast b, rest)"
  by (subst readVarint.simps) (simp add: and_7F byte_take_bit_7)

lemma continuation_byte:
  fixes v :: u64
  defines "b \<equiv> (ucast (v AND 0x7F OR 0x80) :: byte)"
  shows "\<not> b < 128" and "ucast (b AND 0x7F) = (take_bit 7 v :: u64)"
proof -
  have b80: "(0x80 :: u64) = 2 ^ 7" by simp
  have "bit b 7" by (simp add: b_def bit_unsigned_iff bit_or_iff b80 bit_exp_iff del: power_numeral)
  then have "take_bit 7 b \<noteq> b"
    by (metis bit_take_bit_iff less_irrefl)
  then show "\<not> b < 128" using byte_take_bit_7 by blast
  show "ucast (b AND 0x7F) = (take_bit 7 v :: u64)"
    by (rule bit_word_eqI)
      (auto simp: b_def and_7F bit_take_bit_iff bit_unsigned_iff bit_or_iff b80 bit_exp_iff
        simp del: power_numeral)
qed

lemma push_bit_split:
  "push_bit s (take_bit 7 v) OR push_bit (s + 7) (drop_bit 7 v) = push_bit s (v :: u64)"
proof (rule bit_word_eqI)
  fix n
  have "7 + (n - (s + 7)) = n - s" if "\<not> n - s < 7" using that by simp
  then show "bit (push_bit s (take_bit 7 v) OR push_bit (s + 7) (drop_bit 7 v)) n = bit (push_bit s v) n"
    by (cases "n - s < 7")
      (auto simp: bit_or_iff bit_push_bit_iff bit_take_bit_iff bit_drop_bit_eq)
qed

lemma readVarint_encodeVarint_shift:
  assumes "unat v * 2 ^ s < 2 ^ 64" and "s < 64"
  shows "readVarint s acc (encodeVarint v @ rest) = Inr (acc OR push_bit s v, rest)"
  using assms
proof (induction v arbitrary: s acc rule: encodeVarint.induct)
  case (1 v)
  show ?case
  proof (cases "128 \<le> v")
    case True
    then have ge: "128 \<le> unat v" by (simp add: word_le_nat_alt)
    have dv: "unat (drop_bit 7 v) = unat v div 128"
      by (simp add: drop_bit_eq_div unat_div)
    have "unat (drop_bit 7 v) * 2 ^ (s + 7) \<le> unat v * 2 ^ s"
      by (simp add: dv power_add)
    with "1.prems" have lt: "unat (drop_bit 7 v) * 2 ^ (s + 7) < 2 ^ 64" by simp
    have "(2::nat) ^ (s + 7) \<le> unat v * 2 ^ s"
      using ge by (simp add: power_add)
    with "1.prems"(1) have "(2::nat) ^ (s + 7) < 2 ^ 64" by linarith
    then have s7: "s + 7 < 64" by (rule power_less_imp_less_exp [rotated]) simp
    let ?b = "ucast (v AND 0x7F OR 0x80) :: byte"
    have "readVarint s acc (encodeVarint v @ rest)
        = readVarint (s + 7) (acc OR push_bit s (take_bit 7 v)) (encodeVarint (drop_bit 7 v) @ rest)"
      using True "1.prems"(2) continuation_byte [of v]
      by (simp add: encodeVarint.simps [of v] readVarint.simps [of s])
    also have "\<dots> = Inr ((acc OR push_bit s (take_bit 7 v)) OR push_bit (s + 7) (drop_bit 7 v), rest)"
      by (rule "1.IH" [OF True lt s7])
    finally show ?thesis by (simp add: push_bit_split or.assoc)
  next
    case False
    then have "unat v < 128" by (simp add: word_le_nat_alt)
    then have "ucast v < (128 :: byte)" and "ucast (take_bit 7 (ucast v :: byte)) = v"
      by (simp_all add: word_less_nat_alt word_unat_eq_iff unsigned_ucast_eq
          unsigned_take_bit_eq take_bit_nat_eq_self)
    with False "1.prems"(2) show ?thesis
      by (simp add: encodeVarint.simps [of v] readVarint.simps [of s] and_7F)
  qed
qed

lemma readVarint_encodeVarint [simp]:
  "readVarint 0 0 (encodeVarint v @ rest) = Inr (v, rest)"
  using readVarint_encodeVarint_shift [of v 0 0 rest] unsigned_less [of v, where 'a = nat]
  by simp

lemma readChunk_encode:
  assumes "length b < 2 ^ 63" and "l < 2 ^ 63"
  shows "readChunk l (encodeVarint (of_nat (length b)) @ b @ rest) = Inr (b, rest)"
proof -
  have u: "unat (of_nat (length b) :: u64) = length b"
    using assms(1) by (simp add: unat_of_nat take_bit_nat_eq_self)
  have s: "sint (of_nat (length b) :: u64) = int (length b)"
    using assms(1) by (simp add: signed_of_nat signed_take_bit_int_eq_self)
  have "(l - (length b + length rest)) + length b < 2 ^ 63"
    using assms by (cases "length b + length rest \<le> l") simp_all
  then show ?thesis by (simp add: readChunk_def u s)
qed

section \<open>One encoded field is one round of the loop\<close>

definition is_tag :: "bytes \<Rightarrow> int \<Rightarrow> u64 \<Rightarrow> bool" where
  "is_tag tag fieldNum wireType \<longleftrightarrow> 0 < fieldNum \<and> wireType \<noteq> 4 \<and>
     (\<exists>wire. (\<forall>rest. readVarint 0 0 (tag @ rest) = Inr (wire, rest)) \<and>
       wireFieldNum wire = fieldNum \<and> wire AND 7 = wireType)"

lemma is_tag_single:
  assumes "b < 128" and "wireFieldNum (ucast b) = fieldNum" and "ucast b AND 7 = wireType"
    and "0 < fieldNum" and "wireType \<noteq> 4"
  shows "is_tag [b] fieldNum wireType"
  using assms by (auto simp: is_tag_def readVarint_single)

lemma loop_putVarint:
  assumes "is_tag tag fn 0" and "fields fn = Some (VarintField f)"
  shows "unmarshal_loop fields unk l (putVarint tag v d) m = unmarshal_loop fields unk l d (f v m)"
proof (rule unmarshal_loop_step)
  show "unmarshal_field fields unk l (putVarint tag v d) m = Inr (f v m, d)"
    using assms by (auto simp: is_tag_def unmarshal_field_def putVarint_def Let_def)
qed

lemma loop_putBool:
  assumes "is_tag tag fn 0" and "fields fn = Some (VarintField f)"
  shows "unmarshal_loop fields unk l (putBool tag b d) m
    = unmarshal_loop fields unk l d (f (of_bool b) m)"
proof (rule unmarshal_loop_step)
  show "unmarshal_field fields unk l (putBool tag b d) m = Inr (f (of_bool b) m, d)"
    using assms
    by (cases b) (auto simp: is_tag_def unmarshal_field_def putBool_def Let_def readVarint_single)
qed

lemma loop_putBytes:
  assumes "is_tag tag fn 2" and "fields fn = Some (BytesField f)" and "f b m = Inr m'"
    and "length b < 2 ^ 63" and "l < 2 ^ 63"
  shows "unmarshal_loop fields unk l (putBytes tag b d) m = unmarshal_loop fields unk l d m'"
proof (rule unmarshal_loop_step)
  show "unmarshal_field fields unk l (putBytes tag b d) m = Inr (m', d)"
    using assms(1,2,3) readChunk_encode [OF assms(4,5), of d]
    by (auto simp: is_tag_def unmarshal_field_def putBytes_def Let_def)
qed

lemma length_putVarint: "length (putVarint tag v d) = length tag + sov v + length d"
  by (simp add: putVarint_def length_encodeVarint)

lemma length_putBool: "length (putBool tag b d) = Suc (length tag) + length d"
  by (simp add: putBool_def)

lemma length_putBytes:
  "length (putBytes tag b d) = length tag + length b + sov (of_nat (length b)) + length d"
  by (simp add: putBytes_def length_encodeVarint)

lemmas length_put = length_putVarint length_putBool length_putBytes

section \<open>Fields that are left out when they have the default value\<close>

definition sizeBytes :: "bytes \<Rightarrow> nat" where
  "sizeBytes b = (let l = length b in if l > 0 then 1 + l + sov (of_nat l) else 0)"

definition sizeVarint :: "u64 \<Rightarrow> nat" where
  "sizeVarint v = (if v \<noteq> 0 then 1 + sov v else 0)"

definition sizeBool :: "bool \<Rightarrow> nat" where
  "sizeBool b = (if b then 2 else 0)"

definition sizeMessage :: "nat \<Rightarrow> nat" where
  "sizeMessage l = 1 + l + sov (of_nat l)"

text \<open>The guards of the encoders: a field with the default value is not written.\<close>

definition optVarint :: "bytes \<Rightarrow> u64 \<Rightarrow> bytes \<Rightarrow> bytes" where
  "optVarint tag v d = (if v \<noteq> 0 then putVarint tag v d else d)"

definition optBytes :: "bytes \<Rightarrow> bytes \<Rightarrow> bytes \<Rightarrow> bytes" where
  "optBytes tag b d = (if length b > 0 then putBytes tag b d else d)"

definition optBool :: "bytes \<Rightarrow> bool \<Rightarrow> bytes \<Rightarrow> bytes" where
  "optBool tag b d = (if b then putBool tag b d else d)"

lemma length_opt:
  "length (optVarint [t] v d) = sizeVarint v + length d"
  "length (optBytes [t] b d) = sizeBytes b + length d"
  "length (optBool [t] c d) = sizeBool c + length d"
  by (auto simp: optVarint_def optBytes_def optBool_def sizeVarint_def sizeBytes_def sizeBool_def
      length_put Let_def)

lemma length_le_sizeBytes: "length b \<le> sizeBytes b"
  by (simp add: sizeBytes_def Let_def)

lemma loop_optVarint:
  assumes "is_tag tag fn 0" and "fields fn = Some (VarintField f)" and "f 0 m = m"
  shows "unmarshal_loop fields unk l (optVarint tag v d) m = unmarshal_loop fields unk l d (f v m)"
  using loop_putVarint [where fields = fields, OF assms(1,2)] assms(3)
  by (simp add: optVarint_def)

lemma loop_optBool:
  assumes "is_tag tag fn 0" and "fields fn = Some (VarintField f)" and "f 0 m = m"
  shows "unmarshal_loop fields unk l (optBool tag b d) m
    = unmarshal_loop fields unk l d (f (of_bool b) m)"
  using loop_putBool [where fields = fields, OF assms(1,2)] assms(3)
  by (simp add: optBool_def)

lemma loop_optBytes:
  assumes "is_tag tag fn 2" and "fields fn = Some (BytesField (\<lambda>b m. Inr (f b m)))" and "f [] m = m"
    and "sizeBytes b < 2 ^ 63" and "l < 2 ^ 63"
  shows "unmarshal_loop fields unk l (optBytes tag b d) m = unmarshal_loop fields unk l d (f b m)"
proof -
  have "length b < 2 ^ 63" using length_le_sizeBytes assms(4) by (rule le_less_trans)
  with loop_putBytes [where fields = fields, OF assms(1,2) refl _ assms(5)] assms(3)
  show ?thesis by (simp add: optBytes_def)
qed

text \<open>Slices whose being \<^verbatim>\<open>nil\<close> matters are options; \<^verbatim>\<open>len(nil)\<close> is 0.\<close>

fun slice :: "bytes option \<Rightarrow> bytes" where
  "slice None = []"
| "slice (Some b) = b"

lemma loop_optSlice:
  assumes "is_tag tag fn 2" and "fields fn = Some (BytesField (\<lambda>b m. Inr (f (Some b) m)))"
    and "f None m = m" and "x \<noteq> Some []" and "sizeBytes (slice x) < 2 ^ 63" and "l < 2 ^ 63"
  shows "unmarshal_loop fields unk l (optBytes tag (slice x) d) m = unmarshal_loop fields unk l d (f x m)"
proof (cases x)
  case None
  with assms(3) show ?thesis by (simp add: optBytes_def)
next
  case (Some b)
  have "length b < 2 ^ 63"
    using length_le_sizeBytes assms(5) Some by (metis le_less_trans slice.simps(2))
  with loop_putBytes [where fields = fields, OF assms(1,2) refl _ assms(6)] assms(4) Some
  show ?thesis by (simp add: optBytes_def)
qed

text \<open>Fields with explicit presence (\<^verbatim>\<open>optional\<close> in the proto file) are written when present.\<close>

fun presentVarint :: "bytes \<Rightarrow> u64 option \<Rightarrow> bytes \<Rightarrow> bytes" where
  "presentVarint tag None d = d"
| "presentVarint tag (Some v) d = putVarint tag v d"

fun presentBytes :: "bytes \<Rightarrow> bytes option \<Rightarrow> bytes \<Rightarrow> bytes" where
  "presentBytes tag None d = d"
| "presentBytes tag (Some b) d = putBytes tag b d"

fun sizePresentVarint :: "u64 option \<Rightarrow> nat" where
  "sizePresentVarint None = 0"
| "sizePresentVarint (Some v) = 1 + sov v"

fun sizePresentBytes :: "nat option \<Rightarrow> nat" where
  "sizePresentBytes None = 0"
| "sizePresentBytes (Some l) = 1 + l + sov (of_nat l)"

lemma length_present:
  "length (presentVarint [t] x d) = sizePresentVarint x + length d"
  "length (presentBytes [t] y d) = sizePresentBytes (map_option length y) + length d"
  by (cases x; simp add: length_put) (cases y; simp add: length_put)

lemma loop_presentVarint:
  assumes "is_tag tag fn 0" and "fields fn = Some (VarintField (\<lambda>v m. f (Some v) m))" and "f None m = m"
  shows "unmarshal_loop fields unk l (presentVarint tag x d) m = unmarshal_loop fields unk l d (f x m)"
  using loop_putVarint [where fields = fields, OF assms(1,2)] assms(3)
  by (cases x) simp_all

lemma loop_presentBytes:
  assumes "is_tag tag fn 2" and "fields fn = Some (BytesField (\<lambda>b m. Inr (f (Some b) m)))"
    and "f None m = m" and "sizePresentBytes (map_option length x) < 2 ^ 63" and "l < 2 ^ 63"
  shows "unmarshal_loop fields unk l (presentBytes tag x d) m = unmarshal_loop fields unk l d (f x m)"
  using loop_putBytes [where fields = fields, OF assms(1,2) refl _ assms(5)] assms(3,4)
  by (cases x) simp_all

text \<open>A 32-bit enum is sign-extended by the encoder and truncated by the decoder.\<close>

lemma ucast_scast_u32 [simp]: "ucast (scast (t :: u32) :: u64) = t"
  by (rule bit_word_eqI) (simp add: bit_unsigned_iff bit_signed_iff)

lemma scast_u32_zero [simp]: "(scast (t :: u32) :: u64) = 0 \<longleftrightarrow> t = 0"
  by (metis ucast_scast_u32 unsigned_0 signed_0)

lemma of_bool_neq_zero [simp]: "(of_bool b :: u64) \<noteq> 0 \<longleftrightarrow> b"
  by simp

lemma tags [simp]:
  "is_tag [0x0a] 1 2" "is_tag [0x12] 2 2" "is_tag [0x1a] 3 2" "is_tag [0x22] 4 2"
  "is_tag [0x32] 6 2" "is_tag [0x3a] 7 2" "is_tag [0x42] 8 2" "is_tag [0x52] 10 2"
  "is_tag [0x08] 1 0" "is_tag [0x10] 2 0" "is_tag [0x18] 3 0" "is_tag [0x20] 4 0"
  "is_tag [0x28] 5 0" "is_tag [0x48] 9 0" "is_tag [0x58] 11 0"
  by (rule is_tag_single; simp add: wireFieldNum_def)+

lemma tag_64 [simp]: "is_tag [0x82, 0x04] 64 2"
proof -
  have "readVarint 0 0 ([0x82, 0x04] @ rest) = Inr (0x202, rest)" for rest
    by (simp add: readVarint.simps [of 0] readVarint.simps [of 7])
  then show ?thesis by (auto simp: is_tag_def wireFieldNum_def intro!: exI [of _ "0x202"])
qed

section \<open>Repeated fields of sub-messages\<close>

text \<open>The loop \<^verbatim>\<open>for iNdEx := len(xs) - 1; iNdEx >= 0; iNdEx--\<close> of the encoders.\<close>

definition putRepeated :: "bytes \<Rightarrow> ('a \<Rightarrow> bytes) \<Rightarrow> 'a list \<Rightarrow> bytes \<Rightarrow> bytes" where
  "putRepeated tag marshal xs d = foldr (\<lambda>x d. putBytes tag (marshal x) d) xs d"

definition sizeRepeated :: "nat \<Rightarrow> ('a \<Rightarrow> nat) \<Rightarrow> 'a list \<Rightarrow> nat" where
  "sizeRepeated tagLen msize xs = (\<Sum>x\<leftarrow>xs. tagLen + msize x + sov (of_nat (msize x)))"

lemma putRepeated_cong [fundef_cong]:
  "xs = ys \<Longrightarrow> (\<And>x. x \<in> set ys \<Longrightarrow> f x = g x) \<Longrightarrow> putRepeated tag f xs d = putRepeated tag g ys d"
  unfolding putRepeated_def by (induction ys arbitrary: xs) auto

lemma sizeRepeated_cong [fundef_cong]:
  "xs = ys \<Longrightarrow> (\<And>x. x \<in> set ys \<Longrightarrow> f x = g x) \<Longrightarrow> sizeRepeated n f xs = sizeRepeated n g ys"
  unfolding sizeRepeated_def by (intro arg_cong [where f = sum_list] map_cong) auto

lemma size_le_repeated: "x \<in> set xs \<Longrightarrow> f x \<le> sizeRepeated n f xs"
  by (induction xs) (auto simp: sizeRepeated_def)

lemma length_putRepeated:
  assumes "\<And>x. x \<in> set xs \<Longrightarrow> length (marshal x) = msize x"
  shows "length (putRepeated tag marshal xs d) = sizeRepeated (length tag) msize xs + length d"
  using assms
  by (induction xs) (simp_all add: putRepeated_def sizeRepeated_def length_putBytes)

lemma loop_putRepeated:
  assumes "is_tag tag fn 2" and "fields fn = Some (BytesField f)"
    and "\<And>x m. x \<in> set xs \<Longrightarrow> f (marshal x) m = Inr (add x m)"
    and "\<And>x. x \<in> set xs \<Longrightarrow> length (marshal x) < 2 ^ 63" and "l < 2 ^ 63"
  shows "unmarshal_loop fields unk l (putRepeated tag marshal xs d) m
    = unmarshal_loop fields unk l d (fold add xs m)"
  using assms(3,4)
proof (induction xs arbitrary: m)
  case Nil
  then show ?case by (simp add: putRepeated_def)
next
  case (Cons x xs)
  have "unmarshal_loop fields unk l (putRepeated tag marshal (x # xs) d) m
      = unmarshal_loop fields unk l (putBytes tag (marshal x) (putRepeated tag marshal xs d)) m"
    by (simp add: putRepeated_def)
  also have "\<dots> = unmarshal_loop fields unk l (putRepeated tag marshal xs d) (add x m)"
    by (rule loop_putBytes [where fields = fields and f = f, OF assms(1,2) _ _ assms(5)])
      (use Cons.prems in auto)
  also have "\<dots> = unmarshal_loop fields unk l d (fold add xs (add x m))"
    using Cons.prems by (intro Cons.IH) auto
  finally show ?case by simp
qed

text \<open>An optional sub-message is written when the pointer is not nil.\<close>

fun presentMessage :: "bytes \<Rightarrow> ('a \<Rightarrow> bytes) \<Rightarrow> 'a option \<Rightarrow> bytes \<Rightarrow> bytes" where
  "presentMessage tag marshal None d = d"
| "presentMessage tag marshal (Some x) d = putBytes tag (marshal x) d"

section \<open>The contract of a message's codec\<close>

text \<open>
  What a user of a generated message type relies on: the buffer \<^verbatim>\<open>MarshalVT\<close> allocates with
  \<^verbatim>\<open>SizeVT\<close> bytes is filled exactly, and decoding into an empty message what was encoded
  gives the message back.
\<close>

locale message_codec =
  fixes msize :: "'m \<Rightarrow> nat"
    and marshal :: "'m \<Rightarrow> bytes"
    and unmarshal :: "bytes \<Rightarrow> 'm \<Rightarrow> proto_error + 'm"
    and empty :: 'm
    and wf :: "'m \<Rightarrow> bool"
  assumes marshal_size: "length (marshal m) = msize m"
    and unmarshal_marshal: "wf m \<Longrightarrow> msize m < 2 ^ 63 \<Longrightarrow> unmarshal (marshal m) empty = Inr m"
begin

text \<open>The encoding is injective on the messages that survive the round trip.\<close>

lemma marshal_inject:
  assumes "wf m" and "wf m'" and "msize m < 2 ^ 63" and "marshal m = marshal m'"
  shows "m = m'"
proof -
  have "msize m' < 2 ^ 63" using assms(3,4) marshal_size by metis
  with unmarshal_marshal [OF assms(1,3)] unmarshal_marshal [OF assms(2)] assms(4)
  show ?thesis by simp
qed

lemma size_repeated:
  "length (putRepeated tag marshal xs d) = sizeRepeated (length tag) msize xs + length d"
  by (rule length_putRepeated) (rule marshal_size)

text \<open>A repeated field of such messages is read back element by element.\<close>

lemma loop_repeated:
  assumes "is_tag tag fn 2"
    and "fields fn = Some (BytesField (\<lambda>chunk m. rbind (unmarshal chunk empty) (\<lambda>x. Inr (add x m))))"
    and "list_all wf xs" and "sizeRepeated n msize xs < 2 ^ 63" and "l < 2 ^ 63"
  shows "unmarshal_loop fields unk l (putRepeated tag marshal xs d) m
    = unmarshal_loop fields unk l d (fold add xs m)"
proof (rule loop_putRepeated [where fields = fields and add = add, OF assms(1,2) _ _ assms(5)])
  fix x m
  assume x: "x \<in> set xs"
  from size_le_repeated [OF x] assms(4) have sz: "msize x < 2 ^ 63"
    by (rule le_less_trans)
  then show "length (marshal x) < 2 ^ 63" by (simp add: marshal_size)
  from x assms(3) have "wf x" by (simp add: list_all_iff)
  with sz show "rbind (unmarshal (marshal x) empty) (\<lambda>x. Inr (add x m)) = Inr (add x m)"
    by (simp add: unmarshal_marshal)
qed

text \<open>So is an optional sub-message.\<close>

lemma size_message:
  "length (presentMessage [t] marshal x d) = sizePresentBytes (map_option msize x) + length d"
  by (cases x) (simp_all add: length_put marshal_size)

lemma loop_message:
  assumes "is_tag tag fn 2" and "fields fn = Some (BytesField f)"
    and "\<And>chunk y. unmarshal chunk empty = Inr y \<Longrightarrow> f chunk m = Inr (store (Some y) m)"
    and "store None m = m" and "pred_option wf x"
    and "sizePresentBytes (map_option msize x) < 2 ^ 63" and "l < 2 ^ 63"
  shows "unmarshal_loop fields unk l (presentMessage tag marshal x d) m
    = unmarshal_loop fields unk l d (store x m)"
proof (cases x)
  case None
  with assms(4) show ?thesis by simp
next
  case (Some y)
  with assms(5,6) have y: "wf y" "msize y < 2 ^ 63" by simp_all
  then have "f (marshal y) m = Inr (store x m)"
    using assms(3) unmarshal_marshal Some by simp
  moreover have "length (marshal y) < 2 ^ 63"
    using y(2) by (simp add: marshal_size)
  ultimately show ?thesis
    using loop_putBytes [where fields = fields, OF assms(1,2)] assms(7) Some by simp
qed

end

end
