(* ===== verification/Proto_Messages.thy ===== *)
theory Proto_Messages
  imports Proto_Wire
begin

text \<open>
  The messages of \<^verbatim>\<open>proto/mvcc.proto\<close> as the generated Go code has them
  (\<^verbatim>\<open>regattapb/mvcc.pb.go\<close> for the types, \<^verbatim>\<open>regattapb/mvcc_vtproto.pb.go\<close> for the codecs):
  for every message its fields, \<^verbatim>\<open>SizeVT\<close>, \<^verbatim>\<open>MarshalToSizedBufferVT\<close> and \<^verbatim>\<open>UnmarshalVT\<close>,
  and the proof that the three fit together. A slice whose being \<^verbatim>\<open>nil\<close> the code tests
  (\<^verbatim>\<open>RangeEnd\<close>) is an option; other slices are lists. 32-bit enums and 64-bit integers are
  words. Pointers inside repeated fields and oneof wrappers are taken as non-nil, which is
  what \<^verbatim>\<open>UnmarshalVT\<close> produces.
\<close>

section \<open>KeyValue\<close>

record KeyValue =
  kvKey :: bytes
  kvCreateRevision :: u64
  kvModRevision :: u64
  kvValue :: bytes
  kvUnknown :: bytes

definition emptyKeyValue :: KeyValue where
  "emptyKeyValue = \<lparr>kvKey = [], kvCreateRevision = 0, kvModRevision = 0, kvValue = [], kvUnknown = []\<rparr>"

definition KeyValue_SizeVT :: "KeyValue \<Rightarrow> nat" where
  "KeyValue_SizeVT m =
     sizeBytes (kvKey m) + sizeVarint (kvCreateRevision m) + sizeVarint (kvModRevision m)
     + sizeBytes (kvValue m) + length (kvUnknown m)"

definition KeyValue_MarshalVT :: "KeyValue \<Rightarrow> bytes" where
  "KeyValue_MarshalVT m =
     (let d = kvUnknown m;
          d = optBytes [0x22] (kvValue m) d;
          d = optVarint [0x18] (kvModRevision m) d;
          d = optVarint [0x10] (kvCreateRevision m) d
      in optBytes [0x0a] (kvKey m) d)"

definition KeyValue_fields :: "int \<Rightarrow> KeyValue field option" where
  "KeyValue_fields fieldNum =
     (if fieldNum = 1 then Some (BytesField (\<lambda>b m. Inr (m\<lparr>kvKey := b\<rparr>)))
      else if fieldNum = 2 then Some (VarintField (\<lambda>v m. m\<lparr>kvCreateRevision := v\<rparr>))
      else if fieldNum = 3 then Some (VarintField (\<lambda>v m. m\<lparr>kvModRevision := v\<rparr>))
      else if fieldNum = 4 then Some (BytesField (\<lambda>b m. Inr (m\<lparr>kvValue := b\<rparr>)))
      else None)"

definition KeyValue_UnmarshalVT :: "bytes \<Rightarrow> KeyValue \<Rightarrow> proto_error + KeyValue" where
  "KeyValue_UnmarshalVT dAtA m =
     unmarshal_loop KeyValue_fields (\<lambda>b m. m\<lparr>kvUnknown := kvUnknown m @ b\<rparr>) (length dAtA) dAtA m"

lemma KeyValue_MarshalVT_length: "length (KeyValue_MarshalVT m) = KeyValue_SizeVT m"
  by (simp add: KeyValue_MarshalVT_def KeyValue_SizeVT_def length_opt Let_def)

definition KeyValue_wf :: "KeyValue \<Rightarrow> bool" where
  "KeyValue_wf m \<longleftrightarrow> kvUnknown m = []"

lemmas KeyValue_loop =
  loop_optBytes [where fields = KeyValue_fields and fn = 1 and f = "\<lambda>b m. m\<lparr>kvKey := b\<rparr>"]
  loop_optVarint [where fields = KeyValue_fields and fn = 2 and f = "\<lambda>v m. m\<lparr>kvCreateRevision := v\<rparr>"]
  loop_optVarint [where fields = KeyValue_fields and fn = 3 and f = "\<lambda>v m. m\<lparr>kvModRevision := v\<rparr>"]
  loop_optBytes [where fields = KeyValue_fields and fn = 4 and f = "\<lambda>b m. m\<lparr>kvValue := b\<rparr>"]

lemma KeyValue_UnmarshalVT_MarshalVT:
  assumes "KeyValue_wf m" and "KeyValue_SizeVT m < 2 ^ 63"
  shows "KeyValue_UnmarshalVT (KeyValue_MarshalVT m) emptyKeyValue = Inr m"
proof -
  have "length (KeyValue_MarshalVT m) < 2 ^ 63"
    using assms(2) by (simp add: KeyValue_MarshalVT_length)
  moreover have "sizeBytes (kvKey m) < 2 ^ 63" "sizeBytes (kvValue m) < 2 ^ 63"
    using assms(2) by (simp_all add: KeyValue_SizeVT_def)
  ultimately show ?thesis
    using assms(1)
    by (simp add: KeyValue_UnmarshalVT_def KeyValue_MarshalVT_def Let_def KeyValue_loop
        KeyValue_fields_def emptyKeyValue_def KeyValue_wf_def)
qed

interpretation kv: message_codec KeyValue_SizeVT KeyValue_MarshalVT KeyValue_UnmarshalVT
  emptyKeyValue KeyValue_wf
  by unfold_locales (simp_all add: KeyValue_MarshalVT_length KeyValue_UnmarshalVT_MarshalVT)

section \<open>RequestOp.Range\<close>

record RequestOp_Range =
  rrKey :: bytes
  rrRangeEnd :: "bytes option"
  rrLimit :: u64
  rrKeysOnly :: bool
  rrCountOnly :: bool
  rrUnknown :: bytes

definition emptyRequestOp_Range :: RequestOp_Range where
  "emptyRequestOp_Range = \<lparr>rrKey = [], rrRangeEnd = None, rrLimit = 0, rrKeysOnly = False, rrCountOnly = False, rrUnknown = []\<rparr>"

definition RequestOp_Range_SizeVT :: "RequestOp_Range \<Rightarrow> nat" where
  "RequestOp_Range_SizeVT m =
     sizeBytes (rrKey m)
     + sizeBytes (slice (rrRangeEnd m))
     + sizeVarint (rrLimit m)
     + sizeBool (rrKeysOnly m)
     + sizeBool (rrCountOnly m)
     + length (rrUnknown m)"

definition RequestOp_Range_MarshalVT :: "RequestOp_Range \<Rightarrow> bytes" where
  "RequestOp_Range_MarshalVT m =
     (let d = rrUnknown m;
          d = optBool [0x28] (rrCountOnly m) d;
          d = optBool [0x20] (rrKeysOnly m) d;
          d = optVarint [0x18] (rrLimit m) d;
          d = optBytes [0x12] (slice (rrRangeEnd m)) d
      in optBytes [0x0a] (rrKey m) d)"

definition RequestOp_Range_fields :: "int \<Rightarrow> RequestOp_Range field option" where
  "RequestOp_Range_fields fieldNum =
     (if fieldNum = 1 then Some (BytesField (\<lambda>b m. Inr (m\<lparr>rrKey := b\<rparr>)))
      else if fieldNum = 2 then Some (BytesField (\<lambda>b m. Inr (m\<lparr>rrRangeEnd := Some b\<rparr>)))
      else if fieldNum = 3 then Some (VarintField (\<lambda>v m. m\<lparr>rrLimit := v\<rparr>))
      else if fieldNum = 4 then Some (VarintField (\<lambda>v m. m\<lparr>rrKeysOnly := v \<noteq> 0\<rparr>))
      else if fieldNum = 5 then Some (VarintField (\<lambda>v m. m\<lparr>rrCountOnly := v \<noteq> 0\<rparr>))
      else None)"

definition RequestOp_Range_UnmarshalVT :: "bytes \<Rightarrow> RequestOp_Range \<Rightarrow> proto_error + RequestOp_Range" where
  "RequestOp_Range_UnmarshalVT dAtA m =
     unmarshal_loop RequestOp_Range_fields (\<lambda>b m. m\<lparr>rrUnknown := rrUnknown m @ b\<rparr>) (length dAtA) dAtA m"

lemma RequestOp_Range_MarshalVT_length: "length (RequestOp_Range_MarshalVT m) = RequestOp_Range_SizeVT m"
  by (simp add: RequestOp_Range_MarshalVT_def RequestOp_Range_SizeVT_def length_opt Let_def)

definition RequestOp_Range_wf :: "RequestOp_Range \<Rightarrow> bool" where
  "RequestOp_Range_wf m \<longleftrightarrow> rrUnknown m = [] \<and> rrRangeEnd m \<noteq> Some []"

lemmas RequestOp_Range_loop =
  loop_optBytes [where fields = RequestOp_Range_fields and fn = 1 and f = "\<lambda>b m. m\<lparr>rrKey := b\<rparr>"]
  loop_optSlice [where fields = RequestOp_Range_fields and fn = 2 and f = "\<lambda>b m. m\<lparr>rrRangeEnd := b\<rparr>"]
  loop_optVarint [where fields = RequestOp_Range_fields and fn = 3 and f = "\<lambda>v m. m\<lparr>rrLimit := v\<rparr>"]
  loop_optBool [where fields = RequestOp_Range_fields and fn = 4 and f = "\<lambda>v m. m\<lparr>rrKeysOnly := v \<noteq> 0\<rparr>"]
  loop_optBool [where fields = RequestOp_Range_fields and fn = 5 and f = "\<lambda>v m. m\<lparr>rrCountOnly := v \<noteq> 0\<rparr>"]

lemma RequestOp_Range_UnmarshalVT_MarshalVT:
  assumes "RequestOp_Range_wf m" and "RequestOp_Range_SizeVT m < 2 ^ 63"
  shows "RequestOp_Range_UnmarshalVT (RequestOp_Range_MarshalVT m) emptyRequestOp_Range = Inr m"
proof -
  have "length (RequestOp_Range_MarshalVT m) < 2 ^ 63"
    using assms(2) by (simp add: RequestOp_Range_MarshalVT_length)
  moreover have "sizeBytes (rrKey m) < 2 ^ 63"
    "sizeBytes (slice (rrRangeEnd m)) < 2 ^ 63"
    using assms(2) by (simp_all add: RequestOp_Range_SizeVT_def)
  ultimately show ?thesis
    using assms(1)
    by (simp add: RequestOp_Range_UnmarshalVT_def RequestOp_Range_MarshalVT_def Let_def RequestOp_Range_loop
        RequestOp_Range_fields_def emptyRequestOp_Range_def RequestOp_Range_wf_def)
qed

interpretation rr: message_codec RequestOp_Range_SizeVT RequestOp_Range_MarshalVT RequestOp_Range_UnmarshalVT
  emptyRequestOp_Range RequestOp_Range_wf
  by unfold_locales (simp_all add: RequestOp_Range_MarshalVT_length RequestOp_Range_UnmarshalVT_MarshalVT)

section \<open>RequestOp.Put\<close>

record RequestOp_Put =
  rpKey :: bytes
  rpValue :: bytes
  rpPrevKv :: bool
  rpUnknown :: bytes

definition emptyRequestOp_Put :: RequestOp_Put where
  "emptyRequestOp_Put = \<lparr>rpKey = [], rpValue = [], rpPrevKv = False, rpUnknown = []\<rparr>"

definition RequestOp_Put_SizeVT :: "RequestOp_Put \<Rightarrow> nat" where
  "RequestOp_Put_SizeVT m =
     sizeBytes (rpKey m)
     + sizeBytes (rpValue m)
     + sizeBool (rpPrevKv m)
     + length (rpUnknown m)"

definition RequestOp_Put_MarshalVT :: "RequestOp_Put \<Rightarrow> bytes" where
  "RequestOp_Put_MarshalVT m =
     (let d = rpUnknown m;
          d = optBool [0x18] (rpPrevKv m) d;
          d = optBytes [0x12] (rpValue m) d
      in optBytes [0x0a] (rpKey m) d)"

definition RequestOp_Put_fields :: "int \<Rightarrow> RequestOp_Put field option" where
  "RequestOp_Put_fields fieldNum =
     (if fieldNum = 1 then Some (BytesField (\<lambda>b m. Inr (m\<lparr>rpKey := b\<rparr>)))
      else if fieldNum = 2 then Some (BytesField (\<lambda>b m. Inr (m\<lparr>rpValue := b\<rparr>)))
      else if fieldNum = 3 then Some (VarintField (\<lambda>v m. m\<lparr>rpPrevKv := v \<noteq> 0\<rparr>))
      else None)"

definition RequestOp_Put_UnmarshalVT :: "bytes \<Rightarrow> RequestOp_Put \<Rightarrow> proto_error + RequestOp_Put" where
  "RequestOp_Put_UnmarshalVT dAtA m =
     unmarshal_loop RequestOp_Put_fields (\<lambda>b m. m\<lparr>rpUnknown := rpUnknown m @ b\<rparr>) (length dAtA) dAtA m"

lemma RequestOp_Put_MarshalVT_length: "length (RequestOp_Put_MarshalVT m) = RequestOp_Put_SizeVT m"
  by (simp add: RequestOp_Put_MarshalVT_def RequestOp_Put_SizeVT_def length_opt Let_def)

definition RequestOp_Put_wf :: "RequestOp_Put \<Rightarrow> bool" where
  "RequestOp_Put_wf m \<longleftrightarrow> rpUnknown m = []"

lemmas RequestOp_Put_loop =
  loop_optBytes [where fields = RequestOp_Put_fields and fn = 1 and f = "\<lambda>b m. m\<lparr>rpKey := b\<rparr>"]
  loop_optBytes [where fields = RequestOp_Put_fields and fn = 2 and f = "\<lambda>b m. m\<lparr>rpValue := b\<rparr>"]
  loop_optBool [where fields = RequestOp_Put_fields and fn = 3 and f = "\<lambda>v m. m\<lparr>rpPrevKv := v \<noteq> 0\<rparr>"]

lemma RequestOp_Put_UnmarshalVT_MarshalVT:
  assumes "RequestOp_Put_wf m" and "RequestOp_Put_SizeVT m < 2 ^ 63"
  shows "RequestOp_Put_UnmarshalVT (RequestOp_Put_MarshalVT m) emptyRequestOp_Put = Inr m"
proof -
  have "length (RequestOp_Put_MarshalVT m) < 2 ^ 63"
    using assms(2) by (simp add: RequestOp_Put_MarshalVT_length)
  moreover have "sizeBytes (rpKey m) < 2 ^ 63"
    "sizeBytes (rpValue m) < 2 ^ 63"
    using assms(2) by (simp_all add: RequestOp_Put_SizeVT_def)
  ultimately show ?thesis
    using assms(1)
    by (simp add: RequestOp_Put_UnmarshalVT_def RequestOp_Put_MarshalVT_def Let_def RequestOp_Put_loop
        RequestOp_Put_fields_def emptyRequestOp_Put_def RequestOp_Put_wf_def)
qed

interpretation rp: message_codec RequestOp_Put_SizeVT RequestOp_Put_MarshalVT RequestOp_Put_UnmarshalVT
  emptyRequestOp_Put RequestOp_Put_wf
  by unfold_locales (simp_all add: RequestOp_Put_MarshalVT_length RequestOp_Put_UnmarshalVT_MarshalVT)

section \<open>RequestOp.DeleteRange\<close>

record RequestOp_DeleteRange =
  rdKey :: bytes
  rdRangeEnd :: "bytes option"
  rdPrevKv :: bool
  rdCount :: bool
  rdUnknown :: bytes

definition emptyRequestOp_DeleteRange :: RequestOp_DeleteRange where
  "emptyRequestOp_DeleteRange = \<lparr>rdKey = [], rdRangeEnd = None, rdPrevKv = False, rdCount = False, rdUnknown = []\<rparr>"

definition RequestOp_DeleteRange_SizeVT :: "RequestOp_DeleteRange \<Rightarrow> nat" where
  "RequestOp_DeleteRange_SizeVT m =
     sizeBytes (rdKey m)
     + sizeBytes (slice (rdRangeEnd m))
     + sizeBool (rdPrevKv m)
     + sizeBool (rdCount m)
     + length (rdUnknown m)"

definition RequestOp_DeleteRange_MarshalVT :: "RequestOp_DeleteRange \<Rightarrow> bytes" where
  "RequestOp_DeleteRange_MarshalVT m =
     (let d = rdUnknown m;
          d = optBool [0x28] (rdCount m) d;
          d = optBool [0x20] (rdPrevKv m) d;
          d = optBytes [0x12] (slice (rdRangeEnd m)) d
      in optBytes [0x0a] (rdKey m) d)"

definition RequestOp_DeleteRange_fields :: "int \<Rightarrow> RequestOp_DeleteRange field option" where
  "RequestOp_DeleteRange_fields fieldNum =
     (if fieldNum = 1 then Some (BytesField (\<lambda>b m. Inr (m\<lparr>rdKey := b\<rparr>)))
      else if fieldNum = 2 then Some (BytesField (\<lambda>b m. Inr (m\<lparr>rdRangeEnd := Some b\<rparr>)))
      else if fieldNum = 4 then Some (VarintField (\<lambda>v m. m\<lparr>rdPrevKv := v \<noteq> 0\<rparr>))
      else if fieldNum = 5 then Some (VarintField (\<lambda>v m. m\<lparr>rdCount := v \<noteq> 0\<rparr>))
      else None)"

definition RequestOp_DeleteRange_UnmarshalVT :: "bytes \<Rightarrow> RequestOp_DeleteRange \<Rightarrow> proto_error + RequestOp_DeleteRange" where
  "RequestOp_DeleteRange_UnmarshalVT dAtA m =
     unmarshal_loop RequestOp_DeleteRange_fields (\<lambda>b m. m\<lparr>rdUnknown := rdUnknown m @ b\<rparr>) (length dAtA) dAtA m"

lemma RequestOp_DeleteRange_MarshalVT_length: "length (RequestOp_DeleteRange_MarshalVT m) = RequestOp_DeleteRange_SizeVT m"
  by (simp add: RequestOp_DeleteRange_MarshalVT_def RequestOp_DeleteRange_SizeVT_def length_opt Let_def)

definition RequestOp_DeleteRange_wf :: "RequestOp_DeleteRange \<Rightarrow> bool" where
  "RequestOp_DeleteRange_wf m \<longleftrightarrow> rdUnknown m = [] \<and> rdRangeEnd m \<noteq> Some []"

lemmas RequestOp_DeleteRange_loop =
  loop_optBytes [where fields = RequestOp_DeleteRange_fields and fn = 1 and f = "\<lambda>b m. m\<lparr>rdKey := b\<rparr>"]
  loop_optSlice [where fields = RequestOp_DeleteRange_fields and fn = 2 and f = "\<lambda>b m. m\<lparr>rdRangeEnd := b\<rparr>"]
  loop_optBool [where fields = RequestOp_DeleteRange_fields and fn = 4 and f = "\<lambda>v m. m\<lparr>rdPrevKv := v \<noteq> 0\<rparr>"]
  loop_optBool [where fields = RequestOp_DeleteRange_fields and fn = 5 and f = "\<lambda>v m. m\<lparr>rdCount := v \<noteq> 0\<rparr>"]

lemma RequestOp_DeleteRange_UnmarshalVT_MarshalVT:
  assumes "RequestOp_DeleteRange_wf m" and "RequestOp_DeleteRange_SizeVT m < 2 ^ 63"
  shows "RequestOp_DeleteRange_UnmarshalVT (RequestOp_DeleteRange_MarshalVT m) emptyRequestOp_DeleteRange = Inr m"
proof -
  have "length (RequestOp_DeleteRange_MarshalVT m) < 2 ^ 63"
    using assms(2) by (simp add: RequestOp_DeleteRange_MarshalVT_length)
  moreover have "sizeBytes (rdKey m) < 2 ^ 63"
    "sizeBytes (slice (rdRangeEnd m)) < 2 ^ 63"
    using assms(2) by (simp_all add: RequestOp_DeleteRange_SizeVT_def)
  ultimately show ?thesis
    using assms(1)
    by (simp add: RequestOp_DeleteRange_UnmarshalVT_def RequestOp_DeleteRange_MarshalVT_def Let_def RequestOp_DeleteRange_loop
        RequestOp_DeleteRange_fields_def emptyRequestOp_DeleteRange_def RequestOp_DeleteRange_wf_def)
qed

interpretation rd: message_codec RequestOp_DeleteRange_SizeVT RequestOp_DeleteRange_MarshalVT RequestOp_DeleteRange_UnmarshalVT
  emptyRequestOp_DeleteRange RequestOp_DeleteRange_wf
  by unfold_locales (simp_all add: RequestOp_DeleteRange_MarshalVT_length RequestOp_DeleteRange_UnmarshalVT_MarshalVT)

section \<open>Compare\<close>

record Compare =
  cmpResult :: u32
  cmpTarget :: u32
  cmpKey :: bytes
  cmpTargetUnion :: "bytes option"
  cmpRangeEnd :: "bytes option"
  cmpUnknown :: bytes

definition emptyCompare :: Compare where
  "emptyCompare = \<lparr>cmpResult = 0, cmpTarget = 0, cmpKey = [], cmpTargetUnion = None, cmpRangeEnd = None, cmpUnknown = []\<rparr>"

definition Compare_SizeVT :: "Compare \<Rightarrow> nat" where
  "Compare_SizeVT m =
     sizeVarint (scast (cmpResult m))
     + sizeVarint (scast (cmpTarget m))
     + sizeBytes (cmpKey m)
     + sizePresentBytes (map_option length (cmpTargetUnion m))
     + (if slice (cmpRangeEnd m) = [] then 0 else 2 + length (slice (cmpRangeEnd m)) + sov (of_nat (length (slice (cmpRangeEnd m)))))
     + length (cmpUnknown m)"

definition Compare_MarshalVT :: "Compare \<Rightarrow> bytes" where
  "Compare_MarshalVT m =
     (let d = cmpUnknown m;
          d = presentBytes [0x22] (cmpTargetUnion m) d;
          d = optBytes [0x82, 0x04] (slice (cmpRangeEnd m)) d;
          d = optBytes [0x1a] (cmpKey m) d;
          d = optVarint [0x10] (scast (cmpTarget m)) d
      in optVarint [0x08] (scast (cmpResult m)) d)"

definition Compare_fields :: "int \<Rightarrow> Compare field option" where
  "Compare_fields fieldNum =
     (if fieldNum = 1 then Some (VarintField (\<lambda>v m. m\<lparr>cmpResult := ucast v\<rparr>))
      else if fieldNum = 2 then Some (VarintField (\<lambda>v m. m\<lparr>cmpTarget := ucast v\<rparr>))
      else if fieldNum = 3 then Some (BytesField (\<lambda>b m. Inr (m\<lparr>cmpKey := b\<rparr>)))
      else if fieldNum = 4 then Some (BytesField (\<lambda>b m. Inr (m\<lparr>cmpTargetUnion := Some b\<rparr>)))
      else if fieldNum = 64 then Some (BytesField (\<lambda>b m. Inr (m\<lparr>cmpRangeEnd := Some b\<rparr>)))
      else None)"

definition Compare_UnmarshalVT :: "bytes \<Rightarrow> Compare \<Rightarrow> proto_error + Compare" where
  "Compare_UnmarshalVT dAtA m =
     unmarshal_loop Compare_fields (\<lambda>b m. m\<lparr>cmpUnknown := cmpUnknown m @ b\<rparr>) (length dAtA) dAtA m"

lemma Compare_MarshalVT_length: "length (Compare_MarshalVT m) = Compare_SizeVT m"
  by (simp add: Compare_MarshalVT_def Compare_SizeVT_def length_opt length_present Let_def optBytes_def length_putBytes sizeBytes_def)

definition Compare_wf :: "Compare \<Rightarrow> bool" where
  "Compare_wf m \<longleftrightarrow> cmpUnknown m = [] \<and> cmpRangeEnd m \<noteq> Some []"

lemmas Compare_loop =
  loop_optVarint [where fields = Compare_fields and fn = 1 and f = "\<lambda>v m. m\<lparr>cmpResult := ucast v\<rparr>"]
  loop_optVarint [where fields = Compare_fields and fn = 2 and f = "\<lambda>v m. m\<lparr>cmpTarget := ucast v\<rparr>"]
  loop_optBytes [where fields = Compare_fields and fn = 3 and f = "\<lambda>b m. m\<lparr>cmpKey := b\<rparr>"]
  loop_presentBytes [where fields = Compare_fields and fn = 4 and f = "\<lambda>b m. m\<lparr>cmpTargetUnion := b\<rparr>"]
  loop_optSlice [where fields = Compare_fields and fn = 64 and f = "\<lambda>b m. m\<lparr>cmpRangeEnd := b\<rparr>"]

lemma Compare_UnmarshalVT_MarshalVT:
  assumes "Compare_wf m" and "Compare_SizeVT m < 2 ^ 63"
  shows "Compare_UnmarshalVT (Compare_MarshalVT m) emptyCompare = Inr m"
proof -
  have "length (Compare_MarshalVT m) < 2 ^ 63"
    using assms(2) by (simp add: Compare_MarshalVT_length)
  moreover have "sizeBytes (cmpKey m) < 2 ^ 63"
    "sizePresentBytes (map_option length (cmpTargetUnion m)) < 2 ^ 63"
    "sizeBytes (slice (cmpRangeEnd m)) < 2 ^ 63"
    using assms(2) by (simp_all add: Compare_SizeVT_def sizeBytes_def Let_def split: if_splits)
  ultimately show ?thesis
    using assms(1)
    by (simp add: Compare_UnmarshalVT_def Compare_MarshalVT_def Let_def Compare_loop
        Compare_fields_def emptyCompare_def Compare_wf_def)
qed

interpretation cm: message_codec Compare_SizeVT Compare_MarshalVT Compare_UnmarshalVT
  emptyCompare Compare_wf
  by unfold_locales (simp_all add: Compare_MarshalVT_length Compare_UnmarshalVT_MarshalVT)

section \<open>ResponseOp.Range\<close>

record ResponseOp_Range =
  rsKvs :: "KeyValue list"
  rsMore :: bool
  rsCount :: u64
  rsUnknown :: bytes

definition emptyResponseOp_Range :: ResponseOp_Range where
  "emptyResponseOp_Range = \<lparr>rsKvs = [], rsMore = False, rsCount = 0, rsUnknown = []\<rparr>"

definition ResponseOp_Range_SizeVT :: "ResponseOp_Range \<Rightarrow> nat" where
  "ResponseOp_Range_SizeVT m =
     sizeRepeated 1 KeyValue_SizeVT (rsKvs m)
     + sizeBool (rsMore m)
     + sizeVarint (rsCount m)
     + length (rsUnknown m)"

definition ResponseOp_Range_MarshalVT :: "ResponseOp_Range \<Rightarrow> bytes" where
  "ResponseOp_Range_MarshalVT m =
     (let d = rsUnknown m;
          d = optVarint [0x18] (rsCount m) d;
          d = optBool [0x10] (rsMore m) d
      in putRepeated [0x0a] KeyValue_MarshalVT (rsKvs m) d)"

definition ResponseOp_Range_fields :: "int \<Rightarrow> ResponseOp_Range field option" where
  "ResponseOp_Range_fields fieldNum =
     (if fieldNum = 1 then Some (BytesField (\<lambda>b m. rbind (KeyValue_UnmarshalVT b emptyKeyValue) (\<lambda>x. Inr (m\<lparr>rsKvs := rsKvs m @ [x]\<rparr>))))
      else if fieldNum = 2 then Some (VarintField (\<lambda>v m. m\<lparr>rsMore := v \<noteq> 0\<rparr>))
      else if fieldNum = 3 then Some (VarintField (\<lambda>v m. m\<lparr>rsCount := v\<rparr>))
      else None)"

definition ResponseOp_Range_UnmarshalVT :: "bytes \<Rightarrow> ResponseOp_Range \<Rightarrow> proto_error + ResponseOp_Range" where
  "ResponseOp_Range_UnmarshalVT dAtA m =
     unmarshal_loop ResponseOp_Range_fields (\<lambda>b m. m\<lparr>rsUnknown := rsUnknown m @ b\<rparr>) (length dAtA) dAtA m"

lemma ResponseOp_Range_MarshalVT_length: "length (ResponseOp_Range_MarshalVT m) = ResponseOp_Range_SizeVT m"
  by (simp add: ResponseOp_Range_MarshalVT_def ResponseOp_Range_SizeVT_def length_opt kv.size_repeated Let_def)

definition ResponseOp_Range_wf :: "ResponseOp_Range \<Rightarrow> bool" where
  "ResponseOp_Range_wf m \<longleftrightarrow> rsUnknown m = [] \<and> list_all KeyValue_wf (rsKvs m)"

lemmas ResponseOp_Range_loop =
  kv.loop_repeated [where fields = ResponseOp_Range_fields and fn = 1 and n = 1 and add = "\<lambda>x m. m\<lparr>rsKvs := rsKvs m @ [x]\<rparr>"]
  loop_optBool [where fields = ResponseOp_Range_fields and fn = 2 and f = "\<lambda>v m. m\<lparr>rsMore := v \<noteq> 0\<rparr>"]
  loop_optVarint [where fields = ResponseOp_Range_fields and fn = 3 and f = "\<lambda>v m. m\<lparr>rsCount := v\<rparr>"]

lemma ResponseOp_Range_fold [simp]:
  "fold (\<lambda>x m. m\<lparr>rsKvs := rsKvs m @ [x]\<rparr>) xs0 m = m\<lparr>rsKvs := rsKvs m @ xs0\<rparr>"
  by (induction xs0 arbitrary: m; simp)

lemma ResponseOp_Range_UnmarshalVT_MarshalVT:
  assumes "ResponseOp_Range_wf m" and "ResponseOp_Range_SizeVT m < 2 ^ 63"
  shows "ResponseOp_Range_UnmarshalVT (ResponseOp_Range_MarshalVT m) emptyResponseOp_Range = Inr m"
proof -
  have "length (ResponseOp_Range_MarshalVT m) < 2 ^ 63"
    using assms(2) by (simp add: ResponseOp_Range_MarshalVT_length)
  moreover have "sizeRepeated 1 KeyValue_SizeVT (rsKvs m) < 2 ^ 63"
    using assms(2) by (simp_all add: ResponseOp_Range_SizeVT_def)
  ultimately show ?thesis
    using assms(1)
    by (simp add: ResponseOp_Range_UnmarshalVT_def ResponseOp_Range_MarshalVT_def Let_def ResponseOp_Range_loop
        ResponseOp_Range_fields_def emptyResponseOp_Range_def ResponseOp_Range_wf_def)
qed

interpretation rs: message_codec ResponseOp_Range_SizeVT ResponseOp_Range_MarshalVT ResponseOp_Range_UnmarshalVT
  emptyResponseOp_Range ResponseOp_Range_wf
  by unfold_locales (simp_all add: ResponseOp_Range_MarshalVT_length ResponseOp_Range_UnmarshalVT_MarshalVT)

section \<open>ResponseOp.Put\<close>

record ResponseOp_Put =
  spPrevKv :: "KeyValue option"
  spUnknown :: bytes

definition emptyResponseOp_Put :: ResponseOp_Put where
  "emptyResponseOp_Put = \<lparr>spPrevKv = None, spUnknown = []\<rparr>"

definition ResponseOp_Put_SizeVT :: "ResponseOp_Put \<Rightarrow> nat" where
  "ResponseOp_Put_SizeVT m =
     sizePresentBytes (map_option KeyValue_SizeVT (spPrevKv m))
     + length (spUnknown m)"

definition ResponseOp_Put_MarshalVT :: "ResponseOp_Put \<Rightarrow> bytes" where
  "ResponseOp_Put_MarshalVT m = (let d = spUnknown m in presentMessage [0x0a] KeyValue_MarshalVT (spPrevKv m) d)"

definition ResponseOp_Put_fields :: "int \<Rightarrow> ResponseOp_Put field option" where
  "ResponseOp_Put_fields fieldNum =
     (if fieldNum = 1 then Some (BytesField (\<lambda>b m. rbind (KeyValue_UnmarshalVT b (case spPrevKv m of None \<Rightarrow> emptyKeyValue | Some x \<Rightarrow> x)) (\<lambda>x. Inr (m\<lparr>spPrevKv := Some x\<rparr>))))
      else None)"

definition ResponseOp_Put_UnmarshalVT :: "bytes \<Rightarrow> ResponseOp_Put \<Rightarrow> proto_error + ResponseOp_Put" where
  "ResponseOp_Put_UnmarshalVT dAtA m =
     unmarshal_loop ResponseOp_Put_fields (\<lambda>b m. m\<lparr>spUnknown := spUnknown m @ b\<rparr>) (length dAtA) dAtA m"

lemma ResponseOp_Put_MarshalVT_length: "length (ResponseOp_Put_MarshalVT m) = ResponseOp_Put_SizeVT m"
  by (simp add: ResponseOp_Put_MarshalVT_def ResponseOp_Put_SizeVT_def length_opt kv.size_message Let_def)

definition ResponseOp_Put_wf :: "ResponseOp_Put \<Rightarrow> bool" where
  "ResponseOp_Put_wf m \<longleftrightarrow> spUnknown m = [] \<and> pred_option KeyValue_wf (spPrevKv m)"

lemmas ResponseOp_Put_loop =
  kv.loop_message [where fields = ResponseOp_Put_fields and fn = 1 and store = "\<lambda>x m. m\<lparr>spPrevKv := x\<rparr>"]

lemma ResponseOp_Put_UnmarshalVT_MarshalVT:
  assumes "ResponseOp_Put_wf m" and "ResponseOp_Put_SizeVT m < 2 ^ 63"
  shows "ResponseOp_Put_UnmarshalVT (ResponseOp_Put_MarshalVT m) emptyResponseOp_Put = Inr m"
proof -
  have "length (ResponseOp_Put_MarshalVT m) < 2 ^ 63"
    using assms(2) by (simp add: ResponseOp_Put_MarshalVT_length)
  moreover have "sizePresentBytes (map_option KeyValue_SizeVT (spPrevKv m)) < 2 ^ 63"
    using assms(2) by (simp_all add: ResponseOp_Put_SizeVT_def)
  ultimately show ?thesis
    using assms(1)
    by (simp add: ResponseOp_Put_UnmarshalVT_def ResponseOp_Put_MarshalVT_def Let_def ResponseOp_Put_loop
        ResponseOp_Put_fields_def emptyResponseOp_Put_def ResponseOp_Put_wf_def)
qed

interpretation sp: message_codec ResponseOp_Put_SizeVT ResponseOp_Put_MarshalVT ResponseOp_Put_UnmarshalVT
  emptyResponseOp_Put ResponseOp_Put_wf
  by unfold_locales (simp_all add: ResponseOp_Put_MarshalVT_length ResponseOp_Put_UnmarshalVT_MarshalVT)

section \<open>ResponseOp.DeleteRange\<close>

record ResponseOp_DeleteRange =
  sdDeleted :: u64
  sdPrevKvs :: "KeyValue list"
  sdUnknown :: bytes

definition emptyResponseOp_DeleteRange :: ResponseOp_DeleteRange where
  "emptyResponseOp_DeleteRange = \<lparr>sdDeleted = 0, sdPrevKvs = [], sdUnknown = []\<rparr>"

definition ResponseOp_DeleteRange_SizeVT :: "ResponseOp_DeleteRange \<Rightarrow> nat" where
  "ResponseOp_DeleteRange_SizeVT m =
     sizeVarint (sdDeleted m)
     + sizeRepeated 1 KeyValue_SizeVT (sdPrevKvs m)
     + length (sdUnknown m)"

definition ResponseOp_DeleteRange_MarshalVT :: "ResponseOp_DeleteRange \<Rightarrow> bytes" where
  "ResponseOp_DeleteRange_MarshalVT m =
     (let d = sdUnknown m;
          d = putRepeated [0x12] KeyValue_MarshalVT (sdPrevKvs m) d
      in optVarint [0x08] (sdDeleted m) d)"

definition ResponseOp_DeleteRange_fields :: "int \<Rightarrow> ResponseOp_DeleteRange field option" where
  "ResponseOp_DeleteRange_fields fieldNum =
     (if fieldNum = 1 then Some (VarintField (\<lambda>v m. m\<lparr>sdDeleted := v\<rparr>))
      else if fieldNum = 2 then Some (BytesField (\<lambda>b m. rbind (KeyValue_UnmarshalVT b emptyKeyValue) (\<lambda>x. Inr (m\<lparr>sdPrevKvs := sdPrevKvs m @ [x]\<rparr>))))
      else None)"

definition ResponseOp_DeleteRange_UnmarshalVT :: "bytes \<Rightarrow> ResponseOp_DeleteRange \<Rightarrow> proto_error + ResponseOp_DeleteRange" where
  "ResponseOp_DeleteRange_UnmarshalVT dAtA m =
     unmarshal_loop ResponseOp_DeleteRange_fields (\<lambda>b m. m\<lparr>sdUnknown := sdUnknown m @ b\<rparr>) (length dAtA) dAtA m"

lemma ResponseOp_DeleteRange_MarshalVT_length: "length (ResponseOp_DeleteRange_MarshalVT m) = ResponseOp_DeleteRange_SizeVT m"
  by (simp add: ResponseOp_DeleteRange_MarshalVT_def ResponseOp_DeleteRange_SizeVT_def length_opt kv.size_repeated Let_def)

definition ResponseOp_DeleteRange_wf :: "ResponseOp_DeleteRange \<Rightarrow> bool" where
  "ResponseOp_DeleteRange_wf m \<longleftrightarrow> sdUnknown m = [] \<and> list_all KeyValue_wf (sdPrevKvs m)"

lemmas ResponseOp_DeleteRange_loop =
  loop_optVarint [where fields = ResponseOp_DeleteRange_fields and fn = 1 and f = "\<lambda>v m. m\<lparr>sdDeleted := v\<rparr>"]
  kv.loop_repeated [where fields = ResponseOp_DeleteRange_fields and fn = 2 and n = 1 and add = "\<lambda>x m. m\<lparr>sdPrevKvs := sdPrevKvs m @ [x]\<rparr>"]

lemma ResponseOp_DeleteRange_fold [simp]:
  "fold (\<lambda>x m. m\<lparr>sdPrevKvs := sdPrevKvs m @ [x]\<rparr>) xs0 m = m\<lparr>sdPrevKvs := sdPrevKvs m @ xs0\<rparr>"
  by (induction xs0 arbitrary: m; simp)

lemma ResponseOp_DeleteRange_UnmarshalVT_MarshalVT:
  assumes "ResponseOp_DeleteRange_wf m" and "ResponseOp_DeleteRange_SizeVT m < 2 ^ 63"
  shows "ResponseOp_DeleteRange_UnmarshalVT (ResponseOp_DeleteRange_MarshalVT m) emptyResponseOp_DeleteRange = Inr m"
proof -
  have "length (ResponseOp_DeleteRange_MarshalVT m) < 2 ^ 63"
    using assms(2) by (simp add: ResponseOp_DeleteRange_MarshalVT_length)
  moreover have "sizeRepeated 1 KeyValue_SizeVT (sdPrevKvs m) < 2 ^ 63"
    using assms(2) by (simp_all add: ResponseOp_DeleteRange_SizeVT_def)
  ultimately show ?thesis
    using assms(1)
    by (simp add: ResponseOp_DeleteRange_UnmarshalVT_def ResponseOp_DeleteRange_MarshalVT_def Let_def ResponseOp_DeleteRange_loop
        ResponseOp_DeleteRange_fields_def emptyResponseOp_DeleteRange_def ResponseOp_DeleteRange_wf_def)
qed

interpretation sd: message_codec ResponseOp_DeleteRange_SizeVT ResponseOp_DeleteRange_MarshalVT ResponseOp_DeleteRange_UnmarshalVT
  emptyResponseOp_DeleteRange ResponseOp_DeleteRange_wf
  by unfold_locales (simp_all add: ResponseOp_DeleteRange_MarshalVT_length ResponseOp_DeleteRange_UnmarshalVT_MarshalVT)

section \<open>RequestOp\<close>

datatype isRequestOp_Request =
    RequestOp_RequestRange RequestOp_Range
  | RequestOp_RequestPut RequestOp_Put
  | RequestOp_RequestDeleteRange RequestOp_DeleteRange

record RequestOp =
  roRequest :: "isRequestOp_Request option"
  roUnknown :: bytes

definition emptyRequestOp :: RequestOp where
  "emptyRequestOp = \<lparr>roRequest = None, roUnknown = []\<rparr>"

fun isRequestOp_Request_SizeVT :: "isRequestOp_Request \<Rightarrow> nat" where
  "isRequestOp_Request_SizeVT (RequestOp_RequestRange x) = sizeMessage (RequestOp_Range_SizeVT x)"
| "isRequestOp_Request_SizeVT (RequestOp_RequestPut x) = sizeMessage (RequestOp_Put_SizeVT x)"
| "isRequestOp_Request_SizeVT (RequestOp_RequestDeleteRange x) = sizeMessage (RequestOp_DeleteRange_SizeVT x)"

definition RequestOp_SizeVT :: "RequestOp \<Rightarrow> nat" where
  "RequestOp_SizeVT m =
     (case roRequest m of None \<Rightarrow> 0 | Some vtmsg \<Rightarrow> isRequestOp_Request_SizeVT vtmsg) + length (roUnknown m)"

fun isRequestOp_Request_MarshalVT :: "isRequestOp_Request \<Rightarrow> bytes \<Rightarrow> bytes" where
  "isRequestOp_Request_MarshalVT (RequestOp_RequestRange x) d = putBytes [0x0a] (RequestOp_Range_MarshalVT x) d"
| "isRequestOp_Request_MarshalVT (RequestOp_RequestPut x) d = putBytes [0x12] (RequestOp_Put_MarshalVT x) d"
| "isRequestOp_Request_MarshalVT (RequestOp_RequestDeleteRange x) d = putBytes [0x1a] (RequestOp_DeleteRange_MarshalVT x) d"

definition RequestOp_MarshalVT :: "RequestOp \<Rightarrow> bytes" where
  "RequestOp_MarshalVT m =
     (let d = roUnknown m
      in case roRequest m of None \<Rightarrow> d | Some vtmsg \<Rightarrow> isRequestOp_Request_MarshalVT vtmsg d)"

definition RequestOp_fields :: "int \<Rightarrow> RequestOp field option" where
  "RequestOp_fields fieldNum =
     (if fieldNum = 1 then Some (BytesField (\<lambda>b m.
          rbind (RequestOp_Range_UnmarshalVT b (case roRequest m of Some (RequestOp_RequestRange x) \<Rightarrow> x | _ \<Rightarrow> emptyRequestOp_Range))
            (\<lambda>v. Inr (m\<lparr>roRequest := Some (RequestOp_RequestRange v)\<rparr>))))
      else if fieldNum = 2 then Some (BytesField (\<lambda>b m.
          rbind (RequestOp_Put_UnmarshalVT b (case roRequest m of Some (RequestOp_RequestPut x) \<Rightarrow> x | _ \<Rightarrow> emptyRequestOp_Put))
            (\<lambda>v. Inr (m\<lparr>roRequest := Some (RequestOp_RequestPut v)\<rparr>))))
      else if fieldNum = 3 then Some (BytesField (\<lambda>b m.
          rbind (RequestOp_DeleteRange_UnmarshalVT b (case roRequest m of Some (RequestOp_RequestDeleteRange x) \<Rightarrow> x | _ \<Rightarrow> emptyRequestOp_DeleteRange))
            (\<lambda>v. Inr (m\<lparr>roRequest := Some (RequestOp_RequestDeleteRange v)\<rparr>))))
      else None)"

definition RequestOp_UnmarshalVT :: "bytes \<Rightarrow> RequestOp \<Rightarrow> proto_error + RequestOp" where
  "RequestOp_UnmarshalVT dAtA m =
     unmarshal_loop RequestOp_fields (\<lambda>b m. m\<lparr>roUnknown := roUnknown m @ b\<rparr>) (length dAtA) dAtA m"

lemma RequestOp_MarshalVT_length: "length (RequestOp_MarshalVT m) = RequestOp_SizeVT m"
  by (cases "roRequest m"; (cases "the (roRequest m)")?)
    (auto simp: RequestOp_MarshalVT_def RequestOp_SizeVT_def length_putBytes sizeMessage_def Let_def
      rr.marshal_size rp.marshal_size rd.marshal_size)

fun isRequestOp_Request_wf :: "isRequestOp_Request \<Rightarrow> bool" where
  "isRequestOp_Request_wf (RequestOp_RequestRange x) = RequestOp_Range_wf x"
| "isRequestOp_Request_wf (RequestOp_RequestPut x) = RequestOp_Put_wf x"
| "isRequestOp_Request_wf (RequestOp_RequestDeleteRange x) = RequestOp_DeleteRange_wf x"

definition RequestOp_wf :: "RequestOp \<Rightarrow> bool" where
  "RequestOp_wf m \<longleftrightarrow> roUnknown m = [] \<and> pred_option isRequestOp_Request_wf (roRequest m)"

lemmas RequestOp_loop =
  rr.loop_message [where fields = RequestOp_fields and fn = 1 and x = "Some y" for y,
    where store = "\<lambda>x m. case x of None \<Rightarrow> m | Some v \<Rightarrow> m\<lparr>roRequest := Some (RequestOp_RequestRange v)\<rparr>", simplified]
  rp.loop_message [where fields = RequestOp_fields and fn = 2 and x = "Some y" for y,
    where store = "\<lambda>x m. case x of None \<Rightarrow> m | Some v \<Rightarrow> m\<lparr>roRequest := Some (RequestOp_RequestPut v)\<rparr>", simplified]
  rd.loop_message [where fields = RequestOp_fields and fn = 3 and x = "Some y" for y,
    where store = "\<lambda>x m. case x of None \<Rightarrow> m | Some v \<Rightarrow> m\<lparr>roRequest := Some (RequestOp_RequestDeleteRange v)\<rparr>", simplified]

lemma RequestOp_UnmarshalVT_MarshalVT:
  assumes "RequestOp_wf m" and "RequestOp_SizeVT m < 2 ^ 63"
  shows "RequestOp_UnmarshalVT (RequestOp_MarshalVT m) emptyRequestOp = Inr m"
proof (cases "roRequest m")
  case None
  then show ?thesis
    using assms(1) by (simp add: RequestOp_UnmarshalVT_def RequestOp_MarshalVT_def emptyRequestOp_def RequestOp_wf_def)
next
  case (Some vtmsg)
  have len: "length (RequestOp_MarshalVT m) < 2 ^ 63"
    using assms(2) by (simp add: RequestOp_MarshalVT_length)
  show ?thesis
    by (cases vtmsg; use Some assms len in \<open>simp add: RequestOp_UnmarshalVT_def RequestOp_MarshalVT_def Let_def
        RequestOp_loop RequestOp_fields_def emptyRequestOp_def RequestOp_wf_def RequestOp_SizeVT_def sizeMessage_def\<close>)
qed

interpretation ro: message_codec RequestOp_SizeVT RequestOp_MarshalVT RequestOp_UnmarshalVT
  emptyRequestOp RequestOp_wf
  by unfold_locales (simp_all add: RequestOp_MarshalVT_length RequestOp_UnmarshalVT_MarshalVT)

section \<open>ResponseOp\<close>

datatype isResponseOp_Response =
    ResponseOp_ResponseRange ResponseOp_Range
  | ResponseOp_ResponsePut ResponseOp_Put
  | ResponseOp_ResponseDeleteRange ResponseOp_DeleteRange

record ResponseOp =
  reResponse :: "isResponseOp_Response option"
  reUnknown :: bytes

definition emptyResponseOp :: ResponseOp where
  "emptyResponseOp = \<lparr>reResponse = None, reUnknown = []\<rparr>"

fun isResponseOp_Response_SizeVT :: "isResponseOp_Response \<Rightarrow> nat" where
  "isResponseOp_Response_SizeVT (ResponseOp_ResponseRange x) = sizeMessage (ResponseOp_Range_SizeVT x)"
| "isResponseOp_Response_SizeVT (ResponseOp_ResponsePut x) = sizeMessage (ResponseOp_Put_SizeVT x)"
| "isResponseOp_Response_SizeVT (ResponseOp_ResponseDeleteRange x) = sizeMessage (ResponseOp_DeleteRange_SizeVT x)"

definition ResponseOp_SizeVT :: "ResponseOp \<Rightarrow> nat" where
  "ResponseOp_SizeVT m =
     (case reResponse m of None \<Rightarrow> 0 | Some vtmsg \<Rightarrow> isResponseOp_Response_SizeVT vtmsg) + length (reUnknown m)"

fun isResponseOp_Response_MarshalVT :: "isResponseOp_Response \<Rightarrow> bytes \<Rightarrow> bytes" where
  "isResponseOp_Response_MarshalVT (ResponseOp_ResponseRange x) d = putBytes [0x0a] (ResponseOp_Range_MarshalVT x) d"
| "isResponseOp_Response_MarshalVT (ResponseOp_ResponsePut x) d = putBytes [0x12] (ResponseOp_Put_MarshalVT x) d"
| "isResponseOp_Response_MarshalVT (ResponseOp_ResponseDeleteRange x) d = putBytes [0x1a] (ResponseOp_DeleteRange_MarshalVT x) d"

definition ResponseOp_MarshalVT :: "ResponseOp \<Rightarrow> bytes" where
  "ResponseOp_MarshalVT m =
     (let d = reUnknown m
      in case reResponse m of None \<Rightarrow> d | Some vtmsg \<Rightarrow> isResponseOp_Response_MarshalVT vtmsg d)"

definition ResponseOp_fields :: "int \<Rightarrow> ResponseOp field option" where
  "ResponseOp_fields fieldNum =
     (if fieldNum = 1 then Some (BytesField (\<lambda>b m.
          rbind (ResponseOp_Range_UnmarshalVT b (case reResponse m of Some (ResponseOp_ResponseRange x) \<Rightarrow> x | _ \<Rightarrow> emptyResponseOp_Range))
            (\<lambda>v. Inr (m\<lparr>reResponse := Some (ResponseOp_ResponseRange v)\<rparr>))))
      else if fieldNum = 2 then Some (BytesField (\<lambda>b m.
          rbind (ResponseOp_Put_UnmarshalVT b (case reResponse m of Some (ResponseOp_ResponsePut x) \<Rightarrow> x | _ \<Rightarrow> emptyResponseOp_Put))
            (\<lambda>v. Inr (m\<lparr>reResponse := Some (ResponseOp_ResponsePut v)\<rparr>))))
      else if fieldNum = 3 then Some (BytesField (\<lambda>b m.
          rbind (ResponseOp_DeleteRange_UnmarshalVT b (case reResponse m of Some (ResponseOp_ResponseDeleteRange x) \<Rightarrow> x | _ \<Rightarrow> emptyResponseOp_DeleteRange))
            (\<lambda>v. Inr (m\<lparr>reResponse := Some (ResponseOp_ResponseDeleteRange v)\<rparr>))))
      else None)"

definition ResponseOp_UnmarshalVT :: "bytes \<Rightarrow> ResponseOp \<Rightarrow> proto_error + ResponseOp" where
  "ResponseOp_UnmarshalVT dAtA m =
     unmarshal_loop ResponseOp_fields (\<lambda>b m. m\<lparr>reUnknown := reUnknown m @ b\<rparr>) (length dAtA) dAtA m"

lemma ResponseOp_MarshalVT_length: "length (ResponseOp_MarshalVT m) = ResponseOp_SizeVT m"
  by (cases "reResponse m"; (cases "the (reResponse m)")?)
    (auto simp: ResponseOp_MarshalVT_def ResponseOp_SizeVT_def length_putBytes sizeMessage_def Let_def
      rs.marshal_size sp.marshal_size sd.marshal_size)

fun isResponseOp_Response_wf :: "isResponseOp_Response \<Rightarrow> bool" where
  "isResponseOp_Response_wf (ResponseOp_ResponseRange x) = ResponseOp_Range_wf x"
| "isResponseOp_Response_wf (ResponseOp_ResponsePut x) = ResponseOp_Put_wf x"
| "isResponseOp_Response_wf (ResponseOp_ResponseDeleteRange x) = ResponseOp_DeleteRange_wf x"

definition ResponseOp_wf :: "ResponseOp \<Rightarrow> bool" where
  "ResponseOp_wf m \<longleftrightarrow> reUnknown m = [] \<and> pred_option isResponseOp_Response_wf (reResponse m)"

lemmas ResponseOp_loop =
  rs.loop_message [where fields = ResponseOp_fields and fn = 1 and x = "Some y" for y,
    where store = "\<lambda>x m. case x of None \<Rightarrow> m | Some v \<Rightarrow> m\<lparr>reResponse := Some (ResponseOp_ResponseRange v)\<rparr>", simplified]
  sp.loop_message [where fields = ResponseOp_fields and fn = 2 and x = "Some y" for y,
    where store = "\<lambda>x m. case x of None \<Rightarrow> m | Some v \<Rightarrow> m\<lparr>reResponse := Some (ResponseOp_ResponsePut v)\<rparr>", simplified]
  sd.loop_message [where fields = ResponseOp_fields and fn = 3 and x = "Some y" for y,
    where store = "\<lambda>x m. case x of None \<Rightarrow> m | Some v \<Rightarrow> m\<lparr>reResponse := Some (ResponseOp_ResponseDeleteRange v)\<rparr>", simplified]

lemma ResponseOp_UnmarshalVT_MarshalVT:
  assumes "ResponseOp_wf m" and "ResponseOp_SizeVT m < 2 ^ 63"
  shows "ResponseOp_UnmarshalVT (ResponseOp_MarshalVT m) emptyResponseOp = Inr m"
proof (cases "reResponse m")
  case None
  then show ?thesis
    using assms(1) by (simp add: ResponseOp_UnmarshalVT_def ResponseOp_MarshalVT_def emptyResponseOp_def ResponseOp_wf_def)
next
  case (Some vtmsg)
  have len: "length (ResponseOp_MarshalVT m) < 2 ^ 63"
    using assms(2) by (simp add: ResponseOp_MarshalVT_length)
  show ?thesis
    by (cases vtmsg; use Some assms len in \<open>simp add: ResponseOp_UnmarshalVT_def ResponseOp_MarshalVT_def Let_def
        ResponseOp_loop ResponseOp_fields_def emptyResponseOp_def ResponseOp_wf_def ResponseOp_SizeVT_def sizeMessage_def\<close>)
qed

interpretation re: message_codec ResponseOp_SizeVT ResponseOp_MarshalVT ResponseOp_UnmarshalVT
  emptyResponseOp ResponseOp_wf
  by unfold_locales (simp_all add: ResponseOp_MarshalVT_length ResponseOp_UnmarshalVT_MarshalVT)

section \<open>Txn\<close>

record Txn =
  txCompare :: "Compare list"
  txSuccess :: "RequestOp list"
  txFailure :: "RequestOp list"
  txUnknown :: bytes

definition emptyTxn :: Txn where
  "emptyTxn = \<lparr>txCompare = [], txSuccess = [], txFailure = [], txUnknown = []\<rparr>"

definition Txn_SizeVT :: "Txn \<Rightarrow> nat" where
  "Txn_SizeVT m =
     sizeRepeated 1 Compare_SizeVT (txCompare m)
     + sizeRepeated 1 RequestOp_SizeVT (txSuccess m)
     + sizeRepeated 1 RequestOp_SizeVT (txFailure m)
     + length (txUnknown m)"

definition Txn_MarshalVT :: "Txn \<Rightarrow> bytes" where
  "Txn_MarshalVT m =
     (let d = txUnknown m;
          d = putRepeated [0x1a] RequestOp_MarshalVT (txFailure m) d;
          d = putRepeated [0x12] RequestOp_MarshalVT (txSuccess m) d
      in putRepeated [0x0a] Compare_MarshalVT (txCompare m) d)"

definition Txn_fields :: "int \<Rightarrow> Txn field option" where
  "Txn_fields fieldNum =
     (if fieldNum = 1 then Some (BytesField (\<lambda>b m. rbind (Compare_UnmarshalVT b emptyCompare) (\<lambda>x. Inr (m\<lparr>txCompare := txCompare m @ [x]\<rparr>))))
      else if fieldNum = 2 then Some (BytesField (\<lambda>b m. rbind (RequestOp_UnmarshalVT b emptyRequestOp) (\<lambda>x. Inr (m\<lparr>txSuccess := txSuccess m @ [x]\<rparr>))))
      else if fieldNum = 3 then Some (BytesField (\<lambda>b m. rbind (RequestOp_UnmarshalVT b emptyRequestOp) (\<lambda>x. Inr (m\<lparr>txFailure := txFailure m @ [x]\<rparr>))))
      else None)"

definition Txn_UnmarshalVT :: "bytes \<Rightarrow> Txn \<Rightarrow> proto_error + Txn" where
  "Txn_UnmarshalVT dAtA m =
     unmarshal_loop Txn_fields (\<lambda>b m. m\<lparr>txUnknown := txUnknown m @ b\<rparr>) (length dAtA) dAtA m"

lemma Txn_MarshalVT_length: "length (Txn_MarshalVT m) = Txn_SizeVT m"
  by (simp add: Txn_MarshalVT_def Txn_SizeVT_def length_opt cm.size_repeated ro.size_repeated Let_def)

definition Txn_wf :: "Txn \<Rightarrow> bool" where
  "Txn_wf m \<longleftrightarrow> txUnknown m = [] \<and> list_all Compare_wf (txCompare m) \<and> list_all RequestOp_wf (txSuccess m) \<and> list_all RequestOp_wf (txFailure m)"

lemmas Txn_loop =
  cm.loop_repeated [where fields = Txn_fields and fn = 1 and n = 1 and add = "\<lambda>x m. m\<lparr>txCompare := txCompare m @ [x]\<rparr>"]
  ro.loop_repeated [where fields = Txn_fields and fn = 2 and n = 1 and add = "\<lambda>x m. m\<lparr>txSuccess := txSuccess m @ [x]\<rparr>"]
  ro.loop_repeated [where fields = Txn_fields and fn = 3 and n = 1 and add = "\<lambda>x m. m\<lparr>txFailure := txFailure m @ [x]\<rparr>"]

lemma Txn_fold [simp]:
  "fold (\<lambda>x m. m\<lparr>txCompare := txCompare m @ [x]\<rparr>) xs0 m = m\<lparr>txCompare := txCompare m @ xs0\<rparr>"
  "fold (\<lambda>x m. m\<lparr>txSuccess := txSuccess m @ [x]\<rparr>) xs1 m = m\<lparr>txSuccess := txSuccess m @ xs1\<rparr>"
  "fold (\<lambda>x m. m\<lparr>txFailure := txFailure m @ [x]\<rparr>) xs2 m = m\<lparr>txFailure := txFailure m @ xs2\<rparr>"
  subgoal by (induction xs0 arbitrary: m) simp_all
  subgoal by (induction xs1 arbitrary: m) simp_all
  subgoal by (induction xs2 arbitrary: m) simp_all
  done

lemma Txn_UnmarshalVT_MarshalVT:
  assumes "Txn_wf m" and "Txn_SizeVT m < 2 ^ 63"
  shows "Txn_UnmarshalVT (Txn_MarshalVT m) emptyTxn = Inr m"
proof -
  have "length (Txn_MarshalVT m) < 2 ^ 63"
    using assms(2) by (simp add: Txn_MarshalVT_length)
  moreover have "sizeRepeated 1 Compare_SizeVT (txCompare m) < 2 ^ 63"
    "sizeRepeated 1 RequestOp_SizeVT (txSuccess m) < 2 ^ 63"
    "sizeRepeated 1 RequestOp_SizeVT (txFailure m) < 2 ^ 63"
    using assms(2) by (simp_all add: Txn_SizeVT_def)
  ultimately show ?thesis
    using assms(1)
    by (simp add: Txn_UnmarshalVT_def Txn_MarshalVT_def Let_def Txn_loop
        Txn_fields_def emptyTxn_def Txn_wf_def)
qed

interpretation tx: message_codec Txn_SizeVT Txn_MarshalVT Txn_UnmarshalVT
  emptyTxn Txn_wf
  by unfold_locales (simp_all add: Txn_MarshalVT_length Txn_UnmarshalVT_MarshalVT)

section \<open>CommandResult\<close>

record CommandResult =
  crResponses :: "ResponseOp list"
  crRevision :: u64
  crUnknown :: bytes

definition emptyCommandResult :: CommandResult where
  "emptyCommandResult = \<lparr>crResponses = [], crRevision = 0, crUnknown = []\<rparr>"

definition CommandResult_SizeVT :: "CommandResult \<Rightarrow> nat" where
  "CommandResult_SizeVT m =
     sizeRepeated 1 ResponseOp_SizeVT (crResponses m)
     + sizeVarint (crRevision m)
     + length (crUnknown m)"

definition CommandResult_MarshalVT :: "CommandResult \<Rightarrow> bytes" where
  "CommandResult_MarshalVT m =
     (let d = crUnknown m;
          d = optVarint [0x10] (crRevision m) d
      in putRepeated [0x0a] ResponseOp_MarshalVT (crResponses m) d)"

definition CommandResult_fields :: "int \<Rightarrow> CommandResult field option" where
  "CommandResult_fields fieldNum =
     (if fieldNum = 1 then Some (BytesField (\<lambda>b m. rbind (ResponseOp_UnmarshalVT b emptyResponseOp) (\<lambda>x. Inr (m\<lparr>crResponses := crResponses m @ [x]\<rparr>))))
      else if fieldNum = 2 then Some (VarintField (\<lambda>v m. m\<lparr>crRevision := v\<rparr>))
      else None)"

definition CommandResult_UnmarshalVT :: "bytes \<Rightarrow> CommandResult \<Rightarrow> proto_error + CommandResult" where
  "CommandResult_UnmarshalVT dAtA m =
     unmarshal_loop CommandResult_fields (\<lambda>b m. m\<lparr>crUnknown := crUnknown m @ b\<rparr>) (length dAtA) dAtA m"

lemma CommandResult_MarshalVT_length: "length (CommandResult_MarshalVT m) = CommandResult_SizeVT m"
  by (simp add: CommandResult_MarshalVT_def CommandResult_SizeVT_def length_opt re.size_repeated Let_def)

definition CommandResult_wf :: "CommandResult \<Rightarrow> bool" where
  "CommandResult_wf m \<longleftrightarrow> crUnknown m = [] \<and> list_all ResponseOp_wf (crResponses m)"

lemmas CommandResult_loop =
  re.loop_repeated [where fields = CommandResult_fields and fn = 1 and n = 1 and add = "\<lambda>x m. m\<lparr>crResponses := crResponses m @ [x]\<rparr>"]
  loop_optVarint [where fields = CommandResult_fields and fn = 2 and f = "\<lambda>v m. m\<lparr>crRevision := v\<rparr>"]

lemma CommandResult_fold [simp]:
  "fold (\<lambda>x m. m\<lparr>crResponses := crResponses m @ [x]\<rparr>) xs0 m = m\<lparr>crResponses := crResponses m @ xs0\<rparr>"
  by (induction xs0 arbitrary: m; simp)

lemma CommandResult_UnmarshalVT_MarshalVT:
  assumes "CommandResult_wf m" and "CommandResult_SizeVT m < 2 ^ 63"
  shows "CommandResult_UnmarshalVT (CommandResult_MarshalVT m) emptyCommandResult = Inr m"
proof -
  have "length (CommandResult_MarshalVT m) < 2 ^ 63"
    using assms(2) by (simp add: CommandResult_MarshalVT_length)
  moreover have "sizeRepeated 1 ResponseOp_SizeVT (crResponses m) < 2 ^ 63"
    using assms(2) by (simp_all add: CommandResult_SizeVT_def)
  ultimately show ?thesis
    using assms(1)
    by (simp add: CommandResult_UnmarshalVT_def CommandResult_MarshalVT_def Let_def CommandResult_loop
        CommandResult_fields_def emptyCommandResult_def CommandResult_wf_def)
qed

interpretation cr: message_codec CommandResult_SizeVT CommandResult_MarshalVT CommandResult_UnmarshalVT
  emptyCommandResult CommandResult_wf
  by unfold_locales (simp_all add: CommandResult_MarshalVT_length CommandResult_UnmarshalVT_MarshalVT)

end
