(* ===== verification/Proto_Command.thy ===== *)
theory Proto_Command
  imports Proto_Messages
begin

text \<open>
  \<^verbatim>\<open>Command\<close>, the message proposed to the Raft log, and its codec. A command may carry a
  sequence of commands, so the type and the codec are recursive; the decoder's recursion is on
  the nesting depth, for which the length of the input is always enough.
\<close>

section \<open>The message\<close>

datatype Command = Command
  (cmdTable: bytes)
  (cmdType: u32)
  (cmdKv: "KeyValue option")
  (cmdLeaderIndex: "u64 option")
  (cmdBatch: "KeyValue list")
  (cmdTxn: "Txn option")
  (cmdRangeEnd: "bytes option")
  (cmdPrevKvs: bool)
  (cmdSequence: "Command list")
  (cmdCount: bool)
  (cmdUnknown: bytes)

definition emptyCommand :: Command where
  "emptyCommand = Command [] 0 None None [] None None False [] False []"

text \<open>The values of \<^verbatim>\<open>Command_CommandType\<close>.\<close>

definition Command_PUT :: u32 where "Command_PUT = 0"
definition Command_DELETE :: u32 where "Command_DELETE = 1"
definition Command_DUMMY :: u32 where "Command_DUMMY = 2"
definition Command_PUT_BATCH :: u32 where "Command_PUT_BATCH = 3"
definition Command_DELETE_BATCH :: u32 where "Command_DELETE_BATCH = 4"
definition Command_TXN :: u32 where "Command_TXN = 5"
definition Command_SEQUENCE :: u32 where "Command_SEQUENCE = 6"

lemmas Command_types = Command_PUT_def Command_DELETE_def Command_DUMMY_def
  Command_PUT_BATCH_def Command_DELETE_BATCH_def Command_TXN_def Command_SEQUENCE_def

text \<open>Field assignments \<^verbatim>\<open>m.Field = x\<close>.\<close>

fun set_cmdTable :: "bytes \<Rightarrow> Command \<Rightarrow> Command" where
  "set_cmdTable x (Command a b c d e f g h i j k) = Command x b c d e f g h i j k"

fun set_cmdType :: "u32 \<Rightarrow> Command \<Rightarrow> Command" where
  "set_cmdType x (Command a b c d e f g h i j k) = Command a x c d e f g h i j k"

fun set_cmdKv :: "KeyValue option \<Rightarrow> Command \<Rightarrow> Command" where
  "set_cmdKv x (Command a b c d e f g h i j k) = Command a b x d e f g h i j k"

fun set_cmdLeaderIndex :: "u64 option \<Rightarrow> Command \<Rightarrow> Command" where
  "set_cmdLeaderIndex x (Command a b c d e f g h i j k) = Command a b c x e f g h i j k"

fun set_cmdBatch :: "KeyValue list \<Rightarrow> Command \<Rightarrow> Command" where
  "set_cmdBatch x (Command a b c d e f g h i j k) = Command a b c d x f g h i j k"

fun set_cmdTxn :: "Txn option \<Rightarrow> Command \<Rightarrow> Command" where
  "set_cmdTxn x (Command a b c d e f g h i j k) = Command a b c d e x g h i j k"

fun set_cmdRangeEnd :: "bytes option \<Rightarrow> Command \<Rightarrow> Command" where
  "set_cmdRangeEnd x (Command a b c d e f g h i j k) = Command a b c d e f x h i j k"

fun set_cmdPrevKvs :: "bool \<Rightarrow> Command \<Rightarrow> Command" where
  "set_cmdPrevKvs x (Command a b c d e f g h i j k) = Command a b c d e f g x i j k"

fun set_cmdSequence :: "Command list \<Rightarrow> Command \<Rightarrow> Command" where
  "set_cmdSequence x (Command a b c d e f g h i j k) = Command a b c d e f g h x j k"

fun set_cmdCount :: "bool \<Rightarrow> Command \<Rightarrow> Command" where
  "set_cmdCount x (Command a b c d e f g h i j k) = Command a b c d e f g h i x k"

fun set_cmdUnknown :: "bytes \<Rightarrow> Command \<Rightarrow> Command" where
  "set_cmdUnknown x (Command a b c d e f g h i j k) = Command a b c d e f g h i j x"

section \<open>The codec\<close>

fun Command_SizeVT :: "Command \<Rightarrow> nat" where
  "Command_SizeVT (Command table type kv leaderIndex batch txn rangeEnd prevKvs sequence count unknown) =
     sizeBytes table + sizeVarint (scast type)
     + sizePresentBytes (map_option KeyValue_SizeVT kv)
     + sizePresentVarint leaderIndex
     + sizeRepeated 1 KeyValue_SizeVT batch
     + sizePresentBytes (map_option Txn_SizeVT txn)
     + sizePresentBytes (map_option length rangeEnd)
     + sizeBool prevKvs
     + sizeRepeated 1 Command_SizeVT sequence
     + sizeBool count + length unknown"

fun Command_MarshalVT :: "Command \<Rightarrow> bytes" where
  "Command_MarshalVT (Command table type kv leaderIndex batch txn rangeEnd prevKvs sequence count unknown) =
     (let d = unknown;
          d = optBool [0x58] count d;
          d = putRepeated [0x52] Command_MarshalVT sequence d;
          d = optBool [0x48] prevKvs d;
          d = presentBytes [0x42] rangeEnd d;
          d = presentMessage [0x3a] Txn_MarshalVT txn d;
          d = putRepeated [0x32] KeyValue_MarshalVT batch d;
          d = presentVarint [0x28] leaderIndex d;
          d = presentMessage [0x1a] KeyValue_MarshalVT kv d;
          d = optVarint [0x10] (scast type) d
      in optBytes [0x0a] table d)"

text \<open>The decoder with the recursive call as an argument, then with its depth as fuel.\<close>

definition Command_fields :: "(bytes \<Rightarrow> Command \<Rightarrow> proto_error + Command) \<Rightarrow> int \<Rightarrow> Command field option" where
  "Command_fields unmarshal fieldNum =
     (if fieldNum = 1 then Some (BytesField (\<lambda>b m. Inr (set_cmdTable b m)))
      else if fieldNum = 2 then Some (VarintField (\<lambda>v m. set_cmdType (ucast v) m))
      else if fieldNum = 3 then Some (BytesField (\<lambda>b m.
          rbind (KeyValue_UnmarshalVT b (case cmdKv m of None \<Rightarrow> emptyKeyValue | Some x \<Rightarrow> x))
            (\<lambda>x. Inr (set_cmdKv (Some x) m))))
      else if fieldNum = 5 then Some (VarintField (\<lambda>v m. set_cmdLeaderIndex (Some v) m))
      else if fieldNum = 6 then Some (BytesField (\<lambda>b m.
          rbind (KeyValue_UnmarshalVT b emptyKeyValue) (\<lambda>x. Inr (set_cmdBatch (cmdBatch m @ [x]) m))))
      else if fieldNum = 7 then Some (BytesField (\<lambda>b m.
          rbind (Txn_UnmarshalVT b (case cmdTxn m of None \<Rightarrow> emptyTxn | Some x \<Rightarrow> x))
            (\<lambda>x. Inr (set_cmdTxn (Some x) m))))
      else if fieldNum = 8 then Some (BytesField (\<lambda>b m. Inr (set_cmdRangeEnd (Some b) m)))
      else if fieldNum = 9 then Some (VarintField (\<lambda>v m. set_cmdPrevKvs (v \<noteq> 0) m))
      else if fieldNum = 10 then Some (BytesField (\<lambda>b m.
          rbind (unmarshal b emptyCommand) (\<lambda>x. Inr (set_cmdSequence (cmdSequence m @ [x]) m))))
      else if fieldNum = 11 then Some (VarintField (\<lambda>v m. set_cmdCount (v \<noteq> 0) m))
      else None)"

fun command_unmarshal :: "nat \<Rightarrow> bytes \<Rightarrow> Command \<Rightarrow> proto_error + Command" where
  "command_unmarshal 0 dAtA m = Inr m"
| "command_unmarshal (Suc n) dAtA m =
     unmarshal_loop (Command_fields (command_unmarshal n))
       (\<lambda>b m. set_cmdUnknown (cmdUnknown m @ b) m) (length dAtA) dAtA m"

definition Command_UnmarshalVT :: "bytes \<Rightarrow> Command \<Rightarrow> proto_error + Command" where
  "Command_UnmarshalVT dAtA m = command_unmarshal (length dAtA) dAtA m"

text \<open>The depth is enough: the decoder satisfies the recursion of the source.\<close>

lemma Command_fields_agree:
  assumes "\<And>c m. length c < n \<Longrightarrow> u c m = u' c m"
  shows "field_agree n (Command_fields u fn) (Command_fields u' fn)"
  using assms by (auto simp: Command_fields_def field_agree_def intro!: rbind_cong)

lemma command_unmarshal_fuel:
  "length bs \<le> n \<Longrightarrow> length bs \<le> n' \<Longrightarrow> command_unmarshal n bs m = command_unmarshal n' bs m"
proof (induction n arbitrary: n' bs m)
  case 0
  then show ?case by (cases n') simp_all
next
  case (Suc k)
  show ?case
  proof (cases n')
    case 0
    with Suc.prems show ?thesis by simp
  next
    case (Suc k')
    have "field_agree (length bs) (Command_fields (command_unmarshal k) fn)
        (Command_fields (command_unmarshal k') fn)" for fn
      using Suc.IH [of _ k'] Suc.prems \<open>n' = Suc k'\<close> by (intro Command_fields_agree) auto
    then show ?thesis
      using \<open>n' = Suc k'\<close> by (auto intro: unmarshal_loop_cong)
  qed
qed

lemma Command_UnmarshalVT_unfold:
  "Command_UnmarshalVT dAtA m =
     unmarshal_loop (Command_fields Command_UnmarshalVT)
       (\<lambda>b m. set_cmdUnknown (cmdUnknown m @ b) m) (length dAtA) dAtA m"
proof -
  have "Command_UnmarshalVT dAtA m = command_unmarshal (Suc (length dAtA)) dAtA m"
    unfolding Command_UnmarshalVT_def by (rule command_unmarshal_fuel) simp_all
  also have "\<dots> = unmarshal_loop (Command_fields Command_UnmarshalVT)
       (\<lambda>b m. set_cmdUnknown (cmdUnknown m @ b) m) (length dAtA) dAtA m"
    unfolding command_unmarshal.simps
  proof (rule unmarshal_loop_cong [OF _ order_refl])
    fix fn
    show "field_agree (length dAtA) (Command_fields (command_unmarshal (length dAtA)) fn)
        (Command_fields Command_UnmarshalVT fn)"
      unfolding Command_UnmarshalVT_def
      by (intro Command_fields_agree command_unmarshal_fuel) simp_all
  qed
  finally show ?thesis .
qed

section \<open>Size and round trip\<close>

lemma Command_MarshalVT_length: "length (Command_MarshalVT m) = Command_SizeVT m"
proof (induction m)
  case (Command table type kv leaderIndex batch txn rangeEnd prevKvs sequence count unknown)
  then have "length (putRepeated [0x52] Command_MarshalVT sequence d)
      = sizeRepeated 1 Command_SizeVT sequence + length d" for d
    using length_putRepeated [of sequence Command_MarshalVT Command_SizeVT "[0x52]"] by simp
  then show ?case
    by (simp add: Let_def length_opt length_present kv.size_repeated kv.size_message
        tx.size_message)
qed

fun Command_wf :: "Command \<Rightarrow> bool" where
  "Command_wf (Command table type kv leaderIndex batch txn rangeEnd prevKvs sequence count unknown) \<longleftrightarrow>
     pred_option KeyValue_wf kv \<and> list_all KeyValue_wf batch \<and> pred_option Txn_wf txn
     \<and> list_all Command_wf sequence \<and> unknown = []"

abbreviation CF :: "int \<Rightarrow> Command field option" where
  "CF \<equiv> Command_fields Command_UnmarshalVT"

lemmas Command_loop =
  loop_optBytes [where fields = CF and fn = 1 and f = set_cmdTable]
  loop_optVarint [where fields = CF and fn = 2 and f = "\<lambda>v m. set_cmdType (ucast v) m"]
  kv.loop_message [where fields = CF and fn = 3 and store = set_cmdKv]
  loop_presentVarint [where fields = CF and fn = 5 and f = set_cmdLeaderIndex]
  kv.loop_repeated [where fields = CF and fn = 6 and n = 1
    and add = "\<lambda>x m. set_cmdBatch (cmdBatch m @ [x]) m"]
  tx.loop_message [where fields = CF and fn = 7 and store = set_cmdTxn]
  loop_presentBytes [where fields = CF and fn = 8 and f = set_cmdRangeEnd]
  loop_optBool [where fields = CF and fn = 9 and f = "\<lambda>v m. set_cmdPrevKvs (v \<noteq> 0) m"]
  loop_putRepeated [where fields = CF and fn = 10 and marshal = Command_MarshalVT
    and add = "\<lambda>x m. set_cmdSequence (cmdSequence m @ [x]) m"]
  loop_optBool [where fields = CF and fn = 11 and f = "\<lambda>v m. set_cmdCount (v \<noteq> 0) m"]

lemma Command_fold [simp]:
  "fold (\<lambda>x m. set_cmdBatch (cmdBatch m @ [x]) m) xs m = set_cmdBatch (cmdBatch m @ xs) m"
  "fold (\<lambda>x m. set_cmdSequence (cmdSequence m @ [x]) m) ys m = set_cmdSequence (cmdSequence m @ ys) m"
  subgoal by (induction xs arbitrary: m; case_tac m; simp)
  subgoal by (induction ys arbitrary: m; case_tac m; simp)
  done

lemma Command_UnmarshalVT_MarshalVT:
  "Command_wf m \<Longrightarrow> Command_SizeVT m < 2 ^ 63 \<Longrightarrow> Command_UnmarshalVT (Command_MarshalVT m) emptyCommand = Inr m"
proof (induction m)
  case (Command table type kv leaderIndex batch txn rangeEnd prevKvs sequence count unknown)
  let ?m = "Command table type kv leaderIndex batch txn rangeEnd prevKvs sequence count unknown"
  have len: "length (Command_MarshalVT ?m) < 2 ^ 63"
    using Command.prems(2) by (simp only: Command_MarshalVT_length)
  have sz: "sizeBytes table < 2 ^ 63" "sizePresentBytes (map_option KeyValue_SizeVT kv) < 2 ^ 63"
    "sizeRepeated 1 KeyValue_SizeVT batch < 2 ^ 63"
    "sizePresentBytes (map_option Txn_SizeVT txn) < 2 ^ 63"
    "sizePresentBytes (map_option length rangeEnd) < 2 ^ 63"
    "sizeRepeated 1 Command_SizeVT sequence < 2 ^ 63"
    using Command.prems(2) by simp_all
  have small: "Command_SizeVT x < 2 ^ 63" if "x \<in> set sequence" for x
    using size_le_repeated [OF that] sz(6) by (rule le_less_trans)
  have IH: "Command_UnmarshalVT (Command_MarshalVT x) emptyCommand = Inr x" if "x \<in> set sequence" for x
    using Command.IH [OF that] Command.prems(1) that small [OF that] by (simp add: list_all_iff)
  have IHlen: "length (Command_MarshalVT x) < 2 ^ 63" if "x \<in> set sequence" for x
    using small [OF that] by (simp only: Command_MarshalVT_length)
  show ?case
    unfolding Command_UnmarshalVT_unfold [of _ emptyCommand]
    using len Command.prems(1) sz IH IHlen
    by (simp add: Let_def Command_loop Command_fields_def emptyCommand_def del: One_nat_def)
qed

interpretation cmd: message_codec Command_SizeVT Command_MarshalVT Command_UnmarshalVT
  emptyCommand Command_wf
  by unfold_locales (simp_all add: Command_MarshalVT_length Command_UnmarshalVT_MarshalVT)

section \<open>Properties\<close>

text \<open>
  C12: the codec of commands is exact. \<^verbatim>\<open>MarshalVT\<close> fills the buffer of \<^verbatim>\<open>SizeVT\<close> bytes it
  allocates, and \<^verbatim>\<open>UnmarshalVT\<close> of those bytes gives the command back, whatever its type,
  transaction, batch and nested sequence of commands, provided it carries no unknown fields, no
  empty but non-nil range end in an operation (proto3 does not send it) and its length fits an \<^verbatim>\<open>int\<close>.
\<close>

theorem Command_codec:
  assumes "Command_wf m" and "Command_SizeVT m < 2 ^ 63"
  shows "length (Command_MarshalVT m) = Command_SizeVT m
    \<and> Command_UnmarshalVT (Command_MarshalVT m) emptyCommand = Inr m"
  using cmd.marshal_size cmd.unmarshal_marshal [OF assms] by blast

definition exNested :: Command where
  "exNested = Command [116] Command_SEQUENCE None (Some 300) [] None None False
     [Command [] Command_DELETE (Some (emptyKeyValue\<lparr>kvKey := [1, 2]\<rparr>)) None [] None (Some []) True [] True [],
      Command [] Command_PUT_BATCH None None [emptyKeyValue\<lparr>kvKey := [3], kvValue := [4]\<rparr>] None None False [] False []]
     False []"

theorem Command_codec_witness:
  "length (Command_MarshalVT exNested) \<le> 100
     \<and> Command_UnmarshalVT (Command_MarshalVT exNested) emptyCommand = Inr exNested"
proof -
  have "Command_SizeVT exNested \<le> 100" by code_simp
  moreover have "Command_wf exNested" by (simp add: exNested_def KeyValue_wf_def emptyKeyValue_def)
  ultimately show ?thesis using Command_codec [of exNested] by simp
qed


text \<open>
  The results of commands, which replicas return through the Raft library as bytes, survive
  their codec: what \<^verbatim>\<open>Update\<close> stores in an entry decodes to the result it was made of.
\<close>

theorem CommandResult_codec:
  assumes "CommandResult_wf m" and "CommandResult_SizeVT m < 2 ^ 63"
  shows "length (CommandResult_MarshalVT m) = CommandResult_SizeVT m
    \<and> CommandResult_UnmarshalVT (CommandResult_MarshalVT m) emptyCommandResult = Inr m"
  using cr.marshal_size cr.unmarshal_marshal [OF assms] by blast

definition exResult :: CommandResult where
  "exResult = emptyCommandResult\<lparr>crRevision := 300, crResponses :=
     [emptyResponseOp\<lparr>reResponse := Some (ResponseOp_ResponseDeleteRange
        (emptyResponseOp_DeleteRange\<lparr>sdDeleted := 1, sdPrevKvs := [emptyKeyValue\<lparr>kvKey := [1], kvValue := [2]\<rparr>]\<rparr>))\<rparr>]\<rparr>"

theorem CommandResult_codec_witness:
  "CommandResult_UnmarshalVT (CommandResult_MarshalVT exResult) emptyCommandResult = Inr exResult"
proof -
  have "CommandResult_SizeVT exResult \<le> 100" by code_simp
  then have "CommandResult_SizeVT exResult < 2 ^ 63" by simp
  moreover have "CommandResult_wf exResult"
    by (simp add: exResult_def CommandResult_wf_def emptyCommandResult_def ResponseOp_wf_def emptyResponseOp_def
        ResponseOp_DeleteRange_wf_def emptyResponseOp_DeleteRange_def KeyValue_wf_def emptyKeyValue_def)
  ultimately show ?thesis using CommandResult_codec [of exResult] by simp
qed

end
