(* ===== verification/Key_Codec.thy ===== *)
theory Key_Codec
  imports Regatta_Prelude
begin

text \<open>
  The storage keys of a table (\<^verbatim>\<open>storage/table/key/key.go\<close>, \<^verbatim>\<open>v1.go\<close>) and the keys the
  state machine builds from them (\<^verbatim>\<open>storage/table/fsm/fsm.go\<close>): a four byte header with the
  version, a type byte, the key itself. Readers and writers are the in-memory buffers the
  program uses, which do not fail: a writer is the list of bytes written so far, a reader the
  list of bytes still to read.
\<close>

section \<open>Keys and their codec\<close>

definition TypeUnknown :: byte where "TypeUnknown = 0"
definition TypeUser :: byte where "TypeUser = 1"
definition TypeSystem :: byte where "TypeSystem = 2"

lemmas Type_defs = TypeUnknown_def TypeUser_def TypeSystem_def

definition keyHeaderLen :: nat where "keyHeaderLen = 4"
definition V1 :: byte where "V1 = 1"
definition UnknownVersion :: byte where "UnknownVersion = 0"
definition V1KeyLen :: nat where "V1KeyLen = 1024"
definition keyV1BodyLen :: nat where "keyV1BodyLen = V1KeyLen - keyHeaderLen"

lemmas V1_defs = V1_def UnknownVersion_def keyHeaderLen_def V1KeyLen_def keyV1BodyLen_def

datatype key_error = ErrUnknownKeyVersion | ErrMissingKeyHeader | ErrMalformedKeyHeader | ErrMissingKeyType

record Key =
  keyVersion :: byte
  keyType :: byte
  keyKey :: bytes

text \<open>\<^verbatim>\<open>keyV1\<close>: the body of a version 1 key.\<close>

definition keyV1_Encode :: "byte \<Rightarrow> bytes \<Rightarrow> bytes \<Rightarrow> nat \<times> bytes" where
  "keyV1_Encode typ k w = (1 + length k, w @ typ # k)"

definition keyV1_Decode :: "bytes \<Rightarrow> key_error + (byte \<times> bytes)" where
  "keyV1_Decode r = (case take keyV1BodyLen r of [] \<Rightarrow> Inl ErrMissingKeyType | b # bs \<Rightarrow> Inr (b, bs))"

definition v1DecodeRaw :: "bytes \<Rightarrow> byte \<times> bytes" where
  "v1DecodeRaw raw = (if length raw > 1 then (hd raw, tl raw) else (TypeUnknown, []))"

definition V1Len :: "nat \<Rightarrow> nat" where
  "V1Len userkeyLen = keyHeaderLen + 1 + userkeyLen"

definition V1MinKey :: bytes where
  "V1MinKey = replicate (keyV1BodyLen - 1) 0"

definition V1MaxKey :: bytes where
  "V1MaxKey = replicate (keyV1BodyLen - 1) 255"

definition reset :: "Key \<Rightarrow> Key" where
  "reset k = k\<lparr>keyVersion := UnknownVersion, keyType := TypeUnknown, keyKey := []\<rparr>"

text \<open>\<open>Decode r key\<close> is the error, if any, and the key after the call.\<close>

definition Decode :: "bytes \<Rightarrow> Key \<Rightarrow> key_error option \<times> Key" where
  "Decode r key =
     (let key = reset key; header = take keyHeaderLen r in
      if length header < keyHeaderLen then (Some ErrMissingKeyHeader, key)
      else if \<exists>i \<in> {1..<length header}. header ! i \<noteq> 0 then (Some ErrMalformedKeyHeader, key)
      else if header ! 0 = V1 then
        (case keyV1_Decode (drop keyHeaderLen r) of
           Inl e \<Rightarrow> (Some e, key)
         | Inr (typ, k) \<Rightarrow> (None, key\<lparr>keyVersion := V1, keyType := typ, keyKey := k\<rparr>))
      else (Some ErrUnknownKeyVersion, key))"

text \<open>\<open>Encode w key\<close> is the result, the buffer and the key after the call.\<close>

definition Encode :: "bytes \<Rightarrow> Key \<Rightarrow> (key_error + nat) \<times> bytes \<times> Key" where
  "Encode w key =
     (let key = (if keyVersion key = UnknownVersion then key\<lparr>keyVersion := V1\<rparr> else key);
          header = keyVersion key # replicate (keyHeaderLen - 1) 0;
          w = w @ header in
      if keyVersion key = V1 then
        (let (n, w') = keyV1_Encode (keyType key) (keyKey key) w in (Inr (keyHeaderLen + n), w', key))
      else (Inl ErrUnknownKeyVersion, w, key))"

definition DecodeBytes :: "bytes \<Rightarrow> key_error + Key" where
  "DecodeBytes raw =
     (if length raw < keyHeaderLen then Inl ErrMissingKeyHeader
      else if raw ! 0 = V1 then
        (let (typ, k) = v1DecodeRaw (drop keyHeaderLen raw) in
         Inr \<lparr>keyVersion = V1, keyType = typ, keyKey = k\<rparr>)
      else Inl ErrUnknownKeyVersion)"

section \<open>The state machine's keys\<close>

text \<open>
  \<^verbatim>\<open>encodeUserKey\<close> writes into an empty pooled buffer; its callers use the buffer's bytes.
  \<^verbatim>\<open>mustEncodeKey\<close> panics (\<open>None\<close>) where encoding fails.
\<close>

definition encodeUserKey :: "bytes \<Rightarrow> bytes \<Rightarrow> key_error option \<times> bytes" where
  "encodeUserKey dst keyBytes =
     (case Encode dst \<lparr>keyVersion = UnknownVersion, keyType = TypeUser, keyKey = keyBytes\<rparr> of
        (Inl e, w, _) \<Rightarrow> (Some e, w)
      | (Inr n, w, _) \<Rightarrow> (None, w))"

definition mustEncodeKey :: "Key \<Rightarrow> bytes option" where
  "mustEncodeKey k =
     (case Encode [] k of
        (Inl e, _, _) \<Rightarrow> None
      | (Inr n, buff, _) \<Rightarrow> Some (take n (buff @ replicate (n - length buff) 0)))"

definition ascii :: "string \<Rightarrow> bytes" where
  "ascii s = map of_char s"

definition wildcard :: bytes where "wildcard = [0]"

definition sysLocalIndex :: bytes where
  "sysLocalIndex = the (mustEncodeKey \<lparr>keyVersion = UnknownVersion, keyType = TypeSystem, keyKey = ascii ''index''\<rparr>)"

definition sysLeaderIndex :: bytes where
  "sysLeaderIndex = the (mustEncodeKey \<lparr>keyVersion = UnknownVersion, keyType = TypeSystem, keyKey = ascii ''leader_index''\<rparr>)"

definition maxUserKey :: bytes where
  "maxUserKey = the (mustEncodeKey \<lparr>keyVersion = UnknownVersion, keyType = TypeUser, keyKey = V1MaxKey\<rparr>)"

text \<open>
  \<^verbatim>\<open>incrementRightmostByte\<close>: the loop over \<^verbatim>\<open>i\<close> from the last index down, on the reversed
  slice; when every byte wraps a 1 is prepended (\<^verbatim>\<open>prependByte\<close>).
\<close>

definition prependByte :: "bytes \<Rightarrow> byte \<Rightarrow> bytes" where
  "prependByte x y = y # x"

fun increment_rev :: "bytes \<Rightarrow> bytes \<times> bool" where
  "increment_rev [] = ([], False)"
| "increment_rev (b # bs) =
     (let b' = b + 1 in
      if b' \<noteq> 0 then (b' # bs, False)
      else if bs = [] then ([b'], True)
      else (let (bs', pre) = increment_rev bs in (b' # bs', pre)))"

definition incrementRightmostByte :: "bytes \<Rightarrow> bytes" where
  "incrementRightmostByte inp =
     (let (r, pre) = increment_rev (rev inp) in if pre then prependByte (rev r) 1 else rev r)"

section \<open>What the encoding gives\<close>

text \<open>The prefix of every user key.\<close>

definition userPrefix :: bytes where
  "userPrefix = [V1, 0, 0, 0, TypeUser]"

abbreviation userKey :: "bytes \<Rightarrow> bytes" where
  "userKey k \<equiv> userPrefix @ k"

lemma Encode_V1:
  "Encode w \<lparr>keyVersion = UnknownVersion, keyType = t, keyKey = k\<rparr>
     = (Inr (5 + length k), w @ [V1, 0, 0, 0, t] @ k, \<lparr>keyVersion = V1, keyType = t, keyKey = k\<rparr>)"
  by (simp add: Encode_def keyV1_Encode_def V1_defs numeral_eq_Suc)

lemma encodeUserKey_eq [simp]: "encodeUserKey dst k = (None, dst @ userKey k)"
  by (simp add: encodeUserKey_def Encode_V1 userPrefix_def)

lemma mustEncodeKey_eq:
  "mustEncodeKey \<lparr>keyVersion = UnknownVersion, keyType = t, keyKey = k\<rparr> = Some ([V1, 0, 0, 0, t] @ k)"
  by (simp add: mustEncodeKey_def Encode_V1)

lemma sysLocalIndex_eq: "sysLocalIndex = [V1, 0, 0, 0, TypeSystem] @ ascii ''index''"
  by (simp add: sysLocalIndex_def mustEncodeKey_eq)

lemma sysLeaderIndex_eq: "sysLeaderIndex = [V1, 0, 0, 0, TypeSystem] @ ascii ''leader_index''"
  by (simp add: sysLeaderIndex_def mustEncodeKey_eq)

lemma userKey_le_iff [simp]: "userKey a \<le> userKey b \<longleftrightarrow> a \<le> b"
  by (rule append_le_append)

lemma userKey_less_iff [simp]: "userKey a < userKey b \<longleftrightarrow> a < b"
  by (rule append_less_append)

definition is_userKey :: "bytes \<Rightarrow> bool" where
  "is_userKey k \<longleftrightarrow> take 5 k = userPrefix"

lemma length_userPrefix [simp]: "length userPrefix = 5"
  by (simp add: userPrefix_def)

lemma is_userKey_userKey [simp]: "is_userKey (userKey k)"
  by (simp add: is_userKey_def)

lemma is_userKey_iff: "is_userKey k \<longleftrightarrow> k = userKey (drop 5 k)"
  unfolding is_userKey_def
  by (metis append_eq_conv_conj append_take_drop_id length_userPrefix)

lemma is_userKey_obtain:
  assumes "is_userKey k"
  obtains u where "k = userKey u"
  using assms is_userKey_iff by blast

lemma sys_not_user [simp]:
  "\<not> is_userKey sysLocalIndex" "\<not> is_userKey sysLeaderIndex"
  by (simp_all add: is_userKey_def sysLocalIndex_eq sysLeaderIndex_eq userPrefix_def Type_defs)

lemma sys_neq [simp]:
  "sysLocalIndex \<noteq> sysLeaderIndex" "sysLeaderIndex \<noteq> sysLocalIndex"
  "userKey k \<noteq> sysLocalIndex" "userKey k \<noteq> sysLeaderIndex"
  "sysLocalIndex \<noteq> userKey k" "sysLeaderIndex \<noteq> userKey k"
  subgoal by (simp add: sysLocalIndex_eq sysLeaderIndex_eq ascii_def)
  subgoal by (simp add: sysLocalIndex_eq sysLeaderIndex_eq ascii_def)
  by (metis is_userKey_userKey sys_not_user)+

lemma DecodeBytes_userKey:
  "DecodeBytes (userKey k) = Inr \<lparr>keyVersion = V1,
     keyType = (if k = [] then TypeUnknown else TypeUser), keyKey = k\<rparr>"
  by (simp add: DecodeBytes_def userPrefix_def v1DecodeRaw_def keyHeaderLen_def)

lemmas DecodeBytes_userPrefix = DecodeBytes_userKey [of "[]", simplified]

text \<open>The upper bound of a scan to the end: above every user key and below the system keys.\<close>

definition userEnd :: bytes where
  "userEnd = incrementRightmostByte maxUserKey"

lemma increment_rev_replicate:
  "bs \<noteq> [] \<Longrightarrow> increment_rev (replicate n 255 @ bs)
     = (let (r, pre) = increment_rev bs in (replicate n 0 @ r, pre))"
  by (induction n) (auto simp: split_beta)

lemma userEnd_eq: "userEnd = [V1, 0, 0, 0, 2] @ replicate 1019 0"
proof -
  have "maxUserKey = [V1, 0, 0, 0, 1] @ replicate 1019 255"
    by (simp only: maxUserKey_def mustEncodeKey_eq option.sel V1MaxKey_def)
      (simp add: V1_defs Type_defs)
  then have "rev maxUserKey = replicate 1019 255 @ [1, 0, 0, 0, V1]"
    by (metis (no_types, lifting) append_Cons append_Nil append_assoc rev.simps rev_append rev_replicate)
  then have "increment_rev (rev maxUserKey) = (replicate 1019 0 @ [2, 0, 0, 0, V1], False)"
    using increment_rev_replicate [of "[1, 0, 0, 0, V1]" 1019] by simp
  then show ?thesis
    by (simp add: userEnd_def incrementRightmostByte_def)
qed

lemma userKey_less_userEnd [simp]: "userKey k < userEnd"
  by (simp add: userEnd_eq userPrefix_def Type_defs)

lemma userEnd_le_sys [simp]: "userEnd \<le> sysLocalIndex" "userEnd \<le> sysLeaderIndex"
proof -
  have e: "userEnd = [V1, 0, 0, 0, 2, 0] @ replicate 1018 0"
    using replicate_Suc [of 1018 "0 :: byte"] by (simp add: userEnd_eq)
  show "userEnd \<le> sysLocalIndex" "userEnd \<le> sysLeaderIndex"
    unfolding e by (simp_all add: sysLocalIndex_eq sysLeaderIndex_eq Type_defs ascii_def)
qed

text \<open>The keys a table holds.\<close>

definition table_key :: "bytes \<Rightarrow> bool" where
  "table_key k \<longleftrightarrow> is_userKey k \<or> k = sysLocalIndex \<or> k = sysLeaderIndex"

lemma table_key_simps [simp]:
  "table_key (userKey k)" "table_key sysLocalIndex" "table_key sysLeaderIndex"
  by (simp_all add: table_key_def)

text \<open>On them, the bounds of a scan select user keys only.\<close>

lemma sys_not_below [simp]:
  "\<not> sysLocalIndex < userKey b" "\<not> sysLeaderIndex < userKey b"
  "\<not> sysLocalIndex < userEnd" "\<not> sysLeaderIndex < userEnd"
  using userEnd_le_sys userKey_less_userEnd [of b]
  by (meson leD less_trans order_le_less_trans order_less_le_trans)+

lemma table_key_below_userEnd:
  assumes "table_key k"
  shows "k < userEnd \<longleftrightarrow> is_userKey k"
  using assms by (auto simp: table_key_def elim!: is_userKey_obtain)

lemma table_key_below_userKey:
  assumes "table_key k"
  shows "k < userKey b \<longleftrightarrow> is_userKey k \<and> drop 5 k < b"
  using assms by (auto simp: table_key_def elim!: is_userKey_obtain)

lemma userKey_le_table_key: "is_userKey k \<Longrightarrow> userKey a \<le> k \<longleftrightarrow> a \<le> drop 5 k"
  by (auto elim!: is_userKey_obtain)

section \<open>Properties\<close>

text \<open>
  C27: encoding a user key keeps the order, and so every scan: encoded keys compare as the keys do;
  the bound used for a scan to the end, \<^verbatim>\<open>incrementRightmostByte(maxUserKey)\<close>, is above every
  user key of whatever length and not above the table's system keys, which no user key equals.
\<close>

theorem encodeUserKey_order:
  "bytes_Compare (snd (encodeUserKey [] a)) (snd (encodeUserKey [] b)) = bytes_Compare a b
   \<and> snd (encodeUserKey [] a) < incrementRightmostByte maxUserKey
   \<and> incrementRightmostByte maxUserKey \<le> sysLocalIndex \<and> incrementRightmostByte maxUserKey \<le> sysLeaderIndex
   \<and> snd (encodeUserKey [] a) \<notin> {sysLocalIndex, sysLeaderIndex}"
  using userKey_less_userEnd [of a] userEnd_le_sys
  by (auto simp: bytes_Compare_def userEnd_def)

text \<open>
  C28: an encoded key decodes to itself. The streaming decoder returns the type and the key for
  keys of at most 1019 bytes, the decoder of slices for keys of any length but the empty one,
  which it reads as a key of unknown type.
\<close>

theorem Key_roundtrip:
  assumes "Encode [] \<lparr>keyVersion = UnknownVersion, keyType = t, keyKey = k\<rparr> = (Inr n, w, key)"
  shows "n = length w \<and> n = V1Len (length k)
    \<and> (length k \<le> 1019 \<longrightarrow> Decode w any = (None, any\<lparr>keyVersion := V1, keyType := t, keyKey := k\<rparr>))
    \<and> DecodeBytes w = Inr \<lparr>keyVersion = V1, keyType = (if k = [] then TypeUnknown else t), keyKey = k\<rparr>"
proof -
  have w: "w = [V1, 0, 0, 0, t] @ k" "n = 5 + length k"
    using assms by (simp_all add: Encode_V1)
  have "([0, 0, 0] :: bytes) ! (i - Suc 0) = 0" if "Suc 0 \<le> i" "i < Suc (Suc (Suc (Suc 0)))" for i
    using that by (auto simp: less_Suc_eq)
  then show ?thesis
    by (auto simp: w V1Len_def DecodeBytes_def v1DecodeRaw_def Decode_def keyV1_Decode_def reset_def V1_defs
        Let_def min_def split: list.splits)
qed

theorem Key_roundtrip_witness:
  "\<exists>n w key. Encode [] \<lparr>keyVersion = UnknownVersion, keyType = TypeUser, keyKey = [97, 98]\<rparr> = (Inr n, w, key)
     \<and> DecodeBytes w = Inr \<lparr>keyVersion = V1, keyType = TypeUser, keyKey = [97, 98]\<rparr>"
proof -
  obtain n w key where e: "Encode [] \<lparr>keyVersion = UnknownVersion, keyType = TypeUser, keyKey = [97, 98]\<rparr> = (Inr n, w, key)"
    by (simp add: Encode_V1)
  with Key_roundtrip [OF e] show ?thesis by auto
qed

end
