(* ===== verification/Pebble_Interface.thy ===== *)
theory Pebble_Interface
  imports Regatta_Prelude
begin

text \<open>
  Pebble, the storage engine under a table, is third-party code: a parameter of the model.
  \<open>reader\<close> is \<^verbatim>\<open>pebble.Reader\<close> (a DB, a snapshot or an indexed batch), \<open>pebble\<close> the operations
  of \<^verbatim>\<open>pebble.DB\<close> and \<^verbatim>\<open>pebble.Batch\<close> the program calls. \<open>pebble_laws\<close> states their
  documented behaviour and \<open>pebble_total\<close> that no operation fails; \<open>mem_pebble\<close> is an
  in-memory engine with both.
\<close>

section \<open>Readers\<close>

datatype pebble_error = ErrNotFound | PebbleError string

text \<open>
  \<open>rdIter r lo hi\<close> lists what an iterator with these bounds visits from \<^verbatim>\<open>First\<close> by \<^verbatim>\<open>Next\<close>;
  \<open>rdSeekPrefixGE r k\<close> is where \<^verbatim>\<open>SeekPrefixGE(k)\<close> leaves an unbounded iterator.
\<close>

record reader =
  rdGet :: "bytes \<Rightarrow> pebble_error + bytes"
  rdIter :: "bytes option \<Rightarrow> bytes option \<Rightarrow> (bytes \<times> bytes) list"
  rdSeekPrefixGE :: "bytes \<Rightarrow> (bytes \<times> bytes) option"

text \<open>The \<^verbatim>\<open>Split\<close> function of the comparer (\<^verbatim>\<open>pebble/pebble.go\<close>): the whole key is the prefix.\<close>

definition split :: "bytes \<Rightarrow> nat" where
  "split b = length b"

definition contents :: "reader \<Rightarrow> (bytes \<times> bytes) list" where
  "contents r = rdIter r None None"

definition in_bounds :: "bytes option \<Rightarrow> bytes option \<Rightarrow> bytes \<Rightarrow> bool" where
  "in_bounds lo hi k \<longleftrightarrow>
     (case lo of None \<Rightarrow> True | Some l \<Rightarrow> l \<le> k) \<and> (case hi of None \<Rightarrow> True | Some h \<Rightarrow> k < h)"

text \<open>The documented behaviour of a reader over a comparer with the given split.\<close>

definition reader_laws :: "(bytes \<Rightarrow> nat) \<Rightarrow> reader \<Rightarrow> bool" where
  "reader_laws spl r \<longleftrightarrow>
     sorted_keys (contents r)
     \<and> (\<forall>lo hi. rdIter r lo hi = filter (\<lambda>e. in_bounds lo hi (fst e)) (contents r))
     \<and> (\<forall>k. rdGet r k = (case map_of (contents r) k of None \<Rightarrow> Inl ErrNotFound | Some v \<Rightarrow> Inr v))
     \<and> (\<forall>k. rdSeekPrefixGE r k =
           find (\<lambda>e. k \<le> fst e \<and> take (spl (fst e)) (fst e) = take (spl k) k) (contents r))"

abbreviation reader_ok :: "reader \<Rightarrow> bool" where
  "reader_ok \<equiv> reader_laws split"

lemma find_key:
  "sorted_keys kvs \<Longrightarrow> find (\<lambda>e. k \<le> fst e \<and> fst e = k) kvs = map_option (Pair k) (map_of kvs k)"
  by (induction kvs) (auto simp: sorted_keys_distinct)

lemma reader_ok_sorted: "reader_ok r \<Longrightarrow> sorted_keys (contents r)"
  by (simp add: reader_laws_def)

lemma reader_ok_iter:
  "reader_ok r \<Longrightarrow> rdIter r lo hi = filter (\<lambda>e. in_bounds lo hi (fst e)) (contents r)"
  by (simp add: reader_laws_def)

lemma reader_ok_get:
  "reader_ok r \<Longrightarrow> rdGet r k = (case map_of (contents r) k of None \<Rightarrow> Inl ErrNotFound | Some v \<Rightarrow> Inr v)"
  by (simp add: reader_laws_def)

text \<open>With the whole key as prefix, \<^verbatim>\<open>SeekPrefixGE\<close> is an exact lookup.\<close>

lemma reader_ok_seek:
  assumes "reader_ok r"
  shows "rdSeekPrefixGE r k = map_option (Pair k) (map_of (contents r) k)"
proof -
  have "rdSeekPrefixGE r k =
      find (\<lambda>e. k \<le> fst e \<and> take (split (fst e)) (fst e) = take (split k) k) (contents r)"
    using assms unfolding reader_laws_def by blast
  also have "\<dots> = find (\<lambda>e. k \<le> fst e \<and> fst e = k) (contents r)"
    by (rule arg_cong [where f = "\<lambda>P. find P _"]) (simp add: split_def)
  finally show ?thesis
    using find_key [OF reader_ok_sorted [OF assms]] by simp
qed

section \<open>Batches and databases\<close>

datatype batch_op = WSet bytes bytes | WDelete bytes | WDeleteRange bytes bytes

fun apply_write :: "batch_op \<Rightarrow> (bytes \<times> bytes) list \<Rightarrow> (bytes \<times> bytes) list" where
  "apply_write (WSet k v) kvs = alist_put k v kvs"
| "apply_write (WDelete k) kvs = filter (\<lambda>e. fst e \<noteq> k) kvs"
| "apply_write (WDeleteRange lo hi) kvs = filter (\<lambda>e. \<not> (lo \<le> fst e \<and> fst e < hi)) kvs"

abbreviation apply_writes :: "batch_op list \<Rightarrow> (bytes \<times> bytes) list \<Rightarrow> (bytes \<times> bytes) list" where
  "apply_writes \<equiv> fold apply_write"

lemma sorted_keys_apply_write: "sorted_keys kvs \<Longrightarrow> sorted_keys (apply_write w kvs)"
  by (cases w) (simp_all add: sorted_keys_alist_put sorted_keys_filter)

lemma sorted_keys_apply_writes: "sorted_keys kvs \<Longrightarrow> sorted_keys (apply_writes ws kvs)"
  by (induction ws arbitrary: kvs) (simp_all add: sorted_keys_apply_write)

text \<open>
  The operations on a database \<open>'d\<close> and on batches \<open>'b\<close>. \<open>pbApply target source\<close> is
  \<^verbatim>\<open>target.Apply(source, nil)\<close>; \<open>pbCommit d b\<close> is the database after \<^verbatim>\<open>b.Commit\<close>.
\<close>

record ('d, 'b) pebble =
  pbReader :: "'d \<Rightarrow> reader"
  pbBatchReader :: "'d \<Rightarrow> 'b \<Rightarrow> reader"
  pbNewBatch :: "'d \<Rightarrow> 'b"
  pbNewIndexedBatch :: "'d \<Rightarrow> 'b"
  pbIndexed :: "'b \<Rightarrow> bool"
  pbApply :: "'b \<Rightarrow> 'b \<Rightarrow> pebble_error + 'b"
  pbClose :: "'b \<Rightarrow> pebble_error option"
  pbSet :: "'b \<Rightarrow> bytes \<Rightarrow> bytes \<Rightarrow> pebble_error + 'b"
  pbDelete :: "'b \<Rightarrow> bytes \<Rightarrow> pebble_error + 'b"
  pbDeleteRange :: "'b \<Rightarrow> bytes \<Rightarrow> bytes \<Rightarrow> pebble_error + 'b"
  pbCommit :: "'d \<Rightarrow> 'b \<Rightarrow> pebble_error + 'd"

text \<open>\<open>W b\<close> are the writes recorded in a batch.\<close>

definition batch_grows :: "('d, 'b) pebble \<Rightarrow> ('b \<Rightarrow> batch_op list) \<Rightarrow> 'b \<Rightarrow> pebble_error + 'b \<Rightarrow> batch_op list \<Rightarrow> bool" where
  "batch_grows P W b res ws \<longleftrightarrow>
     (\<forall>b'. res = Inr b' \<longrightarrow> W b' = W b @ ws \<and> pbIndexed P b' = pbIndexed P b)"

definition pebble_laws :: "('d, 'b) pebble \<Rightarrow> ('b \<Rightarrow> batch_op list) \<Rightarrow> bool" where
  "pebble_laws P W \<longleftrightarrow>
     (\<forall>d. reader_ok (pbReader P d))
     \<and> (\<forall>d. W (pbNewBatch P d) = [] \<and> W (pbNewIndexedBatch P d) = [] \<and> pbIndexed P (pbNewIndexedBatch P d))
     \<and> (\<forall>b k v. batch_grows P W b (pbSet P b k v) [WSet k v])
     \<and> (\<forall>b k. batch_grows P W b (pbDelete P b k) [WDelete k])
     \<and> (\<forall>b lo hi. batch_grows P W b (pbDeleteRange P b lo hi) [WDeleteRange lo hi])
     \<and> (\<forall>b b'. batch_grows P W b (pbApply P b b') (W b'))
     \<and> (\<forall>d b. pbIndexed P b \<longrightarrow> reader_ok (pbBatchReader P d b)
          \<and> contents (pbBatchReader P d b) = apply_writes (W b) (contents (pbReader P d)))
     \<and> (\<forall>d b d'. pbCommit P d b = Inr d' \<longrightarrow>
          contents (pbReader P d') = apply_writes (W b) (contents (pbReader P d)))"

definition pebble_total :: "('d, 'b) pebble \<Rightarrow> bool" where
  "pebble_total P \<longleftrightarrow>
     (\<forall>b k v. \<exists>b'. pbSet P b k v = Inr b')
     \<and> (\<forall>b k. \<exists>b'. pbDelete P b k = Inr b')
     \<and> (\<forall>b lo hi. \<exists>b'. pbDeleteRange P b lo hi = Inr b')
     \<and> (\<forall>b c. \<exists>b'. pbApply P b c = Inr b')
     \<and> (\<forall>b. pbClose P b = None)
     \<and> (\<forall>d b. \<exists>d'. pbCommit P d b = Inr d')"

section \<open>An engine in memory\<close>

text \<open>A database is the writes committed so far, a batch its writes and whether it is indexed.\<close>

definition mem_reader :: "(bytes \<times> bytes) list \<Rightarrow> reader" where
  "mem_reader kvs =
     \<lparr>rdGet = \<lambda>k. case map_of kvs k of None \<Rightarrow> Inl ErrNotFound | Some v \<Rightarrow> Inr v,
      rdIter = \<lambda>lo hi. filter (\<lambda>e. in_bounds lo hi (fst e)) kvs,
      rdSeekPrefixGE = \<lambda>k.
        find (\<lambda>e. k \<le> fst e \<and> take (split (fst e)) (fst e) = take (split k) k) kvs\<rparr>"

definition mem_pebble :: "(batch_op list, bool \<times> batch_op list) pebble" where
  "mem_pebble =
     \<lparr>pbReader = \<lambda>d. mem_reader (apply_writes d []),
      pbBatchReader = \<lambda>d (i, ws). mem_reader (apply_writes (d @ ws) []),
      pbNewBatch = \<lambda>d. (False, []),
      pbNewIndexedBatch = \<lambda>d. (True, []),
      pbIndexed = fst,
      pbApply = \<lambda>(i, ws) (j, us). Inr (i, ws @ us),
      pbClose = \<lambda>b. None,
      pbSet = \<lambda>(i, ws) k v. Inr (i, ws @ [WSet k v]),
      pbDelete = \<lambda>(i, ws) k. Inr (i, ws @ [WDelete k]),
      pbDeleteRange = \<lambda>(i, ws) lo hi. Inr (i, ws @ [WDeleteRange lo hi]),
      pbCommit = \<lambda>d (i, ws). Inr (d @ ws)\<rparr>"

lemma contents_mem_reader [simp]: "contents (mem_reader kvs) = kvs"
  by (simp add: contents_def mem_reader_def in_bounds_def)

lemma reader_ok_mem_reader [simp]: "sorted_keys kvs \<Longrightarrow> reader_ok (mem_reader kvs)"
  unfolding reader_laws_def contents_mem_reader by (simp add: mem_reader_def)

lemma mem_pebble_laws [simp]: "pebble_laws mem_pebble snd"
  by (auto simp: pebble_laws_def mem_pebble_def batch_grows_def sorted_keys_apply_writes)

lemma mem_pebble_total [simp]: "pebble_total mem_pebble"
  by (auto simp: pebble_total_def mem_pebble_def)

end
