(* ===== verification/FSM_Query.thy ===== *)
theory FSM_Query
  imports Proto_Command Key_Codec Pebble_Interface
begin

text \<open>
  The read side of a table's state machine (\<^verbatim>\<open>storage/table/fsm/iter.go\<close>, \<^verbatim>\<open>query.go\<close>): the
  bounds of a scan, single-key and range lookups with their limits, the stored indexes and the
  dump of a table as \<^verbatim>\<open>PUT\<close> commands. The lemmas relate every read to the user's view of the
  stored pairs, \<open>user_kvs\<close>.
\<close>

section \<open>Operations\<close>

text \<open>The errors of the state machine. A panic of the Go program is the error \<open>GoPanic\<close>.\<close>

datatype fsm_error =
    PebbleErr pebble_error
  | KeyErr key_error
  | ProtoErr proto_error
  | ErrSnapshotStopped
  | WriterErr string
  | ErrUnknownQueryType
  | ErrInvalidClusterID
  | ErrInvalidNodeID
  | FSErr string
  | GoPanic string

definition iterOptionsForBounds :: "bytes \<Rightarrow> bytes \<Rightarrow> fsm_error + (bytes option \<times> bytes option)" where
  "iterOptionsForBounds low high =
     (case encodeUserKey [] low of
        (Some e, _) \<Rightarrow> Inl (KeyErr e)
      | (None, lowBuf) \<Rightarrow>
          if high = wildcard then Inr (Some lowBuf, Some (incrementRightmostByte maxUserKey))
          else (case encodeUserKey [] high of
                  (Some e, _) \<Rightarrow> Inl (KeyErr e)
                | (None, highBuf) \<Rightarrow> Inr (Some lowBuf, Some highBuf)))"

definition readLocalIndex :: "reader \<Rightarrow> bytes \<Rightarrow> fsm_error + u64" where
  "readLocalIndex db indexKey =
     (case rdGet db indexKey of
        Inl ErrNotFound \<Rightarrow> Inr 0
      | Inl e \<Rightarrow> Inl (PebbleErr e)
      | Inr indexVal \<Rightarrow> (case Uint64 indexVal of None \<Rightarrow> Inl (GoPanic ''index out of range'') | Some v \<Rightarrow> Inr v))"

definition maxRangeSize :: nat where
  "maxRangeSize = 4 * 1024 * 1024 - 1024"

definition addKVPair :: "bytes \<Rightarrow> bytes \<Rightarrow> ResponseOp_Range \<Rightarrow> ResponseOp_Range" where
  "addKVPair key value response =
     response\<lparr>rsKvs := rsKvs response @ [emptyKeyValue\<lparr>kvKey := key, kvValue := value\<rparr>],
       rsCount := rsCount response + 1\<rparr>"

definition sizeKVPair :: "bytes \<Rightarrow> bytes \<Rightarrow> nat" where
  "sizeKVPair key value = length key + length value"

definition addKeyOnly :: "bytes \<Rightarrow> bytes \<Rightarrow> ResponseOp_Range \<Rightarrow> ResponseOp_Range" where
  "addKeyOnly key value response =
     response\<lparr>rsKvs := rsKvs response @ [emptyKeyValue\<lparr>kvKey := key\<rparr>],
       rsCount := rsCount response + 1\<rparr>"

definition sizeKeyOnly :: "bytes \<Rightarrow> bytes \<Rightarrow> nat" where
  "sizeKeyOnly key value = length key"

definition addCountOnly :: "bytes \<Rightarrow> bytes \<Rightarrow> ResponseOp_Range \<Rightarrow> ResponseOp_Range" where
  "addCountOnly key value response = response\<lparr>rsCount := rsCount response + 1\<rparr>"

definition sizeCountOnly :: "bytes \<Rightarrow> bytes \<Rightarrow> nat" where
  "sizeCountOnly key value = 0"

definition iterFuncsFromReq :: "RequestOp_Range \<Rightarrow>
  (bytes \<Rightarrow> bytes \<Rightarrow> ResponseOp_Range \<Rightarrow> ResponseOp_Range) \<times> (bytes \<Rightarrow> bytes \<Rightarrow> nat)"
where
  "iterFuncsFromReq req =
     (if rrKeysOnly req then (addKeyOnly, sizeKeyOnly)
      else if rrCountOnly req then (addCountOnly, sizeCountOnly)
      else (addKVPair, sizeKVPair))"

text \<open>
  The loop of \<^verbatim>\<open>iterate\<close>; \<open>es\<close> is what the iterator still has to visit, the current entry
  first, so that \<^verbatim>\<open>iter.Next()\<close> at the current entry is whether another follows.
\<close>

fun iterate_loop ::
  "(bytes \<times> bytes) list \<Rightarrow> nat \<Rightarrow> int \<Rightarrow> (bytes \<Rightarrow> bytes \<Rightarrow> ResponseOp_Range \<Rightarrow> ResponseOp_Range)
     \<Rightarrow> (bytes \<Rightarrow> bytes \<Rightarrow> nat) \<Rightarrow> ResponseOp_Range \<Rightarrow> fsm_error + ResponseOp_Range"
where
  "iterate_loop [] i limit f s response = Inr response"
| "iterate_loop ((key, value) # es) i limit f s response =
     (case DecodeBytes key of
        Inl e \<Rightarrow> Inl (KeyErr e)
      | Inr k \<Rightarrow>
          if int i = limit \<and> limit \<noteq> 0
             \<or> ResponseOp_Range_SizeVT response + s (keyKey k) value \<ge> maxRangeSize
          then Inr (response\<lparr>rsMore := es \<noteq> []\<rparr>)
          else iterate_loop es (Suc i) limit f s (f (keyKey k) value response))"

definition iterate ::
  "(bytes \<times> bytes) list \<Rightarrow> int \<Rightarrow> (bytes \<Rightarrow> bytes \<Rightarrow> ResponseOp_Range \<Rightarrow> ResponseOp_Range)
     \<Rightarrow> (bytes \<Rightarrow> bytes \<Rightarrow> nat) \<Rightarrow> fsm_error + ResponseOp_Range"
where
  "iterate es limit f s = iterate_loop es 0 limit f s emptyResponseOp_Range"

text \<open>\<^verbatim>\<open>req.RangeEnd\<close> as the slice it is: \<^verbatim>\<open>nil\<close> reads as the empty slice.\<close>

definition rangeLookup :: "reader \<Rightarrow> RequestOp_Range \<Rightarrow> fsm_error + ResponseOp_Range" where
  "rangeLookup r req =
     rbind (iterOptionsForBounds (rrKey req) (slice (rrRangeEnd req))) (\<lambda>(lo, hi).
       let (fill, sf) = iterFuncsFromReq req in
       iterate (rdIter r lo hi) (sint (rrLimit req)) fill sf)"

definition singleLookup :: "reader \<Rightarrow> RequestOp_Range \<Rightarrow> fsm_error + ResponseOp_Range" where
  "singleLookup r req =
     (case encodeUserKey [] (rrKey req) of
        (Some e, _) \<Rightarrow> Inl (KeyErr e)
      | (None, keyBuf) \<Rightarrow>
          (case rdSeekPrefixGE r keyBuf of
             None \<Rightarrow> Inr emptyResponseOp_Range
           | Some (_, value) \<Rightarrow>
               let kv = emptyKeyValue\<lparr>kvKey := rrKey req\<rparr>;
                   kv = (if \<not> (rrKeysOnly req \<or> rrCountOnly req) \<and> length value > 0
                         then kv\<lparr>kvValue := value\<rparr> else kv);
                   kvs = (if \<not> rrCountOnly req then [kv] else [])
               in Inr (emptyResponseOp_Range\<lparr>rsKvs := kvs, rsCount := 1\<rparr>)))"

definition lookup :: "reader \<Rightarrow> RequestOp_Range \<Rightarrow> fsm_error + ResponseOp_Range" where
  "lookup r req = (if rrRangeEnd req \<noteq> None then rangeLookup r req else singleLookup r req)"

text \<open>
  \<^verbatim>\<open>writeCommand\<close> encodes one pair as a \<^verbatim>\<open>PUT\<close>; the pooled command it fills is empty.
  \<^verbatim>\<open>commandSnapshot\<close> writes one such message per user key; \<open>write w b\<close> is the writer's
  \<^verbatim>\<open>Write\<close>, \<open>stopped\<close> whether the stop channel is closed at each step.
\<close>

definition writeCommand :: "bytes \<Rightarrow> bytes \<Rightarrow> bytes \<Rightarrow> bytes" where
  "writeCommand tableName key val =
     Command_MarshalVT (set_cmdKv (Some (emptyKeyValue\<lparr>kvKey := key, kvValue := val\<rparr>))
       (set_cmdType Command_PUT (set_cmdTable tableName emptyCommand)))"

fun commandSnapshot_loop ::
  "('w \<Rightarrow> bytes \<Rightarrow> string + 'w) \<Rightarrow> bytes \<Rightarrow> (bytes \<times> bytes) list \<Rightarrow> bool list \<Rightarrow> 'w \<Rightarrow> fsm_error + 'w"
where
  "commandSnapshot_loop wr tableName [] stopped w = Inr w"
| "commandSnapshot_loop wr tableName ((key, value) # es) stopped w =
     (if stopped \<noteq> [] \<and> hd stopped then Inl ErrSnapshotStopped
      else case DecodeBytes key of
        Inl e \<Rightarrow> Inl (KeyErr e)
      | Inr k \<Rightarrow>
          if keyType k = TypeUser then
            (case wr w (writeCommand tableName (keyKey k) value) of
               Inl e \<Rightarrow> Inl (WriterErr e)
             | Inr w' \<Rightarrow> commandSnapshot_loop wr tableName es (tl stopped) w')
          else commandSnapshot_loop wr tableName es (tl stopped) w)"

definition commandSnapshot ::
  "('w \<Rightarrow> bytes \<Rightarrow> string + 'w) \<Rightarrow> reader \<Rightarrow> bytes \<Rightarrow> bool list \<Rightarrow> 'w \<Rightarrow> fsm_error + (u64 \<times> 'w)"
where
  "commandSnapshot wr r tableName stopped w =
     rbind (readLocalIndex r sysLocalIndex) (\<lambda>idx.
     rbind (commandSnapshot_loop wr tableName (rdIter r None None) stopped w) (\<lambda>w'.
       Inr (idx, w')))"

section \<open>The user's view of the stored pairs\<close>

definition user_kvs :: "(bytes \<times> bytes) list \<Rightarrow> (bytes \<times> bytes) list" where
  "user_kvs c = map (\<lambda>e. (drop 5 (fst e), snd e)) (filter (\<lambda>e. is_userKey (fst e)) c)"

text \<open>The invariant of a table's store: sorted, and only keys of the table.\<close>

definition store_ok :: "(bytes \<times> bytes) list \<Rightarrow> bool" where
  "store_ok c \<longleftrightarrow> sorted_keys c \<and> list_all (\<lambda>e. table_key (fst e)) c"

definition in_range :: "bytes \<Rightarrow> bytes \<Rightarrow> bytes \<Rightarrow> bool" where
  "in_range lo hi k \<longleftrightarrow> lo \<le> k \<and> (hi = wildcard \<or> k < hi)"

definition range_kvs :: "bytes \<Rightarrow> bytes \<Rightarrow> (bytes \<times> bytes) list \<Rightarrow> (bytes \<times> bytes) list" where
  "range_kvs lo hi kvs = filter (\<lambda>e. in_range lo hi (fst e)) kvs"

lemma user_kvs_Nil [simp]: "user_kvs [] = []"
  by (simp add: user_kvs_def)

lemma user_kvs_Cons [simp]:
  "user_kvs ((k, v) # c) = (if is_userKey k then (drop 5 k, v) # user_kvs c else user_kvs c)"
  by (simp add: user_kvs_def)

lemma map_of_user_kvs: "map_of (user_kvs c) k = map_of c (userKey k)"
  by (induction c) (auto elim!: is_userKey_obtain)

lemma user_kvs_member: "e \<in> set (user_kvs c) \<longleftrightarrow> (userKey (fst e), snd e) \<in> set c"
  by (cases e) (auto simp: user_kvs_def image_iff is_userKey_iff intro: rev_bexI)

lemma sorted_user_kvs: "sorted_keys c \<Longrightarrow> sorted_keys (user_kvs c)"
proof (induction c)
  case (Cons e c)
  obtain k v where e: "e = (k, v)" by (cases e)
  show ?case
  proof (cases "is_userKey k")
    case True
    then obtain u where u: "k = userKey u" by (rule is_userKey_obtain)
    have "u < fst x" if "x \<in> set (user_kvs c)" for x
      using that Cons.prems u by (force simp: e user_kvs_member)
    with Cons u show ?thesis by (simp add: e)
  qed (use Cons e in simp)
qed simp

lemma store_ok_sorted: "store_ok c \<Longrightarrow> sorted_keys c"
  by (simp add: store_ok_def)

lemma sorted_user: "store_ok c \<Longrightarrow> sorted_keys (user_kvs c)"
  by (simp add: store_ok_def sorted_user_kvs)

text \<open>The upper bound the code computes for a range end.\<close>

definition upperBound :: "bytes \<Rightarrow> bytes" where
  "upperBound hi = (if hi = wildcard then userEnd else userKey hi)"

lemma iterOptionsForBounds_eq:
  "iterOptionsForBounds lo hi = Inr (Some (userKey lo), Some (upperBound hi))"
  by (simp add: iterOptionsForBounds_def upperBound_def userEnd_def)

lemma bounds_iff_in_range:
  assumes "table_key k"
  shows "userKey lo \<le> k \<and> k < upperBound hi \<longleftrightarrow> is_userKey k \<and> in_range lo hi (drop 5 k)"
  using assms userKey_le_table_key [of k lo]
  by (auto simp: upperBound_def in_range_def table_key_below_userEnd table_key_below_userKey)

text \<open>A bounded scan visits the user's pairs in the range, in order.\<close>

lemma scan_user_kvs:
  assumes "list_all (\<lambda>e. table_key (fst e)) c"
  shows "filter (\<lambda>e. in_bounds (Some (userKey lo)) (Some (upperBound hi)) (fst e)) c
    = map (\<lambda>e. (userKey (fst e), snd e)) (range_kvs lo hi (user_kvs c))"
  using assms
proof (induction c)
  case (Cons e c)
  obtain k v where e: "e = (k, v)" by (cases e)
  with Cons.prems have "table_key k" by simp
  from bounds_iff_in_range [OF this, of lo hi] Cons show ?case
    by (auto simp: e in_bounds_def range_kvs_def is_userKey_iff [of k, symmetric])
qed (simp add: range_kvs_def)

lemma rdIter_user:
  assumes "reader_ok r" and "store_ok (contents r)"
  shows "rdIter r (Some (userKey lo)) (Some (upperBound hi))
    = map (\<lambda>e. (userKey (fst e), snd e)) (range_kvs lo hi (user_kvs (contents r)))"
  using assms by (simp add: reader_ok_iter store_ok_def scan_user_kvs)

section \<open>Lookups\<close>

text \<open>
  How far the loop gets: it consumes a prefix of \<open>n\<close> entries and stops early only at the limit
  or when the next entry would make the response too big.
\<close>

lemma iterate_loop_user:
  fixes f :: "bytes \<Rightarrow> bytes \<Rightarrow> ResponseOp_Range \<Rightarrow> ResponseOp_Range"
  defines "F \<equiv> \<lambda>xs. fold (\<lambda>e. f (fst e) (snd e)) xs"
  shows "\<exists>n \<le> length es.
    iterate_loop (map (\<lambda>e. (userKey (fst e), snd e)) es) i limit f s response
      = Inr (if n < length es then (F (take n es) response)\<lparr>rsMore := Suc n < length es\<rparr>
             else F (take n es) response)
    \<and> (limit \<ge> int i \<and> limit \<noteq> 0 \<longrightarrow> int (i + n) \<le> limit)
    \<and> (n < length es \<longrightarrow> int (i + n) = limit \<and> limit \<noteq> 0
         \<or> maxRangeSize \<le> ResponseOp_Range_SizeVT (F (take n es) response) + s (fst (es ! n)) (snd (es ! n)))"
proof (induction es arbitrary: i response)
  case Nil
  then show ?case by (simp add: F_def)
next
  case (Cons e es)
  obtain k v where e: "e = (k, v)" by (cases e)
  show ?case
  proof (cases "int i = limit \<and> limit \<noteq> 0 \<or> maxRangeSize \<le> ResponseOp_Range_SizeVT response + s k v")
    case True
    then show ?thesis
      by (intro exI [of _ 0]) (auto simp: e DecodeBytes_userKey F_def)
  next
    case False
    from Cons.IH [of "Suc i" "f k v response"] obtain n where "n \<le> length es" and
      n: "iterate_loop (map (\<lambda>e. (userKey (fst e), snd e)) es) (Suc i) limit f s (f k v response)
        = Inr (if n < length es then (F (take n es) (f k v response))\<lparr>rsMore := Suc n < length es\<rparr>
             else F (take n es) (f k v response))"
      "limit \<ge> int (Suc i) \<and> limit \<noteq> 0 \<longrightarrow> int (Suc i + n) \<le> limit"
      "n < length es \<longrightarrow> int (Suc i + n) = limit \<and> limit \<noteq> 0
         \<or> maxRangeSize \<le> ResponseOp_Range_SizeVT (F (take n es) (f k v response)) + s (fst (es ! n)) (snd (es ! n))"
      by blast
    with False show ?thesis
      by (intro exI [of _ "Suc n"]) (auto simp: e DecodeBytes_userKey F_def)
  qed
qed

text \<open>What a request shows of the pairs it covers.\<close>

definition shown :: "RequestOp_Range \<Rightarrow> (bytes \<times> bytes) list \<Rightarrow> KeyValue list" where
  "shown req es =
     (if rrKeysOnly req then map (\<lambda>e. emptyKeyValue\<lparr>kvKey := fst e\<rparr>) es
      else if rrCountOnly req then []
      else map (\<lambda>e. emptyKeyValue\<lparr>kvKey := fst e, kvValue := snd e\<rparr>) es)"

lemma fold_iterFuncs:
  "fold (\<lambda>e. fst (iterFuncsFromReq req) (fst e) (snd e)) es response
     = response\<lparr>rsKvs := rsKvs response @ shown req es, rsCount := rsCount response + of_nat (length es)\<rparr>"
  by (induction es arbitrary: response)
    (auto simp: iterFuncsFromReq_def shown_def addKeyOnly_def addCountOnly_def addKVPair_def)

definition entry_size :: "RequestOp_Range \<Rightarrow> bytes \<times> bytes \<Rightarrow> nat" where
  "entry_size req e = snd (iterFuncsFromReq req) (fst e) (snd e)"

lemma rangeLookup_user:
  assumes "reader_ok r" and "store_ok (contents r)" and "rrRangeEnd req = Some hi"
  defines "es \<equiv> range_kvs (rrKey req) hi (user_kvs (contents r))"
  defines "resp n \<equiv> emptyResponseOp_Range\<lparr>rsKvs := shown req (take n es), rsCount := of_nat n\<rparr>"
  shows "\<exists>n \<le> length es.
    rangeLookup r req = Inr ((resp n)\<lparr>rsMore := Suc n < length es\<rparr>)
    \<and> (0 < sint (rrLimit req) \<longrightarrow> int n \<le> sint (rrLimit req))
    \<and> (n < length es \<longrightarrow> int n = sint (rrLimit req) \<and> rrLimit req \<noteq> 0
         \<or> maxRangeSize \<le> ResponseOp_Range_SizeVT (resp n) + entry_size req (es ! n))"
proof -
  obtain fill sf where fs: "iterFuncsFromReq req = (fill, sf)" by (cases "iterFuncsFromReq req")
  have F: "fold (\<lambda>e. fill (fst e) (snd e)) (take n es) emptyResponseOp_Range = resp n" if "n \<le> length es" for n
    using fold_iterFuncs [of req "take n es" emptyResponseOp_Range] that
    by (simp add: fs resp_def emptyResponseOp_Range_def min_def)
  have more: "(resp n)\<lparr>rsMore := False\<rparr> = resp n" for n
    by (simp add: resp_def emptyResponseOp_Range_def)
  have run: "rangeLookup r req
      = iterate_loop (map (\<lambda>e. (userKey (fst e), snd e)) es) 0 (sint (rrLimit req)) fill sf emptyResponseOp_Range"
    using rdIter_user [OF assms(1,2)] assms(3)
    by (simp add: rangeLookup_def iterOptionsForBounds_eq fs iterate_def es_def)
  let ?F = "\<lambda>n. fold (\<lambda>e. fill (fst e) (snd e)) (take n es) emptyResponseOp_Range"
  obtain n where "n \<le> length es" and raw: "rangeLookup r req
      = Inr (if n < length es then (?F n)\<lparr>rsMore := Suc n < length es\<rparr> else ?F n)"
      "sint (rrLimit req) \<ge> int 0 \<and> sint (rrLimit req) \<noteq> 0 \<longrightarrow> int (0 + n) \<le> sint (rrLimit req)"
      "n < length es \<longrightarrow> int (0 + n) = sint (rrLimit req) \<and> sint (rrLimit req) \<noteq> 0
        \<or> maxRangeSize \<le> ResponseOp_Range_SizeVT (?F n) + sf (fst (es ! n)) (snd (es ! n))"
    using iterate_loop_user [of es 0 "sint (rrLimit req)" fill sf emptyResponseOp_Range]
    unfolding run by blast
  note n = raw [unfolded F [OF \<open>n \<le> length es\<close>]]
  show ?thesis
  proof (intro exI conjI)
    show "rangeLookup r req = Inr ((resp n)\<lparr>rsMore := Suc n < length es\<rparr>)"
      using n(1) more \<open>n \<le> length es\<close> by (cases "n < length es") auto
  qed (use \<open>n \<le> length es\<close> n(2,3) in \<open>auto simp: entry_size_def fs\<close>)
qed

lemma singleLookup_user:
  assumes "reader_ok r"
  shows "singleLookup r req = Inr
    (case map_of (user_kvs (contents r)) (rrKey req) of
       None \<Rightarrow> emptyResponseOp_Range
     | Some v \<Rightarrow> emptyResponseOp_Range\<lparr>rsCount := 1, rsKvs :=
         (if rrCountOnly req then []
          else [emptyKeyValue\<lparr>kvKey := rrKey req, kvValue := (if rrKeysOnly req then [] else v)\<rparr>])\<rparr>)"
  using assms
  by (auto simp: singleLookup_def reader_ok_seek map_of_user_kvs emptyKeyValue_def Let_def
      split: option.splits)

lemma rangeLookup_total:
  assumes "reader_ok r" and "store_ok (contents r)" and "rrRangeEnd req = Some hi"
  obtains resp where "rangeLookup r req = Inr resp"
  using rangeLookup_user [OF assms] by blast

lemma lookup_total:
  assumes "reader_ok r" and "store_ok (contents r)"
  obtains resp where "lookup r req = Inr resp"
  using assms rangeLookup_total [OF assms] singleLookup_user [OF assms(1)]
  by (cases "rrRangeEnd req") (auto simp: lookup_def)

text \<open>The stored indexes: 0 where none is stored, otherwise the eight bytes little-endian.\<close>

definition stored_index :: "(bytes \<times> bytes) list \<Rightarrow> bytes \<Rightarrow> u64" where
  "stored_index c k = (case map_of c k of None \<Rightarrow> 0 | Some v \<Rightarrow> the (Uint64 v))"

definition index_ok :: "(bytes \<times> bytes) list \<Rightarrow> bool" where
  "index_ok c \<longleftrightarrow> (\<forall>k \<in> {sysLocalIndex, sysLeaderIndex}. \<forall>v. map_of c k = Some v \<longrightarrow> 8 \<le> length v)"

lemma readLocalIndex_user:
  assumes "reader_ok r" and "index_ok (contents r)" and "k \<in> {sysLocalIndex, sysLeaderIndex}"
  shows "readLocalIndex r k = Inr (stored_index (contents r) k)"
proof (cases "map_of (contents r) k")
  case None
  then show ?thesis
    using assms(1) by (simp add: readLocalIndex_def reader_ok_get stored_index_def)
next
  case (Some v)
  with assms(2,3) have "8 \<le> length v" by (auto simp: index_ok_def)
  with Some show ?thesis
    using assms(1) by (simp add: readLocalIndex_def reader_ok_get stored_index_def Uint64_def)
qed

section \<open>The size of a response\<close>

lemma sov_le_10: "sov x \<le> 10"
  using bits_Len_le [of "unat (x OR 1)" 64] unsigned_less [of "x OR 1", where 'a = nat]
  by (simp add: sov_def)

lemma KeyValue_overhead:
  "sizeMessage (KeyValue_SizeVT (emptyKeyValue\<lparr>kvKey := k, kvValue := v\<rparr>)) \<le> length k + length v + 33"
  using sov_le_10 [of "of_nat (length k)"] sov_le_10 [of "of_nat (length v)"]
    sov_le_10 [of "of_nat (KeyValue_SizeVT (emptyKeyValue\<lparr>kvKey := k, kvValue := v\<rparr>))"]
  by (auto simp: sizeMessage_def KeyValue_SizeVT_def sizeBytes_def sizeVarint_def emptyKeyValue_def Let_def)

lemma iterFuncs_size:
  "ResponseOp_Range_SizeVT (fst (iterFuncsFromReq req) k v response)
     \<le> ResponseOp_Range_SizeVT response + snd (iterFuncsFromReq req) k v + 44"
  using KeyValue_overhead [where k = k and v = v] KeyValue_overhead [where k = k and v = "[]"] sov_le_10 [of "rsCount response + 1"]
  by (auto simp: iterFuncsFromReq_def addKeyOnly_def addCountOnly_def addKVPair_def sizeKeyOnly_def
      sizeCountOnly_def sizeKVPair_def ResponseOp_Range_SizeVT_def sizeRepeated_def sizeVarint_def
      sizeMessage_def emptyKeyValue_def)

lemma iterate_loop_size:
  assumes "iterate_loop es i limit (fst (iterFuncsFromReq req)) (snd (iterFuncsFromReq req)) response = Inr resp"
    and "ResponseOp_Range_SizeVT response \<le> maxRangeSize + 44"
  shows "ResponseOp_Range_SizeVT resp \<le> maxRangeSize + 46"
  using assms
proof (induction es arbitrary: i response)
  case (Cons e es)
  obtain k v where e: "e = (k, v)" by (cases e)
  let ?f = "fst (iterFuncsFromReq req)" and ?s = "snd (iterFuncsFromReq req)"
  from Cons.prems(1) obtain d where d: "DecodeBytes k = Inr d"
    by (auto simp: e split: sum.splits)
  show ?case
  proof (cases "int i = limit \<and> limit \<noteq> 0
      \<or> maxRangeSize \<le> ResponseOp_Range_SizeVT response + ?s (keyKey d) v")
    case True
    with Cons.prems d show ?thesis
      by (auto simp: e ResponseOp_Range_SizeVT_def sizeBool_def)
  next
    case False
    then have "ResponseOp_Range_SizeVT (?f (keyKey d) v response) \<le> maxRangeSize + 44"
      using iterFuncs_size [of req "keyKey d" v response] by linarith
    with False Cons.prems(1) d show ?thesis
      by (intro Cons.IH [of "Suc i" "?f (keyKey d) v response"]) (auto simp: e)
  qed
qed simp

section \<open>The dump of a table\<close>

lemma DecodeBytes_sys:
  "DecodeBytes sysLocalIndex = Inr \<lparr>keyVersion = V1, keyType = TypeSystem, keyKey = ascii ''index''\<rparr>"
  "DecodeBytes sysLeaderIndex = Inr \<lparr>keyVersion = V1, keyType = TypeSystem, keyKey = ascii ''leader_index''\<rparr>"
  by (simp_all add: sysLocalIndex_eq sysLeaderIndex_eq DecodeBytes_def v1DecodeRaw_def keyHeaderLen_def ascii_def)

text \<open>The pairs a dump contains: a pair with the empty key is decoded as of unknown type and skipped.\<close>

definition dumped :: "(bytes \<times> bytes) list \<Rightarrow> (bytes \<times> bytes) list" where
  "dumped kvs = filter (\<lambda>e. fst e \<noteq> []) kvs"

lemma commandSnapshot_loop_dump:
  assumes "list_all (\<lambda>e. table_key (fst e)) c" and "\<not> (True \<in> set stopped)"
    and "\<And>w b. wr w b = Inr (add b w)"
  shows "commandSnapshot_loop wr t c stopped w
    = Inr (fold add (map (\<lambda>e. writeCommand t (fst e) (snd e)) (dumped (user_kvs c))) w)"
  using assms(1,2)
proof (induction c arbitrary: stopped w)
  case Nil
  then show ?case by (simp add: dumped_def)
next
  case (Cons e c)
  obtain k v where e: "e = (k, v)" by (cases e)
  have stop: "\<not> (stopped \<noteq> [] \<and> hd stopped)" "\<not> (True \<in> set (tl stopped))"
    using Cons.prems(2) by (cases stopped; auto)+
  note IH = Cons.IH [OF _ stop(2)]
  show ?case
  proof (cases "is_userKey k")
    case True
    then obtain u where "k = userKey u" by (rule is_userKey_obtain)
    then show ?thesis
      using Cons.prems(1) stop(1) IH
      by (cases "u = []") (simp_all add: e DecodeBytes_userKey DecodeBytes_userPrefix dumped_def assms(3) Type_defs)
  next
    case False
    with Cons.prems(1) have "k = sysLocalIndex \<or> k = sysLeaderIndex" by (simp add: e table_key_def)
    then show ?thesis
      using Cons.prems(1) stop(1) IH by (auto simp: e DecodeBytes_sys dumped_def Type_defs)
  qed
qed

lemma commandSnapshot_dump:
  assumes "reader_ok r" and "store_ok (contents r)" and "index_ok (contents r)" and "\<not> (True \<in> set stopped)"
    and "\<And>w b. wr w b = Inr (add b w)"
  shows "commandSnapshot wr r t stopped w
    = Inr (stored_index (contents r) sysLocalIndex,
        fold add (map (\<lambda>e. writeCommand t (fst e) (snd e)) (dumped (user_kvs (contents r)))) w)"
proof -
  have "rdIter r None None = contents r" by (simp add: contents_def)
  then show ?thesis
    using commandSnapshot_loop_dump [OF _ assms(4,5)] assms(2)
    by (simp add: commandSnapshot_def readLocalIndex_user [OF assms(1,3)] store_ok_def)
qed

end
