(* ===== verification/FSM_Command.thy ===== *)
theory FSM_Command
  imports FSM_Query
begin

text \<open>
  The write side of a table's state machine: the update context and the handlers of the
  commands (\<^verbatim>\<open>storage/table/fsm/command.go\<close>, \<^verbatim>\<open>command_put.go\<close>, \<^verbatim>\<open>command_delete.go\<close>,
  \<^verbatim>\<open>command_txn.go\<close>, \<^verbatim>\<open>command_sequence.go\<close>, \<^verbatim>\<open>command_dummy.go\<close>). A handler takes the context
  and returns its error, or its response and the context after it. An error aborts the whole
  update and its batch, so no context is returned with it.
\<close>

section \<open>The update context\<close>

record ('d, 'b) updateContext =
  ucBatch :: 'b
  ucDb :: 'd
  ucIndex :: u64
  ucLeaderIndex :: "u64 option"

definition liftP :: "pebble_error + 'a \<Rightarrow> fsm_error + 'a" where
  "liftP r = (case r of Inl e \<Rightarrow> Inl (PebbleErr e) | Inr x \<Rightarrow> Inr x)"

lemma liftP_simps [simp]: "liftP (Inl e) = Inl (PebbleErr e)" "liftP (Inr x) = Inr x"
  by (simp_all add: liftP_def)

lemma liftP_Inr_iff [result_simps]: "liftP r = Inr x \<longleftrightarrow> r = Inr x"
  by (cases r) simp_all

definition ctxReader :: "('d, 'b) pebble \<Rightarrow> ('d, 'b) updateContext \<Rightarrow> reader" where
  "ctxReader P ctx = pbBatchReader P (ucDb ctx) (ucBatch ctx)"

definition EnsureIndexed :: "('d, 'b) pebble \<Rightarrow> ('d, 'b) updateContext \<Rightarrow> fsm_error + ('d, 'b) updateContext" where
  "EnsureIndexed P c =
     (if pbIndexed P (ucBatch c) then Inr c
      else rbind (liftP (pbApply P (pbNewIndexedBatch P (ucDb c)) (ucBatch c))) (\<lambda>indexed.
        case pbClose P (ucBatch c) of
          Some e \<Rightarrow> Inl (PebbleErr e)
        | None \<Rightarrow> Inr (c\<lparr>ucBatch := indexed\<rparr>)))"

text \<open>\<^verbatim>\<open>Commit\<close> returns the database after it.\<close>

definition Commit :: "('d, 'b) pebble \<Rightarrow> ('d, 'b) updateContext \<Rightarrow> fsm_error + 'd" where
  "Commit P c =
     rbind (case ucLeaderIndex c of
              None \<Rightarrow> Inr (ucBatch c)
            | Some l \<Rightarrow> liftP (pbSet P (ucBatch c) sysLeaderIndex (PutUint64 l))) (\<lambda>b.
     rbind (liftP (pbSet P b sysLocalIndex (PutUint64 (ucIndex c)))) (\<lambda>b.
       liftP (pbCommit P (ucDb c) b)))"

section \<open>Put\<close>

definition handlePut :: "('d, 'b) pebble \<Rightarrow> ('d, 'b) updateContext \<Rightarrow> RequestOp_Put
  \<Rightarrow> fsm_error + (ResponseOp_Put \<times> ('d, 'b) updateContext)"
where
  "handlePut P ctx put =
     (let resp = emptyResponseOp_Put in
      case encodeUserKey [] (rpKey put) of
        (Some e, _) \<Rightarrow> Inl (KeyErr e)
      | (None, keyBuf) \<Rightarrow>
          rbind (if rpPrevKv put then
                   rbind (EnsureIndexed P ctx) (\<lambda>ctx.
                     case singleLookup (ctxReader P ctx) (emptyRequestOp_Range\<lparr>rrKey := rpKey put\<rparr>) of
                       Inl (PebbleErr ErrNotFound) \<Rightarrow> Inr (resp, ctx)
                     | Inl e \<Rightarrow> Inl e
                     | Inr rng \<Rightarrow>
                         (case rsKvs rng of
                            [] \<Rightarrow> Inl (GoPanic ''index out of range'')
                          | kv # _ \<Rightarrow> Inr (resp\<lparr>spPrevKv := Some kv\<rparr>, ctx)))
                 else Inr (resp, ctx)) (\<lambda>(resp, ctx).
          rbind (liftP (pbSet P (ucBatch ctx) keyBuf (rpValue put))) (\<lambda>b.
            Inr (resp, ctx\<lparr>ucBatch := b\<rparr>))))"

fun handlePutBatch :: "('d, 'b) pebble \<Rightarrow> ('d, 'b) updateContext \<Rightarrow> RequestOp_Put list
  \<Rightarrow> fsm_error + (ResponseOp_Put list \<times> ('d, 'b) updateContext)"
where
  "handlePutBatch P ctx [] = Inr ([], ctx)"
| "handlePutBatch P ctx (op # ops) =
     rbind (handlePut P ctx op) (\<lambda>(res, ctx).
     rbind (handlePutBatch P ctx ops) (\<lambda>(results, ctx). Inr (res # results, ctx)))"

section \<open>Delete\<close>

definition handleDelete :: "('d, 'b) pebble \<Rightarrow> ('d, 'b) updateContext \<Rightarrow> RequestOp_DeleteRange
  \<Rightarrow> fsm_error + (ResponseOp_DeleteRange \<times> ('d, 'b) updateContext)"
where
  "handleDelete P ctx del =
     (let resp = emptyResponseOp_DeleteRange;
          countOnly = rdCount del \<and> \<not> rdPrevKv del in
      case encodeUserKey [] (rdKey del) of
        (Some e, _) \<Rightarrow> Inl (KeyErr e)
      | (None, keyBuf) \<Rightarrow>
          (case rdRangeEnd del of
             Some rangeEnd \<Rightarrow>
               rbind (if rdPrevKv del \<or> rdCount del then
                        rbind (EnsureIndexed P ctx) (\<lambda>ctx.
                        rbind (rangeLookup (ctxReader P ctx) (emptyRequestOp_Range\<lparr>rrKey := rdKey del,
                                 rrRangeEnd := rdRangeEnd del, rrCountOnly := countOnly\<rparr>)) (\<lambda>rng.
                          Inr (resp\<lparr>sdDeleted := rsCount rng, sdPrevKvs := rsKvs rng\<rparr>, ctx)))
                      else Inr (resp, ctx)) (\<lambda>(resp, ctx).
               rbind (if rangeEnd = wildcard then Inr (incrementRightmostByte maxUserKey)
                      else case encodeUserKey [] rangeEnd of
                             (Some e, _) \<Rightarrow> Inl (KeyErr e)
                           | (None, upperBoundBuf) \<Rightarrow> Inr upperBoundBuf) (\<lambda>end.
               rbind (liftP (pbDeleteRange P (ucBatch ctx) keyBuf end)) (\<lambda>b.
                 Inr (resp, ctx\<lparr>ucBatch := b\<rparr>))))
           | None \<Rightarrow>
               rbind (if rdPrevKv del \<or> rdCount del then
                        rbind (EnsureIndexed P ctx) (\<lambda>ctx.
                          case singleLookup (ctxReader P ctx)
                                 (emptyRequestOp_Range\<lparr>rrKey := rdKey del, rrCountOnly := countOnly\<rparr>) of
                            Inl (PebbleErr ErrNotFound) \<Rightarrow> Inr (resp, ctx)
                          | Inl e \<Rightarrow> Inl e
                          | Inr rng \<Rightarrow> Inr (resp\<lparr>sdDeleted := 1, sdPrevKvs := rsKvs rng\<rparr>, ctx))
                      else Inr (resp, ctx)) (\<lambda>(resp, ctx).
               rbind (liftP (pbDelete P (ucBatch ctx) keyBuf)) (\<lambda>b.
                 Inr (resp, ctx\<lparr>ucBatch := b\<rparr>)))))"

fun handleDeleteBatch :: "('d, 'b) pebble \<Rightarrow> ('d, 'b) updateContext \<Rightarrow> RequestOp_DeleteRange list
  \<Rightarrow> fsm_error + (ResponseOp_DeleteRange list \<times> ('d, 'b) updateContext)"
where
  "handleDeleteBatch P ctx [] = Inr ([], ctx)"
| "handleDeleteBatch P ctx (op # ops) =
     rbind (handleDelete P ctx op) (\<lambda>(res, ctx).
     rbind (handleDeleteBatch P ctx ops) (\<lambda>(results, ctx). Inr (res # results, ctx)))"

section \<open>Transactions\<close>

definition Compare_EQUAL :: u32 where "Compare_EQUAL = 0"
definition Compare_GREATER :: u32 where "Compare_GREATER = 1"
definition Compare_LESS :: u32 where "Compare_LESS = 2"
definition Compare_NOT_EQUAL :: u32 where "Compare_NOT_EQUAL = 3"
definition Compare_VALUE :: u32 where "Compare_VALUE = 0"

lemmas Compare_enums = Compare_EQUAL_def Compare_GREATER_def Compare_LESS_def Compare_NOT_EQUAL_def
  Compare_VALUE_def

definition txnCompareSingle :: "Compare \<Rightarrow> bytes \<Rightarrow> bool" where
  "txnCompareSingle cmp value =
     (case cmpTargetUnion cmp of
        Some v \<Rightarrow>
          if cmpTarget cmp = Compare_VALUE then
            (if cmpResult cmp = Compare_EQUAL then value = v
             else if cmpResult cmp = Compare_NOT_EQUAL then \<not> value = v
             else if cmpResult cmp = Compare_GREATER then bytes_Compare value v = 1
             else if cmpResult cmp = Compare_LESS then bytes_Compare value v = -1
             else True)
          else True
      | None \<Rightarrow> True)"

text \<open>One round of the loop of \<^verbatim>\<open>txnCompare\<close>, with the shared key buffer before and after.\<close>

definition txnCompare_step :: "reader \<Rightarrow> bytes \<Rightarrow> Compare \<Rightarrow> fsm_error + (bool \<times> bytes)" where
  "txnCompare_step r keyBuf cmp =
     (case cmpRangeEnd cmp of
        Some rangeEnd \<Rightarrow>
          rbind (iterOptionsForBounds (cmpKey cmp) rangeEnd) (\<lambda>(lo, hi).
            let es = rdIter r lo hi in
            Inr (es \<noteq> [] \<and> list_all (\<lambda>e. txnCompareSingle cmp (snd e)) es, keyBuf))
      | None \<Rightarrow>
          (case encodeUserKey keyBuf (cmpKey cmp) of
             (Some e, _) \<Rightarrow> Inl (KeyErr e)
           | (None, keyBuf) \<Rightarrow>
               (case rdGet r keyBuf of
                  Inl ErrNotFound \<Rightarrow> Inr (False, keyBuf)
                | Inl e \<Rightarrow> Inl (PebbleErr e)
                | Inr value \<Rightarrow>
                    if \<not> txnCompareSingle cmp value then Inr (False, keyBuf) else Inr (True, []))))"

fun txnCompare_loop :: "reader \<Rightarrow> bytes \<Rightarrow> Compare list \<Rightarrow> fsm_error + bool" where
  "txnCompare_loop r keyBuf [] = Inr True"
| "txnCompare_loop r keyBuf (cmp # cs) =
     rbind (txnCompare_step r keyBuf cmp) (\<lambda>(res, keyBuf).
       if \<not> res then Inr False else txnCompare_loop r keyBuf cs)"

definition txnCompare :: "reader \<Rightarrow> Compare list \<Rightarrow> fsm_error + bool" where
  "txnCompare r compare = txnCompare_loop r [] compare"

text \<open>\<^verbatim>\<open>wrapResponseOp\<close>, by the type of its argument.\<close>

definition wrapRange :: "ResponseOp_Range \<Rightarrow> ResponseOp" where
  "wrapRange op = emptyResponseOp\<lparr>reResponse := Some (ResponseOp_ResponseRange op)\<rparr>"

definition wrapPut :: "ResponseOp_Put \<Rightarrow> ResponseOp" where
  "wrapPut op = emptyResponseOp\<lparr>reResponse := Some (ResponseOp_ResponsePut op)\<rparr>"

definition wrapDelete :: "ResponseOp_DeleteRange \<Rightarrow> ResponseOp" where
  "wrapDelete op = emptyResponseOp\<lparr>reResponse := Some (ResponseOp_ResponseDeleteRange op)\<rparr>"

text \<open>One operation of a transaction; an operation without a request has no response.\<close>

definition handleTxnOp :: "('d, 'b) pebble \<Rightarrow> ('d, 'b) updateContext \<Rightarrow> RequestOp
  \<Rightarrow> fsm_error + (ResponseOp list \<times> ('d, 'b) updateContext)"
where
  "handleTxnOp P ctx op =
     (case roRequest op of
        Some (RequestOp_RequestRange rq) \<Rightarrow>
          (case lookup (ctxReader P ctx) rq of
             Inl (PebbleErr ErrNotFound) \<Rightarrow> Inr ([wrapRange emptyResponseOp_Range], ctx)
           | Inl e \<Rightarrow> Inl e
           | Inr response \<Rightarrow> Inr ([wrapRange response], ctx))
      | Some (RequestOp_RequestPut rq) \<Rightarrow>
          rbind (handlePut P ctx rq) (\<lambda>(response, ctx). Inr ([wrapPut response], ctx))
      | Some (RequestOp_RequestDeleteRange rq) \<Rightarrow>
          rbind (handleDelete P ctx rq) (\<lambda>(response, ctx). Inr ([wrapDelete response], ctx))
      | None \<Rightarrow> Inr ([], ctx))"

fun handleTxnOps :: "('d, 'b) pebble \<Rightarrow> ('d, 'b) updateContext \<Rightarrow> RequestOp list
  \<Rightarrow> fsm_error + (ResponseOp list \<times> ('d, 'b) updateContext)"
where
  "handleTxnOps P ctx [] = Inr ([], ctx)"
| "handleTxnOps P ctx (op # ops) =
     rbind (handleTxnOp P ctx op) (\<lambda>(res, ctx).
     rbind (handleTxnOps P ctx ops) (\<lambda>(results, ctx). Inr (res @ results, ctx)))"

definition handleTxn :: "('d, 'b) pebble \<Rightarrow> ('d, 'b) updateContext \<Rightarrow> Compare list \<Rightarrow> RequestOp list
  \<Rightarrow> RequestOp list \<Rightarrow> fsm_error + ((bool \<times> ResponseOp list) \<times> ('d, 'b) updateContext)"
where
  "handleTxn P ctx compare success fail =
     rbind (EnsureIndexed P ctx) (\<lambda>ctx.
     rbind (txnCompare (ctxReader P ctx) compare) (\<lambda>ok.
     rbind (handleTxnOps P ctx (if ok then success else fail)) (\<lambda>(res, ctx). Inr ((ok, res), ctx))))"

section \<open>Commands\<close>

text \<open>The implementations of the \<^verbatim>\<open>command\<close> interface, each over the decoded message.\<close>

datatype command =
    CommandPut Command
  | CommandDelete Command
  | CommandPutBatch Command
  | CommandDeleteBatch Command
  | CommandTxn Command
  | CommandSequence Command
  | CommandDummy

text \<open>\<^verbatim>\<open>wrapCommand\<close> panics (\<open>None\<close>) on an unknown type.\<close>

definition wrapCommand :: "Command \<Rightarrow> command option" where
  "wrapCommand cmd =
     (if cmdType cmd = Command_PUT then Some (CommandPut cmd)
      else if cmdType cmd = Command_DELETE then Some (CommandDelete cmd)
      else if cmdType cmd = Command_PUT_BATCH then Some (CommandPutBatch cmd)
      else if cmdType cmd = Command_DELETE_BATCH then Some (CommandDeleteBatch cmd)
      else if cmdType cmd = Command_TXN then Some (CommandTxn cmd)
      else if cmdType cmd = Command_SEQUENCE then Some (CommandSequence cmd)
      else if cmdType cmd = Command_DUMMY then Some CommandDummy
      else None)"

definition ResultFailure :: u64 where "ResultFailure = 0"
definition ResultSuccess :: u64 where "ResultSuccess = 1"

definition mkResult :: "u64 \<Rightarrow> ResponseOp list \<Rightarrow> CommandResult" where
  "mkResult revision responses = emptyCommandResult\<lparr>crRevision := revision, crResponses := responses\<rparr>"

text \<open>The requests the handlers build from a command.\<close>

definition putRequest :: "KeyValue \<Rightarrow> bool \<Rightarrow> RequestOp_Put" where
  "putRequest kv prevKv = emptyRequestOp_Put\<lparr>rpKey := kvKey kv, rpValue := kvValue kv, rpPrevKv := prevKv\<rparr>"

definition deleteRequest :: "KeyValue \<Rightarrow> Command \<Rightarrow> RequestOp_DeleteRange" where
  "deleteRequest kv c = emptyRequestOp_DeleteRange\<lparr>rdKey := kvKey kv, rdRangeEnd := cmdRangeEnd c,
     rdPrevKv := cmdPrevKvs c, rdCount := cmdCount c\<rparr>"

abbreviation nilPanic :: fsm_error where
  "nilPanic \<equiv> GoPanic ''invalid memory address or nil pointer dereference''"

definition commandPut_handle :: "('d, 'b) pebble \<Rightarrow> Command \<Rightarrow> ('d, 'b) updateContext
  \<Rightarrow> fsm_error + ((u64 \<times> CommandResult) \<times> ('d, 'b) updateContext)"
where
  "commandPut_handle P c ctx =
     (case cmdKv c of
        None \<Rightarrow> Inl nilPanic
      | Some kv \<Rightarrow>
          rbind (handlePut P ctx (putRequest kv (cmdPrevKvs c))) (\<lambda>(resp, ctx).
            Inr ((ResultSuccess, mkResult (ucIndex ctx) [wrapPut resp]), ctx)))"

definition commandDelete_handle :: "('d, 'b) pebble \<Rightarrow> Command \<Rightarrow> ('d, 'b) updateContext
  \<Rightarrow> fsm_error + ((u64 \<times> CommandResult) \<times> ('d, 'b) updateContext)"
where
  "commandDelete_handle P c ctx =
     (case cmdKv c of
        None \<Rightarrow> Inl nilPanic
      | Some kv \<Rightarrow>
          rbind (handleDelete P ctx (deleteRequest kv c)) (\<lambda>(resp, ctx).
            Inr ((ResultSuccess, mkResult (ucIndex ctx) [wrapDelete resp]), ctx)))"

definition commandPutBatch_handle :: "('d, 'b) pebble \<Rightarrow> Command \<Rightarrow> ('d, 'b) updateContext
  \<Rightarrow> fsm_error + ((u64 \<times> CommandResult) \<times> ('d, 'b) updateContext)"
where
  "commandPutBatch_handle P c ctx =
     rbind (handlePutBatch P ctx (map (\<lambda>kv. putRequest kv False) (cmdBatch c))) (\<lambda>(rop, ctx).
       Inr ((ResultSuccess, mkResult (ucIndex ctx) (map wrapPut rop)), ctx))"

definition commandDeleteBatch_handle :: "('d, 'b) pebble \<Rightarrow> Command \<Rightarrow> ('d, 'b) updateContext
  \<Rightarrow> fsm_error + ((u64 \<times> CommandResult) \<times> ('d, 'b) updateContext)"
where
  "commandDeleteBatch_handle P c ctx =
     rbind (handleDeleteBatch P ctx
              (map (\<lambda>kv. emptyRequestOp_DeleteRange\<lparr>rdKey := kvKey kv\<rparr>) (cmdBatch c))) (\<lambda>(rop, ctx).
       Inr ((ResultSuccess, mkResult (ucIndex ctx) (map wrapDelete rop)), ctx))"

definition commandTxn_handle :: "('d, 'b) pebble \<Rightarrow> Command \<Rightarrow> ('d, 'b) updateContext
  \<Rightarrow> fsm_error + ((u64 \<times> CommandResult) \<times> ('d, 'b) updateContext)"
where
  "commandTxn_handle P c ctx =
     (case cmdTxn c of
        None \<Rightarrow> Inl nilPanic
      | Some txn \<Rightarrow>
          rbind (handleTxn P ctx (txCompare txn) (txSuccess txn) (txFailure txn)) (\<lambda>((succ, rop), ctx).
            Inr ((if succ then ResultSuccess else ResultFailure, mkResult (ucIndex ctx) rop), ctx)))"

definition commandDummy_handle :: "('d, 'b) updateContext
  \<Rightarrow> fsm_error + ((u64 \<times> CommandResult) \<times> ('d, 'b) updateContext)"
where
  "commandDummy_handle ctx = Inr ((ResultSuccess, mkResult (ucIndex ctx) []), ctx)"

text \<open>
  \<^verbatim>\<open>handle\<close> by the dynamic type; \<open>handleSequence\<close> is the loop of \<^verbatim>\<open>commandSequence.handle\<close>,
  which gathers the responses of the commands it contains.
\<close>

fun command_depth :: "command \<Rightarrow> nat" where
  "command_depth (CommandSequence c) = size c"
| "command_depth _ = 0"

lemma wrapCommand_depth: "wrapCommand cmd = Some w \<Longrightarrow> command_depth w \<le> size cmd"
  by (auto simp: wrapCommand_def split: if_splits)

lemma size_cmdSequence: "size_list size (cmdSequence c) < size c"
  by (cases c) simp

function (sequential) handle :: "('d, 'b) pebble \<Rightarrow> command \<Rightarrow> ('d, 'b) updateContext
    \<Rightarrow> fsm_error + ((u64 \<times> CommandResult) \<times> ('d, 'b) updateContext)"
  and handleSequence :: "('d, 'b) pebble \<Rightarrow> Command list \<Rightarrow> ('d, 'b) updateContext
    \<Rightarrow> fsm_error + (ResponseOp list \<times> ('d, 'b) updateContext)"
where
  "handle P (CommandPut c) ctx = commandPut_handle P c ctx"
| "handle P (CommandDelete c) ctx = commandDelete_handle P c ctx"
| "handle P (CommandPutBatch c) ctx = commandPutBatch_handle P c ctx"
| "handle P (CommandDeleteBatch c) ctx = commandDeleteBatch_handle P c ctx"
| "handle P (CommandTxn c) ctx = commandTxn_handle P c ctx"
| "handle P CommandDummy ctx = commandDummy_handle ctx"
| "handle P (CommandSequence c) ctx =
     rbind (handleSequence P (cmdSequence c) ctx) (\<lambda>(responses, ctx').
       Inr ((ResultSuccess, mkResult (ucIndex ctx) responses), ctx'))"
| "handleSequence P [] ctx = Inr ([], ctx)"
| "handleSequence P (cmd # cmds) ctx =
     (case wrapCommand cmd of
        None \<Rightarrow> Inl (GoPanic ''unknown command type'')
      | Some w \<Rightarrow>
          rbind (handle P w ctx) (\<lambda>((_, cmdRes), ctx).
          rbind (handleSequence P cmds ctx) (\<lambda>(responses, ctx).
            Inr (crResponses cmdRes @ responses, ctx))))"
  by pat_completeness auto
termination
  by (relation "measure (\<lambda>x. case x of Inl (P, w, ctx) \<Rightarrow> command_depth w
      | Inr (P, cmds, ctx) \<Rightarrow> size_list size cmds)")
    (auto simp: size_cmdSequence dest: wrapCommand_depth)

end
