(* ===== verification/FSM_Refinement.thy ===== *)
theory FSM_Refinement
  imports FSM_Command
begin

text \<open>
  What a table promises, stated over the user's pairs alone (a strictly sorted list of keys and
  values), and the proof that the handlers implement it over any storage engine with the
  documented laws. \<open>refines\<close> is the simulation between a handler's result and the
  specification's; it composes along \<open>rbind\<close>, so that each handler's proof follows its code.
\<close>

section \<open>The specification\<close>

type_synonym kvs = "(bytes \<times> bytes) list"

definition spec_single :: "RequestOp_Range \<Rightarrow> kvs \<Rightarrow> ResponseOp_Range" where
  "spec_single req m =
     (case map_of m (rrKey req) of
        None \<Rightarrow> emptyResponseOp_Range
      | Some v \<Rightarrow> emptyResponseOp_Range\<lparr>rsCount := 1, rsKvs :=
          (if rrCountOnly req then []
           else [emptyKeyValue\<lparr>kvKey := rrKey req, kvValue := (if rrKeysOnly req then [] else v)\<rparr>])\<rparr>)"

text \<open>The number of entries of a range a response holds: until the limit or the size is reached.\<close>

fun page :: "RequestOp_Range \<Rightarrow> nat \<Rightarrow> kvs \<Rightarrow> ResponseOp_Range \<Rightarrow> nat" where
  "page req i [] resp = 0"
| "page req i (e # es) resp =
     (if int i = sint (rrLimit req) \<and> sint (rrLimit req) \<noteq> 0
         \<or> maxRangeSize \<le> ResponseOp_Range_SizeVT resp + entry_size req e
      then 0
      else Suc (page req (Suc i) es (resp\<lparr>rsKvs := rsKvs resp @ shown req [e], rsCount := rsCount resp + 1\<rparr>)))"

definition spec_range :: "RequestOp_Range \<Rightarrow> bytes \<Rightarrow> kvs \<Rightarrow> ResponseOp_Range" where
  "spec_range req hi m =
     (let es = range_kvs (rrKey req) hi m;
          n = page req 0 es emptyResponseOp_Range
      in emptyResponseOp_Range\<lparr>rsKvs := shown req (take n es), rsMore := Suc n < length es, rsCount := of_nat n\<rparr>)"

definition spec_lookup :: "RequestOp_Range \<Rightarrow> kvs \<Rightarrow> ResponseOp_Range" where
  "spec_lookup req m =
     (case rrRangeEnd req of None \<Rightarrow> spec_single req m | Some hi \<Rightarrow> spec_range req hi m)"

definition spec_put :: "RequestOp_Put \<Rightarrow> kvs \<Rightarrow> fsm_error + (ResponseOp_Put \<times> kvs)" where
  "spec_put put m =
     (if rpPrevKv put then
        (case map_of m (rpKey put) of
           None \<Rightarrow> Inl (GoPanic ''index out of range'')
         | Some v \<Rightarrow> Inr (emptyResponseOp_Put\<lparr>spPrevKv := Some (emptyKeyValue\<lparr>kvKey := rpKey put, kvValue := v\<rparr>)\<rparr>,
                          alist_put (rpKey put) (rpValue put) m))
      else Inr (emptyResponseOp_Put, alist_put (rpKey put) (rpValue put) m))"

definition spec_delete :: "RequestOp_DeleteRange \<Rightarrow> kvs \<Rightarrow> fsm_error + (ResponseOp_DeleteRange \<times> kvs)" where
  "spec_delete del m =
     (let countOnly = rdCount del \<and> \<not> rdPrevKv del;
          asked = rdPrevKv del \<or> rdCount del;
          req = emptyRequestOp_Range\<lparr>rrKey := rdKey del, rrRangeEnd := rdRangeEnd del, rrCountOnly := countOnly\<rparr>
      in case rdRangeEnd del of
           Some hi \<Rightarrow>
             Inr (if asked then emptyResponseOp_DeleteRange\<lparr>sdDeleted := rsCount (spec_range req hi m),
                                  sdPrevKvs := rsKvs (spec_range req hi m)\<rparr>
                  else emptyResponseOp_DeleteRange,
                  filter (\<lambda>e. \<not> in_range (rdKey del) hi (fst e)) m)
         | None \<Rightarrow>
             Inr (if asked then emptyResponseOp_DeleteRange\<lparr>sdDeleted := 1, sdPrevKvs := rsKvs (spec_single req m)\<rparr>
                  else emptyResponseOp_DeleteRange,
                  filter (\<lambda>e. fst e \<noteq> rdKey del) m))"

definition spec_compare :: "Compare list \<Rightarrow> kvs \<Rightarrow> bool" where
  "spec_compare cs m = list_all (\<lambda>c.
     case cmpRangeEnd c of
       Some hi \<Rightarrow> range_kvs (cmpKey c) hi m \<noteq> []
         \<and> list_all (\<lambda>e. txnCompareSingle c (snd e)) (range_kvs (cmpKey c) hi m)
     | None \<Rightarrow> (case map_of m (cmpKey c) of None \<Rightarrow> False | Some v \<Rightarrow> txnCompareSingle c v)) cs"

definition spec_op :: "RequestOp \<Rightarrow> kvs \<Rightarrow> fsm_error + (ResponseOp list \<times> kvs)" where
  "spec_op op m =
     (case roRequest op of
        Some (RequestOp_RequestRange rq) \<Rightarrow> Inr ([wrapRange (spec_lookup rq m)], m)
      | Some (RequestOp_RequestPut rq) \<Rightarrow> rbind (spec_put rq m) (\<lambda>(r, m). Inr ([wrapPut r], m))
      | Some (RequestOp_RequestDeleteRange rq) \<Rightarrow> rbind (spec_delete rq m) (\<lambda>(r, m). Inr ([wrapDelete r], m))
      | None \<Rightarrow> Inr ([], m))"

text \<open>Running operations one after another, gathering their results.\<close>

fun spec_seq :: "('o \<Rightarrow> kvs \<Rightarrow> fsm_error + ('r \<times> kvs)) \<Rightarrow> 'o list \<Rightarrow> kvs \<Rightarrow> fsm_error + ('r list \<times> kvs)" where
  "spec_seq step [] m = Inr ([], m)"
| "spec_seq step (op # ops) m =
     rbind (step op m) (\<lambda>(r, m). rbind (spec_seq step ops m) (\<lambda>(rs, m). Inr (r # rs, m)))"

definition spec_txn :: "Txn \<Rightarrow> kvs \<Rightarrow> fsm_error + ((bool \<times> ResponseOp list) \<times> kvs)" where
  "spec_txn txn m =
     (let ok = spec_compare (txCompare txn) m in
      rbind (spec_seq spec_op (if ok then txSuccess txn else txFailure txn) m) (\<lambda>(rs, m).
        Inr ((ok, concat rs), m)))"

text \<open>A command's effect: whether it succeeded, its responses and the pairs after it.\<close>

function (sequential) spec_command :: "Command \<Rightarrow> kvs \<Rightarrow> fsm_error + ((u64 \<times> ResponseOp list) \<times> kvs)"
  and spec_commands :: "Command list \<Rightarrow> kvs \<Rightarrow> fsm_error + (ResponseOp list \<times> kvs)"
where
  "spec_command c m =
     (if cmdType c = Command_PUT then
        (case cmdKv c of
           None \<Rightarrow> Inl nilPanic
         | Some kv \<Rightarrow> rbind (spec_put (putRequest kv (cmdPrevKvs c)) m) (\<lambda>(r, m). Inr ((ResultSuccess, [wrapPut r]), m)))
      else if cmdType c = Command_DELETE then
        (case cmdKv c of
           None \<Rightarrow> Inl nilPanic
         | Some kv \<Rightarrow> rbind (spec_delete (deleteRequest kv c) m) (\<lambda>(r, m). Inr ((ResultSuccess, [wrapDelete r]), m)))
      else if cmdType c = Command_PUT_BATCH then
        rbind (spec_seq spec_put (map (\<lambda>kv. putRequest kv False) (cmdBatch c)) m) (\<lambda>(rs, m).
          Inr ((ResultSuccess, map wrapPut rs), m))
      else if cmdType c = Command_DELETE_BATCH then
        rbind (spec_seq spec_delete (map (\<lambda>kv. emptyRequestOp_DeleteRange\<lparr>rdKey := kvKey kv\<rparr>) (cmdBatch c)) m) (\<lambda>(rs, m).
          Inr ((ResultSuccess, map wrapDelete rs), m))
      else if cmdType c = Command_TXN then
        (case cmdTxn c of
           None \<Rightarrow> Inl nilPanic
         | Some txn \<Rightarrow> rbind (spec_txn txn m) (\<lambda>((ok, rs), m). Inr ((if ok then ResultSuccess else ResultFailure, rs), m)))
      else if cmdType c = Command_SEQUENCE then
        rbind (spec_commands (cmdSequence c) m) (\<lambda>(rs, m). Inr ((ResultSuccess, rs), m))
      else if cmdType c = Command_DUMMY then Inr ((ResultSuccess, []), m)
      else Inl (GoPanic ''unknown command type''))"
| "spec_commands [] m = Inr ([], m)"
| "spec_commands (c # cs) m =
     rbind (spec_command c m) (\<lambda>((_, r), m). rbind (spec_commands cs m) (\<lambda>(rs, m). Inr (r @ rs, m)))"
  by pat_completeness auto
termination
  by (relation "measure (\<lambda>x. case x of Inl (c, m) \<Rightarrow> size c | Inr (cs, m) \<Rightarrow> size_list size cs)")
    (auto simp: size_cmdSequence)

declare spec_command.simps [simp del]

section \<open>Reads\<close>

lemma iterate_loop_page:
  assumes "fill = fst (iterFuncsFromReq req)" and "sf = snd (iterFuncsFromReq req)"
  shows "iterate_loop (map (\<lambda>e. (userKey (fst e), snd e)) es) i (sint (rrLimit req)) fill sf resp
    = (let n = page req i es resp;
           r = resp\<lparr>rsKvs := rsKvs resp @ shown req (take n es), rsCount := rsCount resp + of_nat n\<rparr>
       in Inr (if n < length es then r\<lparr>rsMore := Suc n < length es\<rparr> else r))"
proof (induction es arbitrary: i resp)
  case Nil
  then show ?case by (simp add: shown_def)
next
  case (Cons e es)
  obtain k v where e: "e = (k, v)" by (cases e)
  have f: "fill k v resp = resp\<lparr>rsKvs := rsKvs resp @ shown req [e], rsCount := rsCount resp + 1\<rparr>" for resp
    using fold_iterFuncs [of req "[e]" resp] by (simp add: assms e)
  have s: "sf k v = entry_size req e"
    by (simp add: assms entry_size_def e)
  have app: "shown req [e] @ shown req xs = shown req (e # xs)" for xs
    by (simp add: shown_def)
  show ?case
    using Cons.IH [of "Suc i"]
    by (auto simp: e DecodeBytes_userKey s [unfolded e] f [unfolded e] Let_def app [unfolded e] shown_def [of req "[]"])
qed

lemma page_le: "page req i es resp \<le> length es"
  by (induction es arbitrary: i resp) simp_all

lemma rangeLookup_spec:
  assumes "reader_ok r" and "store_ok (contents r)" and "rrRangeEnd req = Some hi"
  shows "rangeLookup r req = Inr (spec_range req hi (user_kvs (contents r)))"
proof -
  let ?es = "range_kvs (rrKey req) hi (user_kvs (contents r))"
  obtain fill sf where fs: "iterFuncsFromReq req = (fill, sf)" by (cases "iterFuncsFromReq req")
  have "rangeLookup r req
      = iterate_loop (map (\<lambda>e. (userKey (fst e), snd e)) ?es) 0 (sint (rrLimit req)) fill sf emptyResponseOp_Range"
    using rdIter_user [OF assms(1,2)] assms(3)
    by (simp add: rangeLookup_def iterOptionsForBounds_eq fs iterate_def)
  then show ?thesis
    using page_le [of req 0 ?es emptyResponseOp_Range]
    by (auto simp: iterate_loop_page [where req = req] fs spec_range_def Let_def emptyResponseOp_Range_def)
qed

lemma singleLookup_spec: "reader_ok r \<Longrightarrow> singleLookup r req = Inr (spec_single req (user_kvs (contents r)))"
  by (simp add: singleLookup_user spec_single_def)

lemma lookup_spec:
  assumes "reader_ok r" and "store_ok (contents r)"
  shows "lookup r req = Inr (spec_lookup req (user_kvs (contents r)))"
  using assms
  by (cases "rrRangeEnd req") (simp_all add: lookup_def spec_lookup_def rangeLookup_spec singleLookup_spec)

lemma txnCompare_spec:
  assumes "reader_ok r" and "store_ok (contents r)"
  shows "txnCompare r cs = Inr (spec_compare cs (user_kvs (contents r)))"
proof -
  have "txnCompare_loop r [] cs = Inr (spec_compare cs (user_kvs (contents r)))"
  proof (induction cs)
    case Nil
    then show ?case by (simp add: spec_compare_def)
  next
    case (Cons c cs)
    let ?m = "user_kvs (contents r)"
    show ?case
    proof (cases "cmpRangeEnd c")
      case (Some hi)
      then show ?thesis
        using Cons.IH rdIter_user [OF assms, of "cmpKey c" hi]
        by (simp add: txnCompare_step_def iterOptionsForBounds_eq spec_compare_def list.pred_map o_def Let_def)
    next
      case None
      have "map_of ?m (cmpKey c) = map_of (contents r) (userKey (cmpKey c))"
        by (rule map_of_user_kvs)
      with None Cons.IH show ?thesis
        using reader_ok_get [OF assms(1), of "userKey (cmpKey c)"]
        by (auto simp: txnCompare_step_def spec_compare_def split: option.splits)
    qed
  qed
  then show ?thesis by (simp add: txnCompare_def)
qed

section \<open>Writes to the store, seen by the user\<close>

lemma user_kvs_put:
  assumes "sorted_keys c"
  shows "user_kvs (alist_put (userKey k) v c) = alist_put k v (user_kvs c)"
proof (rule sorted_keys_map_of_inject)
  show "sorted_keys (user_kvs (alist_put (userKey k) v c))" "sorted_keys (alist_put k v (user_kvs c))"
    using assms by (simp_all add: sorted_user_kvs sorted_keys_alist_put)
  show "map_of (user_kvs (alist_put (userKey k) v c)) = map_of (alist_put k v (user_kvs c))"
    by (rule ext) (simp add: map_of_user_kvs map_of_alist_put)
qed

lemma user_kvs_put_sys:
  assumes "sorted_keys c" and "\<not> is_userKey k"
  shows "user_kvs (alist_put k v c) = user_kvs c"
proof (rule sorted_keys_map_of_inject)
  show "sorted_keys (user_kvs (alist_put k v c))" "sorted_keys (user_kvs c)"
    using assms by (simp_all add: sorted_user_kvs sorted_keys_alist_put)
  show "map_of (user_kvs (alist_put k v c)) = map_of (user_kvs c)"
    using assms(2) by (intro ext) (auto simp: map_of_user_kvs map_of_alist_put)
qed

lemma user_kvs_filter:
  assumes "\<And>k v. (k, v) \<in> set c \<Longrightarrow> is_userKey k \<Longrightarrow> P k \<longleftrightarrow> Q (drop 5 k)"
  shows "user_kvs (filter (\<lambda>e. P (fst e)) c) = filter (\<lambda>e. Q (fst e)) (user_kvs c)"
proof -
  have "filter (\<lambda>e. is_userKey (fst e) \<and> P (fst e)) c
      = filter (\<lambda>e. is_userKey (fst e) \<and> Q (drop 5 (fst e))) c"
    using assms by (intro filter_cong) auto
  then show ?thesis
    by (simp add: user_kvs_def filter_map o_def conj_commute)
qed

lemma store_ok_put:
  assumes "store_ok c" and "table_key k"
  shows "store_ok (alist_put k v c)"
proof -
  have "fst e \<in> insert k (fst ` set c)" if "e \<in> set (alist_put k v c)" for e
    using that fst_set_alist_put [of k v c] by blast
  with assms have "table_key (fst e)" if "e \<in> set (alist_put k v c)" for e
    using that by (fastforce simp: store_ok_def list_all_iff)
  with assms(1) show ?thesis
    by (simp add: store_ok_def sorted_keys_alist_put list_all_iff)
qed

lemma store_ok_filter: "store_ok c \<Longrightarrow> store_ok (filter P c)"
  by (auto simp: store_ok_def sorted_keys_filter list_all_iff)

text \<open>What the three writes of a handler do.\<close>

lemma write_set:
  assumes "store_ok c"
  shows "store_ok (apply_write (WSet (userKey k) v) c)"
    and "user_kvs (apply_write (WSet (userKey k) v) c) = alist_put k v (user_kvs c)"
    and "\<not> is_userKey s \<Longrightarrow> map_of (apply_write (WSet (userKey k) v) c) s = map_of c s"
  using assms
  by (auto simp: store_ok_put user_kvs_put store_ok_sorted map_of_alist_put)

lemma write_delete:
  assumes "store_ok c"
  shows "store_ok (apply_write (WDelete (userKey k)) c)"
    and "user_kvs (apply_write (WDelete (userKey k)) c) = filter (\<lambda>e. fst e \<noteq> k) (user_kvs c)"
    and "\<not> is_userKey s \<Longrightarrow> map_of (apply_write (WDelete (userKey k)) c) s = map_of c s"
proof -
  show "store_ok (apply_write (WDelete (userKey k)) c)"
    using assms by (simp add: store_ok_filter)
  show "user_kvs (apply_write (WDelete (userKey k)) c) = filter (\<lambda>e. fst e \<noteq> k) (user_kvs c)"
    unfolding apply_write.simps
    by (rule user_kvs_filter [where P = "\<lambda>k'. k' \<noteq> userKey k"]) (auto elim!: is_userKey_obtain)
  show "map_of (apply_write (WDelete (userKey k)) c) s = map_of c s" if "\<not> is_userKey s"
    using that map_of_filter_keys [of "\<lambda>k'. k' \<noteq> userKey k" c s] by auto
qed

lemma write_deleteRange:
  assumes "store_ok c"
  shows "store_ok (apply_write (WDeleteRange (userKey lo) (upperBound hi)) c)"
    and "user_kvs (apply_write (WDeleteRange (userKey lo) (upperBound hi)) c)
      = filter (\<lambda>e. \<not> in_range lo hi (fst e)) (user_kvs c)"
    and "s \<in> {sysLocalIndex, sysLeaderIndex} \<Longrightarrow>
      map_of (apply_write (WDeleteRange (userKey lo) (upperBound hi)) c) s = map_of c s"
proof -
  show "store_ok (apply_write (WDeleteRange (userKey lo) (upperBound hi)) c)"
    using assms by (simp add: store_ok_filter)
  have table: "table_key k" if "(k, v) \<in> set c" for k v
    using assms that by (auto simp: store_ok_def list_all_iff)
  show "user_kvs (apply_write (WDeleteRange (userKey lo) (upperBound hi)) c)
      = filter (\<lambda>e. \<not> in_range lo hi (fst e)) (user_kvs c)"
    unfolding apply_write.simps
    by (rule user_kvs_filter [where P = "\<lambda>k. \<not> (userKey lo \<le> k \<and> k < upperBound hi)"])
      (use bounds_iff_in_range table in blast)
  show "map_of (apply_write (WDeleteRange (userKey lo) (upperBound hi)) c) s = map_of c s"
    if "s \<in> {sysLocalIndex, sysLeaderIndex}"
  proof -
    have "\<not> s < upperBound hi" using that by (auto simp: upperBound_def)
    then show ?thesis
      using map_of_filter_keys [of "\<lambda>k. \<not> (userKey lo \<le> k \<and> k < upperBound hi)" c s] by simp
  qed
qed

section \<open>The simulation\<close>

text \<open>What a reader of the batch sees.\<close>

definition ctx_view :: "('d, 'b) pebble \<Rightarrow> ('b \<Rightarrow> batch_op list) \<Rightarrow> ('d, 'b) updateContext \<Rightarrow> kvs" where
  "ctx_view P W ctx = apply_writes (W (ucBatch ctx)) (contents (pbReader P (ucDb ctx)))"

text \<open>What every handler keeps: the store's invariant, the system keys and the rest of the context.\<close>

definition ctx_step :: "('d, 'b) pebble \<Rightarrow> ('b \<Rightarrow> batch_op list) \<Rightarrow> ('d, 'b) updateContext \<Rightarrow> ('d, 'b) updateContext \<Rightarrow> bool" where
  "ctx_step P W ctx ctx' \<longleftrightarrow>
     ucDb ctx' = ucDb ctx \<and> ucIndex ctx' = ucIndex ctx \<and> ucLeaderIndex ctx' = ucLeaderIndex ctx
     \<and> store_ok (ctx_view P W ctx')
     \<and> (\<forall>s \<in> {sysLocalIndex, sysLeaderIndex}. map_of (ctx_view P W ctx') s = map_of (ctx_view P W ctx) s)
     \<and> (pbIndexed P (ucBatch ctx) \<longrightarrow> pbIndexed P (ucBatch ctx'))"

lemma ctx_step_refl: "store_ok (ctx_view P W ctx) \<Longrightarrow> ctx_step P W ctx ctx"
  by (simp add: ctx_step_def)

lemma ctx_step_trans: "ctx_step P W a b \<Longrightarrow> ctx_step P W b c \<Longrightarrow> ctx_step P W a c"
  by (simp add: ctx_step_def)

lemma ctx_step_ok: "ctx_step P W a b \<Longrightarrow> store_ok (ctx_view P W b)"
  by (simp add: ctx_step_def)

definition refines :: "('d, 'b) pebble \<Rightarrow> ('b \<Rightarrow> batch_op list) \<Rightarrow> ('d, 'b) updateContext
  \<Rightarrow> fsm_error + ('x \<times> ('d, 'b) updateContext) \<Rightarrow> fsm_error + ('x \<times> kvs) \<Rightarrow> bool"
where
  "refines P W ctx res spec \<longleftrightarrow>
     (\<forall>x ctx'. res = Inr (x, ctx') \<longrightarrow> spec = Inr (x, user_kvs (ctx_view P W ctx')) \<and> ctx_step P W ctx ctx')
     \<and> (\<forall>e. pebble_total P \<longrightarrow> res = Inl e \<longrightarrow> spec = Inl e)"

lemma refines_bind:
  assumes "refines P W ctx res spec"
    and "\<And>x ctx'. ctx_step P W ctx ctx' \<Longrightarrow>
      refines P W ctx' (f (x, ctx')) (g (x, user_kvs (ctx_view P W ctx')))"
  shows "refines P W ctx (rbind res f) (rbind spec g)"
proof (cases res)
  case (Inl e)
  then show ?thesis using assms(1) by (simp add: refines_def)
next
  case (Inr p)
  obtain x ctx' where p: "p = (x, ctx')" by (cases p)
  with assms(1) Inr have "spec = Inr (x, user_kvs (ctx_view P W ctx'))" and st: "ctx_step P W ctx ctx'"
    by (auto simp: refines_def)
  with assms(2) [OF st, of x] Inr p show ?thesis
    by (auto simp: refines_def intro: ctx_step_trans)
qed

lemma refines_ret:
  "store_ok (ctx_view P W ctx) \<Longrightarrow> refines P W ctx (Inr (x, ctx)) (Inr (x, user_kvs (ctx_view P W ctx)))"
  by (simp add: refines_def ctx_step_refl)

lemma refines_err [simp]: "refines P W ctx (Inl e) (Inl e)"
  by (simp add: refines_def)

text \<open>A write to the batch.\<close>

lemma refines_write:
  assumes "batch_grows P W (ucBatch ctx) res [w]" and "store_ok (ctx_view P W ctx)"
    and "pebble_total P \<Longrightarrow> \<exists>b. res = Inr b"
    and "store_ok (apply_write w (ctx_view P W ctx))"
    and "user_kvs (apply_write w (ctx_view P W ctx)) = m"
    and "\<And>s. s \<in> {sysLocalIndex, sysLeaderIndex} \<Longrightarrow>
      map_of (apply_write w (ctx_view P W ctx)) s = map_of (ctx_view P W ctx) s"
  shows "refines P W ctx (rbind (liftP res) (\<lambda>b. Inr (x, ctx\<lparr>ucBatch := b\<rparr>))) (Inr (x, m))"
proof (cases res)
  case (Inl e)
  then show ?thesis using assms(3) by (auto simp: refines_def)
next
  case (Inr b)
  with assms(1) have "W b = W (ucBatch ctx) @ [w]" and "pbIndexed P b = pbIndexed P (ucBatch ctx)"
    by (simp_all add: batch_grows_def)
  then have "ctx_view P W (ctx\<lparr>ucBatch := b\<rparr>) = apply_write w (ctx_view P W ctx)"
    by (simp add: ctx_view_def)
  with assms(4-6) \<open>pbIndexed P b = _\<close> Inr show ?thesis
    by (simp add: refines_def ctx_step_def)
qed

text \<open>Indexing the batch changes nothing a reader can see, and afterwards it can be read.\<close>

lemma EnsureIndexed_spec:
  assumes "pebble_laws P W" and "store_ok (ctx_view P W ctx)" and "EnsureIndexed P ctx = Inr ctx'"
  shows "ctx_step P W ctx ctx'" and "ctx_view P W ctx' = ctx_view P W ctx" and "pbIndexed P (ucBatch ctx')"
proof -
  let ?new = "pbNewIndexedBatch P (ucDb ctx)"
  have "ctx_view P W ctx' = ctx_view P W ctx \<and> pbIndexed P (ucBatch ctx')
      \<and> ucDb ctx' = ucDb ctx \<and> ucIndex ctx' = ucIndex ctx \<and> ucLeaderIndex ctx' = ucLeaderIndex ctx"
  proof (cases "pbIndexed P (ucBatch ctx)")
    case True
    with assms(3) show ?thesis by (simp add: EnsureIndexed_def)
  next
    case False
    with assms(3) obtain b where b: "pbApply P ?new (ucBatch ctx) = Inr b" "ctx' = ctx\<lparr>ucBatch := b\<rparr>"
      by (auto simp: EnsureIndexed_def result_simps split: option.splits)
    have new: "W ?new = []" "pbIndexed P ?new" "batch_grows P W ?new (pbApply P ?new (ucBatch ctx)) (W (ucBatch ctx))"
      using assms(1) by (simp_all add: pebble_laws_def)
    with b(1) have "W b = W (ucBatch ctx)" "pbIndexed P b"
      by (simp_all add: batch_grows_def)
    with b(2) show ?thesis by (simp add: ctx_view_def)
  qed
  then show "ctx_step P W ctx ctx'" "ctx_view P W ctx' = ctx_view P W ctx" "pbIndexed P (ucBatch ctx')"
    using assms(2) by (simp_all add: ctx_step_def)
qed

lemma EnsureIndexed_total: "pebble_total P \<Longrightarrow> \<exists>ctx'. EnsureIndexed P ctx = Inr ctx'"
  unfolding EnsureIndexed_def pebble_total_def by (metis liftP_simps(2) option.simps(4) rbind.simps(2))

lemma ctxReader_ok:
  assumes "pebble_laws P W" and "pbIndexed P (ucBatch ctx)"
  shows "reader_ok (ctxReader P ctx)" and "contents (ctxReader P ctx) = ctx_view P W ctx"
  using assms by (simp_all add: ctxReader_def ctx_view_def pebble_laws_def)

text \<open>A handler that indexes the batch and then reads it.\<close>

lemma refines_indexed:
  assumes "pebble_laws P W" and "store_ok (ctx_view P W ctx)"
    and "\<And>ctx'. ctx_step P W ctx ctx' \<Longrightarrow> ctx_view P W ctx' = ctx_view P W ctx \<Longrightarrow>
      pbIndexed P (ucBatch ctx') \<Longrightarrow> refines P W ctx' (f ctx') spec"
  shows "refines P W ctx (rbind (EnsureIndexed P ctx) f) spec"
proof (cases "EnsureIndexed P ctx")
  case (Inl e)
  then have "\<not> pebble_total P" using EnsureIndexed_total [of P ctx] by auto
  with Inl show ?thesis by (simp add: refines_def)
next
  case (Inr ctx')
  note E = EnsureIndexed_spec [OF assms(1,2) Inr]
  from assms(3) [OF E] E(1) Inr show ?thesis
    by (auto simp: refines_def intro: ctx_step_trans)
qed

section \<open>The handlers implement the specification\<close>

lemma refines_set:
  assumes "pebble_laws P W" and "store_ok (ctx_view P W ctx)"
  shows "refines P W ctx (rbind (liftP (pbSet P (ucBatch ctx) (userKey k) v)) (\<lambda>b. Inr (x, ctx\<lparr>ucBatch := b\<rparr>)))
    (Inr (x, alist_put k v (user_kvs (ctx_view P W ctx))))"
  by (rule refines_write [where w = "WSet (userKey k) v"])
    (use assms write_set [OF assms(2)] in \<open>auto simp: pebble_laws_def pebble_total_def simp del: apply_write.simps\<close>)

lemma refines_delete:
  assumes "pebble_laws P W" and "store_ok (ctx_view P W ctx)"
  shows "refines P W ctx (rbind (liftP (pbDelete P (ucBatch ctx) (userKey k))) (\<lambda>b. Inr (x, ctx\<lparr>ucBatch := b\<rparr>)))
    (Inr (x, filter (\<lambda>e. fst e \<noteq> k) (user_kvs (ctx_view P W ctx))))"
  by (rule refines_write [where w = "WDelete (userKey k)"])
    (use assms write_delete [OF assms(2)] in \<open>auto simp: pebble_laws_def pebble_total_def simp del: apply_write.simps\<close>)

lemma refines_deleteRange:
  assumes "pebble_laws P W" and "store_ok (ctx_view P W ctx)"
  shows "refines P W ctx
    (rbind (liftP (pbDeleteRange P (ucBatch ctx) (userKey lo) (upperBound hi))) (\<lambda>b. Inr (x, ctx\<lparr>ucBatch := b\<rparr>)))
    (Inr (x, filter (\<lambda>e. \<not> in_range lo hi (fst e)) (user_kvs (ctx_view P W ctx))))"
  by (rule refines_write [where w = "WDeleteRange (userKey lo) (upperBound hi)"])
    (use assms write_deleteRange [OF assms(2)] in \<open>auto simp: pebble_laws_def pebble_total_def simp del: apply_write.simps\<close>)

lemma handlePut_refines:
  assumes "pebble_laws P W" and "store_ok (ctx_view P W ctx)"
  shows "refines P W ctx (handlePut P ctx put) (spec_put put (user_kvs (ctx_view P W ctx)))"
proof (cases "rpPrevKv put")
  case False
  then show ?thesis
    using refines_set [OF assms] by (simp add: handlePut_def spec_put_def)
next
  case True
  show ?thesis
    unfolding handlePut_def
    apply (simp add: True rbind_assoc)
    apply (rule refines_indexed [OF assms])
    subgoal for ctx'
      using ctxReader_ok [OF assms(1), of ctx'] refines_set [OF assms(1), of ctx'] assms(2) True
      by (auto simp: singleLookup_spec spec_single_def spec_put_def emptyRequestOp_Range_def
          emptyResponseOp_Range_def split: option.splits)
    done
qed

lemma wildcard_bound:
  "(if hi = wildcard then Inr (incrementRightmostByte maxUserKey)
    else case encodeUserKey [] hi of (Some e, _) \<Rightarrow> Inl (KeyErr e) | (None, b) \<Rightarrow> Inr b)
   = Inr (upperBound hi)"
  by (simp add: upperBound_def userEnd_def)

lemma handleDelete_refines:
  assumes "pebble_laws P W" and "store_ok (ctx_view P W ctx)"
  shows "refines P W ctx (handleDelete P ctx del) (spec_delete del (user_kvs (ctx_view P W ctx)))"
proof (cases "rdRangeEnd del")
  case None
  show ?thesis
  proof (cases "rdPrevKv del \<or> rdCount del")
    case False
    then show ?thesis
      using refines_delete [OF assms] None by (simp add: handleDelete_def spec_delete_def Let_def)
  next
    case True
    show ?thesis
      unfolding handleDelete_def
      apply (simp add: True None rbind_assoc Let_def)
      apply (rule refines_indexed [OF assms])
      subgoal for ctx'
        using ctxReader_ok [OF assms(1), of ctx'] refines_delete [OF assms(1), of ctx'] assms(2) True None
        by (simp add: singleLookup_spec spec_delete_def spec_single_def Let_def emptyRequestOp_Range_def)
      done
  qed
next
  case (Some hi)
  show ?thesis
  proof (cases "rdPrevKv del \<or> rdCount del")
    case False
    then show ?thesis
      using refines_deleteRange [OF assms] Some
      by (simp add: handleDelete_def spec_delete_def Let_def wildcard_bound [simplified])
  next
    case True
    show ?thesis
      unfolding handleDelete_def
      apply (simp add: True Some rbind_assoc Let_def wildcard_bound [simplified])
      apply (rule refines_indexed [OF assms])
      subgoal for ctx'
        using ctxReader_ok [OF assms(1), of ctx'] refines_deleteRange [OF assms(1), of ctx'] assms(2) True Some
        by (simp add: rangeLookup_spec [where hi = hi] spec_delete_def Let_def)
      done
  qed
qed

text \<open>
  The contract of an operation that is also run in batches: it implements its specification, and
  the batch runs it on one element after another. The batch then implements the specification's
  sequence.
\<close>

locale batch_handler =
  fixes run :: "('d, 'b) pebble \<Rightarrow> ('d, 'b) updateContext \<Rightarrow> 'o \<Rightarrow> fsm_error + ('r \<times> ('d, 'b) updateContext)"
    and runs :: "('d, 'b) pebble \<Rightarrow> ('d, 'b) updateContext \<Rightarrow> 'o list \<Rightarrow> fsm_error + ('r list \<times> ('d, 'b) updateContext)"
    and step :: "'o \<Rightarrow> kvs \<Rightarrow> fsm_error + ('r \<times> kvs)"
  assumes run_refines: "pebble_laws P W \<Longrightarrow> store_ok (ctx_view P W ctx) \<Longrightarrow>
      refines P W ctx (run P ctx x) (step x (user_kvs (ctx_view P W ctx)))"
    and runs_Nil: "runs P ctx [] = Inr ([], ctx)"
    and runs_Cons: "runs P ctx (x # xs) = rbind (run P ctx x) (\<lambda>(r, ctx).
      rbind (runs P ctx xs) (\<lambda>(rs, ctx). Inr (r # rs, ctx)))"
begin

lemma runs_refines:
  assumes "pebble_laws P W" and "store_ok (ctx_view P W ctx)"
  shows "refines P W ctx (runs P ctx xs) (spec_seq step xs (user_kvs (ctx_view P W ctx)))"
  using assms(2)
proof (induction xs arbitrary: ctx)
  case Nil
  then show ?case by (simp add: runs_Nil refines_ret)
next
  case (Cons x xs)
  show ?case
    unfolding runs_Cons spec_seq.simps
  proof (rule refines_bind [OF run_refines [OF assms(1) Cons.prems]], simp)
    fix r ctx'
    assume "ctx_step P W ctx ctx'"
    then have ok: "store_ok (ctx_view P W ctx')" by (rule ctx_step_ok)
    show "refines P W ctx' (rbind (runs P ctx' xs) (\<lambda>(rs, ctx). Inr (r # rs, ctx)))
        (rbind (spec_seq step xs (user_kvs (ctx_view P W ctx'))) (\<lambda>(rs, m). Inr (r # rs, m)))"
      by (rule refines_bind [OF Cons.IH [OF ok]]) (auto intro: refines_ret dest: ctx_step_ok)
  qed
qed

end

interpretation puts: batch_handler handlePut handlePutBatch spec_put
  by unfold_locales (simp_all add: handlePut_refines)

interpretation deletes: batch_handler handleDelete handleDeleteBatch spec_delete
  by unfold_locales (simp_all add: handleDelete_refines)

lemma handleTxnOp_refines:
  assumes "pebble_laws P W" and "store_ok (ctx_view P W ctx)" and "pbIndexed P (ucBatch ctx)"
  shows "refines P W ctx (handleTxnOp P ctx op) (spec_op op (user_kvs (ctx_view P W ctx)))"
proof (cases "roRequest op")
  case None
  then show ?thesis using assms(2) by (simp add: handleTxnOp_def spec_op_def refines_ret)
next
  case (Some rq)
  show ?thesis
  proof (cases rq)
    case (RequestOp_RequestRange r)
    with Some show ?thesis
      using ctxReader_ok [OF assms(1,3)] assms(2)
      by (simp add: handleTxnOp_def spec_op_def lookup_spec refines_ret)
  next
    case (RequestOp_RequestPut r)
    with Some show ?thesis
      by (auto simp: handleTxnOp_def spec_op_def intro!: refines_bind [OF handlePut_refines [OF assms(1,2)]]
          refines_ret dest: ctx_step_ok)
  next
    case (RequestOp_RequestDeleteRange r)
    with Some show ?thesis
      by (auto simp: handleTxnOp_def spec_op_def intro!: refines_bind [OF handleDelete_refines [OF assms(1,2)]]
          refines_ret dest: ctx_step_ok)
  qed
qed

lemma handleTxnOps_refines:
  assumes "pebble_laws P W" and "store_ok (ctx_view P W ctx)" and "pbIndexed P (ucBatch ctx)"
  shows "refines P W ctx (handleTxnOps P ctx ops)
    (rbind (spec_seq spec_op ops (user_kvs (ctx_view P W ctx))) (\<lambda>(rs, m). Inr (concat rs, m)))"
  using assms(2,3)
proof (induction ops arbitrary: ctx)
  case Nil
  then show ?case by (simp add: refines_ret)
next
  case (Cons op ops)
  have "refines P W ctx (handleTxnOps P ctx (op # ops))
    (rbind (spec_op op (user_kvs (ctx_view P W ctx))) (\<lambda>(r, m).
      rbind (rbind (spec_seq spec_op ops m) (\<lambda>(rs, m). Inr (concat rs, m))) (\<lambda>(rs, m). Inr (r @ rs, m))))"
    unfolding handleTxnOps.simps
  proof (rule refines_bind [OF handleTxnOp_refines [OF assms(1) Cons.prems]], unfold prod.case)
    fix r ctx'
    assume st: "ctx_step P W ctx ctx'"
    with Cons.prems(2) have ix: "pbIndexed P (ucBatch ctx')" by (simp add: ctx_step_def)
    show "refines P W ctx' (rbind (handleTxnOps P ctx' ops) (\<lambda>(rs, ctx). Inr (r @ rs, ctx)))
      (rbind (rbind (spec_seq spec_op ops (user_kvs (ctx_view P W ctx'))) (\<lambda>(rs, m). Inr (concat rs, m)))
        (\<lambda>(rs, m). Inr (r @ rs, m)))"
      by (rule refines_bind [OF Cons.IH [OF ctx_step_ok [OF st] ix]]) (auto intro: refines_ret dest: ctx_step_ok)
  qed
  then show ?case
    by (simp add: rbind_assoc rbind_case_prod)
qed

lemma handleTxn_refines:
  assumes "pebble_laws P W" and "store_ok (ctx_view P W ctx)"
  shows "refines P W ctx (handleTxn P ctx (txCompare txn) (txSuccess txn) (txFailure txn))
    (spec_txn txn (user_kvs (ctx_view P W ctx)))"
  unfolding handleTxn_def
proof (rule refines_indexed [OF assms])
  fix ctx'
  assume st: "ctx_step P W ctx ctx'" and v: "ctx_view P W ctx' = ctx_view P W ctx"
    and ix: "pbIndexed P (ucBatch ctx')"
  let ?m = "user_kvs (ctx_view P W ctx)"
  let ?ok = "spec_compare (txCompare txn) ?m"
  let ?ops = "if ?ok then txSuccess txn else txFailure txn"
  have cmp: "txnCompare (ctxReader P ctx') (txCompare txn) = Inr ?ok"
    using ctxReader_ok [OF assms(1) ix] assms(2) v by (simp add: txnCompare_spec)
  have "refines P W ctx' (rbind (handleTxnOps P ctx' ?ops) (\<lambda>(res, ctx). Inr ((?ok, res), ctx)))
    (rbind (rbind (spec_seq spec_op ?ops ?m) (\<lambda>(rs, m). Inr (concat rs, m))) (\<lambda>(rs, m). Inr ((?ok, rs), m)))"
    by (rule refines_bind [OF handleTxnOps_refines [OF assms(1) ctx_step_ok [OF st] ix, unfolded v]])
      (auto intro: refines_ret dest: ctx_step_ok)
  then show "refines P W ctx' (rbind (txnCompare (ctxReader P ctx') (txCompare txn)) (\<lambda>ok.
      rbind (handleTxnOps P ctx' (if ok then txSuccess txn else txFailure txn)) (\<lambda>(res, ctx). Inr ((ok, res), ctx))))
    (spec_txn txn ?m)"
    unfolding cmp rbind.simps spec_txn_def Let_def
    by (simp only: rbind_assoc rbind_case_prod rbind.simps prod.case)
qed

text \<open>A command's specification, with the result the handler returns.\<close>

definition spec_result :: "Command \<Rightarrow> u64 \<Rightarrow> kvs \<Rightarrow> fsm_error + ((u64 \<times> CommandResult) \<times> kvs)" where
  "spec_result c idx m = rbind (spec_command c m) (\<lambda>((v, rs), m). Inr ((v, mkResult idx rs), m))"

lemma spec_command_unknown: "wrapCommand c = None \<Longrightarrow> spec_command c m = Inl (GoPanic ''unknown command type'')"
  by (auto simp: wrapCommand_def spec_command.simps split: if_splits)

lemma spec_simps:
  "wrapCommand c = Some (CommandPut c') \<Longrightarrow> c' = c \<and> cmdType c = Command_PUT"
  "wrapCommand c = Some (CommandDelete c') \<Longrightarrow> c' = c \<and> cmdType c = Command_DELETE"
  "wrapCommand c = Some (CommandPutBatch c') \<Longrightarrow> c' = c \<and> cmdType c = Command_PUT_BATCH"
  "wrapCommand c = Some (CommandDeleteBatch c') \<Longrightarrow> c' = c \<and> cmdType c = Command_DELETE_BATCH"
  "wrapCommand c = Some (CommandTxn c') \<Longrightarrow> c' = c \<and> cmdType c = Command_TXN"
  "wrapCommand c = Some (CommandSequence c') \<Longrightarrow> c' = c \<and> cmdType c = Command_SEQUENCE"
  "wrapCommand c = Some CommandDummy \<Longrightarrow> cmdType c = Command_DUMMY"
  by (auto simp: wrapCommand_def split: if_splits)

text \<open>Turning the result of an operation into the result of a command.\<close>

lemma refines_result:
  assumes "refines P W ctx res spec" and "\<And>x m. g (x, m) = Inr ((v x, mkResult (ucIndex ctx) (rs x)), m)"
  shows "refines P W ctx (rbind res (\<lambda>(x, ctx'). Inr ((v x, mkResult (ucIndex ctx') (rs x)), ctx'))) (rbind spec g)"
proof (rule refines_bind [OF assms(1)])
  fix x ctx'
  assume st: "ctx_step P W ctx ctx'"
  then have "ucIndex ctx' = ucIndex ctx" by (simp add: ctx_step_def)
  with refines_ret [OF ctx_step_ok [OF st]] show
    "refines P W ctx' (case (x, ctx') of (x, ctx') \<Rightarrow> Inr ((v x, mkResult (ucIndex ctx') (rs x)), ctx'))
      (g (x, user_kvs (ctx_view P W ctx')))"
    by (simp add: assms(2))
qed

lemma handleSequence_refines:
  assumes "store_ok (ctx_view P W ctx)"
    and "\<And>c w ctx. c \<in> set cs \<Longrightarrow> wrapCommand c = Some w \<Longrightarrow> store_ok (ctx_view P W ctx) \<Longrightarrow>
      refines P W ctx (handle P w ctx) (spec_result c (ucIndex ctx) (user_kvs (ctx_view P W ctx)))"
  shows "refines P W ctx (handleSequence P cs ctx) (spec_commands cs (user_kvs (ctx_view P W ctx)))"
  using assms
proof (induction cs arbitrary: ctx)
  case Nil
  then show ?case by (simp add: refines_ret)
next
  case (Cons c cs)
  show ?case
  proof (cases "wrapCommand c")
    case None
    then show ?thesis by (simp add: spec_command_unknown)
  next
    case (Some w)
    let ?g = "\<lambda>((_, r), m). rbind (spec_commands cs m) (\<lambda>(rs, m). Inr (crResponses r @ rs, m))"
    have "refines P W ctx (handleSequence P (c # cs) ctx)
      (rbind (spec_result c (ucIndex ctx) (user_kvs (ctx_view P W ctx))) ?g)"
      unfolding handleSequence.simps Some option.case
    proof (rule refines_bind [OF Cons.prems(2) [OF _ Some Cons.prems(1)]], simp, unfold split_paired_all prod.case)
      fix v r ctx'
      assume st: "ctx_step P W ctx ctx'"
      show "refines P W ctx' (rbind (handleSequence P cs ctx') (\<lambda>(responses, ctx). Inr (crResponses r @ responses, ctx)))
        (rbind (spec_commands cs (user_kvs (ctx_view P W ctx'))) (\<lambda>(rs, m). Inr (crResponses r @ rs, m)))"
        by (rule refines_bind [OF Cons.IH [OF ctx_step_ok [OF st]]])
          (use Cons.prems(2) in \<open>auto intro: refines_ret dest: ctx_step_ok\<close>)
    qed
    moreover have "rbind (spec_result c i m) ?g = spec_commands (c # cs) m" for i m
      by (cases "spec_command c m") (auto simp: spec_result_def mkResult_def)
    ultimately show ?thesis by simp
  qed
qed

lemma handle_refines:
  assumes "pebble_laws P W"
  shows "wrapCommand c = Some w \<Longrightarrow> store_ok (ctx_view P W ctx) \<Longrightarrow>
    refines P W ctx (handle P w ctx) (spec_result c (ucIndex ctx) (user_kvs (ctx_view P W ctx)))"
proof (induction c arbitrary: w ctx)
  case (Command a b kv li batch txn re prev sequence count unk)
  let ?c = "Command a b kv li batch txn re prev sequence count unk"
  let ?m = "user_kvs (ctx_view P W ctx)"
  note ok = \<open>store_ok (ctx_view P W ctx)\<close>
  note types = spec_simps [where c = ?c]
  show ?case
  proof (cases w)
    case (CommandPut c')
    with types(1) Command.prems(1) have [simp]: "c' = ?c" "b = Command_PUT" by auto
    show ?thesis
      using ok refines_result [OF handlePut_refines [OF assms ok], where v = "\<lambda>_. ResultSuccess" and rs = "\<lambda>r. [wrapPut r]"]
      by (auto simp: CommandPut commandPut_handle_def spec_result_def spec_command.simps rbind_assoc rbind_case_prod
          split: option.splits)
  next
    case (CommandDelete c')
    with types(2) Command.prems(1) have [simp]: "c' = ?c" "b = Command_DELETE" by auto
    show ?thesis
      using ok refines_result [OF handleDelete_refines [OF assms ok], where v = "\<lambda>_. ResultSuccess" and rs = "\<lambda>r. [wrapDelete r]"]
      by (auto simp: CommandDelete commandDelete_handle_def spec_result_def spec_command.simps rbind_assoc
          rbind_case_prod Command_types split: option.splits)
  next
    case (CommandPutBatch c')
    with types(3) Command.prems(1) have [simp]: "c' = ?c" "b = Command_PUT_BATCH" by auto
    show ?thesis
      using refines_result [OF puts.runs_refines [OF assms ok], where v = "\<lambda>_. ResultSuccess" and rs = "map wrapPut"]
      by (auto simp: CommandPutBatch commandPutBatch_handle_def spec_result_def spec_command.simps rbind_assoc
          rbind_case_prod Command_types)
  next
    case (CommandDeleteBatch c')
    with types(4) Command.prems(1) have [simp]: "c' = ?c" "b = Command_DELETE_BATCH" by auto
    show ?thesis
      using refines_result [OF deletes.runs_refines [OF assms ok], where v = "\<lambda>_. ResultSuccess" and rs = "map wrapDelete"]
      by (auto simp: CommandDeleteBatch commandDeleteBatch_handle_def spec_result_def spec_command.simps rbind_assoc
          rbind_case_prod Command_types)
  next
    case (CommandTxn c')
    with types(5) Command.prems(1) have [simp]: "c' = ?c" "b = Command_TXN" by auto
    show ?thesis
      using ok refines_result [OF handleTxn_refines [OF assms ok],
          where v = "\<lambda>x. if fst x then ResultSuccess else ResultFailure" and rs = snd]
      by (auto simp: CommandTxn commandTxn_handle_def spec_result_def spec_command.simps rbind_assoc
          rbind_case_prod Command_types case_prod_beta' split: option.splits)
  next
    case (CommandSequence c')
    with types(6) Command.prems(1) have [simp]: "c' = ?c" "b = Command_SEQUENCE" by auto
    have seq: "refines P W ctx (handleSequence P sequence ctx) (spec_commands sequence ?m)"
      using ok Command.IH by (rule handleSequence_refines)
    have "refines P W ctx (rbind (handleSequence P sequence ctx) (\<lambda>(rs, ctx').
        Inr ((ResultSuccess, mkResult (ucIndex ctx) rs), ctx')))
      (rbind (spec_commands sequence ?m) (\<lambda>(rs, m). Inr ((ResultSuccess, mkResult (ucIndex ctx) rs), m)))"
      by (rule refines_bind [OF seq]) (auto intro: refines_ret dest: ctx_step_ok)
    then show ?thesis
      by (simp add: CommandSequence spec_result_def spec_command.simps rbind_assoc rbind_case_prod Command_types)
  next
    case CommandDummy
    with types(7) Command.prems(1) have [simp]: "b = Command_DUMMY" by auto
    show ?thesis
      using refines_ret [OF ok] by (simp add: CommandDummy commandDummy_handle_def spec_result_def
          spec_command.simps Command_types)
  qed
qed

end
