(* ===== verification/FSM_StateMachine.thy ===== *)
theory FSM_StateMachine
  imports FSM_Refinement
begin

text \<open>
  The state machine of a table (\<^verbatim>\<open>storage/table/fsm/fsm.go\<close>): \<^verbatim>\<open>Update\<close> applies a batch of
  Raft entries and commits it, \<^verbatim>\<open>Lookup\<close> answers local queries. The abstract state of a table
  is its pairs, the index of the last applied entry and the leader index; \<^verbatim>\<open>Update\<close> is proved
  to implement a specification over that state.
\<close>

section \<open>State and operations\<close>

text \<open>\<^verbatim>\<open>sm.Entry\<close> with its result.\<close>

record Entry =
  entIndex :: u64
  entCmd :: bytes
  entValue :: u64
  entData :: bytes

text \<open>\<open>fsmPebble\<close> is \<open>None\<close> before \<^verbatim>\<open>Open\<close>; \<open>fsmApplied\<close> is the applied-index metric.\<close>

record 'd FSM =
  fsmPebble :: "'d option"
  fsmClusterID :: u64
  fsmNodeID :: u64
  fsmTableName :: bytes
  fsmDirname :: string
  fsmClosed :: bool
  fsmRecoveryType :: byte
  fsmApplied :: u64

definition parseCommand :: "('d, 'b) updateContext \<Rightarrow> Entry \<Rightarrow> fsm_error + (command \<times> ('d, 'b) updateContext)" where
  "parseCommand c entry =
     (let c = c\<lparr>ucIndex := entIndex entry\<rparr> in
      case Command_UnmarshalVT (entCmd entry) emptyCommand of
        Inl e \<Rightarrow> Inl (ProtoErr e)
      | Inr cmd \<Rightarrow>
          let c = c\<lparr>ucLeaderIndex := cmdLeaderIndex cmd\<rparr> in
          (case wrapCommand cmd of
             None \<Rightarrow> Inl (GoPanic ''unknown command type'')
           | Some w \<Rightarrow> Inr (w, c)))"

text \<open>The result an entry gets; the data is set only when there are responses.\<close>

definition setResult :: "Entry \<Rightarrow> u64 \<Rightarrow> CommandResult \<Rightarrow> Entry" where
  "setResult entry updateResult res =
     (let entry = (if length (crResponses res) > 0 then entry\<lparr>entData := CommandResult_MarshalVT res\<rparr> else entry)
      in entry\<lparr>entValue := updateResult\<rparr>)"

fun Update_loop :: "('d, 'b) pebble \<Rightarrow> ('d, 'b) updateContext \<Rightarrow> u64 \<Rightarrow> Entry list
  \<Rightarrow> fsm_error + ((Entry list \<times> u64) \<times> ('d, 'b) updateContext)"
where
  "Update_loop P ctx idx [] = Inr (([], idx), ctx)"
| "Update_loop P ctx idx (entry # updates) =
     rbind (parseCommand ctx entry) (\<lambda>(cmd, ctx).
     rbind (handle P cmd ctx) (\<lambda>((updateResult, res), ctx).
     rbind (Update_loop P ctx (entIndex entry) updates) (\<lambda>((out, idx), ctx).
       Inr ((setResult entry updateResult res # out, idx), ctx))))"

definition Update :: "('d, 'b) pebble \<Rightarrow> 'd FSM \<Rightarrow> Entry list \<Rightarrow> fsm_error + (Entry list \<times> 'd FSM)" where
  "Update P p updates =
     (case fsmPebble p of
        None \<Rightarrow> Inl nilPanic
      | Some db \<Rightarrow>
          let ctx = \<lparr>ucBatch = pbNewBatch P db, ucDb = db, ucIndex = 0, ucLeaderIndex = None\<rparr> in
          rbind (Update_loop P ctx 0 updates) (\<lambda>((updates, idx), ctx).
          rbind (Commit P ctx) (\<lambda>db.
            Inr (updates, p\<lparr>fsmPebble := Some db, fsmApplied := idx\<rparr>))))"

text \<open>\<^verbatim>\<open>regattapb.TxnRequest\<close> and \<^verbatim>\<open>TxnResponse\<close>.\<close>

record TxnRequest =
  trTable :: bytes
  trCompare :: "Compare list"
  trSuccess :: "RequestOp list"
  trFailure :: "RequestOp list"
  trUnknown :: bytes

record TxnResponse =
  tpSucceeded :: bool
  tpResponses :: "ResponseOp list"

datatype lookup_request =
    TxnQuery TxnRequest
  | RangeQuery RequestOp_Range
  | SnapshotRequest "bool list"
  | LocalIndexRequest
  | LeaderIndexRequest
  | PathRequest
  | UnknownRequest

datatype lookup_response =
    TxnResult TxnResponse
  | RangeResult ResponseOp_Range
  | SnapshotResponse u64
  | IndexResponse u64
  | PathResponse string

fun GetRequestRange :: "RequestOp \<Rightarrow> RequestOp_Range option" where
  "GetRequestRange op = (case roRequest op of Some (RequestOp_RequestRange r) \<Rightarrow> Some r | _ \<Rightarrow> None)"

text \<open>The loop over the operations of a read-only transaction; a nil operation panics.\<close>

fun lookupOps :: "reader \<Rightarrow> RequestOp_Range option list \<Rightarrow> fsm_error + ResponseOp list" where
  "lookupOps r [] = Inr []"
| "lookupOps r (None # ops) = Inl nilPanic"
| "lookupOps r (Some op # ops) =
     rbind (lookup r op) (\<lambda>rr. rbind (lookupOps r ops) (\<lambda>rs. Inr (wrapRange rr # rs)))"

definition lookupTxn :: "reader \<Rightarrow> TxnRequest \<Rightarrow> fsm_error + TxnResponse" where
  "lookupTxn snapshot req =
     rbind (txnCompare snapshot (trCompare req)) (\<lambda>ok.
     rbind (lookupOps snapshot (map GetRequestRange (if ok then trSuccess req else trFailure req))) (\<lambda>rs.
       Inr \<lparr>tpSucceeded = ok, tpResponses = rs\<rparr>))"

text \<open>\<open>w\<close> is the writer of a snapshot request, returned as the call leaves it.\<close>

definition Lookup :: "('d, 'b) pebble \<Rightarrow> ('w \<Rightarrow> bytes \<Rightarrow> string + 'w) \<Rightarrow> 'd FSM \<Rightarrow> lookup_request \<Rightarrow> 'w
  \<Rightarrow> fsm_error + (lookup_response \<times> 'w)"
where
  "Lookup P wr p l w =
     (case l of
        PathRequest \<Rightarrow> Inr (PathResponse (fsmDirname p), w)
      | UnknownRequest \<Rightarrow> Inl ErrUnknownQueryType
      | _ \<Rightarrow>
          (case fsmPebble p of
             None \<Rightarrow> Inl nilPanic
           | Some db \<Rightarrow>
               let r = pbReader P db in
               (case l of
                  TxnQuery req \<Rightarrow> rbind (lookupTxn r req) (\<lambda>resp. Inr (TxnResult resp, w))
                | RangeQuery req \<Rightarrow> rbind (lookup r req) (\<lambda>resp. Inr (RangeResult resp, w))
                | SnapshotRequest stopped \<Rightarrow>
                    rbind (commandSnapshot wr r (fsmTableName p) stopped w) (\<lambda>(idx, w'). Inr (SnapshotResponse idx, w'))
                | LocalIndexRequest \<Rightarrow> rbind (readLocalIndex r sysLocalIndex) (\<lambda>idx. Inr (IndexResponse idx, w))
                | _ \<Rightarrow> rbind (readLocalIndex r sysLeaderIndex) (\<lambda>idx. Inr (IndexResponse idx, w)))))"

section \<open>The abstract state of a table\<close>

record table_state =
  tsKvs :: kvs
  tsIndex :: u64
  tsLeader :: u64

definition abs_state :: "kvs \<Rightarrow> table_state" where
  "abs_state c = \<lparr>tsKvs = user_kvs c, tsIndex = stored_index c sysLocalIndex, tsLeader = stored_index c sysLeaderIndex\<rparr>"

definition table_ok :: "kvs \<Rightarrow> bool" where
  "table_ok c \<longleftrightarrow> store_ok c \<and> index_ok c"

text \<open>Applying entries: the results, the pairs, and the last index and leader index seen.\<close>

fun spec_entries :: "Entry list \<Rightarrow> kvs \<Rightarrow> u64 \<times> u64 option \<Rightarrow> fsm_error + ((Entry list \<times> kvs) \<times> u64 \<times> u64 option)" where
  "spec_entries [] m i = Inr (([], m), i)"
| "spec_entries (entry # es) m i =
     (case Command_UnmarshalVT (entCmd entry) emptyCommand of
        Inl e \<Rightarrow> Inl (ProtoErr e)
      | Inr cmd \<Rightarrow>
          rbind (spec_result cmd (entIndex entry) m) (\<lambda>((v, res), m).
          rbind (spec_entries es m (entIndex entry, cmdLeaderIndex cmd)) (\<lambda>((out, m), i).
            Inr ((setResult entry v res # out, m), i))))"

definition spec_update :: "Entry list \<Rightarrow> table_state \<Rightarrow> fsm_error + (Entry list \<times> table_state)" where
  "spec_update es st =
     rbind (spec_entries es (tsKvs st) (0, None)) (\<lambda>((out, m), (idx, leader)).
       Inr (out, \<lparr>tsKvs = m, tsIndex = idx,
         tsLeader = (case leader of None \<Rightarrow> tsLeader st | Some l \<Rightarrow> l)\<rparr>))"

section \<open>Update implements the specification\<close>

lemma ctx_view_simps [simp]:
  "ctx_view P W (ctx\<lparr>ucIndex := i\<rparr>) = ctx_view P W ctx"
  "ctx_view P W (ctx\<lparr>ucLeaderIndex := l\<rparr>) = ctx_view P W ctx"
  by (simp_all add: ctx_view_def)

text \<open>What the loop keeps of the context.\<close>

definition loop_step :: "('d, 'b) pebble \<Rightarrow> ('b \<Rightarrow> batch_op list) \<Rightarrow> ('d, 'b) updateContext \<Rightarrow> ('d, 'b) updateContext \<Rightarrow> bool" where
  "loop_step P W ctx ctx' \<longleftrightarrow>
     ucDb ctx' = ucDb ctx \<and> store_ok (ctx_view P W ctx')
     \<and> (\<forall>s \<in> {sysLocalIndex, sysLeaderIndex}. map_of (ctx_view P W ctx') s = map_of (ctx_view P W ctx) s)"

lemma Update_loop_spec:
  assumes "pebble_laws P W" and "store_ok (ctx_view P W ctx)"
  shows "(\<forall>out idx ctx'. Update_loop P ctx (ucIndex ctx) es = Inr ((out, idx), ctx') \<longrightarrow>
      spec_entries es (user_kvs (ctx_view P W ctx)) (ucIndex ctx, ucLeaderIndex ctx)
        = Inr ((out, user_kvs (ctx_view P W ctx')), (ucIndex ctx', ucLeaderIndex ctx'))
      \<and> idx = ucIndex ctx' \<and> loop_step P W ctx ctx')
    \<and> (\<forall>e. pebble_total P \<longrightarrow> Update_loop P ctx (ucIndex ctx) es = Inl e \<longrightarrow>
      spec_entries es (user_kvs (ctx_view P W ctx)) (ucIndex ctx, ucLeaderIndex ctx) = Inl e)"
  using assms(2)
proof (induction es arbitrary: ctx)
  case Nil
  then show ?case by (auto simp: loop_step_def)
next
  case (Cons entry es)
  show ?case
  proof (cases "Command_UnmarshalVT (entCmd entry) emptyCommand")
    case (Inl e)
    then show ?thesis by (simp add: parseCommand_def Let_def)
  next
    case (Inr cmd)
    let ?ctx = "ctx\<lparr>ucIndex := entIndex entry, ucLeaderIndex := cmdLeaderIndex cmd\<rparr>"
    let ?m = "user_kvs (ctx_view P W ctx)"
    show ?thesis
    proof (cases "wrapCommand cmd")
      case None
      with Inr show ?thesis
        by (simp add: parseCommand_def Let_def spec_result_def spec_command_unknown)
    next
      case (Some w)
      have parse: "parseCommand ctx entry = Inr (w, ?ctx)"
        using Inr Some by (simp add: parseCommand_def Let_def)
      have ref: "refines P W ?ctx (handle P w ?ctx) (spec_result cmd (entIndex entry) ?m)"
        using handle_refines [OF assms(1) Some, of ?ctx] Cons.prems by simp
      show ?thesis
      proof (cases "handle P w ?ctx")
        case (Inl e)
        with ref Inr parse show ?thesis by (auto simp: refines_def)
      next
        case (Inr r)
        obtain v res ctx1 where r: "r = ((v, res), ctx1)" by (metis surj_pair)
        from ref Inr r have spec1: "spec_result cmd (entIndex entry) ?m = Inr ((v, res), user_kvs (ctx_view P W ctx1))"
          and st: "ctx_step P W ?ctx ctx1"
          by (auto simp: refines_def)
        from st have ix: "ucIndex ctx1 = entIndex entry" "ucLeaderIndex ctx1 = cmdLeaderIndex cmd"
          and st1: "loop_step P W ctx ctx1"
          by (simp_all add: ctx_step_def loop_step_def)
        have run: "Update_loop P ctx i (entry # es) = rbind (Update_loop P ctx1 (entIndex entry) es)
            (\<lambda>((out, idx), ctx). Inr ((setResult entry v res # out, idx), ctx))" for i
          using parse Inr r by simp
        have spec2: "spec_entries (entry # es) ?m i = rbind (spec_entries es (user_kvs (ctx_view P W ctx1)) (entIndex entry, cmdLeaderIndex cmd))
            (\<lambda>((out, m), i). Inr ((setResult entry v res # out, m), i))" for i
          using \<open>Command_UnmarshalVT (entCmd entry) emptyCommand = Inr cmd\<close> spec1 by simp
        note IH = Cons.IH [OF ctx_step_ok [OF st], unfolded ix]
        show ?thesis
          using IH st1 unfolding run spec2
          by (cases "Update_loop P ctx1 (entIndex entry) es") (auto simp: loop_step_def)
      qed
    qed
  qed
qed

text \<open>\<^verbatim>\<open>Commit\<close> stores the indexes beside the batch.\<close>

lemma abs_state_put_sys:
  assumes "store_ok c" and "k \<in> {sysLocalIndex, sysLeaderIndex}"
  shows "store_ok (alist_put k v c)" and "user_kvs (alist_put k v c) = user_kvs c"
  using assms by (auto simp: store_ok_put user_kvs_put_sys store_ok_sorted)

lemma Commit_spec:
  assumes "pebble_laws P W" and "store_ok (ctx_view P W ctx)" and "index_ok (ctx_view P W ctx)"
    and "Commit P ctx = Inr db"
  shows "table_ok (contents (pbReader P db))"
    and "abs_state (contents (pbReader P db)) =
      \<lparr>tsKvs = user_kvs (ctx_view P W ctx), tsIndex = ucIndex ctx,
       tsLeader = (case ucLeaderIndex ctx of None \<Rightarrow> stored_index (ctx_view P W ctx) sysLeaderIndex | Some l \<Rightarrow> l)\<rparr>"
proof -
  let ?c = "ctx_view P W ctx"
  let ?c1 = "case ucLeaderIndex ctx of None \<Rightarrow> ?c | Some l \<Rightarrow> alist_put sysLeaderIndex (PutUint64 l) ?c"
  have grows: "W b' = W b @ [WSet k v]" if "pbSet P b k v = Inr b'" for b k v b'
    using assms(1) that by (simp add: pebble_laws_def batch_grows_def)
  have "contents (pbReader P db) = alist_put sysLocalIndex (PutUint64 (ucIndex ctx)) ?c1"
    using assms(1,4)
    by (auto simp: Commit_def result_simps pebble_laws_def ctx_view_def grows split: option.splits)
  moreover have "store_ok ?c1" "user_kvs ?c1 = user_kvs ?c"
    using abs_state_put_sys [OF assms(2)] assms(2) by (auto split: option.splits)
  ultimately show "table_ok (contents (pbReader P db))"
    "abs_state (contents (pbReader P db)) =
      \<lparr>tsKvs = user_kvs ?c, tsIndex = ucIndex ctx,
       tsLeader = (case ucLeaderIndex ctx of None \<Rightarrow> stored_index ?c sysLeaderIndex | Some l \<Rightarrow> l)\<rparr>"
    using abs_state_put_sys [of ?c1] assms(3)
    by (auto simp: table_ok_def index_ok_def abs_state_def stored_index_def map_of_alist_put split: option.splits)
qed

lemma Commit_total: "pebble_total P \<Longrightarrow> \<exists>db. Commit P ctx = Inr db"
proof -
  assume P: "pebble_total P"
  then have set_ok: "\<exists>b'. pbSet P b k v = Inr b'" and commit_ok: "\<exists>d'. pbCommit P d b = Inr d'" for b k v d
    by (simp_all add: pebble_total_def)
  obtain b where b: "(case ucLeaderIndex ctx of None \<Rightarrow> Inr (ucBatch ctx)
      | Some l \<Rightarrow> liftP (pbSet P (ucBatch ctx) sysLeaderIndex (PutUint64 l))) = Inr b"
    using set_ok by (cases "ucLeaderIndex ctx") (auto, metis liftP_simps(2))
  obtain b' where "pbSet P b sysLocalIndex (PutUint64 (ucIndex ctx)) = Inr b'" using set_ok by blast
  moreover obtain db where "pbCommit P (ucDb ctx) b' = Inr db" using commit_ok by blast
  ultimately show ?thesis by (simp add: Commit_def b)
qed

abbreviation db_state :: "('d, 'b) pebble \<Rightarrow> 'd FSM \<Rightarrow> table_state" where
  "db_state P p \<equiv> abs_state (contents (pbReader P (the (fsmPebble p))))"

definition fsm_ok :: "('d, 'b) pebble \<Rightarrow> 'd FSM \<Rightarrow> bool" where
  "fsm_ok P p \<longleftrightarrow> (\<exists>db. fsmPebble p = Some db \<and> table_ok (contents (pbReader P db)))"

lemma Update_spec:
  assumes "pebble_laws P W" and "fsm_ok P p" and "Update P p es = Inr (out, p')"
  shows "fsm_ok P p'" and "spec_update es (db_state P p) = Inr (out, db_state P p')"
    and "fsmApplied p' = tsIndex (db_state P p')"
proof -
  from assms(2) obtain db where db: "fsmPebble p = Some db" and ok: "table_ok (contents (pbReader P db))"
    by (auto simp: fsm_ok_def)
  let ?ctx = "\<lparr>ucBatch = pbNewBatch P db, ucDb = db, ucIndex = 0, ucLeaderIndex = None\<rparr>"
  have view: "ctx_view P W ?ctx = contents (pbReader P db)"
    using assms(1) by (simp add: ctx_view_def pebble_laws_def)
  from assms(3) db obtain idx ctx' db' where run: "Update_loop P ?ctx 0 es = Inr ((out, idx), ctx')"
    and commit: "Commit P ctx' = Inr db'" and p': "p' = p\<lparr>fsmPebble := Some db', fsmApplied := idx\<rparr>"
    by (auto simp: Update_def result_simps Let_def)
  have st: "spec_entries es (user_kvs (contents (pbReader P db))) (0, None)
      = Inr ((out, user_kvs (ctx_view P W ctx')), (ucIndex ctx', ucLeaderIndex ctx'))"
    and idx: "idx = ucIndex ctx'" and step: "loop_step P W ?ctx ctx'"
    using Update_loop_spec [OF assms(1), of ?ctx es] run ok view by (auto simp: table_ok_def)
  have "store_ok (ctx_view P W ctx')" "index_ok (ctx_view P W ctx')"
    and lead: "stored_index (ctx_view P W ctx') sysLeaderIndex = stored_index (contents (pbReader P db)) sysLeaderIndex"
    using step ok view by (simp_all add: loop_step_def table_ok_def index_ok_def stored_index_def)
  note C = Commit_spec [OF assms(1) this(1,2) commit]
  show "fsm_ok P p'" using C(1) by (simp add: fsm_ok_def p')
  show "spec_update es (db_state P p) = Inr (out, db_state P p')"
    using st C(2) lead by (auto simp: spec_update_def p' db abs_state_def split: option.splits)
  show "fsmApplied p' = tsIndex (db_state P p')" using C(2) idx by (simp add: p')
qed

lemma Update_error:
  assumes "pebble_laws P W" and "pebble_total P" and "fsm_ok P p" and "Update P p es = Inl e"
  shows "spec_update es (db_state P p) = Inl e"
proof -
  from assms(3) obtain db where db: "fsmPebble p = Some db" and ok: "table_ok (contents (pbReader P db))"
    by (auto simp: fsm_ok_def)
  let ?ctx = "\<lparr>ucBatch = pbNewBatch P db, ucDb = db, ucIndex = 0, ucLeaderIndex = None\<rparr>"
  have view: "ctx_view P W ?ctx = contents (pbReader P db)"
    using assms(1) by (simp add: ctx_view_def pebble_laws_def)
  have "Commit P c \<noteq> Inl e" for c
    using Commit_total [OF assms(2), of c] by auto
  with assms(4) db have "Update_loop P ?ctx 0 es = Inl e"
    by (auto simp: Update_def result_simps Let_def)
  then show ?thesis
    using Update_loop_spec [OF assms(1), of ?ctx es] ok view assms(2) db
    by (auto simp: table_ok_def spec_update_def abs_state_def)
qed

lemma Update_total:
  assumes "pebble_laws P W" and "pebble_total P" and "fsm_ok P p"
    and "spec_update es (db_state P p) = Inr (out, st)"
  shows "\<exists>p'. Update P p es = Inr (out, p') \<and> db_state P p' = st \<and> fsm_ok P p'"
proof (cases "Update P p es")
  case (Inl e)
  with Update_error [OF assms(1-3)] assms(4) show ?thesis by simp
next
  case (Inr r)
  with Update_spec [OF assms(1,3)] assms(4) show ?thesis
    by (cases r) fastforce
qed

text \<open>Applying entries in one batch or in several.\<close>

lemma spec_entries_Cons:
  "spec_entries (e # es) m i =
     rbind (case Command_UnmarshalVT (entCmd e) emptyCommand of
              Inl x \<Rightarrow> Inl (ProtoErr x)
            | Inr cmd \<Rightarrow> rbind (spec_result cmd (entIndex e) m) (\<lambda>((v, res), m).
                Inr ((setResult e v res, m), (entIndex e, cmdLeaderIndex cmd)))) (\<lambda>((r, m), j).
     rbind (spec_entries es m j) (\<lambda>((out, m), k). Inr ((r # out, m), k)))"
  by (cases "Command_UnmarshalVT (entCmd e) emptyCommand")
    (simp_all add: rbind_assoc rbind_case_prod case_prod_beta')

lemma spec_entries_append:
  "spec_entries (es1 @ es2) m i = rbind (spec_entries es1 m i) (\<lambda>((o1, m1), i1).
     rbind (spec_entries es2 m1 i1) (\<lambda>((o2, m2), i2). Inr ((o1 @ o2, m2), i2)))"
proof (induction es1 arbitrary: m i)
  case Nil
  show ?case by (cases "spec_entries es2 m i") auto
next
  case (Cons e es1)
  show ?case
    unfolding append_Cons spec_entries_Cons [of e] rbind_assoc
  proof (rule rbind_cong [OF refl], unfold split_paired_all prod.case)
    fix r m1 j k
    show "rbind (spec_entries (es1 @ es2) m1 (j, k)) (\<lambda>((out, m), k). Inr ((r # out, m), k))
      = rbind (rbind (spec_entries es1 m1 (j, k)) (\<lambda>((out, m), k). Inr ((r # out, m), k)))
          (\<lambda>((o1, m1), i1). rbind (spec_entries es2 m1 i1) (\<lambda>((o2, m2), i2). Inr ((o1 @ o2, m2), i2)))"
      unfolding Cons.IH by (simp add: rbind_assoc rbind_case_prod case_prod_beta')
  qed
qed

lemma spec_entries_indep:
  "es \<noteq> [] \<Longrightarrow> spec_entries es m i = spec_entries es m j"
  by (cases es) auto

lemma spec_entries_index:
  "spec_entries es m i = Inr ((out, m'), j) \<Longrightarrow> es \<noteq> [] \<Longrightarrow> fst j = entIndex (last es)"
proof (induction es arbitrary: m i out)
  case (Cons e es)
  from Cons.prems(1) obtain cmd m1 out1 where
    rest: "spec_entries es m1 (entIndex e, cmdLeaderIndex cmd) = Inr ((out1, m'), j)"
    by (auto simp: result_simps split: sum.splits)
  show ?case
  proof (cases "es = []")
    case True
    with rest show ?thesis by auto
  next
    case False
    with Cons.IH [OF rest] show ?thesis by simp
  qed
qed simp

lemma spec_update_InrD:
  "spec_update es st = Inr (out, st') \<Longrightarrow>
     \<exists>j. spec_entries es (tsKvs st) (0, None) = Inr ((out, tsKvs st'), j) \<and> tsIndex st' = fst j"
  by (auto simp: spec_update_def result_simps)

lemma spec_update_append:
  assumes "es2 \<noteq> []" and "spec_update es1 st = Inr (o1, st1)" and "spec_update es2 st1 = Inr (o2, st2)"
  shows "\<exists>st'. spec_update (es1 @ es2) st = Inr (o1 @ o2, st') \<and> tsKvs st' = tsKvs st2 \<and> tsIndex st' = tsIndex st2"
proof -
  from assms(2) obtain m1 i1 where 1: "spec_entries es1 (tsKvs st) (0, None) = Inr ((o1, m1), i1)" "tsKvs st1 = m1"
    by (auto simp: spec_update_def result_simps)
  from assms(3) obtain m2 i2 where 2: "spec_entries es2 m1 (0, None) = Inr ((o2, m2), i2)"
    "tsKvs st2 = m2" "tsIndex st2 = fst i2"
    using 1 by (auto simp: spec_update_def result_simps)
  have "spec_entries (es1 @ es2) (tsKvs st) (0, None) = Inr ((o1 @ o2, m2), i2)"
    using 1(1) 2(1) spec_entries_indep [OF assms(1), of m1 i1 "(0, None)"] by (simp add: spec_entries_append)
  with 2 show ?thesis by (cases i2) (simp add: spec_update_def)
qed

end
