(* ===== verification/FSM_Properties.thy ===== *)
theory FSM_Properties
  imports FSM_StateMachine
begin

text \<open>
  The properties of a table's state machine, and concrete tables over the in-memory engine at
  which they are applied.
\<close>

section \<open>Concrete tables\<close>

definition exPut :: "bytes \<Rightarrow> bytes \<Rightarrow> u64 option \<Rightarrow> Command" where
  "exPut k v leader = Command [] Command_PUT (Some (emptyKeyValue\<lparr>kvKey := k, kvValue := v\<rparr>)) leader
     [] None None False [] False []"

definition exEntry :: "u64 \<Rightarrow> Command \<Rightarrow> Entry" where
  "exEntry i c = \<lparr>entIndex = i, entCmd = Command_MarshalVT c, entValue = 0, entData = []\<rparr>"

definition exFSM :: "batch_op list \<Rightarrow> batch_op list FSM" where
  "exFSM db = \<lparr>fsmPebble = Some db, fsmClusterID = 1, fsmNodeID = 1, fsmTableName = [], fsmDirname = [],
     fsmClosed = False, fsmRecoveryType = 0, fsmApplied = 0\<rparr>"

lemma exFSM_ok: "fsm_ok mem_pebble (exFSM [])"
  by (simp add: fsm_ok_def exFSM_def mem_pebble_def table_ok_def store_ok_def index_ok_def)

lemma exFSM_state: "db_state mem_pebble (exFSM []) = \<lparr>tsKvs = [], tsIndex = 0, tsLeader = 0\<rparr>"
  by (simp add: exFSM_def mem_pebble_def abs_state_def stored_index_def)

lemma exPut_decode:
  assumes "length k + length v < 1000"
  shows "Command_UnmarshalVT (Command_MarshalVT (exPut k v l)) emptyCommand = Inr (exPut k v l)"
proof (rule Command_UnmarshalVT_MarshalVT)
  show "Command_wf (exPut k v l)"
    by (simp add: exPut_def KeyValue_wf_def emptyKeyValue_def)
  have "Command_SizeVT (exPut k v l) \<le> 1100"
    using assms KeyValue_overhead [where k = k and v = v] sov_le_10 [of "the l"]
    by (cases l) (simp_all add: exPut_def sizeMessage_def sizeBytes_def sizeVarint_def sizeBool_def
        sizeRepeated_def Command_PUT_def)
  then show "Command_SizeVT (exPut k v l) < 2 ^ 63" by simp
qed

lemma exPut_entries:
  assumes "length k + length v < 1000"
  shows "spec_entries (exEntry i (exPut k v l) # es) m j =
    rbind (spec_entries es (alist_put k v m) (i, l)) (\<lambda>((out, m), i').
      Inr ((setResult (exEntry i (exPut k v l)) ResultSuccess (mkResult i [wrapPut emptyResponseOp_Put]) # out, m), i'))"
  using exPut_decode [OF assms, of l]
  by (simp add: exEntry_def spec_result_def spec_command.simps)
    (simp add: exPut_def spec_put_def putRequest_def emptyRequestOp_Put_def)

section \<open>Update\<close>

text \<open>
  C1: \<^verbatim>\<open>FSM.Update\<close> implements the table's specification. Over a storage engine with the
  documented behaviour, an update that returns gives exactly the results and the abstract state
  (user pairs, local index, leader index) of applying the decoded commands in order to the state
  before, keeps the invariant of the store and sets the applied-index metric to the local index;
  over an engine that does not fail, it errs only where the specification does.
\<close>

theorem Update_refines:
  assumes "pebble_laws P W" and "fsm_ok P p"
  shows "case Update P p es of
      Inr (out, p') \<Rightarrow> spec_update es (db_state P p) = Inr (out, db_state P p') \<and> fsm_ok P p'
        \<and> fsmApplied p' = tsIndex (db_state P p')
    | Inl e \<Rightarrow> pebble_total P \<longrightarrow> spec_update es (db_state P p) = Inl e"
  using Update_spec [OF assms] Update_error [OF assms(1) _ assms(2)]
  by (auto split: sum.splits)

theorem Update_refines_witness:
  "\<exists>out p'. Update mem_pebble (exFSM []) [exEntry 7 (exPut [97] [1] (Some 5)), exEntry 8 (exPut [98] [2] None)] = Inr (out, p')
     \<and> db_state mem_pebble p' = \<lparr>tsKvs = [([97], [1]), ([98], [2])], tsIndex = 8, tsLeader = 0\<rparr>"
  using Update_refines [OF mem_pebble_laws exFSM_ok,
      of "[exEntry 7 (exPut [97] [1] (Some 5)), exEntry 8 (exPut [98] [2] None)]"]
  by (auto simp: exFSM_state spec_update_def exPut_entries simp del: spec_entries.simps(2) split: sum.splits)

text \<open>
  C10: how a replica's entries are grouped into calls of \<^verbatim>\<open>Update\<close> does not matter for what its
  users see. Over an engine that does not fail, applying two non-empty groups of entries one
  after the other and applying them in one call gives the same results for every entry, the same
  user pairs and the same local index.
\<close>

theorem Update_batching:
  assumes "pebble_laws P W" and "pebble_total P" and "fsm_ok P p" and "es2 \<noteq> []"
    and "Update P p es1 = Inr (o1, p1)" and "Update P p1 es2 = Inr (o2, p2)"
  shows "\<exists>p'. Update P p (es1 @ es2) = Inr (o1 @ o2, p')
    \<and> tsKvs (db_state P p') = tsKvs (db_state P p2) \<and> tsIndex (db_state P p') = tsIndex (db_state P p2)"
proof -
  note u1 = Update_spec [OF assms(1,3,5)]
  note u2 = Update_spec [OF assms(1) u1(1) assms(6)]
  from spec_update_append [OF assms(4) u1(2) u2(2)] Update_total [OF assms(1-3)]
  show ?thesis by blast
qed

text \<open>The updates used in the witnesses return.\<close>

lemma exUpdate:
  assumes "fsm_ok mem_pebble p" and "length k + length v < 1000"
  shows "\<exists>out p'. Update mem_pebble p [exEntry i (exPut k v l)] = Inr (out, p') \<and> fsm_ok mem_pebble p'
    \<and> db_state mem_pebble p' = \<lparr>tsKvs = alist_put k v (tsKvs (db_state mem_pebble p)), tsIndex = i,
         tsLeader = (case l of None \<Rightarrow> tsLeader (db_state mem_pebble p) | Some l \<Rightarrow> l)\<rparr>"
  using Update_total [OF mem_pebble_laws mem_pebble_total assms(1), of "[exEntry i (exPut k v l)]"]
  by (simp add: spec_update_def exPut_entries [OF assms(2)] del: spec_entries.simps(2)) blast

theorem Update_batching_witness:
  "\<exists>o1 p1 o2 p2 p'. Update mem_pebble (exFSM []) [exEntry 7 (exPut [97] [1] (Some 5))] = Inr (o1, p1)
     \<and> Update mem_pebble p1 [exEntry 8 (exPut [98] [2] None)] = Inr (o2, p2)
     \<and> Update mem_pebble (exFSM []) ([exEntry 7 (exPut [97] [1] (Some 5))] @ [exEntry 8 (exPut [98] [2] None)])
         = Inr (o1 @ o2, p')
     \<and> tsKvs (db_state mem_pebble p') = [([97], [1]), ([98], [2])]"
proof -
  obtain o1 p1 where 1: "Update mem_pebble (exFSM []) [exEntry 7 (exPut [97] [1] (Some 5))] = Inr (o1, p1)"
    "fsm_ok mem_pebble p1" "tsKvs (db_state mem_pebble p1) = [([97], [1])]"
    using exUpdate [OF exFSM_ok, of "[97]" "[1]" 7 "Some 5"] by (auto simp: exFSM_state)
  obtain o2 p2 where 2: "Update mem_pebble p1 [exEntry 8 (exPut [98] [2] None)] = Inr (o2, p2)"
    "tsKvs (db_state mem_pebble p2) = [([97], [1]), ([98], [2])]"
    using exUpdate [OF 1(2), of "[98]" "[2]" 8 None] 1(3) by auto
  from Update_batching [OF mem_pebble_laws mem_pebble_total exFSM_ok _ 1(1) 2(1)] 1 2
  show ?thesis by auto
qed

text \<open>
  C38: the leader index a replica stores does depend on the grouping. \<^verbatim>\<open>parseCommand\<close> overwrites
  the context's leader index with that of every command, also with none, so an index carried by
  a command is lost when a command without one follows it in the same batch: the same two
  entries leave leader index 5 when applied in two updates and 0 when applied in one.
\<close>

theorem leader_index_depends_on_batching:
  "\<exists>e1 e2 o1 p1 o2 p2 p'. Update mem_pebble (exFSM []) [e1] = Inr (o1, p1) \<and> Update mem_pebble p1 [e2] = Inr (o2, p2)
     \<and> Update mem_pebble (exFSM []) [e1, e2] = Inr (o1 @ o2, p')
     \<and> tsLeader (db_state mem_pebble p2) = 5 \<and> tsLeader (db_state mem_pebble p') = 0"
proof -
  let ?e1 = "exEntry 7 (exPut [97] [1] (Some 5))" and ?e2 = "exEntry 8 (exPut [98] [2] None)"
  obtain o1 p1 where 1: "Update mem_pebble (exFSM []) [?e1] = Inr (o1, p1)" "fsm_ok mem_pebble p1"
    "db_state mem_pebble p1 = \<lparr>tsKvs = [([97], [1])], tsIndex = 7, tsLeader = 5\<rparr>"
    using exUpdate [OF exFSM_ok, of "[97]" "[1]" 7 "Some 5"] by (auto simp: exFSM_state)
  obtain o2 p2 where 2: "Update mem_pebble p1 [?e2] = Inr (o2, p2)" "tsLeader (db_state mem_pebble p2) = 5"
    using exUpdate [OF 1(2), of "[98]" "[2]" 8 None] 1(3) by auto
  have o: "o1 @ o2 = [setResult ?e1 ResultSuccess (mkResult 7 [wrapPut emptyResponseOp_Put]),
      setResult ?e2 ResultSuccess (mkResult 8 [wrapPut emptyResponseOp_Put])]"
    using Update_spec(2) [OF mem_pebble_laws exFSM_ok 1(1)] Update_spec(2) [OF mem_pebble_laws 1(2) 2(1)]
    by (simp add: exFSM_state spec_update_def exPut_entries del: spec_entries.simps(2))
  have "\<exists>p'. Update mem_pebble (exFSM []) [?e1, ?e2] = Inr (o1 @ o2, p') \<and> tsLeader (db_state mem_pebble p') = 0"
    unfolding o using Update_total [OF mem_pebble_laws mem_pebble_total exFSM_ok, of "[?e1, ?e2]"]
    by (simp add: exFSM_state spec_update_def exPut_entries del: spec_entries.simps(2)) (metis table_state.select_convs(3))
  with 1 2 show ?thesis by blast
qed

section \<open>Lookup\<close>

lemma fsm_ok_reader:
  assumes "pebble_laws P W" and "fsm_ok P p"
  obtains db where "fsmPebble p = Some db" and "reader_ok (pbReader P db)" and "table_ok (contents (pbReader P db))"
  using assms by (auto simp: fsm_ok_def pebble_laws_def)

text \<open>
  C11: a range query answers with the user's pairs in the range, in key order. The response holds
  a prefix of them and their number, and that prefix is everything unless the limit is reached or
  the next pair would make the response exceed the maximal size; system keys never appear. \<^verbatim>\<open>More\<close>
  is set when at least two pairs of the range are left out.
\<close>

theorem Lookup_range:
  assumes "pebble_laws P W" and "fsm_ok P p" and "rrRangeEnd req = Some hi"
  shows "\<exists>n resp. Lookup P wr p (RangeQuery req) w = Inr (RangeResult resp, w)
    \<and> (let es = range_kvs (rrKey req) hi (tsKvs (db_state P p)) in
        n \<le> length es \<and> rsKvs resp = shown req (take n es) \<and> rsCount resp = of_nat n
        \<and> rsMore resp = (Suc n < length es)
        \<and> (0 < sint (rrLimit req) \<longrightarrow> int n \<le> sint (rrLimit req))
        \<and> (n < length es \<longrightarrow> int n = sint (rrLimit req) \<and> rrLimit req \<noteq> 0
             \<or> maxRangeSize \<le> ResponseOp_Range_SizeVT (resp\<lparr>rsMore := False\<rparr>) + entry_size req (es ! n)))"
proof -
  obtain db where db: "fsmPebble p = Some db" "reader_ok (pbReader P db)" "store_ok (contents (pbReader P db))"
    using fsm_ok_reader [OF assms(1,2)] by (auto simp: table_ok_def)
  let ?es = "range_kvs (rrKey req) hi (user_kvs (contents (pbReader P db)))"
  let ?resp = "\<lambda>n. emptyResponseOp_Range\<lparr>rsKvs := shown req (take n ?es), rsCount := of_nat n\<rparr>"
  obtain n where n: "n \<le> length ?es"
    "rangeLookup (pbReader P db) req = Inr ((?resp n)\<lparr>rsMore := Suc n < length ?es\<rparr>)"
    "0 < sint (rrLimit req) \<longrightarrow> int n \<le> sint (rrLimit req)"
    "n < length ?es \<longrightarrow> int n = sint (rrLimit req) \<and> rrLimit req \<noteq> 0
       \<or> maxRangeSize \<le> ResponseOp_Range_SizeVT (?resp n) + entry_size req (?es ! n)"
    using rangeLookup_user [OF db(2,3) assms(3)] by blast
  have "(?resp n)\<lparr>rsMore := False\<rparr> = ?resp n"
    by (simp add: emptyResponseOp_Range_def)
  with n db(1) assms(3) show ?thesis
    by (intro exI [of _ n] exI [of _ "(?resp n)\<lparr>rsMore := Suc n < length ?es\<rparr>"])
      (simp add: Lookup_def lookup_def abs_state_def Let_def)
qed

definition exRange :: "bytes \<Rightarrow> bytes option \<Rightarrow> u64 \<Rightarrow> RequestOp_Range" where
  "exRange k hi limit = emptyRequestOp_Range\<lparr>rrKey := k, rrRangeEnd := hi, rrLimit := limit\<rparr>"

definition exDB :: "batch_op list" where
  "exDB = [WSet (userKey [97]) [1], WSet (userKey [98]) [2], WSet (userKey [99]) [3]]"

lemma exDB_contents: "contents (pbReader mem_pebble exDB) = [(userKey [97], [1]), (userKey [98], [2]), (userKey [99], [3])]"
  by (simp add: mem_pebble_def exDB_def)

lemma exDB_ok: "fsm_ok mem_pebble (exFSM exDB)"
  by (simp add: fsm_ok_def exFSM_def exDB_contents table_ok_def store_ok_def index_ok_def)

lemma exDB_state: "db_state mem_pebble (exFSM exDB) = \<lparr>tsKvs = [([97], [1]), ([98], [2]), ([99], [3])], tsIndex = 0, tsLeader = 0\<rparr>"
  by (simp add: exFSM_def exDB_contents abs_state_def stored_index_def)

theorem Lookup_range_witness:
  "\<exists>resp. Lookup mem_pebble (\<lambda>w b. Inr w) (exFSM exDB) (RangeQuery (exRange [97] (Some [0]) 1)) () = Inr (RangeResult resp, ())
     \<and> length (rsKvs resp) \<le> 1 \<and> length (rsKvs resp) = unat (rsCount resp)"
proof -
  let ?es = "[([97 :: byte], [1 :: byte]), ([98], [2]), ([99], [3])]"
  have es: "range_kvs [97] [0] (tsKvs (db_state mem_pebble (exFSM exDB))) = ?es"
    by (simp add: exDB_state range_kvs_def in_range_def wildcard_def)
  from Lookup_range [OF mem_pebble_laws exDB_ok, where req = "exRange [97] (Some [0]) 1" and hi = "[0]"
      and wr = "\<lambda>w b. Inr w" and w = "()"]
  obtain n resp where r: "Lookup mem_pebble (\<lambda>w b. Inr w) (exFSM exDB) (RangeQuery (exRange [97] (Some [0]) 1)) ()
      = Inr (RangeResult resp, ())"
    "rsKvs resp = shown (exRange [97] (Some [0]) 1) (take n ?es)" "rsCount resp = of_nat n" "n \<le> 1"
    by (auto simp: exRange_def emptyRequestOp_Range_def Let_def es)
  then show ?thesis
    by (cases n) (auto simp: shown_def exRange_def emptyRequestOp_Range_def)
qed

text \<open>
  C29: every response of a range query, whatever the store holds, encodes to at most 4 MiB, the
  message size the transport accepts.
\<close>

theorem rangeLookup_size:
  assumes "rangeLookup r req = Inr resp"
  shows "ResponseOp_Range_SizeVT resp \<le> 4 * 1024 * 1024"
proof -
  obtain lo hi where "iterate_loop (rdIter r lo hi) 0 (sint (rrLimit req)) (fst (iterFuncsFromReq req))
      (snd (iterFuncsFromReq req)) emptyResponseOp_Range = Inr resp"
    using assms by (auto simp: rangeLookup_def result_simps iterate_def case_prod_beta' Let_def)
  moreover have "ResponseOp_Range_SizeVT emptyResponseOp_Range \<le> maxRangeSize + 44"
    by (simp add: ResponseOp_Range_SizeVT_def emptyResponseOp_Range_def sizeRepeated_def sizeBool_def sizeVarint_def)
  ultimately have "ResponseOp_Range_SizeVT resp \<le> maxRangeSize + 46"
    by (rule iterate_loop_size)
  then show ?thesis by (simp add: maxRangeSize_def)
qed

theorem rangeLookup_size_witness:
  "\<exists>resp. rangeLookup (pbReader mem_pebble exDB) (exRange [97] (Some [0]) 0) = Inr resp
     \<and> ResponseOp_Range_SizeVT resp \<le> 4 * 1024 * 1024"
proof -
  have "reader_ok (pbReader mem_pebble exDB)" "store_ok (contents (pbReader mem_pebble exDB))"
    using fsm_ok_reader [OF mem_pebble_laws exDB_ok] by (auto simp: exFSM_def table_ok_def)
  from rangeLookup_total [OF this, of "exRange [97] (Some [0]) 0" "[0]"]
  obtain resp where "rangeLookup (pbReader mem_pebble exDB) (exRange [97] (Some [0]) 0) = Inr resp"
    by (auto simp: exRange_def)
  with rangeLookup_size [OF this] show ?thesis by blast
qed

text \<open>
  A table reads its own writes and reports how far it has applied. After an update whose last
  entry puts \<open>k \<mapsto> v\<close>, the lookup of \<open>k\<close> finds exactly \<open>v\<close>, and the local index is that entry's index.
\<close>

theorem Update_then_Lookup:
  assumes "pebble_laws P W" and "fsm_ok P p" and "Update P p (es @ [e]) = Inr (out, p')"
    and "Command_UnmarshalVT (entCmd e) emptyCommand = Inr c" and "cmdType c = Command_PUT" and "cmdKv c = Some kv"
  shows "Lookup P wr p' (RangeQuery (exRange (kvKey kv) None 0)) w =
      Inr (RangeResult (emptyResponseOp_Range\<lparr>rsCount := 1,
        rsKvs := [emptyKeyValue\<lparr>kvKey := kvKey kv, kvValue := kvValue kv\<rparr>]\<rparr>), w)
    \<and> Lookup P wr p' LocalIndexRequest w = Inr (IndexResponse (entIndex e), w)"
proof -
  note U = Update_spec [OF assms(1-3)]
  obtain db where db: "fsmPebble p' = Some db" "reader_ok (pbReader P db)" "table_ok (contents (pbReader P db))"
    using fsm_ok_reader [OF assms(1) U(1)] by blast
  from spec_update_InrD [OF U(2)] obtain j where j: "spec_entries (es @ [e]) (tsKvs (db_state P p)) (0, None)
      = Inr ((out, tsKvs (db_state P p')), j)" "tsIndex (db_state P p') = fst j"
    by blast
  from spec_entries_index [OF j(1)] j(2) have idx: "Lookup P wr p' LocalIndexRequest w = Inr (IndexResponse (entIndex e), w)"
    using db by (simp add: Lookup_def readLocalIndex_user table_ok_def abs_state_def)
  from j(1) obtain m where "alist_put (kvKey kv) (kvValue kv) m = tsKvs (db_state P p')"
    using assms(4-6)
    by (auto simp: spec_entries_append result_simps spec_result_def spec_command.simps spec_put_def putRequest_def
        emptyRequestOp_Put_def split: if_splits option.splits)
  then have "map_of (user_kvs (contents (pbReader P db))) (kvKey kv) = Some (kvValue kv)"
    by (metis db(1) abs_state_def fun_upd_same map_of_alist_put option.sel table_state.select_convs(1))
  with idx show ?thesis
    using db by (simp add: Lookup_def lookup_def singleLookup_user exRange_def emptyRequestOp_Range_def
        emptyResponseOp_Range_def)
qed

theorem Update_then_Lookup_witness:
  "\<exists>out p'. Update mem_pebble (exFSM []) ([] @ [exEntry 7 (exPut [97] [1] None)]) = Inr (out, p')
     \<and> Lookup mem_pebble (\<lambda>w b. Inr w) p' LocalIndexRequest () = Inr (IndexResponse 7, ())"
proof -
  have dec: "Command_UnmarshalVT (entCmd (exEntry 7 (exPut [97] [1] None))) emptyCommand = Inr (exPut [97] [1] None)"
    using exPut_decode [of "[97]" "[1]" None] by (simp add: exEntry_def)
  obtain out p' where u: "Update mem_pebble (exFSM []) ([] @ [exEntry 7 (exPut [97] [1] None)]) = Inr (out, p')"
    using exUpdate [OF exFSM_ok, of "[97]" "[1]" 7 None] by auto
  from Update_then_Lookup [OF mem_pebble_laws exFSM_ok u dec, of "emptyKeyValue\<lparr>kvKey := [97], kvValue := [1]\<rparr>"
      "\<lambda>w b. Inr w" "()"] u
  show ?thesis by (auto simp: exPut_def exEntry_def)
qed

section \<open>Read-only transactions\<close>

definition range_op :: "RequestOp \<Rightarrow> bool" where
  "range_op op \<longleftrightarrow> GetRequestRange op \<noteq> None"

definition readonly :: "TxnRequest \<Rightarrow> bool" where
  "readonly req \<longleftrightarrow> list_all range_op (trSuccess req) \<and> list_all range_op (trFailure req)"

lemma range_op_spec:
  assumes "range_op op"
  shows "spec_op op m = Inr ([wrapRange (spec_lookup (the (GetRequestRange op)) m)], m)"
  using assms by (auto simp: range_op_def spec_op_def split: option.splits isRequestOp_Request.splits)

lemma spec_seq_range:
  "list_all range_op ops \<Longrightarrow>
     spec_seq spec_op ops m = Inr (map (\<lambda>op. [wrapRange (spec_lookup (the (GetRequestRange op)) m)]) ops, m)"
  by (induction ops) (simp_all add: range_op_spec)

lemma lookupOps_range:
  assumes "reader_ok r" and "store_ok (contents r)"
  shows "list_all range_op ops \<Longrightarrow> lookupOps r (map GetRequestRange ops)
    = Inr (map (\<lambda>op. wrapRange (spec_lookup (the (GetRequestRange op)) (user_kvs (contents r)))) ops)"
proof (induction ops)
  case (Cons op ops)
  then obtain rq where "GetRequestRange op = Some rq" by (auto simp: range_op_def)
  with Cons show ?case by (simp add: lookup_spec [OF assms] del: GetRequestRange.simps)
qed simp

lemma lookupTxn_spec:
  assumes "reader_ok r" and "store_ok (contents r)" and "readonly req"
  shows "\<exists>rs. lookupTxn r req = Inr \<lparr>tpSucceeded = spec_compare (trCompare req) (user_kvs (contents r)), tpResponses = rs\<rparr>
    \<and> spec_txn \<lparr>txCompare = trCompare req, txSuccess = trSuccess req, txFailure = trFailure req, txUnknown = u\<rparr>
          (user_kvs (contents r))
        = Inr ((spec_compare (trCompare req) (user_kvs (contents r)), rs), user_kvs (contents r))"
  using assms(3) lookupOps_range [OF assms(1,2)] txnCompare_spec [OF assms(1,2)]
  by (auto simp: lookupTxn_def spec_txn_def readonly_def spec_seq_range o_def concat_map_singleton Let_def)

text \<open>
  C25: a transaction with only range operations gives the same answer whether it is served locally
  by \<^verbatim>\<open>Lookup\<close> or proposed and applied by \<^verbatim>\<open>Update\<close>: the same branch is taken, with the same
  responses, and applying it leaves the user's pairs as they are.
\<close>

theorem readonly_txn_Lookup_Update:
  assumes "pebble_laws P W" and "fsm_ok P p" and "readonly req"
    and "Command_UnmarshalVT (entCmd e) emptyCommand = Inr c" and "cmdType c = Command_TXN"
    and "cmdTxn c = Some \<lparr>txCompare = trCompare req, txSuccess = trSuccess req, txFailure = trFailure req, txUnknown = u\<rparr>"
    and "Update P p [e] = Inr (out, p')"
  shows "\<exists>resp. Lookup P wr p (TxnQuery req) w = Inr (TxnResult resp, w)
    \<and> out = [setResult e (if tpSucceeded resp then ResultSuccess else ResultFailure)
              (mkResult (entIndex e) (tpResponses resp))]
    \<and> tsKvs (db_state P p') = tsKvs (db_state P p)"
proof -
  obtain db where db: "fsmPebble p = Some db" "reader_ok (pbReader P db)" "store_ok (contents (pbReader P db))"
    using fsm_ok_reader [OF assms(1,2)] by (auto simp: table_ok_def)
  let ?m = "user_kvs (contents (pbReader P db))"
  obtain rs where rs: "lookupTxn (pbReader P db) req = Inr \<lparr>tpSucceeded = spec_compare (trCompare req) ?m, tpResponses = rs\<rparr>"
    "spec_txn \<lparr>txCompare = trCompare req, txSuccess = trSuccess req, txFailure = trFailure req, txUnknown = u\<rparr> ?m
       = Inr ((spec_compare (trCompare req) ?m, rs), ?m)"
    using lookupTxn_spec [OF db(2,3) assms(3)] by blast
  have m: "tsKvs (db_state P p) = ?m" by (simp add: db abs_state_def)
  from spec_update_InrD [OF Update_spec(2) [OF assms(1,2,7)]] obtain j where
    "spec_entries [e] ?m (0, None) = Inr ((out, tsKvs (db_state P p')), j)"
    by (auto simp: m)
  with rs(2) assms(4-6) have
    "out = [setResult e (if spec_compare (trCompare req) ?m then ResultSuccess else ResultFailure) (mkResult (entIndex e) rs)]"
    "tsKvs (db_state P p') = ?m"
    by (auto simp: spec_result_def spec_command.simps Command_types)
  with rs(1) db(1) m show ?thesis
    by (simp add: Lookup_def)
qed

definition exOp :: RequestOp where
  "exOp = emptyRequestOp\<lparr>roRequest := Some (RequestOp_RequestRange (exRange [98] None 0))\<rparr>"

definition exTxnReq :: TxnRequest where
  "exTxnReq = \<lparr>trTable = [], trCompare = [], trSuccess = [exOp], trFailure = [], trUnknown = []\<rparr>"

definition exTxn :: Command where
  "exTxn = Command [] Command_TXN None None [] (Some (emptyTxn\<lparr>txSuccess := [exOp]\<rparr>)) None False [] False []"

lemma exTxn_decode: "Command_UnmarshalVT (entCmd (exEntry i exTxn)) emptyCommand = Inr exTxn"
  unfolding exEntry_def Entry.select_convs
proof (rule Command_UnmarshalVT_MarshalVT)
  show "Command_wf exTxn"
    by (simp add: exTxn_def Txn_wf_def emptyTxn_def exOp_def emptyRequestOp_def RequestOp_wf_def exRange_def
        emptyRequestOp_Range_def RequestOp_Range_wf_def)
  have "Command_SizeVT exTxn \<le> 100" by code_simp
  then show "Command_SizeVT exTxn < 2 ^ 63" by simp
qed

theorem readonly_txn_Lookup_Update_witness:
  "\<exists>out p' resp. Update mem_pebble (exFSM exDB) [exEntry 9 exTxn] = Inr (out, p')
     \<and> Lookup mem_pebble (\<lambda>w b. Inr w) (exFSM exDB) (TxnQuery exTxnReq) () = Inr (TxnResult resp, ())
     \<and> tsKvs (db_state mem_pebble p') = [([97], [1]), ([98], [2]), ([99], [3])]"
proof -
  have txn: "cmdTxn exTxn = Some \<lparr>txCompare = trCompare exTxnReq, txSuccess = trSuccess exTxnReq,
      txFailure = trFailure exTxnReq, txUnknown = []\<rparr>"
    by (simp add: exTxn_def exTxnReq_def emptyTxn_def)
  have "\<exists>out st. spec_update [exEntry 9 exTxn] (db_state mem_pebble (exFSM exDB)) = Inr (out, st)"
    using exTxn_decode [of 9]
    by (simp add: spec_update_def spec_result_def spec_command.simps)
      (simp add: exTxn_def Command_types spec_txn_def emptyTxn_def exOp_def spec_op_def spec_compare_def Let_def)
  then obtain out p' where u: "Update mem_pebble (exFSM exDB) [exEntry 9 exTxn] = Inr (out, p')"
    using Update_total [OF mem_pebble_laws mem_pebble_total exDB_ok] by blast
  from readonly_txn_Lookup_Update [OF mem_pebble_laws exDB_ok _ exTxn_decode _ txn u, of "\<lambda>w b. Inr w" "()"] u
  show ?thesis by (auto simp: readonly_def exTxnReq_def exTxn_def exDB_state range_op_def exOp_def)
qed

section \<open>Missing keys\<close>

text \<open>
  C37: a put that asks for the previous pair of a key that is not stored does not report its
  absence: \<^verbatim>\<open>singleLookup\<close> answers with an empty response and no error, so \<^verbatim>\<open>handlePut\<close> indexes
  an empty slice and panics. The update fails with it on every replica.
\<close>

theorem handlePut_prevKv_missing:
  assumes "pebble_laws P W" and "pebble_total P" and "store_ok (ctx_view P W ctx)"
    and "rpPrevKv put" and "map_of (user_kvs (ctx_view P W ctx)) (rpKey put) = None"
  shows "handlePut P ctx put = Inl (GoPanic ''index out of range'')"
  using handlePut_refines [OF assms(1,3), of put] assms(2,4,5)
  by (cases "handlePut P ctx put") (auto simp: refines_def spec_put_def)

definition exCtx :: "batch_op list \<Rightarrow> (batch_op list, bool \<times> batch_op list) updateContext" where
  "exCtx db = \<lparr>ucBatch = (False, []), ucDb = db, ucIndex = 1, ucLeaderIndex = None\<rparr>"

lemma exCtx_view: "ctx_view mem_pebble snd (exCtx exDB) = [(userKey [97], [1]), (userKey [98], [2]), (userKey [99], [3])]"
  by (simp add: ctx_view_def exCtx_def exDB_contents)

lemma exCtx_ok: "store_ok (ctx_view mem_pebble snd (exCtx exDB))"
  by (simp add: exCtx_view store_ok_def)

theorem handlePut_prevKv_missing_witness:
  "handlePut mem_pebble (exCtx exDB) (emptyRequestOp_Put\<lparr>rpKey := [100], rpPrevKv := True\<rparr>)
     = Inl (GoPanic ''index out of range'')"
  by (rule handlePut_prevKv_missing [OF mem_pebble_laws mem_pebble_total exCtx_ok])
    (simp_all add: exCtx_view emptyRequestOp_Put_def)

text \<open>
  The deletion of a single key that asks for a count or the previous pair always reports one
  deleted pair, also when the key is not stored, and lists the previous pair exactly when it was
  there and asked for; the pair is removed.
\<close>

theorem handleDelete_single_reports_one:
  assumes "pebble_laws P W" and "pebble_total P" and "store_ok (ctx_view P W ctx)"
    and "rdRangeEnd del = None" and "rdPrevKv del \<or> rdCount del"
  shows "\<exists>resp ctx'. handleDelete P ctx del = Inr (resp, ctx') \<and> sdDeleted resp = 1
    \<and> map kvValue (sdPrevKvs resp)
        = (if rdPrevKv del then case map_of (user_kvs (ctx_view P W ctx)) (rdKey del) of None \<Rightarrow> [] | Some v \<Rightarrow> [v] else [])
    \<and> map_of (user_kvs (ctx_view P W ctx')) = (map_of (user_kvs (ctx_view P W ctx)))(rdKey del := None)"
proof (cases "handleDelete P ctx del")
  case (Inl e)
  with handleDelete_refines [OF assms(1,3), of del] assms(2,4) show ?thesis
    by (auto simp: refines_def spec_delete_def Let_def)
next
  case (Inr r)
  obtain resp ctx' where r: "r = (resp, ctx')" by (cases r)
  let ?m = "user_kvs (ctx_view P W ctx)"
  from handleDelete_refines [OF assms(1,3), of del] Inr r
  have "spec_delete del ?m = Inr (resp, user_kvs (ctx_view P W ctx'))" by (simp add: refines_def)
  moreover have "map_of (filter (\<lambda>e. fst e \<noteq> rdKey del) ?m) = (map_of ?m)(rdKey del := None)"
    using map_of_filter_keys [of "\<lambda>k. k \<noteq> rdKey del" ?m] by (intro ext) auto
  ultimately show ?thesis
    using assms(4,5) Inr r
    by (auto simp: spec_delete_def Let_def spec_single_def emptyRequestOp_Range_def emptyResponseOp_Range_def
        emptyKeyValue_def split: option.splits)
qed

theorem handleDelete_single_reports_one_witness:
  "\<exists>resp ctx'. handleDelete mem_pebble (exCtx exDB) (emptyRequestOp_DeleteRange\<lparr>rdKey := [100], rdCount := True\<rparr>)
      = Inr (resp, ctx') \<and> sdDeleted resp = 1 \<and> map_of (user_kvs (ctx_view mem_pebble snd (exCtx exDB))) [100] = None"
  using handleDelete_single_reports_one [OF mem_pebble_laws mem_pebble_total exCtx_ok,
      of "emptyRequestOp_DeleteRange\<lparr>rdKey := [100], rdCount := True\<rparr>"]
  by (auto simp: emptyRequestOp_DeleteRange_def exCtx_view)

text \<open>
  C26: a range deletion removes exactly the user's pairs in the range, up to the last user key for
  the wildcard end, never the table's system keys; asked for it, it reports what a range query of
  the same bounds reports.
\<close>

theorem handleDelete_range:
  assumes "pebble_laws P W" and "pebble_total P" and "store_ok (ctx_view P W ctx)" and "rdRangeEnd del = Some hi"
  shows "\<exists>resp ctx'. handleDelete P ctx del = Inr (resp, ctx') \<and> store_ok (ctx_view P W ctx')
    \<and> user_kvs (ctx_view P W ctx') = filter (\<lambda>e. \<not> in_range (rdKey del) hi (fst e)) (user_kvs (ctx_view P W ctx))
    \<and> (\<forall>s \<in> {sysLocalIndex, sysLeaderIndex}. map_of (ctx_view P W ctx') s = map_of (ctx_view P W ctx) s)
    \<and> (rdPrevKv del \<longrightarrow> sdPrevKvs resp
          = rsKvs (spec_range (exRange (rdKey del) (Some hi) 0) hi (user_kvs (ctx_view P W ctx))))"
proof (cases "handleDelete P ctx del")
  case (Inl e)
  with handleDelete_refines [OF assms(1,3), of del] assms(2,4) show ?thesis
    by (auto simp: refines_def spec_delete_def Let_def)
next
  case (Inr r)
  obtain resp ctx' where r: "r = (resp, ctx')" by (cases r)
  from handleDelete_refines [OF assms(1,3), of del] Inr r
  have "spec_delete del (user_kvs (ctx_view P W ctx)) = Inr (resp, user_kvs (ctx_view P W ctx'))"
    and "ctx_step P W ctx ctx'"
    by (simp_all add: refines_def)
  then show ?thesis
    using assms(4) Inr r
    by (auto simp: spec_delete_def Let_def ctx_step_def exRange_def emptyRequestOp_Range_def split: if_splits)
qed

theorem handleDelete_range_witness:
  "\<exists>resp ctx'. handleDelete mem_pebble (exCtx exDB) (emptyRequestOp_DeleteRange\<lparr>rdKey := [98], rdRangeEnd := Some [0]\<rparr>)
      = Inr (resp, ctx') \<and> user_kvs (ctx_view mem_pebble snd ctx') = [([97], [1])]"
  using handleDelete_range [OF mem_pebble_laws mem_pebble_total exCtx_ok,
      of "emptyRequestOp_DeleteRange\<lparr>rdKey := [98], rdRangeEnd := Some [0]\<rparr>" "[0]"]
  by (auto simp: emptyRequestOp_DeleteRange_def exCtx_view in_range_def wildcard_def)

section \<open>The dump of a table\<close>

definition dumpCommand :: "bytes \<Rightarrow> bytes \<times> bytes \<Rightarrow> Command" where
  "dumpCommand t e = set_cmdKv (Some (emptyKeyValue\<lparr>kvKey := fst e, kvValue := snd e\<rparr>))
     (set_cmdType Command_PUT (set_cmdTable t emptyCommand))"

lemma writeCommand_decode:
  assumes "Command_SizeVT (dumpCommand t e) < 2 ^ 63"
  shows "Command_UnmarshalVT (writeCommand t (fst e) (snd e)) emptyCommand = Inr (dumpCommand t e)"
  using Command_UnmarshalVT_MarshalVT [OF _ assms]
  by (simp add: writeCommand_def dumpCommand_def emptyCommand_def KeyValue_wf_def emptyKeyValue_def)

lemma spec_dumpCommand:
  "spec_command (dumpCommand t e) m
     = Inr ((ResultSuccess, [wrapPut emptyResponseOp_Put]), alist_put (fst e) (snd e) m)"
  by (simp add: spec_command.simps dumpCommand_def emptyCommand_def spec_put_def putRequest_def
      emptyRequestOp_Put_def)

lemma spec_dump:
  "spec_commands (map (dumpCommand t) es) m
     = Inr (replicate (length es) (wrapPut emptyResponseOp_Put), fold (\<lambda>e. alist_put (fst e) (snd e)) es m)"
  by (induction es arbitrary: m) (simp_all add: spec_dumpCommand)

lemma fold_alist_put_append:
  "sorted_keys (xs @ es) \<Longrightarrow> fold (\<lambda>e. alist_put (fst e) (snd e)) es xs = xs @ es"
proof (induction es arbitrary: xs)
  case (Cons e es)
  have "sorted_keys (xs @ [e])"
    using Cons.prems by (simp add: sorted_wrt_append)
  then have "alist_put (fst e) (snd e) xs = xs @ [e]"
    by (induction xs) (auto simp: sorted_wrt_append)
  with Cons.IH [of "xs @ [e]"] Cons.prems show ?case by simp
qed simp

text \<open>
  The dump of a table restores it. The messages \<^verbatim>\<open>commandSnapshot\<close> writes decode to put
  commands that, applied in order to an empty table, rebuild exactly the user's pairs, and it
  returns the local index they stand for. This needs that no stored key is empty (such a pair is
  left out) and that the messages are not larger than a 64-bit length can say.
\<close>

theorem commandSnapshot_restores:
  assumes "reader_ok r" and "store_ok (contents r)" and "index_ok (contents r)" and "\<not> (True \<in> set stopped)"
    and "list_all (\<lambda>e. fst e \<noteq> [] \<and> Command_SizeVT (dumpCommand t e) < 2 ^ 63) (user_kvs (contents r))"
  shows "\<exists>msgs cs rs. commandSnapshot (\<lambda>w b. Inr (w @ [b])) r t stopped []
      = Inr (stored_index (contents r) sysLocalIndex, msgs)
    \<and> map (\<lambda>b. Command_UnmarshalVT b emptyCommand) msgs = map Inr cs
    \<and> spec_commands cs [] = Inr (rs, user_kvs (contents r))"
proof -
  let ?es = "user_kvs (contents r)"
  have dump: "dumped ?es = ?es"
    using assms(5) by (simp add: dumped_def list_all_iff)
  have "fold (\<lambda>b w. w @ [b]) xs w = w @ xs" for xs and w :: "bytes list"
    by (induction xs arbitrary: w) simp_all
  with commandSnapshot_dump [OF assms(1-4), of "\<lambda>w b. Inr (w @ [b])" "\<lambda>b w. w @ [b]" t "[]"]
  have "commandSnapshot (\<lambda>w b. Inr (w @ [b])) r t stopped []
      = Inr (stored_index (contents r) sysLocalIndex, map (\<lambda>e. writeCommand t (fst e) (snd e)) ?es)"
    by (simp add: dump)
  moreover have "map (\<lambda>b. Command_UnmarshalVT b emptyCommand) (map (\<lambda>e. writeCommand t (fst e) (snd e)) ?es)
      = map Inr (map (dumpCommand t) ?es)"
    using assms(5) by (simp add: writeCommand_decode list_all_iff)
  moreover have "fold (\<lambda>e. alist_put (fst e) (snd e)) ?es [] = ?es"
    using fold_alist_put_append [of "[]" ?es] sorted_user [OF assms(2)] by simp
  moreover note spec_dump [of t ?es "[]"]
  ultimately show ?thesis
    by (intro exI conjI) (assumption+, simp)
qed

theorem commandSnapshot_restores_witness:
  "\<exists>msgs cs rs. commandSnapshot (\<lambda>w b. Inr (w @ [b])) (pbReader mem_pebble exDB) [116] [] []
      = Inr (stored_index (contents (pbReader mem_pebble exDB)) sysLocalIndex, msgs)
    \<and> map (\<lambda>b. Command_UnmarshalVT b emptyCommand) msgs = map Inr cs
    \<and> spec_commands cs [] = Inr (rs, [([97], [1]), ([98], [2]), ([99], [3])])"
proof -
  have ok: "reader_ok (pbReader mem_pebble exDB)" "store_ok (contents (pbReader mem_pebble exDB))"
    "index_ok (contents (pbReader mem_pebble exDB))"
    using fsm_ok_reader [OF mem_pebble_laws exDB_ok] by (auto simp: exFSM_def table_ok_def)
  have u: "user_kvs (contents (pbReader mem_pebble exDB)) = [([97], [1]), ([98], [2]), ([99], [3])]"
    by (simp add: exDB_contents)
  have "Command_SizeVT (dumpCommand [116] ([97], [1])) \<le> 100" "Command_SizeVT (dumpCommand [116] ([98], [2])) \<le> 100"
    "Command_SizeVT (dumpCommand [116] ([99], [3])) \<le> 100"
    by code_simp+
  then show ?thesis
    using commandSnapshot_restores [OF ok, of "[]" "[116]"] unfolding u by simp
qed

end
