(* ===== verification/Logreader.thy ===== *)
theory Logreader
  imports Regatta_Prelude "HOL-Library.Sublist"
begin

text \<open>
  The readers of the Raft log that feed replication (\<^verbatim>\<open>storage/logreader/logreader.go\<close>,
  \<^verbatim>\<open>cache.go\<close>) and the map of shards (\<^verbatim>\<open>util/sync.go\<close>). The Raft library's log reader is a
  parameter. Log indexes, positions and sizes are natural numbers: an index is a \<^verbatim>\<open>uint64\<close> that
  counts entries of a log and never wraps. A panic (indexing an empty slice) is \<open>None\<close>.
\<close>

section \<open>Entries and the log of a shard\<close>

datatype EntryType = ApplicationEntry | ConfigChangeEntry | EncodedEntry | MetadataEntry

record raftEntry =
  lgIndex :: nat
  lgType :: EntryType
  lgCmd :: bytes

record LogRange =
  FirstIndex :: nat
  LastIndex :: nat

datatype log_error = ErrLogBehind | ErrLogAhead | ErrShardNotReady | QuerierErr string

text \<open>\<^verbatim>\<open>dragonboat.ReadonlyLogReader\<close>: the range of the log and \<^verbatim>\<open>Entries(low, high, maxSize)\<close>.\<close>

record ReadonlyLogReader =
  lrRange :: "nat \<times> nat"
  lrEntries :: "nat \<Rightarrow> nat \<Rightarrow> nat \<Rightarrow> log_error + raftEntry list"

type_synonym logQuerier = "nat \<Rightarrow> log_error + ReadonlyLogReader"

section \<open>The cache of a shard\<close>

record cache =
  buffer :: "raftEntry list"
  cacheSize :: nat

definition newCache :: "nat \<Rightarrow> cache" where
  "newCache sz = \<lparr>buffer = [], cacheSize = sz\<rparr>"

definition smallestIndex :: "cache \<Rightarrow> nat" where
  "smallestIndex c = (if length (buffer c) = 0 then 0 else lgIndex (buffer c ! 0))"

definition largestIndex :: "cache \<Rightarrow> nat" where
  "largestIndex c = (if length (buffer c) = 0 then 0 else lgIndex (buffer c ! (length (buffer c) - 1)))"

text \<open>\<^verbatim>\<open>sort.Search\<close> of the Go library: binary search on \<open>[i, j)\<close>.\<close>

function sort_Search :: "(nat \<Rightarrow> bool) \<Rightarrow> nat \<Rightarrow> nat \<Rightarrow> nat" where
  "sort_Search f i j =
     (if i < j then
        (let h = (i + j) div 2 in
         if \<not> f h then sort_Search f (h + 1) j else sort_Search f i h)
      else i)"
  by pat_completeness auto
termination
  by (relation "measure (\<lambda>(f, i, j). j - i)") auto

declare sort_Search.simps [simp del]

definition findIndex :: "raftEntry list \<Rightarrow> (nat \<Rightarrow> bool) \<Rightarrow> nat option" where
  "findIndex entries f =
     (if entries = [] then None
      else if f (lgIndex (entries ! 0)) then Some 0
      else if \<not> f (lgIndex (entries ! (length entries - 1))) then Some (length entries)
      else Some (sort_Search (\<lambda>i. f (lgIndex (entries ! i))) 0 (length entries)))"

definition makeRoomAndAppend :: "cache \<Rightarrow> raftEntry list \<Rightarrow> cache" where
  "makeRoomAndAppend c entries =
     (let c = (if cacheSize c < length entries + length (buffer c)
               then c\<lparr>buffer := drop (length entries + length (buffer c) - cacheSize c) (buffer c)\<rparr> else c)
      in c\<lparr>buffer := buffer c @ entries\<rparr>)"

definition put :: "cache \<Rightarrow> raftEntry list \<Rightarrow> cache option" where
  "put c entries =
     (if length entries = 0 then Some c
      else
        let entries = (if length entries > cacheSize c then drop (length entries - cacheSize c) entries else entries);
            maxIndex = largestIndex c in
        if maxIndex = 0 then Some (makeRoomAndAppend c entries)
        else case findIndex entries (\<lambda>index. index > maxIndex) of
               None \<Rightarrow> None
             | Some i \<Rightarrow> if i = length entries then Some c else Some (makeRoomAndAppend c (drop i entries)))"

definition emptyRange :: LogRange where
  "emptyRange = \<lparr>FirstIndex = 0, LastIndex = 0\<rparr>"

definition get :: "cache \<Rightarrow> LogRange \<Rightarrow> (raftEntry list \<times> LogRange \<times> LogRange) option" where
  "get c logRange =
     (if length (buffer c) = 0 then Some ([], logRange, emptyRange)
      else if smallestIndex c > LastIndex logRange then Some ([], logRange, emptyRange)
      else if largestIndex c < FirstIndex logRange then Some ([], emptyRange, logRange)
      else
        case (findIndex (buffer c) (\<lambda>index. index \<ge> FirstIndex logRange),
              findIndex (buffer c) (\<lambda>index. index \<ge> LastIndex logRange)) of
          (Some start, Some end) \<Rightarrow>
            (if end < start then None
             else
               let entries = drop start (take end (buffer c)) in
               Some (entries,
                 (if length entries \<noteq> 0 \<and> FirstIndex logRange < smallestIndex c
                  then \<lparr>FirstIndex = FirstIndex logRange, LastIndex = smallestIndex c\<rparr> else emptyRange),
                 (if length entries \<noteq> 0 \<and> LastIndex logRange > largestIndex c + 1
                  then \<lparr>FirstIndex = largestIndex c + 1, LastIndex = LastIndex logRange\<rparr> else emptyRange)))
        | _ \<Rightarrow> None)"

section \<open>Queries\<close>

definition readLog :: "logQuerier \<Rightarrow> nat \<Rightarrow> LogRange \<Rightarrow> nat \<Rightarrow> log_error + raftEntry list" where
  "readLog q clusterID logRange maxSize =
     rbind (q clusterID) (\<lambda>r.
       let (rFirst, rLast) = lrRange r in
       if rLast + 1 = FirstIndex logRange then Inr []
       else if rLast < FirstIndex logRange then Inl ErrLogBehind
       else if FirstIndex logRange < rFirst then Inl ErrLogAhead
       else lrEntries r (FirstIndex logRange) (LastIndex logRange) maxSize)"

text \<open>\<open>sz\<close> is \<^verbatim>\<open>raftpb.Entry.SizeUpperLimit\<close> of the Raft library.\<close>

fun fixSize_loop :: "(raftEntry \<Rightarrow> nat) \<Rightarrow> raftEntry list \<Rightarrow> nat \<Rightarrow> nat \<Rightarrow> raftEntry list" where
  "fixSize_loop sz [] acc maxSize = []"
| "fixSize_loop sz (e # es) acc maxSize =
     (let acc = acc + sz e in if acc \<ge> maxSize then [] else e # fixSize_loop sz es acc maxSize)"

definition fixSize :: "(raftEntry \<Rightarrow> nat) \<Rightarrow> raftEntry list \<Rightarrow> nat \<Rightarrow> raftEntry list" where
  "fixSize sz entries maxSize = fixSize_loop sz entries 0 maxSize"

definition Simple_QueryRaftLog :: "logQuerier \<Rightarrow> nat \<Rightarrow> LogRange \<Rightarrow> nat \<Rightarrow> log_error + raftEntry list" where
  "Simple_QueryRaftLog q clusterID logRange maxSize =
     (if FirstIndex logRange = LastIndex logRange then Inr []
      else readLog q clusterID logRange maxSize)"

text \<open>\<^verbatim>\<open>util.SyncMap\<close>; a nil map is the empty map.\<close>

definition Load :: "('k \<rightharpoonup> 'v) \<Rightarrow> 'k \<Rightarrow> 'v option" where
  "Load s key = s key"

definition Store :: "('k \<rightharpoonup> 'v) \<Rightarrow> 'k \<Rightarrow> 'v \<Rightarrow> ('k \<rightharpoonup> 'v)" where
  "Store s key val = s(key \<mapsto> val)"

definition ComputeIfAbsent :: "('k \<rightharpoonup> 'v) \<Rightarrow> 'k \<Rightarrow> ('k \<Rightarrow> 'v) \<Rightarrow> 'v \<times> ('k \<rightharpoonup> 'v)" where
  "ComputeIfAbsent s key valFunc =
     (case s key of Some v \<Rightarrow> (v, s) | None \<Rightarrow> let v = valFunc key in (v, s(key \<mapsto> v)))"

definition Delete :: "('k \<rightharpoonup> 'v) \<Rightarrow> 'k \<Rightarrow> ('k \<rightharpoonup> 'v)" where
  "Delete s key = s(key := None)"

record Cached =
  ShardCacheSize :: nat
  shardCache :: "nat \<rightharpoonup> cache"

definition putShard :: "Cached \<Rightarrow> nat \<Rightarrow> cache \<Rightarrow> raftEntry list \<Rightarrow> Cached option" where
  "putShard l clusterID sh le = map_option (\<lambda>sh'. l\<lparr>shardCache := (shardCache l)(clusterID \<mapsto> sh')\<rparr>) (put sh le)"

text \<open>The result and the reader after the call; \<open>None\<close> is a panic.\<close>

definition Cached_QueryRaftLog :: "(raftEntry \<Rightarrow> nat) \<Rightarrow> logQuerier \<Rightarrow> Cached \<Rightarrow> nat \<Rightarrow> LogRange \<Rightarrow> nat
  \<Rightarrow> ((log_error + raftEntry list) \<times> Cached) option"
where
  "Cached_QueryRaftLog sz q l clusterID logRange maxSize =
     (if FirstIndex logRange = LastIndex logRange then Some (Inr [], l)
      else case Load (shardCache l) clusterID of
        None \<Rightarrow> Some (Inl ErrShardNotReady, l)
      | Some sh \<Rightarrow>
          (case get sh logRange of
             None \<Rightarrow> None
           | Some (cachedEntries, prependIndices, appendIndices) \<Rightarrow>
               if FirstIndex prependIndices \<noteq> 0 \<and> LastIndex prependIndices \<noteq> 0 then
                 (case readLog q clusterID prependIndices maxSize of
                    Inl e \<Rightarrow> Some (Inl e, l)
                  | Inr le \<Rightarrow>
                      if length le = 0 then Some (Inr (fixSize sz cachedEntries maxSize), l)
                      else if length cachedEntries > 0 \<and> lgIndex (le ! (length le - 1)) = lgIndex (cachedEntries ! 0) - 1
                      then Some (Inr (fixSize sz (le @ cachedEntries) maxSize), l)
                      else if length (buffer sh) = 0
                      then map_option (Pair (Inr le)) (putShard l clusterID sh le)
                      else Some (Inr le, l))
               else if FirstIndex appendIndices \<noteq> 0 \<and> LastIndex appendIndices \<noteq> 0 then
                 (case readLog q clusterID appendIndices maxSize of
                    Inl e \<Rightarrow> Some (Inl e, l)
                  | Inr le \<Rightarrow>
                      if length le = 0 then Some (Inr (fixSize sz cachedEntries maxSize), l)
                      else if length cachedEntries > 0
                      then map_option (Pair (Inr (fixSize sz (cachedEntries @ le) maxSize))) (putShard l clusterID sh le)
                      else if lgIndex (le ! 0) - 1 = largestIndex sh
                      then map_option (Pair (Inr le)) (putShard l clusterID sh le)
                      else Some (Inr le, l))
               else Some (Inr (fixSize sz cachedEntries maxSize), l)))"

definition NodeDeleted :: "Cached \<Rightarrow> nat \<Rightarrow> Cached" where
  "NodeDeleted l shardID = l\<lparr>shardCache := Delete (shardCache l) shardID\<rparr>"

definition NodeReady :: "Cached \<Rightarrow> nat \<Rightarrow> Cached" where
  "NodeReady l shardID =
     l\<lparr>shardCache := snd (ComputeIfAbsent (shardCache l) shardID (\<lambda>shardId. newCache (ShardCacheSize l)))\<rparr>"

definition LogCompacted :: "Cached \<Rightarrow> nat \<Rightarrow> Cached" where
  "LogCompacted l shardID = l\<lparr>shardCache := Store (shardCache l) shardID (newCache (ShardCacheSize l))\<rparr>"

section \<open>Binary search\<close>

text \<open>\<^verbatim>\<open>sort.Search\<close> finds the boundary of a predicate that stays true once true.\<close>

lemma sort_Search_spec:
  "\<forall>a b. a \<le> b \<longrightarrow> b < n \<longrightarrow> f a \<longrightarrow> f b \<Longrightarrow> i \<le> j \<Longrightarrow> j \<le> n \<Longrightarrow>
   \<forall>x < i. \<not> f x \<Longrightarrow> \<forall>x < n. j \<le> x \<longrightarrow> f x \<Longrightarrow>
   sort_Search f i j \<le> n \<and> (\<forall>x < sort_Search f i j. \<not> f x) \<and> (\<forall>x < n. sort_Search f i j \<le> x \<longrightarrow> f x)"
proof (induction f i j rule: sort_Search.induct)
  case (1 f i j)
  show ?case
  proof (cases "i < j")
    case False
    then have "sort_Search f i j = i" by (subst sort_Search.simps) simp
    with False "1.prems" show ?thesis by auto
  next
    case True
    let ?h = "(i + j) div 2"
    have h: "i \<le> ?h" "?h < j" "?h < n" using True "1.prems"(3) by auto
    show ?thesis
    proof (cases "f ?h")
      case True
      have "sort_Search f i j = sort_Search f i ?h"
        by (subst sort_Search.simps) (simp add: \<open>i < j\<close> True)
      moreover have "\<forall>x < n. ?h \<le> x \<longrightarrow> f x" using "1.prems"(1) True by blast
      moreover have "?h \<le> n" using h by simp
      moreover have "\<not> \<not> f ?h" using True by simp
      ultimately show ?thesis
        using "1.IH"(2) [OF \<open>i < j\<close> refl _ "1.prems"(1) h(1) _ "1.prems"(4)] by metis
    next
      case False
      have "sort_Search f i j = sort_Search f (?h + 1) j"
        by (subst sort_Search.simps) (simp add: \<open>i < j\<close> False)
      moreover have "\<not> f x" if "x < ?h + 1" for x
      proof
        assume "f x"
        moreover have "x \<le> ?h" using that by simp
        ultimately show False using "1.prems"(1) h(3) False by blast
      qed
      moreover have "?h + 1 \<le> j" using h by simp
      ultimately show ?thesis
        using "1.IH"(1) [OF \<open>i < j\<close> refl False "1.prems"(1) _ "1.prems"(3) _ "1.prems"(5)] by metis
    qed
  qed
qed

section \<open>Segments of a log\<close>

text \<open>\<open>seg es n\<close>: the entries have the consecutive indexes from \<open>n\<close> on.\<close>

fun seg :: "raftEntry list \<Rightarrow> nat \<Rightarrow> bool" where
  "seg [] n \<longleftrightarrow> True"
| "seg (e # es) n \<longleftrightarrow> lgIndex e = n \<and> seg es (Suc n)"

text \<open>The log of a shard from its first entry on, and the part of it in a range.\<close>

definition is_log :: "raftEntry list \<Rightarrow> bool" where
  "is_log L \<longleftrightarrow> seg L 1"

definition log_slice :: "raftEntry list \<Rightarrow> nat \<Rightarrow> nat \<Rightarrow> raftEntry list" where
  "log_slice L a b = filter (\<lambda>e. a \<le> lgIndex e \<and> lgIndex e < b) L"

lemma seg_append: "seg (xs @ ys) n \<longleftrightarrow> seg xs n \<and> seg ys (n + length xs)"
  by (induction xs arbitrary: n) auto

lemma seg_nth: "seg es n \<Longrightarrow> i < length es \<Longrightarrow> lgIndex (es ! i) = n + i"
proof (induction es arbitrary: n i)
  case (Cons e es)
  then show ?case by (cases i) (auto dest: Cons.IH)
qed simp

lemma seg_drop: "seg es n \<Longrightarrow> seg (drop i es) (n + i)"
proof (induction i arbitrary: es n)
  case (Suc i)
  show ?case
  proof (cases es)
    case (Cons e es')
    with Suc.prems Suc.IH [of es' "Suc n"] show ?thesis by simp
  qed simp
qed simp

lemma seg_take: "seg es n \<Longrightarrow> seg (take i es) n"
  using seg_append [of "take i es" "drop i es" n] by simp

lemma seg_above: "seg es n \<Longrightarrow> b \<le> n \<Longrightarrow> log_slice es a b = []"
  by (induction es arbitrary: n) (auto simp: log_slice_def)

lemma seg_log_slice: "seg es n \<Longrightarrow> seg (log_slice es a b) (max a n)"
proof (induction es arbitrary: n)
  case (Cons e es)
  then have IH: "seg (log_slice es a b) (max a (Suc n))" and n: "lgIndex e = n" by simp_all
  consider "n < a" | "a \<le> n" "n < b" | "b \<le> n" by linarith
  then show ?case
  proof cases
    case 1
    then have "max a (Suc n) = max a n" "log_slice (e # es) a b = log_slice es a b"
      using n by (simp_all add: log_slice_def)
    with IH show ?thesis by simp
  next
    case 2
    then have "max a (Suc n) = Suc n" "max a n = n" "log_slice (e # es) a b = e # log_slice es a b"
      using n by (simp_all add: log_slice_def)
    with IH n show ?thesis by simp
  next
    case 3
    then have "log_slice (e # es) a b = []" using seg_above [OF Cons.prems] by simp
    then show ?thesis by simp
  qed
qed (simp add: log_slice_def)

lemma seg_slice_append:
  "seg es n \<Longrightarrow> a \<le> b \<Longrightarrow> b \<le> c \<Longrightarrow> log_slice es a b @ log_slice es b c = log_slice es a c"
proof (induction es arbitrary: n)
  case (Cons e es)
  have n: "lgIndex e = n" using Cons.prems(1) by simp
  have IH: "log_slice es a b @ log_slice es b c = log_slice es a c"
    using Cons.IH [of "Suc n"] Cons.prems by simp
  show ?case
  proof (cases "b \<le> n")
    case True
    then have "log_slice (e # es) a b = []" "log_slice es a b = []"
      using seg_above [OF Cons.prems(1), of b] seg_above [of es "Suc n" b] Cons.prems(1) by auto
    then show ?thesis using IH n Cons.prems True by (simp add: log_slice_def)
  next
    case False
    then show ?thesis using IH n Cons.prems by (auto simp: log_slice_def)
  qed
qed (simp add: log_slice_def)

lemma seg_slice: "seg es n \<Longrightarrow> log_slice es a b = drop (a - n) (take (b - n) es)"
proof (induction es arbitrary: n)
  case (Cons e es)
  then have IH: "log_slice es a b = drop (a - Suc n) (take (b - Suc n) es)" and n: "lgIndex e = n" by simp_all
  consider "b \<le> n" | "n < b" "a \<le> n" | "n < b" "n < a" by linarith
  then show ?case
  proof cases
    case 1
    then show ?thesis using seg_above [OF Cons.prems, of b] by simp
  next
    case 2
    then have "b - n = Suc (b - Suc n)" by simp
    with 2 IH n show ?thesis by (simp add: log_slice_def)
  next
    case 3
    then have "b - n = Suc (b - Suc n)" "a - n = Suc (a - Suc n)" by simp_all
    with 3 IH n show ?thesis by (simp add: log_slice_def)
  qed
qed (simp add: log_slice_def)

lemma log_slice_slice: "log_slice (log_slice L a b) c d = log_slice L (max a c) (min b d)"
  unfolding log_slice_def filter_filter by (rule filter_cong) auto

lemma log_slice_seg: "is_log L \<Longrightarrow> 0 < a \<Longrightarrow> seg (log_slice L a b) a"
  using seg_log_slice [of L 1 a b] by (simp add: is_log_def max_absorb1)

lemma log_slice_append:
  "is_log L \<Longrightarrow> a \<le> b \<Longrightarrow> b \<le> c \<Longrightarrow> log_slice L a b @ log_slice L b c = log_slice L a c"
  unfolding is_log_def by (rule seg_slice_append)

lemma log_slice_sub:
  assumes "is_log L" and "0 < a"
  shows "drop i (take j (log_slice L a b)) = log_slice L (a + i) (min b (a + j))"
  using seg_slice [OF log_slice_seg [OF assms], of b "a + i" "a + j"]
  by (simp add: log_slice_slice)

lemma length_log_slice:
  "is_log L \<Longrightarrow> 0 < a \<Longrightarrow> a \<le> b \<Longrightarrow> b \<le> Suc (length L) \<Longrightarrow> length (log_slice L a b) = b - a"
  using seg_slice [of L 1 a b] by (simp add: is_log_def)

lemma prefix_slice:
  assumes "is_log L" and "0 < a" and "prefix es (log_slice L a b)"
  shows "es = log_slice L a (a + length es)"
proof -
  have "es = take (length es) (log_slice L a b)"
    using assms(3) by (auto simp: prefix_def)
  also have "\<dots> = log_slice L a (min b (a + length es))"
    using log_slice_sub [OF assms(1,2), of 0 "length es" b] by simp
  finally have e: "es = log_slice L a (min b (a + length es))" .
  show ?thesis
  proof (cases "es = [] \<or> a + length es \<le> b")
    case False
    then have "0 < length es" by simp
    moreover have "length (log_slice L a b) \<le> b - a"
      using seg_slice [of L 1 a b] assms(1,2) by (simp add: is_log_def)
    ultimately show ?thesis using prefix_length_le [OF assms(3)] False by linarith
  next
    case True
    then show ?thesis
    proof
      assume "es = []"
      then show ?thesis by (simp add: log_slice_def)
    qed (use e in \<open>simp only: min_absorb2\<close>)
  qed
qed

lemma slice_bound:
  assumes "is_log L" and "0 < a" and "es = log_slice L a (a + length es)" and "es \<noteq> []"
  shows "a + length es \<le> Suc (length L)"
proof -
  have "log_slice L a (a + length es) = drop (a - 1) (take (a + length es - 1) L)"
    using assms(1) seg_slice [of L 1 a "a + length es"] by (simp add: is_log_def)
  then have "length es = min (length L) (a + length es - 1) - (a - 1)"
    using assms(3) by (metis length_drop length_take min.commute)
  moreover have "0 < length es" using assms(4) by simp
  ultimately show ?thesis using assms(2) by linarith
qed

lemma prefix_fixSize: "prefix (fixSize sz es maxSize) es"
proof -
  have "prefix (fixSize_loop sz es acc maxSize) es" for acc
    by (induction es arbitrary: acc) (simp_all add: Let_def)
  then show ?thesis by (simp add: fixSize_def)
qed

section \<open>The cache holds a segment of the log\<close>

lemma findIndex_ge:
  assumes "seg es n" and "es \<noteq> []"
  shows "findIndex es (\<lambda>i. x \<le> i) = Some (min (x - n) (length es))"
proof -
  have ix: "lgIndex (es ! i) = n + i" if "i < length es" for i
    using seg_nth [OF assms(1) that] .
  have "0 < length es" using assms(2) by simp
  consider "x \<le> n" | "n < x" "n + (length es - 1) < x" | "n < x" "x \<le> n + (length es - 1)" by linarith
  then show ?thesis
  proof cases
    case 1
    then show ?thesis using ix [OF \<open>0 < length es\<close>] assms(2) by (simp add: findIndex_def)
  next
    case 2
    then show ?thesis
      using ix [OF \<open>0 < length es\<close>] ix [of "length es - 1"] assms(2) by (auto simp: findIndex_def min_def)
  next
    case 3
    let ?f = "\<lambda>i. x \<le> lgIndex (es ! i)"
    let ?k = "sort_Search ?f 0 (length es)"
    have k: "?k \<le> length es" "\<forall>i < ?k. \<not> ?f i" "\<forall>i < length es. ?k \<le> i \<longrightarrow> ?f i"
      using sort_Search_spec [of "length es" ?f 0 "length es"] ix by auto
    have "\<not> ?f (x - n - 1)" "?f (x - n)" "x - n < length es"
      using 3 ix [of "x - n - 1"] ix [of "x - n"] by auto
    moreover have "\<not> x - n < ?k" using k(2) \<open>?f (x - n)\<close> by blast
    moreover have "\<not> ?k \<le> x - n - 1"
    proof
      assume "?k \<le> x - n - 1"
      then have "?f (x - n - 1)" using k(3) \<open>x - n < length es\<close> by (meson less_imp_diff_less)
      then show False using \<open>\<not> ?f (x - n - 1)\<close> by blast
    qed
    ultimately have "?k = x - n" using 3(1) by linarith
    with 3 show ?thesis
      using ix [OF \<open>0 < length es\<close>] ix [of "length es - 1"] assms(2) by (auto simp: findIndex_def)
  qed
qed

definition cache_seg :: "raftEntry list \<Rightarrow> cache \<Rightarrow> nat \<Rightarrow> nat \<Rightarrow> bool" where
  "cache_seg L c lo hi \<longleftrightarrow> 0 < lo \<and> lo \<le> hi \<and> hi \<le> Suc (length L) \<and> buffer c = log_slice L lo hi
     \<and> length (buffer c) \<le> cacheSize c"

definition cache_ok :: "raftEntry list \<Rightarrow> cache \<Rightarrow> bool" where
  "cache_ok L c \<longleftrightarrow> (\<exists>lo hi. cache_seg L c lo hi)"

lemma newCache_ok: "cache_ok L (newCache n)"
  by (auto simp: cache_ok_def cache_seg_def newCache_def log_slice_def intro!: exI [of _ 1])

lemma cache_seg_facts:
  assumes "is_log L" and "cache_seg L c lo hi"
  shows "length (buffer c) = hi - lo" and "seg (buffer c) lo"
    and "buffer c \<noteq> [] \<Longrightarrow> smallestIndex c = lo" and "buffer c \<noteq> [] \<Longrightarrow> largestIndex c = hi - 1"
    and "buffer c \<noteq> [] \<Longrightarrow> lo < hi"
proof -
  show len: "length (buffer c) = hi - lo" and sg: "seg (buffer c) lo"
    using assms by (simp_all add: cache_seg_def length_log_slice log_slice_seg)
  show "lo < hi" if "buffer c \<noteq> []"
    using len that by (metis length_0_conv zero_less_diff gr0I)
  then show "smallestIndex c = lo" "largestIndex c = hi - 1" if "buffer c \<noteq> []"
    using that seg_nth [OF sg, of 0] seg_nth [OF sg, of "hi - lo - 1"] len
    by (auto simp: smallestIndex_def largestIndex_def)
qed

lemma cache_segI:
  "cache_seg L c lo hi \<Longrightarrow> cache_ok L c"
  by (auto simp: cache_ok_def)

lemma log_slice_drop:
  assumes "is_log L" and "0 < a" and "b \<le> Suc (length L)" and "i \<le> b - a" and "a \<le> b"
  shows "drop i (log_slice L a b) = log_slice L (a + i) b"
  using log_slice_sub [OF assms(1,2), of i "b - a" b] length_log_slice [OF assms(1,2,5,3)] assms(5)
  by simp

text \<open>\<open>put\<close> of a segment that continues the cache keeps it a segment of the log.\<close>

lemma makeRoom_seg:
  assumes L: "is_log L" and c: "cache_seg L c lo a" and ab: "a \<le> b" "b \<le> Suc (length L)"
    and sz: "b - a \<le> cacheSize c"
  shows "cache_ok L (makeRoomAndAppend c (log_slice L a b))"
proof -
  let ?k = "(b - a) + (a - lo) - cacheSize c"
  have c': "0 < lo" "lo \<le> a" "buffer c = log_slice L lo a" "a - lo \<le> cacheSize c" "a \<le> Suc (length L)"
    using c cache_seg_facts(1) [OF L c] by (simp_all add: cache_seg_def)
  have len: "length (log_slice L a b) = b - a" "length (log_slice L lo a) = a - lo"
    using L c' ab by (simp_all add: length_log_slice)
  have k: "?k \<le> a - lo" using sz by linarith
  have "buffer (makeRoomAndAppend c (log_slice L a b)) = drop ?k (log_slice L lo a) @ log_slice L a b"
    using c' len by (simp add: makeRoomAndAppend_def Let_def)
  also have "drop ?k (log_slice L lo a) = log_slice L (lo + ?k) a"
    using log_slice_drop [OF L c'(1) c'(5) k c'(2)] .
  also have "\<dots> @ log_slice L a b = log_slice L (lo + ?k) b"
    using log_slice_append [OF L _ ab(1), of "lo + ?k"] k c'(2) by simp
  finally have bf: "buffer (makeRoomAndAppend c (log_slice L a b)) = log_slice L (lo + ?k) b" .
  have "length (log_slice L (lo + ?k) b) = b - (lo + ?k)"
    using length_log_slice [OF L, of "lo + ?k" b] c' k ab by simp
  then have "cache_seg L (makeRoomAndAppend c (log_slice L a b)) (lo + ?k) b"
    unfolding cache_seg_def bf using c' k ab by (simp add: makeRoomAndAppend_def Let_def) linarith
  then show ?thesis by (rule cache_segI)
qed

lemma cache_seg_empty: "buffer c = [] \<Longrightarrow> 0 < a \<Longrightarrow> a \<le> Suc (length L) \<Longrightarrow> cache_seg L c a a"
  by (auto simp: cache_seg_def log_slice_def)

lemma makeRoom_full:
  "length es = cacheSize c \<Longrightarrow> makeRoomAndAppend c es = makeRoomAndAppend (c\<lparr>buffer := []\<rparr>) es"
  by (simp add: makeRoomAndAppend_def)

lemma put_seg:
  assumes L: "is_log L" and c: "cache_seg L c lo a" and ab: "a < b" "b \<le> Suc (length L)"
  shows "\<exists>c'. put c (log_slice L a b) = Some c' \<and> cache_ok L c'"
proof -
  have lo: "0 < lo" "lo \<le> a" "0 < a" "length (buffer c) \<le> cacheSize c" using c by (auto simp: cache_seg_def)
  define d where "d = (b - a) - cacheSize c"
  have len: "length (log_slice L a b) = b - a" using L lo ab by (simp add: length_log_slice)
  have dr: "drop d (log_slice L a b) = log_slice L (a + d) b"
    using log_slice_drop [OF L lo(3) ab(2), of d] ab by (simp add: d_def)
  have es: "(if b - a > cacheSize c then drop (b - a - cacheSize c) (log_slice L a b) else log_slice L a b)
      = log_slice L (a + d) b"
    using dr by (auto simp: d_def)
  have ok: "cache_ok L (makeRoomAndAppend c (log_slice L (a + d) b))"
  proof (cases "d = 0")
    case True
    then show ?thesis using makeRoom_seg [OF L c] ab by (simp add: d_def)
  next
    case False
    then have "length (log_slice L (a + d) b) = cacheSize c"
      using dr len by (metis d_def diff_diff_cancel length_drop less_or_eq_imp_le zero_less_diff gr0I)
    moreover have "cache_ok L (makeRoomAndAppend (c\<lparr>buffer := []\<rparr>) (log_slice L (a + d) b))"
      using makeRoom_seg [OF L cache_seg_empty [of "c\<lparr>buffer := []\<rparr>" "a + d" L], of b] ab lo
      by (auto simp: d_def)
    ultimately show ?thesis using makeRoom_full by metis
  qed
  have pt: "put c (log_slice L a b) =
      (if largestIndex c = 0 then Some (makeRoomAndAppend c (log_slice L (a + d) b))
       else case findIndex (log_slice L (a + d) b) (\<lambda>index. index > largestIndex c) of
               None \<Rightarrow> None
             | Some i \<Rightarrow> if i = length (log_slice L (a + d) b) then Some c
                 else Some (makeRoomAndAppend c (drop i (log_slice L (a + d) b))))"
    unfolding put_def Let_def len es using ab by simp
  show ?thesis
  proof (cases "buffer c = []")
    case True
    then show ?thesis using ok by (simp add: pt largestIndex_def)
  next
    case False
    then have mx: "largestIndex c = a - 1" "lo < a" using cache_seg_facts [OF L c] by auto
    have "0 < cacheSize c" using False lo(4) by (cases "buffer c") auto
    then have "a + d < b" using ab d_def by linarith
    then have "0 < length (log_slice L (a + d) b)" using length_log_slice [OF L, of "a + d" b] ab lo by simp
    then have ne: "log_slice L (a + d) b \<noteq> []" by simp
    have "(\<lambda>i. a - 1 < i) = (\<lambda>i. a \<le> i)" using lo(3) by auto
    then have "findIndex (log_slice L (a + d) b) (\<lambda>i. a - 1 < i) = Some 0"
      using findIndex_ge [OF log_slice_seg [OF L, of "a + d" b] ne, of a] lo(3) by simp
    then show ?thesis using ok mx ne by (auto simp: pt)
  qed
qed

lemma prefix_log_slice: "is_log L \<Longrightarrow> b \<le> c \<Longrightarrow> prefix (log_slice L a b) (log_slice L a c)"
proof (cases "a \<le> b")
  case True
  then show "is_log L \<Longrightarrow> b \<le> c \<Longrightarrow> ?thesis" using log_slice_append [of L a b c] by (metis prefixI)
next
  case False
  then show ?thesis by (simp add: log_slice_def filter_False)
qed

text \<open>\<open>get\<close>: the cached part of the range and what is missing before and after it.\<close>

lemma get_seg:
  assumes L: "is_log L" and c: "cache_seg L c lo hi" and ne: "buffer c \<noteq> []"
    and r: "FirstIndex r \<le> LastIndex r"
    and within: "lo \<le> LastIndex r" "FirstIndex r < hi"
  shows "get c r = Some (log_slice L (max (FirstIndex r) lo) (min (LastIndex r) hi),
     (if lo < LastIndex r \<and> FirstIndex r < LastIndex r \<and> FirstIndex r < lo
      then \<lparr>FirstIndex = FirstIndex r, LastIndex = lo\<rparr> else emptyRange),
     (if lo < LastIndex r \<and> FirstIndex r < LastIndex r \<and> hi < LastIndex r
      then \<lparr>FirstIndex = hi, LastIndex = LastIndex r\<rparr> else emptyRange))"
proof -
  note f = cache_seg_facts [OF L c] and sm = cache_seg_facts(3-5) [OF L c ne]
  let ?es = "log_slice L (max (FirstIndex r) lo) (min (LastIndex r) hi)"
  have lo: "0 < lo" "lo < hi" "hi \<le> Suc (length L)" "buffer c = log_slice L lo hi"
    using c sm by (auto simp: cache_seg_def)
  have i: "findIndex (buffer c) (\<lambda>i. x \<le> i) = Some (min (x - lo) (hi - lo))" for x
    using findIndex_ge [OF f(2) ne] f(1) by simp
  let ?s = "min (FirstIndex r - lo) (hi - lo)" and ?e = "min (LastIndex r - lo) (hi - lo)"
  have "drop ?s (take ?e (buffer c)) = log_slice L (lo + ?s) (min hi (lo + ?e))"
    unfolding lo(4) by (rule log_slice_sub [OF L lo(1)])
  moreover have s: "?s = FirstIndex r - lo" and "?e = min (LastIndex r) hi - lo"
    using within lo(2) by simp_all
  then have "lo + ?s = max (FirstIndex r) lo" "min hi (lo + ?e) = min (LastIndex r) hi"
    using within lo(2) by simp_all
  ultimately have es: "drop ?s (take ?e (buffer c)) = ?es" by simp
  have "length (drop ?s (take ?e (buffer c))) = ?e - ?s" using f(1) by simp
  then have len: "length ?es = ?e - ?s" unfolding es .
  have "(?e - ?s \<noteq> 0) = (lo < LastIndex r \<and> FirstIndex r < LastIndex r)"
    unfolding s using within r lo(2) by (cases "LastIndex r \<le> hi") auto
  then have nz: "(length ?es \<noteq> 0) = (lo < LastIndex r \<and> FirstIndex r < LastIndex r)"
    unfolding len .
  have lg: "(largestIndex c + 1) = hi" using sm lo by simp
  have "?s \<le> ?e" using r by (intro min.mono diff_le_mono) simp_all
  then have "\<not> ?e < ?s" by (rule leD)
  moreover have "\<not> LastIndex r < smallestIndex c" "\<not> largestIndex c < FirstIndex r"
    using within sm lo by auto
  moreover have "length (buffer c) \<noteq> 0" using ne by simp
  ultimately show ?thesis
    unfolding get_def i by (simp only: if_False prod.case option.case Let_def es nz lg sm(1) conj_assoc)
qed

lemma get_before:
  "buffer c \<noteq> [] \<Longrightarrow> LastIndex r < smallestIndex c \<Longrightarrow> get c r = Some ([], r, emptyRange)"
  by (simp add: get_def)

lemma get_after:
  "buffer c \<noteq> [] \<Longrightarrow> \<not> LastIndex r < smallestIndex c \<Longrightarrow> largestIndex c < FirstIndex r \<Longrightarrow>
   get c r = Some ([], emptyRange, r)"
  by (simp add: get_def)

section \<open>What a query returns\<close>

text \<open>
  What the code relies on of the Raft library's log reader: the range ends with the log, and
  \<^verbatim>\<open>Entries(low, high, _)\<close> inside the range fails or returns the entries from \<^verbatim>\<open>low\<close> on, at least
  one and none from \<^verbatim>\<open>high\<close> on.
\<close>

definition querier_ok :: "logQuerier \<Rightarrow> (nat \<Rightarrow> raftEntry list) \<Rightarrow> bool" where
  "querier_ok q LL \<longleftrightarrow> (\<forall>sid r. q sid = Inr r \<longrightarrow>
     snd (lrRange r) = length (LL sid) \<and>
     (\<forall>low high maxSize es. fst (lrRange r) \<le> low \<longrightarrow> low \<le> snd (lrRange r) \<longrightarrow> low < high \<longrightarrow>
        lrEntries r low high maxSize = Inr es \<longrightarrow> es \<noteq> [] \<and> prefix es (log_slice (LL sid) low high)))"

definition logs_ok :: "(nat \<Rightarrow> raftEntry list) \<Rightarrow> bool" where
  "logs_ok LL \<longleftrightarrow> (\<forall>sid. is_log (LL sid))"

lemma querier_okD:
  assumes "querier_ok q LL" and "q sid = Inr r"
  shows "snd (lrRange r) = length (LL sid)"
    and "fst (lrRange r) \<le> low \<Longrightarrow> low \<le> snd (lrRange r) \<Longrightarrow> low < high \<Longrightarrow>
      lrEntries r low high maxSize = Inr es \<Longrightarrow> es \<noteq> [] \<and> prefix es (log_slice (LL sid) low high)"
  using assms unfolding querier_ok_def by blast+

lemma readLog_ok:
  assumes "querier_ok q LL" and "readLog q sid r maxSize = Inr es" and "FirstIndex r < LastIndex r"
  shows "prefix es (log_slice (LL sid) (FirstIndex r) (LastIndex r))
    \<and> (FirstIndex r \<le> length (LL sid) \<longrightarrow> es \<noteq> [])"
proof (cases "q sid")
  case (Inr rd)
  obtain a b where ab: "lrRange rd = (a, b)" by (cases "lrRange rd")
  have "b = length (LL sid)" using querier_okD(1) [OF assms(1) Inr] ab by simp
  moreover have "es \<noteq> [] \<and> prefix es (log_slice (LL sid) (FirstIndex r) (LastIndex r))"
    if "a \<le> FirstIndex r" "FirstIndex r \<le> b" "lrEntries rd (FirstIndex r) (LastIndex r) maxSize = Inr es"
    using querier_okD(2) [OF assms(1) Inr _ _ assms(3)] ab that by simp
  ultimately show ?thesis using assms(2) Inr ab by (auto simp: readLog_def split: if_splits)
qed (use assms(2) in \<open>simp add: readLog_def\<close>)

definition Cached_ok :: "(nat \<Rightarrow> raftEntry list) \<Rightarrow> Cached \<Rightarrow> bool" where
  "Cached_ok LL l \<longleftrightarrow> (\<forall>sid c. shardCache l sid = Some c \<longrightarrow> cache_ok (LL sid) c)"

definition query_ok :: "(nat \<Rightarrow> raftEntry list) \<Rightarrow> nat \<Rightarrow> LogRange
    \<Rightarrow> ((log_error + raftEntry list) \<times> 's) option \<Rightarrow> ('s \<Rightarrow> bool) \<Rightarrow> bool" where
  "query_ok LL sid r res P \<longleftrightarrow> (\<exists>x s. res = Some (x, s) \<and> P s \<and>
     (\<forall>es. x = Inr es \<longrightarrow> prefix es (log_slice (LL sid) (FirstIndex r) (LastIndex r))))"

lemma query_okI [intro]:
  "P s \<Longrightarrow> prefix es (log_slice (LL sid) (FirstIndex r) (LastIndex r)) \<Longrightarrow> query_ok LL sid r (Some (Inr es, s)) P"
  "P s \<Longrightarrow> query_ok LL sid r (Some (Inl e, s)) P"
  by (auto simp: query_ok_def)

lemma query_ok_put:
  assumes "Cached_ok LL l" and "\<exists>c'. put c le = Some c' \<and> cache_ok (LL sid) c'"
    and "prefix es (log_slice (LL sid) (FirstIndex r) (LastIndex r))"
  shows "query_ok LL sid r (map_option (Pair (Inr es)) (putShard l sid c le)) (Cached_ok LL)"
  using assms by (auto simp: query_ok_def putShard_def Cached_ok_def)

text \<open>The branches of the cached query, one lemma for the place of the range relative to the cache.\<close>

lemma Cached_overlap:
  assumes L: "logs_ok LL" and q: "querier_ok q LL" and l: "Cached_ok LL l"
    and sh: "shardCache l sid = Some sh" and c: "cache_seg (LL sid) sh lo hi" and ne: "buffer sh \<noteq> []"
    and r: "0 < FirstIndex r" "FirstIndex r < LastIndex r"
    and within: "lo \<le> LastIndex r" "FirstIndex r < hi"
  shows "query_ok LL sid r (Cached_QueryRaftLog sz q l sid r maxSize) (Cached_ok LL)"
proof -
  let ?L = "LL sid" and ?a = "FirstIndex r" and ?b = "LastIndex r"
  have il: "is_log ?L" using L by (simp add: logs_ok_def)
  have lo: "0 < lo" "lo < hi" "hi \<le> Suc (length ?L)" using c cache_seg_facts(5) [OF il c ne] by (auto simp: cache_seg_def)
  note g = get_seg [OF il c ne less_imp_le [OF r(2)] within]
  note ap = log_slice_append [OF il] and px = prefix_log_slice [OF il]
  show ?thesis
  proof (cases "lo < ?b \<and> ?a < lo")
    case True
    let ?ce = "log_slice ?L lo (min ?b hi)"
    have mx: "max ?a lo = lo" using True by simp
    have ce: "seg ?ce lo" "length ?ce > 0"
      using log_slice_seg [OF il lo(1)] length_log_slice [OF il lo(1), of "min ?b hi"] True lo by auto
    show ?thesis
    proof (cases "readLog q sid \<lparr>FirstIndex = ?a, LastIndex = lo\<rparr> maxSize")
      case (Inl e)
      then show ?thesis using g mx True r lo sh l
        by (auto simp: Cached_QueryRaftLog_def Load_def)
    next
      case (Inr le)
      then have le: "prefix le (log_slice ?L ?a lo)" "le \<noteq> []"
        using readLog_ok [OF q Inr] True lo by auto
      have les: "le = log_slice ?L ?a (?a + length le)" using prefix_slice [OF il r(1) le(1)] .
      have "lgIndex (le ! (length le - 1)) = ?a + (length le - 1)"
        using seg_nth [OF log_slice_seg [OF il r(1)], of "length le - 1" "?a + length le"] le(2) les
        by (metis diff_less length_greater_0_conv zero_less_one)
      moreover have "lgIndex (?ce ! 0) = lo" using seg_nth [OF ce(1,2)] by simp
      moreover have "prefix le (log_slice ?L ?a ?b)" using le(1) px [of lo ?b ?a] True prefix_order.trans by fastforce
      moreover have "prefix (fixSize sz (le @ ?ce) maxSize) (log_slice ?L ?a ?b)" if "?a + (length le - 1) = lo - 1"
      proof -
        have "?a + length le = lo" using that lo r le(2) by (cases le) auto
        then have "le @ ?ce = log_slice ?L ?a (min ?b hi)" using les ap [of ?a lo "min ?b hi"] True lo by simp
        then show ?thesis using prefix_fixSize [of sz "le @ ?ce" maxSize] px [of "min ?b hi" ?b ?a]
          prefix_order.trans by fastforce
      qed
      ultimately show ?thesis using g mx True r lo sh l Inr le(2) ce ne
        by (auto simp: Cached_QueryRaftLog_def Load_def)
    qed
  next
    case False
    then consider "?b = lo" "?a < lo" | "lo \<le> ?a" "lo < ?b" "?b \<le> hi" | "lo \<le> ?a" "lo < ?b" "hi < ?b"
      using within r by linarith
    then show ?thesis
    proof cases
      case 1
      then show ?thesis using g l lo r sh
        by (auto simp: Cached_QueryRaftLog_def Load_def emptyRange_def log_slice_def filter_False fixSize_def)
    next
      case 2
      then have "get sh r = Some (log_slice ?L ?a ?b, emptyRange, emptyRange)"
        using g by (simp add: max_absorb1 min_absorb1)
      then show ?thesis using l r sh prefix_fixSize
        by (auto simp: Cached_QueryRaftLog_def Load_def emptyRange_def)
    next
      case 3
      let ?ce = "log_slice ?L ?a hi" and ?r = "\<lparr>FirstIndex = hi, LastIndex = ?b\<rparr>"
      have gt: "get sh r = Some (?ce, emptyRange, ?r)"
        using g 3 r by (simp add: max_absorb1 min_absorb2)
      have ce: "?ce \<noteq> []" using length_log_slice [OF il r(1), of hi] within(2) lo(3) by auto
      have pce: "prefix (fixSize sz ?ce maxSize) (log_slice ?L ?a ?b)"
        using prefix_fixSize [of sz ?ce maxSize] px [of hi ?b ?a] 3 prefix_order.trans by fastforce
      show ?thesis
      proof (cases "readLog q sid ?r maxSize")
        case (Inl e)
        then show ?thesis using gt 3 r lo sh l
          by (auto simp: Cached_QueryRaftLog_def Load_def emptyRange_def)
      next
        case (Inr le)
        then have le: "prefix le (log_slice ?L hi ?b)" using readLog_ok [OF q Inr] 3 by simp
        have hi: "0 < hi" using lo by simp
        have les: "le = log_slice ?L hi (hi + length le)" using prefix_slice [OF il hi le] .
        have "prefix (?ce @ le) (log_slice ?L ?a ?b)"
          using le ap [of ?a hi ?b] within 3 by (metis less_imp_le same_prefix_prefix)
        then have p: "prefix (fixSize sz (?ce @ le) maxSize) (log_slice ?L ?a ?b)"
          using prefix_fixSize prefix_order.trans by blast
        have put: "\<exists>c'. put sh le = Some c' \<and> cache_ok ?L c'" if "le \<noteq> []"
          using put_seg [OF il c, of "hi + length le"] slice_bound [OF il hi les that] les that by simp
        show ?thesis
        proof (cases "le = []")
          case True
          then show ?thesis using gt 3 r lo sh l Inr pce
            by (auto simp: Cached_QueryRaftLog_def Load_def emptyRange_def)
        next
          case False
          then show ?thesis using gt 3 r lo sh Inr ce query_ok_put [OF l put [OF False] p]
            by (auto simp: Cached_QueryRaftLog_def Load_def emptyRange_def)
        qed
      qed
    qed
  qed
qed

lemma Cached_disjoint:
  assumes L: "logs_ok LL" and q: "querier_ok q LL" and l: "Cached_ok LL l"
    and sh: "shardCache l sid = Some sh" and c: "cache_seg (LL sid) sh lo hi"
    and r: "0 < FirstIndex r" "FirstIndex r < LastIndex r"
    and out: "buffer sh = [] \<or> LastIndex r < lo \<or> hi \<le> FirstIndex r"
  shows "query_ok LL sid r (Cached_QueryRaftLog sz q l sid r maxSize) (Cached_ok LL)"
proof (cases "readLog q sid r maxSize")
  case (Inl e)
  have il: "is_log (LL sid)" using L by (simp add: logs_ok_def)
  have "get sh r = Some ([], r, emptyRange) \<or> get sh r = Some ([], emptyRange, r)"
  proof (cases "buffer sh = [] \<or> LastIndex r < lo")
    case True
    then show ?thesis using cache_seg_facts(3) [OF il c] by (auto simp: get_def)
  next
    case False
    with out have "buffer sh \<noteq> []" "hi \<le> FirstIndex r" by auto
    then show ?thesis using False cache_seg_facts(3-5) [OF il c] get_after [of sh r] by auto
  qed
  then show ?thesis using Inl r sh l by (auto simp: Cached_QueryRaftLog_def Load_def emptyRange_def)
next
  case (Inr le)
  let ?L = "LL sid" and ?a = "FirstIndex r" and ?b = "LastIndex r"
  have il: "is_log ?L" using L by (simp add: logs_ok_def)
  have le: "prefix le (log_slice ?L ?a ?b)" using readLog_ok [OF q Inr r(2)] by simp
  have les: "le = log_slice ?L ?a (?a + length le)" using prefix_slice [OF il r(1) le] .
  have put: "\<exists>c'. put sh le = Some c' \<and> cache_ok ?L c'" if "le \<noteq> []" "cache_seg ?L sh lo' ?a" for lo'
    using put_seg [OF il that(2), of "?a + length le"] slice_bound [OF il r(1) les that(1)] les that by simp
  note f = cache_seg_facts [OF il c]
  consider "buffer sh = []" | "buffer sh \<noteq> []" "?b < lo" | "buffer sh \<noteq> []" "hi \<le> ?a" "\<not> ?b < lo" using out by linarith
  then show ?thesis
  proof cases
    case 1
    have "\<exists>c'. put sh le = Some c' \<and> cache_ok ?L c'" if "le \<noteq> []"
      using put [OF that cache_seg_empty [OF 1 r(1)]] slice_bound [OF il r(1) les that] by simp
    then show ?thesis using 1 Inr r sh l le query_ok_put [OF l _ le, of sh le]
      by (auto simp: Cached_QueryRaftLog_def Load_def get_def fixSize_def)
  next
    case 2
    then show ?thesis using f(3) Inr r sh l le
      by (auto simp: Cached_QueryRaftLog_def Load_def get_def fixSize_def)
  next
    case 3
    have first: "lgIndex (le ! 0) = ?a" if "le \<noteq> []"
      using seg_nth [OF log_slice_seg [OF il r(1)], of 0 "?a + length le"] les that by (metis add_0_right length_greater_0_conv)
    have "get sh r = Some ([], emptyRange, r)" using 3 f(3-5) by (intro get_after) auto
    moreover have "\<exists>c'. put sh le = Some c' \<and> cache_ok ?L c'" if "le \<noteq> []" "?a - 1 = largestIndex sh"
    proof -
      have "hi = ?a" using that(2) 3 f(4,5) r(1) by auto
      then show ?thesis using put [OF that(1)] c by simp
    qed
    ultimately show ?thesis using 3 Inr r sh l le first query_ok_put [OF l _ le, of sh le]
      by (auto simp: Cached_QueryRaftLog_def Load_def emptyRange_def fixSize_def)
  qed
qed

lemma Cached_query_ok:
  assumes "logs_ok LL" and "querier_ok q LL" and "Cached_ok LL l"
    and "0 < FirstIndex r" and "FirstIndex r \<le> LastIndex r"
  shows "query_ok LL sid r (Cached_QueryRaftLog sz q l sid r maxSize) (Cached_ok LL)"
proof (cases "FirstIndex r = LastIndex r \<or> shardCache l sid = None")
  case True
  then show ?thesis using assms(3) by (auto simp: Cached_QueryRaftLog_def Load_def)
next
  case False
  then obtain sh where sh: "shardCache l sid = Some sh" by auto
  then obtain lo hi where c: "cache_seg (LL sid) sh lo hi" using assms(3) unfolding Cached_ok_def cache_ok_def by blast
  have lt: "FirstIndex r < LastIndex r" using False assms(5) by simp
  show ?thesis
  proof (cases "buffer sh = [] \<or> LastIndex r < lo \<or> hi \<le> FirstIndex r")
    case True
    then show ?thesis by (rule Cached_disjoint [OF assms(1-3) sh c assms(4) lt])
  next
    case False
    then have "buffer sh \<noteq> []" "lo \<le> LastIndex r" "FirstIndex r < hi" by auto
    then show ?thesis by (rule Cached_overlap [OF assms(1-3) sh c _ assms(4) lt])
  qed
qed

end
