(* ===== verification/Logreader_Contract.thy ===== *)
theory Logreader_Contract
  imports Logreader
begin

text \<open>
  The contract of \<^verbatim>\<open>logreader.Interface\<close> as a locale, interpreted on both readers, and everything that
  can happen to the cached reader as a reachability predicate.
\<close>

lemma Simple_query_ok:
  assumes "querier_ok q LL" and "FirstIndex r \<le> LastIndex r"
  shows "query_ok LL sid r (Some (Simple_QueryRaftLog q sid r maxSize, s)) (\<lambda>_. True)"
proof (cases "FirstIndex r = LastIndex r")
  case False
  then have "FirstIndex r < LastIndex r" using assms(2) by simp
  then show ?thesis
    using readLog_ok [OF assms(1)] False by (auto simp: query_ok_def Simple_QueryRaftLog_def)
qed (auto simp: Simple_QueryRaftLog_def)

text \<open>
  The contract of \<^verbatim>\<open>logreader.Interface\<close>: a query of a non-empty range from a positive index returns,
  an answer is a contiguous piece of the shard's log from the first index of the range on, and
  the reader stays usable.
\<close>

locale log_reader =
  fixes query :: "'s \<Rightarrow> nat \<Rightarrow> LogRange \<Rightarrow> nat \<Rightarrow> ((log_error + raftEntry list) \<times> 's) option"
    and reader_ok :: "(nat \<Rightarrow> raftEntry list) \<Rightarrow> 's \<Rightarrow> bool"
  assumes ok_logs: "reader_ok LL s \<Longrightarrow> logs_ok LL"
    and answers: "reader_ok LL s \<Longrightarrow> 0 < FirstIndex r \<Longrightarrow> FirstIndex r \<le> LastIndex r \<Longrightarrow>
      query_ok LL sid r (query s sid r maxSize) (reader_ok LL)"
begin

lemma answerE:
  assumes "reader_ok LL s" and "0 < FirstIndex r" and "FirstIndex r \<le> LastIndex r"
  obtains e s' where "query s sid r maxSize = Some (Inl e, s')" and "reader_ok LL s'"
  | es s' where "query s sid r maxSize = Some (Inr es, s')" and "reader_ok LL s'"
      and "prefix es (log_slice (LL sid) (FirstIndex r) (LastIndex r))"
      and "es = log_slice (LL sid) (FirstIndex r) (FirstIndex r + length es)"
      and "FirstIndex r + length es \<le> LastIndex r"
proof -
  have il: "is_log (LL sid)" using ok_logs [OF assms(1)] by (simp add: logs_ok_def)
  obtain x s' where x: "query s sid r maxSize = Some (x, s')" "reader_ok LL s'"
    and p: "\<And>es. x = Inr es \<Longrightarrow> prefix es (log_slice (LL sid) (FirstIndex r) (LastIndex r))"
    using answers [OF assms, of sid maxSize] unfolding query_ok_def by blast
  show ?thesis
  proof (cases x)
    case (Inl e)
    then show ?thesis using that(1) x by simp
  next
    case (Inr es)
    have len: "length (log_slice (LL sid) (FirstIndex r) (LastIndex r)) \<le> LastIndex r - FirstIndex r"
      using seg_slice [of "LL sid" 1] il assms(2) by (simp add: is_log_def)
    have "FirstIndex r + length es \<le> LastIndex r"
      using prefix_length_le [OF p [OF Inr]] len assms(3) by linarith
    then show ?thesis using that(2) x p [OF Inr] prefix_slice [OF il assms(2) p [OF Inr]] Inr by simp
  qed
qed

end

interpretation cached: log_reader "Cached_QueryRaftLog sz q"
    "\<lambda>LL l. logs_ok LL \<and> querier_ok q LL \<and> Cached_ok LL l" for sz q
proof
  fix LL l sid maxSize and r :: LogRange
  assume "logs_ok LL \<and> querier_ok q LL \<and> Cached_ok LL l" and "0 < FirstIndex r" and "FirstIndex r \<le> LastIndex r"
  then show "query_ok LL sid r (Cached_QueryRaftLog sz q l sid r maxSize)
      (\<lambda>l. logs_ok LL \<and> querier_ok q LL \<and> Cached_ok LL l)"
    using Cached_query_ok [of LL q l r sid sz maxSize] by (auto simp: query_ok_def)
qed simp

interpretation simple: log_reader "\<lambda>(u :: unit) sid r maxSize. Some (Simple_QueryRaftLog q sid r maxSize, u)"
    "\<lambda>LL u. logs_ok LL \<and> querier_ok q LL" for q
proof
  fix LL sid maxSize and u :: unit and r :: LogRange
  assume "logs_ok LL \<and> querier_ok q LL" and "FirstIndex r \<le> LastIndex r"
  then show "query_ok LL sid r (Some (Simple_QueryRaftLog q sid r maxSize, u)) (\<lambda>u. logs_ok LL \<and> querier_ok q LL)"
    using Simple_query_ok [of q LL r sid maxSize u] by (auto simp: query_ok_def)
qed simp

section \<open>Everything that can happen to the cached reader\<close>

text \<open>
  The states of a cached reader together with the logs: it starts empty, logs grow, the events of
  the Raft library reset or drop caches, and queries run.
\<close>

inductive reader_reach :: "(raftEntry \<Rightarrow> nat) \<Rightarrow> (nat \<Rightarrow> raftEntry list) \<Rightarrow> Cached \<Rightarrow> bool" for sz where
  start: "logs_ok LL \<Longrightarrow> reader_reach sz LL \<lparr>ShardCacheSize = n, shardCache = Map.empty\<rparr>"
| grow: "reader_reach sz LL l \<Longrightarrow> logs_ok LL' \<Longrightarrow> (\<And>sid. prefix (LL sid) (LL' sid)) \<Longrightarrow> reader_reach sz LL' l"
| ready: "reader_reach sz LL l \<Longrightarrow> reader_reach sz LL (NodeReady l sid)"
| deleted: "reader_reach sz LL l \<Longrightarrow> reader_reach sz LL (NodeDeleted l sid)"
| compacted: "reader_reach sz LL l \<Longrightarrow> reader_reach sz LL (LogCompacted l sid)"
| query: "reader_reach sz LL l \<Longrightarrow> querier_ok q LL \<Longrightarrow> 0 < FirstIndex r \<Longrightarrow> FirstIndex r \<le> LastIndex r \<Longrightarrow>
    Cached_QueryRaftLog sz q l sid r maxSize = Some (x, l') \<Longrightarrow> reader_reach sz LL l'"

lemma cache_ok_grow:
  assumes "is_log L'" and "prefix L L'" and "cache_ok L c"
  shows "cache_ok L' c"
proof -
  obtain M where M: "L' = L @ M" using assms(2) by (auto simp: prefix_def)
  then have "seg M (Suc (length L))" using assms(1) by (simp add: is_log_def seg_append)
  then have "log_slice L' lo hi = log_slice L lo hi" if "hi \<le> Suc (length L)" for lo hi
    using seg_above [of M "Suc (length L)" hi lo] that M by (simp add: log_slice_def)
  moreover obtain lo hi where "cache_seg L c lo hi" using assms(3) unfolding cache_ok_def by blast
  ultimately have "cache_seg L' c lo hi" using M by (auto simp: cache_seg_def)
  then show ?thesis by (rule cache_segI)
qed

lemma reader_reach_ok: "reader_reach sz LL l \<Longrightarrow> logs_ok LL \<and> Cached_ok LL l"
proof (induction rule: reader_reach.induct)
  case (grow LL l LL')
  then show ?case using cache_ok_grow unfolding Cached_ok_def logs_ok_def by blast
next
  case (ready LL l sid)
  then show ?case
    by (auto simp: Cached_ok_def NodeReady_def ComputeIfAbsent_def Let_def newCache_ok split: option.splits if_splits)
next
  case (query LL l q r sid maxSize x l')
  then have "query_ok LL sid r (Some (x, l')) (Cached_ok LL)"
    using Cached_query_ok [of LL q l r sid sz maxSize] by metis
  then show ?case using query.IH by (simp add: query_ok_def)
qed (auto simp: Cached_ok_def NodeDeleted_def Delete_def LogCompacted_def Store_def newCache_ok split: if_splits)

end
