(* ===== verification/Replication.thy ===== *)
theory Replication
  imports Logreader_Contract FSM_StateMachine
begin

text \<open>
  Log replication between clusters: the leader's log service
  (\<^verbatim>\<open>regattaserver/replication.go\<close>, \<^verbatim>\<open>LogServer.Replicate\<close>) and the follower's worker
  (\<^verbatim>\<open>replication/worker.go\<close>). The Raft group of the follower's table, the table service and the gRPC
  stream are parameters; the log reader is any function of the type of \<^verbatim>\<open>QueryRaftLog\<close>.
\<close>

section \<open>Messages\<close>

datatype ReplicateError = USE_SNAPSHOT | LEADER_BEHIND | UnknownReplicateError nat

text \<open>A nil \<^verbatim>\<open>Command\<close> is the empty command: both have the same encoding.\<close>

record ReplicateCommand =
  rcLeaderIndex :: u64
  rcCommand :: Command

datatype replicate_payload =
    CommandsResponse "ReplicateCommand list"
  | ErrorResponse ReplicateError

record ReplicateResponse =
  rsLeaderIndex :: u64
  rsResponse :: "replicate_payload option"

record ReplicateRequest =
  rqLeaderIndex :: u64
  rqTable :: bytes

section \<open>The leader\<close>

datatype rep_error =
    RepInvalidArgument
  | RepUnavailable string
  | RepTable string
  | RepSend
  | RepProto proto_error
  | RepPanic string

definition entryToCommand :: "raftEntry \<Rightarrow> rep_error + Command" where
  "entryToCommand e =
     rbind (if lgType e \<noteq> EncodedEntry then Inr (set_cmdType Command_DUMMY emptyCommand)
            else if lgCmd e = [] then Inl (RepPanic ''slice bounds out of range'')
            else (case Command_UnmarshalVT (drop 1 (lgCmd e)) emptyCommand of
                    Inl x \<Rightarrow> Inl (RepProto x) | Inr cmd \<Rightarrow> Inr cmd))
       (\<lambda>cmd. Inr (set_cmdLeaderIndex (Some (of_nat (lgIndex e))) cmd))"

text \<open>The loop that transforms the entries of one message.\<close>

fun entriesToCommands :: "raftEntry list \<Rightarrow> rep_error + ReplicateCommand list" where
  "entriesToCommands [] = Inr []"
| "entriesToCommands (e # es) =
     rbind (entryToCommand e) (\<lambda>cmd.
     rbind (entriesToCommands es) (\<lambda>cs.
       Inr (\<lparr>rcLeaderIndex = of_nat (lgIndex e), rcCommand = cmd\<rparr> # cs)))"

definition errorResponseFactory :: "ReplicateError \<Rightarrow> ReplicateResponse" where
  "errorResponseFactory err = \<lparr>rsLeaderIndex = 0, rsResponse = Some (ErrorResponse err)\<rparr>"

text \<open>
  \<open>sendOk sent m\<close> tells whether \<^verbatim>\<open>server.Send(m)\<close> succeeds after the messages \<open>sent\<close>; the calls
  return what was sent.
\<close>

type_synonym sender = "ReplicateResponse list \<Rightarrow> ReplicateResponse \<Rightarrow> bool"

definition Send :: "sender \<Rightarrow> ReplicateResponse list \<Rightarrow> ReplicateResponse \<Rightarrow> (rep_error + unit) \<times> ReplicateResponse list" where
  "Send sendOk sent m = (if sendOk sent m then (Inr (), sent @ [m]) else (Inl RepSend, sent))"

text \<open>
  The loop of \<^verbatim>\<open>Replicate\<close>, \<open>None\<close> when it never returns: \<open>expired i\<close> tells whether the deadline
  has passed in iteration \<open>i\<close>, \<open>idx\<close> is what \<^verbatim>\<open>t.LocalIndex(ctx, false)\<close> returns.
\<close>

partial_function (option) Replicate_loop :: "('s \<Rightarrow> nat \<Rightarrow> LogRange \<Rightarrow> nat \<Rightarrow> ((log_error + raftEntry list) \<times> 's) option)
  \<Rightarrow> sender \<Rightarrow> (nat \<Rightarrow> bool) \<Rightarrow> (string + nat) \<Rightarrow> nat \<Rightarrow> nat \<Rightarrow> nat \<Rightarrow> nat \<Rightarrow> LogRange \<Rightarrow> ReplicateResponse list \<Rightarrow> 's
  \<Rightarrow> ((rep_error + unit) \<times> ReplicateResponse list \<times> 's) option"
where
  "Replicate_loop query sendOk expired idx maxMessageSize clusterID applied i logRange sent s =
     (if expired i then Some (Inr (), sent, s)
      else case query s clusterID logRange maxMessageSize of
        None \<Rightarrow> Some (Inl (RepPanic ''QueryRaftLog''), sent, s)
      | Some (Inl err, s) \<Rightarrow>
          (if err = ErrLogBehind then (case Send sendOk sent (errorResponseFactory LEADER_BEHIND) of (r, sent) \<Rightarrow> Some (r, sent, s))
           else if err = ErrLogAhead then (case Send sendOk sent (errorResponseFactory USE_SNAPSHOT) of (r, sent) \<Rightarrow> Some (r, sent, s))
           else Some (Inr (), sent, s))
      | Some (Inr entries, s) \<Rightarrow>
          if length entries = 0 then
            (case idx of
               Inl e \<Rightarrow> Some (Inl (RepTable e), sent, s)
             | Inr appliedIndex \<Rightarrow>
                 (case Send sendOk sent \<lparr>rsLeaderIndex = of_nat appliedIndex, rsResponse = None\<rparr> of
                    (r, sent) \<Rightarrow> Some (r, sent, s)))
          else
            (case entriesToCommands entries of
               Inl e \<Rightarrow> Some (Inl e, sent, s)
             | Inr commands \<Rightarrow>
                 (case Send sendOk sent \<lparr>rsLeaderIndex = of_nat applied, rsResponse = Some (CommandsResponse commands)\<rparr> of
                    (Inl e, sent) \<Rightarrow> Some (Inl e, sent, s)
                  | (Inr _, sent) \<Rightarrow>
                      Replicate_loop query sendOk expired idx maxMessageSize clusterID applied (i + 1)
                        \<lparr>FirstIndex = min (lgIndex (entries ! (length entries - 1)) + 1) (LastIndex logRange),
                         LastIndex = LastIndex logRange\<rparr> sent s)))"

declare Replicate_loop.simps [code]

text \<open>\<open>localIndex lin\<close> is \<^verbatim>\<open>t.LocalIndex(ctx, lin)\<close>; \<open>getTable\<close> gives the cluster of a table.\<close>

definition Replicate :: "('s \<Rightarrow> nat \<Rightarrow> LogRange \<Rightarrow> nat \<Rightarrow> ((log_error + raftEntry list) \<times> 's) option)
  \<Rightarrow> (bytes \<Rightarrow> string + nat) \<Rightarrow> (bool \<Rightarrow> string + nat) \<Rightarrow> sender \<Rightarrow> (nat \<Rightarrow> bool) \<Rightarrow> nat \<Rightarrow> ReplicateRequest \<Rightarrow> 's
  \<Rightarrow> ((rep_error + unit) \<times> ReplicateResponse list \<times> 's) option"
where
  "Replicate query getTable localIndex sendOk expired maxMessageSize req s =
     (if rqLeaderIndex req = 0 then Some (Inl RepInvalidArgument, [], s)
      else case getTable (rqTable req) of
        Inl e \<Rightarrow> Some (Inl (RepUnavailable e), [], s)
      | Inr clusterID \<Rightarrow>
          (case localIndex True of
             Inl e \<Rightarrow> Some (Inl (RepTable e), [], s)
           | Inr appliedIndex \<Rightarrow>
               if appliedIndex + 1 < unat (rqLeaderIndex req) then
                 (case Send sendOk [] (errorResponseFactory LEADER_BEHIND) of (r, sent) \<Rightarrow> Some (r, sent, s))
               else
                 Replicate_loop query sendOk expired (localIndex False) maxMessageSize clusterID appliedIndex 0
                   \<lparr>FirstIndex = unat (rqLeaderIndex req), LastIndex = appliedIndex + 1\<rparr> [] s))"

section \<open>The follower\<close>

datatype replicateResult =
    resultUnknown
  | resultLeaderBehind
  | resultLeaderAhead
  | resultFollowerLagging
  | resultFollowerTailing

definition desiredProposalSize :: nat where
  "desiredProposalSize = 256 * 1024"

text \<open>
  \<open>propose n b\<close> is \<^verbatim>\<open>nh.SyncPropose\<close> of the bytes: its error and the Raft group after it. The
  sequence command is taken from a pool, reset and only ever given a type, commands and an index.
\<close>

definition seqCommand :: "Command list \<Rightarrow> u64 option \<Rightarrow> Command" where
  "seqCommand cs leaderIndex = set_cmdLeaderIndex leaderIndex (set_cmdSequence cs (set_cmdType Command_SEQUENCE emptyCommand))"

fun proposeBatch_loop :: "('n \<Rightarrow> bytes \<Rightarrow> string option \<times> 'n) \<Rightarrow> 'n \<Rightarrow> Command list \<Rightarrow> u64 \<Rightarrow> ReplicateCommand list
  \<Rightarrow> u64 \<times> string option \<times> 'n"
where
  "proposeBatch_loop propose n sequence lastApplied [] = (lastApplied, None, n)"
| "proposeBatch_loop propose n sequence lastApplied (c # commands) =
     (let sequence = sequence @ [rcCommand c];
          seq = seqCommand sequence (Some (rcLeaderIndex c)) in
      if Command_SizeVT seq \<ge> desiredProposalSize \<or> commands = [] then
        (case propose n (Command_MarshalVT seq) of
           (Some e, n) \<Rightarrow> (lastApplied, Some e, n)
         | (None, n) \<Rightarrow> proposeBatch_loop propose n [] (rcLeaderIndex c) commands)
      else proposeBatch_loop propose n sequence lastApplied commands)"

definition proposeBatch :: "('n \<Rightarrow> bytes \<Rightarrow> string option \<times> 'n) \<Rightarrow> 'n \<Rightarrow> ReplicateCommand list \<Rightarrow> u64 \<times> string option \<times> 'n" where
  "proposeBatch propose n commands = proposeBatch_loop propose n [] 0 commands"

text \<open>The loop over the stream: received messages or an error, and the end of the list for \<^verbatim>\<open>io.EOF\<close>.\<close>

fun do_loop :: "('n \<Rightarrow> bytes \<Rightarrow> string option \<times> 'n) \<Rightarrow> 'n \<Rightarrow> u64 \<Rightarrow> (string + ReplicateResponse) list
  \<Rightarrow> (string + replicateResult) \<times> 'n"
where
  "do_loop propose n applied [] = (Inr resultUnknown, n)"
| "do_loop propose n applied (Inl e # stream) = (Inl e, n)"
| "do_loop propose n applied (Inr replicateRes # stream) =
     (case rsResponse replicateRes of
        Some (CommandsResponse commands) \<Rightarrow>
          (case proposeBatch propose n commands of
             (applied, Some e, n) \<Rightarrow> (Inl e, n)
           | (applied, None, n) \<Rightarrow> do_loop propose n applied stream)
      | Some (ErrorResponse LEADER_BEHIND) \<Rightarrow> (Inr resultLeaderBehind, n)
      | Some (ErrorResponse USE_SNAPSHOT) \<Rightarrow> (Inr resultLeaderAhead, n)
      | Some (ErrorResponse _) \<Rightarrow> (Inl ''unknown replicate error response'', n)
      | None \<Rightarrow>
          (if applied \<noteq> 0 \<and> applied < rsLeaderIndex replicateRes then (Inr resultFollowerLagging, n)
           else (Inr resultFollowerTailing, n)))"

text \<open>\<open>open_stream\<close> is \<^verbatim>\<open>logClient.Replicate\<close>: an error or what the stream delivers.\<close>

definition worker_do :: "(ReplicateRequest \<Rightarrow> string + (string + ReplicateResponse) list)
  \<Rightarrow> ('n \<Rightarrow> bytes \<Rightarrow> string option \<times> 'n) \<Rightarrow> bytes \<Rightarrow> u64 \<Rightarrow> 'n \<Rightarrow> (string + replicateResult) \<times> 'n"
where
  "worker_do open_stream propose table leaderIndex n =
     (case open_stream \<lparr>rqLeaderIndex = leaderIndex + 1, rqTable = table\<rparr> of
        Inl e \<Rightarrow> (Inl e, n)
      | Inr stream \<Rightarrow> do_loop propose n 0 stream)"

end
