(* ===== verification/Replication_Refinement.thy ===== *)
theory Replication_Refinement
  imports Replication
begin

text \<open>
  The log service sends contiguous pieces of the leader's log from the requested index on, over any
  log reader that keeps its contract; a follower that applies such a stream moves from the leader's
  state at one index to the leader's state at a later one, whatever fails on the way.
\<close>

section \<open>Commands of a log\<close>

lemma rbind_Inr_id [simp]: "rbind r Inr = r"
  by (cases r) simp_all

lemma entriesToCommands_append:
  "entriesToCommands (es @ fs) =
     rbind (entriesToCommands es) (\<lambda>cs. rbind (entriesToCommands fs) (\<lambda>ds. Inr (cs @ ds)))"
  by (induction es) (simp_all add: rbind_assoc)

lemma entriesToCommands_length: "entriesToCommands es = Inr cs \<Longrightarrow> length cs = length es"
  by (induction es arbitrary: cs) (auto simp: result_simps)

lemma entriesToCommands_append_Inr:
  "entriesToCommands es = Inr cs \<Longrightarrow> entriesToCommands fs = Inr ds \<Longrightarrow> entriesToCommands (es @ fs) = Inr (cs @ ds)"
  by (simp add: entriesToCommands_append)

text \<open>Entries \<open>a + 1\<close> to \<open>b\<close> of a log.\<close>

abbreviation piece :: "raftEntry list \<Rightarrow> nat \<Rightarrow> nat \<Rightarrow> raftEntry list" where
  "piece L a b \<equiv> drop a (take b L)"

lemma log_slice_piece: "is_log L \<Longrightarrow> 0 < a \<Longrightarrow> log_slice L a b = piece L (a - 1) (b - 1)"
  using seg_slice [of L 1 a b] by (simp add: is_log_def)

lemma piece_append: "a \<le> b \<Longrightarrow> b \<le> c \<Longrightarrow> piece L a b @ piece L b c = piece L a c"
proof -
  assume "a \<le> b" "b \<le> c"
  then have "piece L a b = take (b - a) (piece L a c)" "piece L b c = drop (b - a) (piece L a c)"
    by (simp_all add: drop_take min_absorb1)
  then show ?thesis by (simp only: append_take_drop_id)
qed

section \<open>The contract of the stream\<close>

text \<open>
  A stream continues the log from index \<open>k\<close>: every message with commands before the first other
  message carries the commands of the next entries.
\<close>

fun stream_ok :: "raftEntry list \<Rightarrow> nat \<Rightarrow> (string + ReplicateResponse) list \<Rightarrow> bool" where
  "stream_ok L k [] \<longleftrightarrow> True"
| "stream_ok L k (Inl e # ms) \<longleftrightarrow> True"
| "stream_ok L k (Inr m # ms) \<longleftrightarrow>
     (case rsResponse m of
        Some (CommandsResponse cs) \<Rightarrow>
          k + length cs \<le> length L \<and> entriesToCommands (piece L k (k + length cs)) = Inr cs
          \<and> stream_ok L (k + length cs) ms
      | _ \<Rightarrow> True)"

text \<open>What of the messages sent reaches the other side: some of them in order, then perhaps an error.\<close>

definition delivers :: "ReplicateResponse list \<Rightarrow> (string + ReplicateResponse) list \<Rightarrow> bool" where
  "delivers sent stream \<longleftrightarrow> (\<exists>m. stream = map Inr (take m sent) \<or> (\<exists>e. stream = map Inr (take m sent) @ [Inl e]))"

lemma stream_ok_take: "stream_ok L k (map Inr ms) \<Longrightarrow> stream_ok L k (map Inr (take i ms))"
proof (induction ms arbitrary: k i)
  case (Cons m ms)
  then show ?case by (cases i) (auto split: option.splits replicate_payload.splits)
qed simp

lemma stream_ok_error: "stream_ok L k (map Inr ms) \<Longrightarrow> stream_ok L k (map Inr ms @ [Inl e])"
  by (induction ms arbitrary: k) (auto split: option.splits replicate_payload.splits)

lemma delivers_ok: "delivers sent stream \<Longrightarrow> stream_ok L k (map Inr sent) \<Longrightarrow> stream_ok L k stream"
  by (auto simp: delivers_def intro: stream_ok_take stream_ok_error)

section \<open>The service keeps the contract of the stream\<close>

definition loop_result :: "('s \<Rightarrow> bool) \<Rightarrow> raftEntry list \<Rightarrow> nat \<Rightarrow> ReplicateResponse list
    \<Rightarrow> ((rep_error + unit) \<times> ReplicateResponse list \<times> 's) option \<Rightarrow> bool" where
  "loop_result P L k sent res \<longleftrightarrow>
     (\<exists>x new s'. res = Some (x, sent @ new, s') \<and> P s' \<and> stream_ok L k (map Inr new))"

lemma loop_result_stop: "P s \<Longrightarrow> loop_result P L k sent (Some (x, sent, s))"
  by (auto simp: loop_result_def)

lemma loop_result_send:
  "P s \<Longrightarrow> (\<And>cs. rsResponse m \<noteq> Some (CommandsResponse cs)) \<Longrightarrow>
   loop_result P L k sent (case Send ok sent m of (r, sent) \<Rightarrow> Some (r, sent, s))"
  by (auto simp: loop_result_def Send_def split: option.splits replicate_payload.splits)

lemma loop_result_step:
  assumes "loop_result P L (k + length cs) (sent @ [m]) res" and "rsResponse m = Some (CommandsResponse cs)"
    and "k + length cs \<le> length L" and "entriesToCommands (piece L k (k + length cs)) = Inr cs"
  shows "loop_result P L k sent res"
proof -
  from assms(1) obtain x new s' where "res = Some (x, (sent @ [m]) @ new, s')" "P s'"
    and "stream_ok L (k + length cs) (map Inr new)"
    by (auto simp: loop_result_def)
  with assms(2-4) have "res = Some (x, sent @ (m # new), s') \<and> P s' \<and> stream_ok L k (map Inr (m # new))"
    by simp
  then show ?thesis unfolding loop_result_def by blast
qed

context log_reader
begin

lemma Replicate_loop_ok:
  assumes "reader_ok LL s" and "0 < FirstIndex r" and "FirstIndex r \<le> LastIndex r"
  shows "loop_result (reader_ok LL) (LL sid) (FirstIndex r - 1) sent
    (Replicate_loop query sendOk expired idx maxSize sid applied i r sent s)"
  using assms
proof (induction "LastIndex r - FirstIndex r" arbitrary: r sent s i rule: less_induct)
  case less
  note stop = loop_result_stop [where P = "reader_ok LL"] and send = loop_result_send [where P = "reader_ok LL"]
  show ?case
  proof (cases "expired i")
    case True
    then show ?thesis using less.prems(1) stop by (subst Replicate_loop.simps) simp
  next
    case run: False
    have il: "is_log (LL sid)" using ok_logs [OF less.prems(1)] by (simp add: logs_ok_def)
    from less.prems show ?thesis
    proof (cases rule: answerE [where sid = sid and maxSize = maxSize])
      case (1 e s')
      then show ?thesis using run stop send
        by (subst Replicate_loop.simps) (simp add: errorResponseFactory_def)
    next
      case (2 es s')
      show ?thesis
      proof (cases "es = []")
        case True
        then show ?thesis using run 2(1,2) stop send
          by (subst Replicate_loop.simps) (auto split: sum.splits)
      next
        case False
        let ?a = "FirstIndex r" and ?n = "length es"
        have "?a + ?n \<le> Suc (length (LL sid))" using slice_bound [OF il less.prems(2) 2(4) False] .
        then have bound: "?a - 1 + ?n \<le> length (LL sid)" using less.prems(2) by simp
        have es: "es = piece (LL sid) (?a - 1) (?a - 1 + ?n)"
          using 2(4) log_slice_piece [OF il less.prems(2), of "?a + ?n"] less.prems(2) by simp
        have "lgIndex (es ! (?n - 1)) = ?a + (?n - 1)"
          using seg_nth [OF log_slice_seg [OF il less.prems(2)], of "?n - 1" "?a + ?n"] 2(4) False
          by (metis diff_less length_greater_0_conv zero_less_one)
        then have lst: "min (lgIndex (es ! (?n - 1)) + 1) (LastIndex r) = ?a + ?n"
          using False 2(5) by (cases es) auto
        show ?thesis
        proof (cases "entriesToCommands es")
          case (Inl e)
          then show ?thesis using run 2(1,2) stop False by (subst Replicate_loop.simps) simp
        next
          case (Inr cs)
          let ?m = "\<lparr>rsLeaderIndex = of_nat applied, rsResponse = Some (CommandsResponse cs)\<rparr>"
          let ?r = "\<lparr>FirstIndex = ?a + ?n, LastIndex = LastIndex r\<rparr>"
          have len: "length cs = ?n" using entriesToCommands_length [OF Inr] .
          have "0 < ?n" using False by simp
          then have dec: "LastIndex ?r - FirstIndex ?r < LastIndex r - FirstIndex r"
            using 2(5) by (simp del: length_greater_0_conv)
          have "loop_result (reader_ok LL) (LL sid) (FirstIndex ?r - 1) (sent @ [?m])
            (Replicate_loop query sendOk expired idx maxSize sid applied (i + 1) ?r (sent @ [?m]) s')"
            using less.prems dec 2(2,5) by (intro less.hyps) simp_all
          moreover have "FirstIndex ?r - 1 = ?a - 1 + length cs" using less.prems(2) len by simp
          ultimately have "loop_result (reader_ok LL) (LL sid) (?a - 1) sent
            (Replicate_loop query sendOk expired idx maxSize sid applied (i + 1) ?r (sent @ [?m]) s')"
            using loop_result_step [where cs = cs and m = ?m and k = "?a - 1" and L = "LL sid"] bound es Inr
            unfolding len by simp
          moreover have "Replicate_loop query sendOk expired idx maxSize sid applied i r sent s =
            (if sendOk sent ?m then Replicate_loop query sendOk expired idx maxSize sid applied (i + 1) ?r (sent @ [?m]) s'
             else Some (Inl RepSend, sent, s'))"
            using run 2(1) False Inr lst by (subst Replicate_loop.simps) (simp add: Send_def)
          ultimately show ?thesis using stop [OF 2(2)] by simp
        qed
      qed
    qed
  qed
qed

lemma Replicate_ok:
  assumes "reader_ok LL s" and "getTable (rqTable req) = Inr sid"
  shows "\<exists>x sent s'. Replicate query getTable localIndex sendOk expired maxSize req s = Some (x, sent, s')
    \<and> reader_ok LL s' \<and> stream_ok (LL sid) (unat (rqLeaderIndex req) - 1) (map Inr sent)"
proof (cases "localIndex True")
  case (Inl e)
  then show ?thesis using assms by (simp add: Replicate_def)
next
  case (Inr a)
  show ?thesis
  proof (cases "rqLeaderIndex req = 0 \<or> a + 1 < unat (rqLeaderIndex req)")
    case True
    then show ?thesis using assms Inr
      by (auto simp: Replicate_def Send_def errorResponseFactory_def)
  next
    case False
    then have "0 < unat (rqLeaderIndex req)" by (simp add: unat_gt_0)
    then have "loop_result (reader_ok LL) (LL sid) (unat (rqLeaderIndex req) - 1) []
        (Replicate_loop query sendOk expired (localIndex False) maxSize sid a 0
          \<lparr>FirstIndex = unat (rqLeaderIndex req), LastIndex = a + 1\<rparr> [] s)"
      using Replicate_loop_ok [OF assms(1), where r = "\<lparr>FirstIndex = unat (rqLeaderIndex req), LastIndex = a + 1\<rparr>"
          and sid = sid and sent = "[]" and i = 0] False by simp
    moreover have "Replicate query getTable localIndex sendOk expired maxSize req s =
        Replicate_loop query sendOk expired (localIndex False) maxSize sid a 0
          \<lparr>FirstIndex = unat (rqLeaderIndex req), LastIndex = a + 1\<rparr> [] s"
      using assms(2) Inr False by (simp add: Replicate_def)
    ultimately show ?thesis unfolding loop_result_def by auto
  qed
qed

end

section \<open>The follower's table along the leader's log\<close>

text \<open>
  The table holds what the leader's log makes of an empty table at index \<open>k\<close>, and says so in its
  leader index.
\<close>

definition follower_at :: "raftEntry list \<Rightarrow> nat \<Rightarrow> table_state \<Rightarrow> bool" where
  "follower_at L k st \<longleftrightarrow> k \<le> length L \<and> tsLeader st = of_nat k \<and>
     (\<exists>cs rs. entriesToCommands (take k L) = Inr cs \<and> spec_commands (map rcCommand cs) [] = Inr (rs, tsKvs st))"

text \<open>The commands of a log survive their encoding and are not too long for one proposal.\<close>

definition log_wf :: "raftEntry list \<Rightarrow> bool" where
  "log_wf L \<longleftrightarrow> (\<forall>e \<in> set L. \<forall>c. entryToCommand e = Inr c \<longrightarrow> Command_wf c \<and> Command_SizeVT c < 2 ^ 62)"

lemma entriesToCommands_wf:
  "entriesToCommands es = Inr cs \<Longrightarrow> set es \<subseteq> set L \<Longrightarrow> log_wf L \<Longrightarrow> c \<in> set cs \<Longrightarrow>
   Command_wf (rcCommand c) \<and> Command_SizeVT (rcCommand c) < 2 ^ 62"
  by (induction es arbitrary: cs) (auto simp: result_simps log_wf_def)

lemma spec_commands_append:
  "spec_commands (xs @ ys) m = rbind (spec_commands xs m) (\<lambda>(rs, m). rbind (spec_commands ys m) (\<lambda>(ss, m). Inr (rs @ ss, m)))"
proof (induction xs arbitrary: m)
  case Nil
  then show ?case by (cases "spec_commands ys m") auto
next
  case (Cons c xs)
  then show ?case by (simp add: rbind_assoc rbind_case_prod case_prod_beta')
qed

lemma seqCommand_eq: "seqCommand cs li = Command [] Command_SEQUENCE None li [] None None False cs False []"
  by (simp add: seqCommand_def emptyCommand_def)

text \<open>One proposal of a sequence moves the follower along the log.\<close>

lemma spec_update_seq:
  assumes "Command_UnmarshalVT (entCmd e) emptyCommand = Inr (seqCommand cs (Some l))"
    and "spec_update [e] st = Inr (out, st')"
  shows "tsLeader st' = l \<and> (\<exists>rs. spec_commands cs (tsKvs st) = Inr (rs, tsKvs st'))"
  using assms by (auto simp: spec_update_def result_simps spec_result_def spec_command.simps seqCommand_eq
      Command_types)

lemma follower_step:
  assumes "follower_at L j st" and "entriesToCommands (piece L j k) = Inr cs" and "j \<le> k" and "k \<le> length L"
    and "Command_UnmarshalVT (entCmd e) emptyCommand = Inr (seqCommand (map rcCommand cs) (Some (of_nat k)))"
    and "spec_update [e] st = Inr (out, st')"
  shows "follower_at L k st'"
proof -
  from assms(1) obtain ds rs where ds: "entriesToCommands (take j L) = Inr ds"
    and rs: "spec_commands (map rcCommand ds) [] = Inr (rs, tsKvs st)"
    by (auto simp: follower_at_def)
  have "take k L = take j L @ piece L j k" using piece_append [of 0 j k L] assms(3) by simp
  then have "entriesToCommands (take k L) = Inr (ds @ cs)"
    using entriesToCommands_append_Inr [OF ds assms(2)] by simp
  with rs spec_update_seq [OF assms(5,6)] assms(4) show ?thesis
    by (auto simp: follower_at_def spec_commands_append)
qed

section \<open>The worker moves the follower along the log\<close>

abbreviation seq_size :: "ReplicateCommand list \<Rightarrow> nat" where
  "seq_size cs \<equiv> sizeRepeated 1 Command_SizeVT (map rcCommand cs)"

lemma seqCommand_size:
  "seq_size cs \<le> Command_SizeVT (seqCommand (map rcCommand cs) (Some l))"
  "Command_SizeVT (seqCommand (map rcCommand cs) (Some l)) \<le> seq_size cs + 22"
  using sov_le_10 [of l] sov_le_10 [of "scast Command_SEQUENCE"]
  by (simp_all add: seqCommand_eq sizeBytes_def sizeVarint_def sizeBool_def sizeRepeated_def)

lemma seqCommand_decode:
  assumes "seq_size cs < desiredProposalSize"
    and "\<forall>x \<in> set (cs @ [c]). Command_wf (rcCommand x) \<and> Command_SizeVT (rcCommand x) < 2 ^ 62"
  shows "Command_UnmarshalVT (Command_MarshalVT (seqCommand (map rcCommand (cs @ [c])) (Some l))) emptyCommand
    = Inr (seqCommand (map rcCommand (cs @ [c])) (Some l))"
proof (rule Command_UnmarshalVT_MarshalVT)
  show "Command_wf (seqCommand (map rcCommand (cs @ [c])) (Some l))"
    using assms(2) by (auto simp: seqCommand_eq list_all_iff)
  have "seq_size (cs @ [c]) \<le> seq_size cs + (11 + Command_SizeVT (rcCommand c))"
    using sov_le_10 [of "of_nat (Command_SizeVT (rcCommand c))"] by (simp add: sizeRepeated_def)
  moreover have "Command_SizeVT (rcCommand c) < 2 ^ 62" using assms(2) by simp
  moreover have "seq_size cs < 262144" using assms(1) by (simp add: desiredProposalSize_def)
  ultimately have "seq_size (cs @ [c]) + 22 < 2 ^ 63" by simp
  then show "Command_SizeVT (seqCommand (map rcCommand (cs @ [c])) (Some l)) < 2 ^ 63"
    using seqCommand_size(2) [of "cs @ [c]" l] by linarith
qed

text \<open>
  The contract of a table's Raft group: a proposal that succeeds is applied as one entry with those
  bytes; one that fails is applied or not.
\<close>

locale table_group =
  fixes propose :: "'n \<Rightarrow> bytes \<Rightarrow> string option \<times> 'n"
    and table :: "'n \<Rightarrow> table_state"
    and group_ok :: "'n \<Rightarrow> bool"
  assumes propose_ok: "group_ok n \<Longrightarrow> propose n b = (err, n') \<Longrightarrow> group_ok n'"
    and propose_applies: "group_ok n \<Longrightarrow> propose n b = (err, n') \<Longrightarrow>
      (\<exists>e out. entCmd e = b \<and> spec_update [e] (table n) = Inr (out, table n')) \<or> err \<noteq> None \<and> table n' = table n"
begin

lemma propose_seq:
  assumes "group_ok n" and "log_wf L" and "follower_at L j (table n)" and "j \<le> k" and "k \<le> length L"
    and cs: "entriesToCommands (piece L j k) = Inr (cs @ [c])" and "seq_size cs < desiredProposalSize"
    and pr: "propose n (Command_MarshalVT (seqCommand (map rcCommand (cs @ [c])) (Some (of_nat k)))) = (err, n')"
  shows "follower_at L k (table n') \<or> err \<noteq> None \<and> follower_at L j (table n')"
proof -
  have "set (piece L j k) \<subseteq> set L" by (meson order_trans set_drop_subset set_take_subset)
  then have "\<forall>x \<in> set (cs @ [c]). Command_wf (rcCommand x) \<and> Command_SizeVT (rcCommand x) < 2 ^ 62"
    using entriesToCommands_wf [OF cs _ assms(2)] by blast
  note dec = seqCommand_decode [OF assms(7) this, of "of_nat k"]
  from propose_applies [OF assms(1) pr] show ?thesis
  proof (elim disjE exE conjE)
    fix e out
    assume "entCmd e = Command_MarshalVT (seqCommand (map rcCommand (cs @ [c])) (Some (of_nat k)))"
      and up: "spec_update [e] (table n) = Inr (out, table n')"
    then have "Command_UnmarshalVT (entCmd e) emptyCommand = Inr (seqCommand (map rcCommand (cs @ [c])) (Some (of_nat k)))"
      using dec by (simp only:)
    then show ?thesis using follower_step [OF assms(3) cs assms(4,5) _ up] by blast
  qed (use assms(3) in simp)
qed

lemma proposeBatch_loop_ok:
  assumes "is_log L" and "log_wf L"
  shows "group_ok n \<Longrightarrow> follower_at L j (table n) \<Longrightarrow> j \<le> k \<Longrightarrow> k + length cs \<le> length L \<Longrightarrow>
    entriesToCommands (piece L j k) = Inr pend \<Longrightarrow> seq_size pend < desiredProposalSize \<Longrightarrow>
    entriesToCommands (piece L k (k + length cs)) = Inr cs \<Longrightarrow>
    proposeBatch_loop propose n (map rcCommand pend) a cs = (a', err, n') \<Longrightarrow>
    group_ok n' \<and> (\<exists>i. j \<le> i \<and> i \<le> k + length cs \<and> follower_at L i (table n')
      \<and> (err = None \<and> cs \<noteq> [] \<longrightarrow> i = k + length cs \<and> a' = of_nat i))"
proof (induction cs arbitrary: n j k pend a)
  case Nil
  then show ?case by auto
next
  case (Cons c cs)
  let ?k = "Suc k" and ?pend = "pend @ [c]"
  let ?seq = "seqCommand (map rcCommand ?pend) (Some (rcLeaderIndex c))"
  have k: "k < length L" using Cons.prems(4) by simp
  have "piece L k (k + length (c # cs)) = L ! k # piece L ?k (?k + length cs)"
    using k by (metis Cons_nth_drop_Suc add_Suc_right add_Suc length_Cons length_take less_add_Suc1 min_less_iff_conj nth_take)
  with Cons.prems(7) have c: "entriesToCommands [L ! k] = Inr [c]"
    and cs: "entriesToCommands (piece L ?k (?k + length cs)) = Inr cs"
    by (auto simp: result_simps)
  have "lgIndex (L ! k) = ?k" using seg_nth [of L 1 k] assms(1) k by (simp add: is_log_def)
  with c have ix: "rcLeaderIndex c = of_nat ?k" by (auto simp: result_simps)
  have "piece L j ?k = piece L j k @ [L ! k]"
    using piece_append [of j k ?k L] Cons.prems(3) k by (simp add: take_Suc_conv_app_nth)
  then have pend: "entriesToCommands (piece L j ?k) = Inr ?pend"
    using entriesToCommands_append_Inr [OF Cons.prems(5) c] by simp
  show ?case
  proof (cases "Command_SizeVT ?seq \<ge> desiredProposalSize \<or> cs = []")
    case True
    obtain err1 n1 where pr: "propose n (Command_MarshalVT ?seq) = (err1, n1)" by fastforce
    have ok1: "group_ok n1" using propose_ok [OF Cons.prems(1) pr] .
    have at1: "follower_at L ?k (table n1) \<or> err1 \<noteq> None \<and> follower_at L j (table n1)"
      using propose_seq [OF Cons.prems(1) assms(2) Cons.prems(2) _ _ pend Cons.prems(6), of err1 n1]
        Cons.prems(3) k pr ix by simp
    show ?thesis
    proof (cases err1)
      case (Some e)
      then have "err \<noteq> None" "n' = n1" using Cons.prems(8) True pr by (auto simp: Let_def)
      with at1 ok1 Cons.prems(3) show ?thesis by (auto intro: exI [of _ ?k] exI [of _ j])
    next
      case None
      then have run: "proposeBatch_loop propose n1 (map rcCommand []) (rcLeaderIndex c) cs = (a', err, n')"
        using Cons.prems(8) True pr by (auto simp: Let_def)
      have "group_ok n' \<and> (\<exists>i. ?k \<le> i \<and> i \<le> ?k + length cs \<and> follower_at L i (table n')
          \<and> (err = None \<and> cs \<noteq> [] \<longrightarrow> i = ?k + length cs \<and> a' = of_nat i))"
        (is "_ \<and> (\<exists>i. ?Q i)")
        by (rule Cons.IH [OF ok1 _ _ _ _ _ cs run])
          (use at1 None Cons.prems(4) in \<open>auto simp: sizeRepeated_def desiredProposalSize_def\<close>)
      then obtain i where ok: "group_ok n'" and i: "?Q i" by blast
      have "i = k + length (c # cs) \<and> a' = of_nat i" if "err = None"
        using i that run ix by (cases "cs = []") auto
      then have "j \<le> i \<and> i \<le> k + length (c # cs) \<and> follower_at L i (table n')
          \<and> (err = None \<and> c # cs \<noteq> [] \<longrightarrow> i = k + length (c # cs) \<and> a' = of_nat i)"
        using i Cons.prems(3) by simp
      then show ?thesis using ok by blast
    qed
  next
    case False
    then have run: "proposeBatch_loop propose n (map rcCommand ?pend) a cs = (a', err, n')"
      using Cons.prems(8) by (auto simp: Let_def)
    have "seq_size ?pend < desiredProposalSize" using seqCommand_size(1) [of ?pend "rcLeaderIndex c"] False by linarith
    then show ?thesis
      using Cons.IH [OF Cons.prems(1,2) _ _ pend _ cs run] Cons.prems(3,4) False by auto
  qed
qed

lemma do_loop_ok:
  assumes "is_log L" and "log_wf L"
  shows "group_ok n \<Longrightarrow> follower_at L k (table n) \<Longrightarrow> stream_ok L k stream \<Longrightarrow>
    do_loop propose n a stream = (res, n') \<Longrightarrow>
    group_ok n' \<and> (\<exists>i \<ge> k. follower_at L i (table n'))"
proof (induction stream arbitrary: n a k)
  case Nil
  then show ?case by auto
next
  case (Cons x stream)
  show ?case
  proof (cases "\<exists>m cs. x = Inr m \<and> rsResponse m = Some (CommandsResponse cs)")
    case False
    then have "n' = n" using Cons.prems(4)
      by (cases x) (auto split: option.splits replicate_payload.splits ReplicateError.splits if_splits)
    then show ?thesis using Cons.prems by blast
  next
    case True
    then obtain m cs where x: "x = Inr m" and cs: "rsResponse m = Some (CommandsResponse cs)" by blast
    obtain a1 err n1 where pb: "proposeBatch propose n cs = (a1, err, n1)" by (metis prod_cases3)
    have st: "k + length cs \<le> length L" "entriesToCommands (piece L k (k + length cs)) = Inr cs"
      "stream_ok L (k + length cs) stream"
      using Cons.prems(3) cs x by simp_all
    have "group_ok n1 \<and> (\<exists>i. k \<le> i \<and> i \<le> k + length cs \<and> follower_at L i (table n1)
        \<and> (err = None \<and> cs \<noteq> [] \<longrightarrow> i = k + length cs \<and> a1 = of_nat i))"
      by (rule proposeBatch_loop_ok [OF assms Cons.prems(1,2) le_refl st(1) _ _ st(2), where pend = "[]" and a = 0])
        (use pb in \<open>simp_all add: proposeBatch_def sizeRepeated_def desiredProposalSize_def\<close>)
    then obtain i where ok: "group_ok n1" and i: "k \<le> i" "i \<le> k + length cs" "follower_at L i (table n1)"
      "err = None \<Longrightarrow> cs \<noteq> [] \<Longrightarrow> i = k + length cs" by blast
    show ?thesis
    proof (cases err)
      case None
      then have run: "do_loop propose n1 a1 stream = (res, n')" using Cons.prems(4) x cs pb by simp
      have "i = k + length cs" using i None by (cases cs) auto
      then have "group_ok n' \<and> (\<exists>i \<ge> k + length cs. follower_at L i (table n'))"
        using Cons.IH [OF ok _ st(3) run] i(3) by simp
      then show ?thesis by (meson add_leD1)
    next
      case (Some e)
      then have "n' = n1" using Cons.prems(4) x cs pb by simp
      then show ?thesis using ok i by blast
    qed
  qed
qed

lemma worker_do_ok:
  assumes "is_log L" and "log_wf L" and "group_ok n" and "follower_at L k (table n)"
    and "\<And>stream. open_stream \<lparr>rqLeaderIndex = tsLeader (table n) + 1, rqTable = tbl\<rparr> = Inr stream \<Longrightarrow> stream_ok L k stream"
    and "worker_do open_stream propose tbl (tsLeader (table n)) n = (res, n')"
  shows "group_ok n' \<and> (\<exists>i \<ge> k. follower_at L i (table n'))"
proof (cases "open_stream \<lparr>rqLeaderIndex = tsLeader (table n) + 1, rqTable = tbl\<rparr>")
  case (Inl e)
  then show ?thesis using assms(3,4,6) by (auto simp: worker_do_def)
next
  case (Inr stream)
  then show ?thesis using do_loop_ok [OF assms(1-4) assms(5)] assms(6) by (simp add: worker_do_def)
qed

end

section \<open>A Raft group of the model's state machine\<close>

text \<open>A group that applies a proposal with \<^verbatim>\<open>FSM.Update\<close> at its next index.\<close>

definition fsm_propose :: "('d, 'b) pebble \<Rightarrow> 'd FSM \<Rightarrow> bytes \<Rightarrow> string option \<times> 'd FSM" where
  "fsm_propose P p b =
     (case Update P p [\<lparr>entIndex = fsmApplied p + 1, entCmd = b, entValue = 0, entData = []\<rparr>] of
        Inl e \<Rightarrow> (Some ''proposal failed'', p)
      | Inr (out, p') \<Rightarrow> (None, p'))"

interpretation fsm_group: table_group "fsm_propose P" "db_state P" "\<lambda>p. pebble_laws P W \<and> fsm_ok P p" for P W
proof
  fix p b err p'
  assume p: "pebble_laws P W \<and> fsm_ok P p" and pr: "fsm_propose P p b = (err, p')"
  show "pebble_laws P W \<and> fsm_ok P p'"
    using p pr Update_spec(1) [of P W p] by (auto simp: fsm_propose_def split: sum.splits)
  show "(\<exists>e out. entCmd e = b \<and> spec_update [e] (db_state P p) = Inr (out, db_state P p'))
      \<or> err \<noteq> None \<and> db_state P p' = db_state P p"
  proof (cases "Update P p [\<lparr>entIndex = fsmApplied p + 1, entCmd = b, entValue = 0, entData = []\<rparr>]")
    case (Inr r)
    then show ?thesis using p pr Update_spec(2) [of P W p] unfolding fsm_propose_def
      by (cases r) (auto intro!: exI [of _ "\<lparr>entIndex = fsmApplied p + 1, entCmd = b, entValue = 0, entData = []\<rparr>"])
  qed (use pr in \<open>auto simp: fsm_propose_def\<close>)
qed

section \<open>Everything is sent\<close>

text \<open>The commands in a list of messages.\<close>

fun sent_commands :: "ReplicateResponse list \<Rightarrow> ReplicateCommand list" where
  "sent_commands [] = []"
| "sent_commands (m # ms) =
     (case rsResponse m of Some (CommandsResponse cs) \<Rightarrow> cs @ sent_commands ms | _ \<Rightarrow> sent_commands ms)"

lemma sent_commands_append: "sent_commands (ms @ ns) = sent_commands ms @ sent_commands ns"
  by (induction ms) (auto split: option.splits replicate_payload.splits)

lemma entriesToCommands_split:
  "entriesToCommands (es @ fs) = Inr cs \<Longrightarrow> \<exists>cs1 cs2. cs = cs1 @ cs2 \<and> entriesToCommands es = Inr cs1 \<and> entriesToCommands fs = Inr cs2"
  by (auto simp: entriesToCommands_append result_simps)

context log_reader
begin

text \<open>A reader that always answers, and with an entry whenever the range has one.\<close>

definition live :: "(nat \<Rightarrow> raftEntry list) \<Rightarrow> nat \<Rightarrow> nat \<Rightarrow> nat \<Rightarrow> bool" where
  "live LL sid start maxSize \<longleftrightarrow> (\<forall>s r. reader_ok LL s \<longrightarrow> start \<le> FirstIndex r \<longrightarrow> FirstIndex r \<le> LastIndex r \<longrightarrow>
     LastIndex r \<le> Suc (length (LL sid)) \<longrightarrow>
     (\<exists>es s'. query s sid r maxSize = Some (Inr es, s') \<and> (FirstIndex r < LastIndex r \<longrightarrow> es \<noteq> [])))"

lemma Replicate_loop_complete:
  assumes "reader_ok LL s" and "0 < start" and "start \<le> FirstIndex r" and "FirstIndex r \<le> LastIndex r"
    and "LastIndex r \<le> Suc (length (LL sid))"
    and "live LL sid start maxSize" and "\<And>i. \<not> expired i" and "\<And>sent m. sendOk sent m"
    and "entriesToCommands (piece (LL sid) (FirstIndex r - 1) (LastIndex r - 1)) = Inr cs"
  shows "\<exists>new s'. Replicate_loop query sendOk expired (Inr ai) maxSize sid applied i r sent s = Some (Inr (), sent @ new, s')
    \<and> sent_commands new = cs \<and> new \<noteq> [] \<and> last new = \<lparr>rsLeaderIndex = of_nat ai, rsResponse = None\<rparr>"
  using assms(1,3-5,9)
proof (induction "LastIndex r - FirstIndex r" arbitrary: r sent s i cs rule: less_induct)
  case less
  let ?L = "LL sid" and ?a = "FirstIndex r"
  have il: "is_log ?L" using ok_logs [OF less.prems(1)] by (simp add: logs_ok_def)
  have a: "0 < ?a" using less.prems(2) assms(2) by simp
  obtain es0 s0 where q: "query s sid r maxSize = Some (Inr es0, s0)" "?a < LastIndex r \<Longrightarrow> es0 \<noteq> []"
    using assms(6) less.prems(1-4) unfolding live_def by blast
  from less.prems(1) a less.prems(3) obtain es s' where
    2: "query s sid r maxSize = Some (Inr es, s')" "reader_ok LL s'"
       "es = log_slice ?L ?a (?a + length es)" "?a + length es \<le> LastIndex r"
    using q(1) by (cases rule: answerE [where sid = sid and maxSize = maxSize]) auto
  have ne: "?a < LastIndex r \<Longrightarrow> es \<noteq> []" using q 2(1) by simp
  let ?n = "length es"
  show ?case
  proof (cases "es = []")
    case True
    then have "?a = LastIndex r" using ne less.prems(3) by linarith
    then have "cs = []" using less.prems(5) by simp
    moreover have "Replicate_loop query sendOk expired (Inr ai) maxSize sid applied i r sent s
        = Some (Inr (), sent @ [\<lparr>rsLeaderIndex = of_nat ai, rsResponse = None\<rparr>], s')"
      using True 2(1) assms(7,8) by (subst Replicate_loop.simps) (simp add: Send_def)
    ultimately show ?thesis by auto
  next
    case False
    then have pos: "0 < ?n" by simp
    let ?r = "\<lparr>FirstIndex = ?a + ?n, LastIndex = LastIndex r\<rparr>"
    have es: "es = piece ?L (?a - 1) (?a - 1 + ?n)"
      using 2(3) log_slice_piece [OF il a, of "?a + ?n"] a by simp
    have "piece ?L (?a - 1) (LastIndex r - 1) = piece ?L (?a - 1) (?a - 1 + ?n) @ piece ?L (?a - 1 + ?n) (LastIndex r - 1)"
      using piece_append [of "?a - 1" "?a - 1 + ?n" "LastIndex r - 1" ?L] 2(4) a by simp
    then obtain cs1 cs2 where cs: "cs = cs1 @ cs2" "entriesToCommands es = Inr cs1"
      "entriesToCommands (piece ?L (?a - 1 + ?n) (LastIndex r - 1)) = Inr cs2"
      using less.prems(5) es entriesToCommands_split by metis
    have "lgIndex (es ! (?n - 1)) = ?a + (?n - 1)"
      using seg_nth [OF log_slice_seg [OF il a], of "?n - 1" "?a + ?n"] 2(3) pos
      by (metis diff_less zero_less_one)
    then have lst: "min (lgIndex (es ! (?n - 1)) + 1) (LastIndex r) = ?a + ?n" using pos 2(4) by linarith
    let ?m = "\<lparr>rsLeaderIndex = of_nat applied, rsResponse = Some (CommandsResponse cs1)\<rparr>"
    have dec: "LastIndex ?r - FirstIndex ?r < LastIndex r - FirstIndex r"
      using 2(4) pos by (simp del: length_greater_0_conv)
    have "FirstIndex ?r - 1 = ?a - 1 + ?n" using a by simp
    then have p2: "entriesToCommands (piece ?L (FirstIndex ?r - 1) (LastIndex ?r - 1)) = Inr cs2" using cs(3) by simp
    obtain new s'' where new: "Replicate_loop query sendOk expired (Inr ai) maxSize sid applied (i + 1) ?r (sent @ [?m]) s'
        = Some (Inr (), (sent @ [?m]) @ new, s'')" "sent_commands new = cs2" "new \<noteq> []"
        "last new = \<lparr>rsLeaderIndex = of_nat ai, rsResponse = None\<rparr>"
      using less.hyps [OF dec 2(2) _ _ _ p2, of "i + 1" "sent @ [?m]"] less.prems(2,4) 2(4) by auto
    have "Replicate_loop query sendOk expired (Inr ai) maxSize sid applied i r sent s
        = Replicate_loop query sendOk expired (Inr ai) maxSize sid applied (i + 1) ?r (sent @ [?m]) s'"
      using 2(1) False cs(2) lst assms(7,8) by (subst Replicate_loop.simps) (simp add: Send_def)
    with new cs(1) have "Replicate_loop query sendOk expired (Inr ai) maxSize sid applied i r sent s
        = Some (Inr (), sent @ (?m # new), s'') \<and> sent_commands (?m # new) = cs \<and> ?m # new \<noteq> []
        \<and> last (?m # new) = \<lparr>rsLeaderIndex = of_nat ai, rsResponse = None\<rparr>" by simp
    then show ?thesis by blast
  qed
qed

end

section \<open>The leader's own state\<close>

text \<open>What the leader's state machine is given of its log: the encoded entries without their header byte.\<close>

definition fsm_entries :: "raftEntry list \<Rightarrow> Entry list" where
  "fsm_entries L = map (\<lambda>e. \<lparr>entIndex = of_nat (lgIndex e), entCmd = drop 1 (lgCmd e), entValue = 0, entData = []\<rparr>)
     (filter (\<lambda>e. lgType e = EncodedEntry) L)"

lemma set_cmdLeaderIndex_sel [simp]:
  "cmdType (set_cmdLeaderIndex l c) = cmdType c" "cmdKv (set_cmdLeaderIndex l c) = cmdKv c"
  "cmdPrevKvs (set_cmdLeaderIndex l c) = cmdPrevKvs c" "cmdBatch (set_cmdLeaderIndex l c) = cmdBatch c"
  "cmdTxn (set_cmdLeaderIndex l c) = cmdTxn c" "cmdSequence (set_cmdLeaderIndex l c) = cmdSequence c"
  "deleteRequest kv (set_cmdLeaderIndex l c) = deleteRequest kv c"
  by (cases c; simp add: deleteRequest_def)+

lemma spec_command_leaderIndex: "spec_command (set_cmdLeaderIndex l c) m = spec_command c m"
  by (simp only: spec_command.simps set_cmdLeaderIndex_sel)

lemma spec_entries_commands:
  "spec_entries (fsm_entries L) m i = Inr ((out, m'), j) \<Longrightarrow> entriesToCommands L = Inr cs \<Longrightarrow>
   \<exists>rs. spec_commands (map rcCommand cs) m = Inr (rs, m')"
proof (induction L arbitrary: m i out cs)
  case Nil
  then show ?case by (simp add: fsm_entries_def)
next
  case (Cons e L)
  from Cons.prems(2) obtain c cs' where c: "entryToCommand e = Inr c" "entriesToCommands L = Inr cs'"
    and cs: "cs = \<lparr>rcLeaderIndex = of_nat (lgIndex e), rcCommand = c\<rparr> # cs'"
    by (auto simp: result_simps)
  show ?case
  proof (cases "lgType e = EncodedEntry")
    case False
    then have "spec_entries (fsm_entries L) m i = Inr ((out, m'), j)" using Cons.prems(1) by (simp add: fsm_entries_def)
    moreover have "spec_command c m = Inr ((ResultSuccess, []), m)"
      using c(1) False by (auto simp: entryToCommand_def emptyCommand_def spec_command.simps Command_types)
    ultimately show ?thesis using Cons.IH [OF _ c(2), of m i out] cs by auto
  next
    case True
    then obtain d where d: "Command_UnmarshalVT (drop 1 (lgCmd e)) emptyCommand = Inr d"
      "c = set_cmdLeaderIndex (Some (of_nat (lgIndex e))) d"
      using c(1) by (auto simp: entryToCommand_def result_simps split: if_splits sum.splits)
    from Cons.prems(1) True d(1) obtain v rs m1 out1 i1 where
      "spec_command d m = Inr ((v, rs), m1)" "spec_entries (fsm_entries L) m1 i1 = Inr ((out1, m'), j)"
      by (auto simp: fsm_entries_def result_simps spec_result_def)
    then show ?thesis using Cons.IH [OF _ c(2), of m1 i1 out1] cs by (auto simp: d(2) spec_command_leaderIndex)
  qed
qed

end
