(* ===== verification/Replication_Properties.thy ===== *)
theory Replication_Properties
  imports Replication_Refinement FSM_Properties
begin

text \<open>
  The properties of log reading and log replication, with concrete logs and an in-memory log reader
  at which they are applied.
\<close>

section \<open>Concrete logs\<close>

text \<open>The Raft library's reader over logs in memory.\<close>

definition mem_querier :: "(nat \<Rightarrow> raftEntry list) \<Rightarrow> logQuerier" where
  "mem_querier LL sid = Inr \<lparr>lrRange = (1, length (LL sid)), lrEntries = \<lambda>low high maxSize. Inr (log_slice (LL sid) low high)\<rparr>"

lemma mem_querier_ok: "logs_ok LL \<Longrightarrow> querier_ok (mem_querier LL) LL"
proof -
  assume "logs_ok LL"
  then have "log_slice (LL sid) low high \<noteq> []" if "1 \<le> low" "low \<le> length (LL sid)" "low < high" for sid low high
    using log_slice_piece [of "LL sid" low high] that by (simp add: logs_ok_def)
  then show ?thesis by (simp add: querier_ok_def mem_querier_def)
qed

definition exLogEntry :: "nat \<Rightarrow> Command \<Rightarrow> raftEntry" where
  "exLogEntry i c = \<lparr>lgIndex = i, lgType = EncodedEntry, lgCmd = 0 # Command_MarshalVT c\<rparr>"

text \<open>A membership change and two writes.\<close>

definition exLog :: "raftEntry list" where
  "exLog = [\<lparr>lgIndex = 1, lgType = ConfigChangeEntry, lgCmd = []\<rparr>,
     exLogEntry 2 (exPut [97] [1] None), exLogEntry 3 (exPut [98] [2] None)]"

lemma exLog_ok: "logs_ok (\<lambda>_. exLog)"
  by (simp add: logs_ok_def is_log_def exLog_def exLogEntry_def)

lemma exLog_commands:
  "entryToCommand (exLogEntry i (exPut [x] [y] None)) = Inr (exPut [x] [y] (Some (of_nat i)))"
  using exPut_decode [of "[x]" "[y]" None] by (simp add: entryToCommand_def exLogEntry_def exPut_def)

lemma exLog_wf: "log_wf exLog"
proof -
  have "Command_wf (exPut [x] [y] l) \<and> Command_SizeVT (exPut [x] [y] l) < 2 ^ 62" for x y l
  proof
    show "Command_wf (exPut [x] [y] l)" by (simp add: exPut_def KeyValue_wf_def emptyKeyValue_def)
    have "Command_SizeVT (exPut [x] [y] l) \<le> 1100"
      using KeyValue_overhead [where k = "[x]" and v = "[y]"] sov_le_10 [of "the l"]
      by (cases l) (simp_all add: exPut_def sizeMessage_def sizeBytes_def sizeVarint_def sizeBool_def
          sizeRepeated_def Command_PUT_def)
    then show "Command_SizeVT (exPut [x] [y] l) < 2 ^ 62" by simp
  qed
  moreover have "Command_wf (Command [] Command_DUMMY None (Some 1) [] None None False [] False [])
      \<and> Command_SizeVT (Command [] Command_DUMMY None (Some 1) [] None None False [] False []) < 2 ^ 62"
  proof
    have "Command_SizeVT (Command [] Command_DUMMY None (Some 1) [] None None False [] False []) \<le> 100" by code_simp
    then show "Command_SizeVT (Command [] Command_DUMMY None (Some 1) [] None None False [] False []) < 2 ^ 62" by simp
  qed simp
  moreover have "entryToCommand \<lparr>lgIndex = 1, lgType = ConfigChangeEntry, lgCmd = []\<rparr>
      = Inr (Command [] Command_DUMMY None (Some 1) [] None None False [] False [])"
    by (simp add: entryToCommand_def emptyCommand_def)
  ultimately show ?thesis
    unfolding log_wf_def exLog_def
    by (auto simp: exLog_commands simp del: Command_SizeVT.simps Command_wf.simps One_nat_def)
qed

lemma exFollower: "follower_at exLog 0 (db_state mem_pebble (exFSM []))"
  by (simp add: follower_at_def exFSM_state)

section \<open>Reading the log\<close>

text \<open>
  C9: the cached log reader returns what is in the log. In every state it can reach, from an empty
  start, while logs grow, through the Raft library's events and earlier queries, a query of a range
  from a positive index returns (it never panics on an empty slice), and the entries it returns are
  a contiguous piece of the shard's log that starts with the first index of the range and ends before its last.
\<close>

theorem Cached_query_contiguous:
  assumes "reader_reach sz LL l" and "querier_ok q LL" and "0 < FirstIndex r" and "FirstIndex r \<le> LastIndex r"
  shows "\<exists>res l'. Cached_QueryRaftLog sz q l sid r maxSize = Some (res, l')
    \<and> (\<forall>es. res = Inr es \<longrightarrow> prefix es (log_slice (LL sid) (FirstIndex r) (LastIndex r)))"
  using Cached_query_ok [OF _ assms(2) _ assms(3,4)] reader_reach_ok [OF assms(1)]
  by (fastforce simp: query_ok_def)

definition exReader :: Cached where
  "exReader = NodeReady \<lparr>ShardCacheSize = 2, shardCache = Map.empty\<rparr> 1"

lemma exReader_reach: "reader_reach sz (\<lambda>_. exLog) exReader"
  unfolding exReader_def by (intro reader_reach.ready reader_reach.start exLog_ok)

theorem Cached_query_contiguous_witness:
  "\<exists>res l'. Cached_QueryRaftLog (\<lambda>_. 10) (mem_querier (\<lambda>_. exLog)) exReader 1 \<lparr>FirstIndex = 2, LastIndex = 4\<rparr> 100 = Some (res, l')
    \<and> (\<forall>es. res = Inr es \<longrightarrow> prefix es (log_slice exLog 2 4))"
  using Cached_query_contiguous [OF exReader_reach mem_querier_ok [OF exLog_ok],
      of "\<lparr>FirstIndex = 2, LastIndex = 4\<rparr>" "\<lambda>_. 10" 1 100] by simp

text \<open>
  C40: a query whose range ends at the first cached index finds nothing. The test that decides whether
  the range overlaps the cache compares with \<^verbatim>\<open>>\<close> although the range is half-open, so the reader takes
  the range for a cached one and returns no entries, whatever the log holds.
\<close>

theorem Cached_query_misses_boundary:
  assumes "is_log L" and "cache_ok L sh" and "buffer sh \<noteq> []" and "shardCache l sid = Some sh"
    and "FirstIndex r < smallestIndex sh" and "LastIndex r = smallestIndex sh"
  shows "Cached_QueryRaftLog sz q l sid r maxSize = Some (Inr [], l)"
proof -
  from assms(2) obtain lo hi where c: "cache_seg L sh lo hi" by (auto simp: cache_ok_def)
  note f = cache_seg_facts(3,5) [OF assms(1) c assms(3)]
  have "get sh r = Some ([], emptyRange, emptyRange)"
    using get_seg [OF assms(1) c assms(3), of r] assms(5,6) f by (simp add: log_slice_def filter_False)
  then show ?thesis using assms(4-6) by (simp add: Cached_QueryRaftLog_def Load_def emptyRange_def fixSize_def)
qed

definition exCached :: Cached where
  "exCached = \<lparr>ShardCacheSize = 2, shardCache = [1 \<mapsto> \<lparr>buffer = [exLog ! 2], cacheSize = 2\<rparr>]\<rparr>"

theorem Cached_query_misses_boundary_witness:
  "Cached_QueryRaftLog (\<lambda>_. 10) (mem_querier (\<lambda>_. exLog)) exCached 1 \<lparr>FirstIndex = 2, LastIndex = 3\<rparr> 100 = Some (Inr [], exCached)
    \<and> Simple_QueryRaftLog (mem_querier (\<lambda>_. exLog)) 1 \<lparr>FirstIndex = 2, LastIndex = 3\<rparr> 100 = Inr [exLog ! 1]"
proof
  have "cache_ok exLog \<lparr>buffer = [exLog ! 2], cacheSize = 2\<rparr>"
    by (rule cache_segI [of _ _ 3 4]) (simp add: cache_seg_def exLog_def log_slice_def exLogEntry_def)
  then show "Cached_QueryRaftLog (\<lambda>_. 10) (mem_querier (\<lambda>_. exLog)) exCached 1 \<lparr>FirstIndex = 2, LastIndex = 3\<rparr> 100 = Some (Inr [], exCached)"
    using Cached_query_misses_boundary [of exLog "\<lparr>buffer = [exLog ! 2], cacheSize = 2\<rparr>" exCached 1 "\<lparr>FirstIndex = 2, LastIndex = 3\<rparr>"]
      exLog_ok
    by (simp add: logs_ok_def exCached_def smallestIndex_def exLog_def exLogEntry_def)
  show "Simple_QueryRaftLog (mem_querier (\<lambda>_. exLog)) 1 \<lparr>FirstIndex = 2, LastIndex = 3\<rparr> 100 = Inr [exLog ! 1]"
    by (simp add: Simple_QueryRaftLog_def readLog_def mem_querier_def log_slice_def exLog_def exLogEntry_def)
qed

text \<open>
  C39: \<^verbatim>\<open>fixSize\<close> returns the longest prefix whose cumulative size stays below the limit: a non-empty
  prefix of the entries survives exactly when its size is below it. In particular a first entry that
  reaches the limit alone leaves nothing, so that a reader of the cache never gets past it.
\<close>

theorem fixSize_longest:
  assumes "prefix p es" and "p \<noteq> []"
  shows "prefix p (fixSize sz es maxSize) \<longleftrightarrow> sum_list (map sz p) < maxSize"
proof -
  have "prefix p es \<Longrightarrow> p \<noteq> [] \<Longrightarrow> prefix p (fixSize_loop sz es acc maxSize) \<longleftrightarrow> acc + sum_list (map sz p) < maxSize" for acc
  proof (induction es arbitrary: p acc)
    case (Cons e es)
    then obtain p' where p: "p = e # p'" "prefix p' es" by (cases p) auto
    show ?case
    proof (cases "p' = []")
      case True
      then show ?thesis using p by (simp add: Let_def not_le)
    next
      case False
      then show ?thesis using p Cons.IH [OF p(2) False, of "acc + sz e"] by (auto simp: Let_def add.assoc)
    qed
  qed simp
  then show ?thesis using assms by (simp add: fixSize_def)
qed

theorem fixSize_longest_witness:
  "prefix [exLog ! 0] (fixSize (\<lambda>_. 10) exLog 25) \<and> \<not> prefix [exLog ! 0] (fixSize (\<lambda>_. 30) exLog 25)"
  using fixSize_longest [of "[exLog ! 0]" exLog "\<lambda>_. 10" 25] fixSize_longest [of "[exLog ! 0]" exLog "\<lambda>_. 30" 25]
  by (simp add: exLog_def)

section \<open>Replication\<close>

text \<open>
  C2: one round of replication keeps the follower on the leader's history. Over the cached log reader
  in any state it can reach, \<^verbatim>\<open>LogServer.Replicate\<close> returns; and if some of the messages it sent are
  delivered, then perhaps an error, \<^verbatim>\<open>worker.do\<close> takes a follower that holds the leader's pairs at
  one index of the log to the leader's pairs at an equal or later index, stored with that leader
  index, whichever sends, proposals or receives fail.
\<close>

theorem replication_follows_log:
  assumes "reader_reach sz LL l" and "querier_ok q LL" and "log_wf (LL sid)" and "length (LL sid) < 2 ^ 64 - 1"
    and "pebble_laws P W" and "fsm_ok P p" and "follower_at (LL sid) k (db_state P p)"
    and "getTable tbl = Inr sid"
  shows "\<exists>x sent l'. Replicate (Cached_QueryRaftLog sz q) getTable localIndex sendOk expired maxSize
        \<lparr>rqLeaderIndex = tsLeader (db_state P p) + 1, rqTable = tbl\<rparr> l = Some (x, sent, l')
    \<and> (\<forall>stream res p'. delivers sent stream \<longrightarrow>
         worker_do (\<lambda>req. Inr stream) (fsm_propose P) tbl (tsLeader (db_state P p)) p = (res, p') \<longrightarrow>
         fsm_ok P p' \<and> (\<exists>i \<ge> k. follower_at (LL sid) i (db_state P p')))"
proof -
  let ?req = "\<lparr>rqLeaderIndex = tsLeader (db_state P p) + 1, rqTable = tbl\<rparr>"
  have il: "logs_ok LL" "is_log (LL sid)" "Cached_ok LL l"
    using reader_reach_ok [OF assms(1)] by (auto simp: logs_ok_def)
  have k: "tsLeader (db_state P p) = of_nat k" "k < 2 ^ 64 - 1"
    using assms(4,7) by (auto simp: follower_at_def)
  have "tsLeader (db_state P p) + 1 = of_nat (Suc k)" using k(1) by simp
  then have "unat (tsLeader (db_state P p) + 1) = Suc k" using k(2) by (simp only: unat_of_nat) simp
  then obtain x sent l' where rep: "Replicate (Cached_QueryRaftLog sz q) getTable localIndex sendOk expired maxSize ?req l = Some (x, sent, l')"
    and st: "stream_ok (LL sid) k (map Inr sent)"
    using cached.Replicate_ok [of LL q l getTable ?req sid sz localIndex sendOk expired maxSize] il assms(2,8) by auto
  have "fsm_ok P p' \<and> (\<exists>i \<ge> k. follower_at (LL sid) i (db_state P p'))"
    if "delivers sent stream" "worker_do (\<lambda>req. Inr stream) (fsm_propose P) tbl (tsLeader (db_state P p)) p = (res, p')"
    for stream res p'
    using fsm_group.worker_do_ok [OF il(2) assms(3) _ assms(7) _ that(2)] assms(5,6) delivers_ok [OF that(1) st] by auto
  then show ?thesis using rep by blast
qed

theorem replication_follows_log_witness:
  "\<exists>x sent l'. Replicate (Cached_QueryRaftLog (\<lambda>_. 10) (mem_querier (\<lambda>_. exLog))) (\<lambda>_. Inr 1) (\<lambda>_. Inr 3) (\<lambda>_ _. True) (\<lambda>_. False) 100
        \<lparr>rqLeaderIndex = 1, rqTable = []\<rparr> exReader = Some (x, sent, l')
    \<and> (\<forall>stream res p'. delivers sent stream \<longrightarrow>
         worker_do (\<lambda>req. Inr stream) (fsm_propose mem_pebble) [] 0 (exFSM []) = (res, p') \<longrightarrow>
         fsm_ok mem_pebble p' \<and> (\<exists>i \<ge> 0. follower_at exLog i (db_state mem_pebble p')))"
  using replication_follows_log [OF exReader_reach mem_querier_ok [OF exLog_ok] exLog_wf _ mem_pebble_laws exFSM_ok exFollower,
      where getTable = "\<lambda>_. Inr 1" and localIndex = "\<lambda>_. Inr 3" and sendOk = "\<lambda>_ _. True" and expired = "\<lambda>_. False"
        and maxSize = 100 and tbl = "[]" and sid = 1 and sz = "\<lambda>_. 10"]
  by (simp add: exFSM_state exLog_def)

text \<open>
  C3: the log index a follower records identifies the leader's state. A follower at index \<open>k\<close> of a
  log has exactly the pairs that the leader's state machine has after \<^verbatim>\<open>Update\<close> with the entries of
  the log up to \<open>k\<close>, starting from an empty table, in one batch.
\<close>

theorem follower_has_leader_state:
  assumes "pebble_laws P W" and "fsm_ok P p" and "tsKvs (db_state P p) = []"
    and "Update P p (fsm_entries (take k L)) = Inr (out, p')" and "follower_at L k st"
  shows "tsKvs st = tsKvs (db_state P p')"
proof -
  obtain j where "spec_entries (fsm_entries (take k L)) [] (0, None) = Inr ((out, tsKvs (db_state P p')), j)"
    using spec_update_InrD [OF Update_spec(2) [OF assms(1,2,4)]] assms(3) by auto
  moreover obtain cs rs where "entriesToCommands (take k L) = Inr cs" "spec_commands (map rcCommand cs) [] = Inr (rs, tsKvs st)"
    using assms(5) by (auto simp: follower_at_def)
  ultimately show ?thesis using spec_entries_commands by fastforce
qed

lemma exLog_update:
  "\<exists>out p'. Update mem_pebble (exFSM []) (fsm_entries exLog) = Inr (out, p') \<and> tsKvs (db_state mem_pebble p') = [([97], [1]), ([98], [2])]"
proof -
  have "fsm_entries exLog = [exEntry 2 (exPut [97] [1] None), exEntry 3 (exPut [98] [2] None)]"
    by (simp add: fsm_entries_def exLog_def exLogEntry_def exEntry_def)
  then show ?thesis
    using Update_total [OF mem_pebble_laws mem_pebble_total exFSM_ok, of "fsm_entries exLog"]
    by (auto simp: exFSM_state spec_update_def exPut_entries simp del: spec_entries.simps(2))
qed

lemma exLog_follower:
  "follower_at exLog 3 \<lparr>tsKvs = [([97], [1]), ([98], [2])], tsIndex = 1, tsLeader = 3\<rparr>"
proof -
  have e: "entriesToCommands exLog = Inr
      [\<lparr>rcLeaderIndex = 1, rcCommand = Command [] Command_DUMMY None (Some 1) [] None None False [] False []\<rparr>,
       \<lparr>rcLeaderIndex = 2, rcCommand = exPut [97] [1] (Some 2)\<rparr>, \<lparr>rcLeaderIndex = 3, rcCommand = exPut [98] [2] (Some 3)\<rparr>]"
    using exLog_commands [of 2 97 1] exLog_commands [of 3 98 2]
    by (simp add: exLog_def exLogEntry_def entryToCommand_def emptyCommand_def)
  have "length exLog = 3" by (simp add: exLog_def)
  then show ?thesis using e unfolding follower_at_def
    by (simp add: spec_command.simps Command_types exPut_def spec_put_def putRequest_def emptyRequestOp_Put_def)
qed

theorem follower_has_leader_state_witness:
  "\<exists>out p'. Update mem_pebble (exFSM []) (fsm_entries (take 3 exLog)) = Inr (out, p')
    \<and> tsKvs (db_state mem_pebble p') = [([97], [1]), ([98], [2])]"
proof -
  have "take 3 exLog = exLog" by (simp add: exLog_def)
  then obtain out p' where up: "Update mem_pebble (exFSM []) (fsm_entries (take 3 exLog)) = Inr (out, p')"
    using exLog_update by auto
  then show ?thesis
    using follower_has_leader_state [OF mem_pebble_laws exFSM_ok _ up exLog_follower] by (simp add: exFSM_state)
qed



end
