(* ===== verification/KV_Store.thy ===== *)
theory KV_Store
  imports Regatta_Prelude "HOL-Library.Char_ord"
begin

text \<open>
  The versioned key-value store that holds the cluster's metadata (\<^verbatim>\<open>storage/kv/map.go\<close>,
  \<^verbatim>\<open>raft.go\<close>): the map, the state machine that guards it with versions, and the client that
  proposes to it. Strings are lists of characters in byte order. Values are opaque; a JSON text is
  represented by the document it denotes. Versions are Raft indexes, natural numbers.
\<close>

section \<open>Patterns\<close>

text \<open>
  \<^verbatim>\<open>path.Match\<close> of the Go library on single-byte characters: \<^verbatim>\<open>*\<close> and \<^verbatim>\<open>?\<close> do not match a slash.
  A malformed pattern is \<open>None\<close>.
\<close>

datatype pat = PStar | PAny | PLit char | PClass bool "(char \<times> char) list"

definition getEsc :: "string \<Rightarrow> (char \<times> string) option" where
  "getEsc chunk =
     (let chunk' = (if chunk \<noteq> [] \<and> hd chunk = CHR 0x5C then tl chunk else chunk) in
      if chunk = [] \<or> hd chunk = CHR ''-'' \<or> hd chunk = CHR '']'' \<or> length chunk' < 2 then None
      else Some (hd chunk', tl chunk'))"

text \<open>The ranges of a class up to its closing bracket; \<open>n\<close> bounds the characters left to read.\<close>

fun parseRanges :: "nat \<Rightarrow> string \<Rightarrow> (char \<times> char) list \<Rightarrow> ((char \<times> char) list \<times> string) option" where
  "parseRanges 0 chunk rs = None"
| "parseRanges (Suc n) chunk rs =
     (if chunk \<noteq> [] \<and> hd chunk = CHR '']'' \<and> rs \<noteq> [] then Some (rs, tl chunk)
      else Option.bind (getEsc chunk) (\<lambda>(lo, chunk).
        if hd chunk = CHR ''-'' then
          Option.bind (getEsc (tl chunk)) (\<lambda>(hi, chunk). parseRanges n chunk (rs @ [(lo, hi)]))
        else parseRanges n chunk (rs @ [(lo, lo)])))"

fun parsePattern :: "nat \<Rightarrow> string \<Rightarrow> pat list option" where
  "parsePattern n [] = Some []"
| "parsePattern 0 (c # cs) = None"
| "parsePattern (Suc n) (c # cs) =
     (if c = CHR ''*'' then map_option (Cons PStar) (parsePattern n cs)
      else if c = CHR ''?'' then map_option (Cons PAny) (parsePattern n cs)
      else if c = CHR ''['' then
        (let negated = (cs \<noteq> [] \<and> hd cs = CHR ''^''); cs = (if negated then tl cs else cs) in
         Option.bind (parseRanges (Suc n) cs []) (\<lambda>(rs, cs). map_option (Cons (PClass negated rs)) (parsePattern n cs)))
      else if c = CHR 0x5C then
        (case cs of [] \<Rightarrow> None | d # ds \<Rightarrow> map_option (Cons (PLit d)) (parsePattern n ds))
      else map_option (Cons (PLit c)) (parsePattern n cs))"

fun pmatch :: "pat list \<Rightarrow> string \<Rightarrow> bool" where
  "pmatch [] s = (s = [])"
| "pmatch (PStar # ps) [] = pmatch ps []"
| "pmatch (PStar # ps) (c # cs) = (pmatch ps (c # cs) \<or> c \<noteq> CHR ''/'' \<and> pmatch (PStar # ps) cs)"
| "pmatch (PAny # ps) [] = False"
| "pmatch (PAny # ps) (c # cs) = (c \<noteq> CHR ''/'' \<and> pmatch ps cs)"
| "pmatch (PLit d # ps) [] = False"
| "pmatch (PLit d # ps) (c # cs) = (c = d \<and> pmatch ps cs)"
| "pmatch (PClass negated rs # ps) [] = False"
| "pmatch (PClass negated rs # ps) (c # cs) =
     (((\<exists>(lo, hi) \<in> set rs. lo \<le> c \<and> c \<le> hi) \<noteq> negated) \<and> pmatch ps cs)"

definition path_Match :: "string \<Rightarrow> string \<Rightarrow> bool option" where
  "path_Match pattern name = map_option (\<lambda>ps. pmatch ps name) (parsePattern (length pattern) pattern)"

section \<open>The map\<close>

datatype kv_error = ErrNotExist | ErrVersionMismatch | ErrBadPattern | ErrInvalidQuery | ErrInvalidEntry | ErrRaft string

record 'v Pair =
  Key :: string
  Value :: 'v
  Ver :: nat

text \<open>\<^verbatim>\<open>MapStore\<close>: the pairs by key, as a list sorted by key.\<close>

type_synonym 'v MapStore = "(string \<times> 'v Pair) list"

definition NewMapStore :: "'v MapStore" where
  "NewMapStore = []"

definition MapStore_Delete :: "'v MapStore \<Rightarrow> string \<Rightarrow> nat \<Rightarrow> kv_error + 'v MapStore" where
  "MapStore_Delete s key ver = Inr (filter (\<lambda>p. fst p \<noteq> key) s)"

definition MapStore_Exists :: "'v MapStore \<Rightarrow> string \<Rightarrow> kv_error + bool" where
  "MapStore_Exists s key = Inr (map_of s key \<noteq> None)"

definition MapStore_Get :: "'v MapStore \<Rightarrow> string \<Rightarrow> kv_error + 'v Pair" where
  "MapStore_Get s key = (case map_of s key of None \<Rightarrow> Inl ErrNotExist | Some pair \<Rightarrow> Inr pair)"

fun GetAll_loop :: "string \<Rightarrow> 'v Pair list \<Rightarrow> kv_error + 'v Pair list" where
  "GetAll_loop pattern [] = Inr []"
| "GetAll_loop pattern (kv # kvs) =
     (case path_Match pattern (Key kv) of
        None \<Rightarrow> Inl ErrBadPattern
      | Some m \<Rightarrow> rbind (GetAll_loop pattern kvs) (\<lambda>ks. Inr (if m then kv # ks else ks)))"

definition MapStore_GetAll :: "'v MapStore \<Rightarrow> string \<Rightarrow> kv_error + 'v Pair list" where
  "MapStore_GetAll s pattern = rbind (GetAll_loop pattern (map snd s)) (\<lambda>ks. Inr (sort_key Key ks))"

text \<open>\<open>txt v\<close> is the string a value stands for.\<close>

definition MapStore_GetAllValues :: "('v \<Rightarrow> string) \<Rightarrow> 'v MapStore \<Rightarrow> string \<Rightarrow> kv_error + 'v list" where
  "MapStore_GetAllValues txt s pattern = rbind (MapStore_GetAll s pattern) (\<lambda>ks. Inr (sort_key txt (map Value ks)))"

definition MapStore_Set :: "'v MapStore \<Rightarrow> string \<Rightarrow> 'v \<Rightarrow> nat \<Rightarrow> kv_error + ('v Pair \<times> 'v MapStore)" where
  "MapStore_Set s key value ver =
     (let p = \<lparr>Key = key, Value = value, Ver = ver\<rparr> in Inr (p, alist_put key p s))"

text \<open>
  Listings by path. \<^verbatim>\<open>strings.Split\<close> at slashes, and \<^verbatim>\<open>path.Clean\<close>, \<^verbatim>\<open>path.Dir\<close> and
  \<^verbatim>\<open>path.Base\<close> of the Go library.
\<close>

fun split_slash :: "string \<Rightarrow> string list" where
  "split_slash [] = [[]]"
| "split_slash (c # cs) = (if c = CHR ''/'' then [] # split_slash cs else (case split_slash cs of t # ts \<Rightarrow> (c # t) # ts | [] \<Rightarrow> [[c]]))"

fun join_slash :: "string list \<Rightarrow> string" where
  "join_slash [] = []"
| "join_slash [t] = t"
| "join_slash (t # ts) = t @ ''/'' @ join_slash ts"

fun clean_terms :: "bool \<Rightarrow> string list \<Rightarrow> string list \<Rightarrow> string list" where
  "clean_terms rooted [] acc = rev acc"
| "clean_terms rooted (t # ts) acc =
     (if t = [] \<or> t = ''.'' then clean_terms rooted ts acc
      else if t = ''..'' then
        (case acc of
           [] \<Rightarrow> clean_terms rooted ts (if rooted then [] else [t])
         | a # as \<Rightarrow> clean_terms rooted ts (if a = ''..'' then t # acc else as))
      else clean_terms rooted ts (t # acc))"

definition path_Clean :: "string \<Rightarrow> string" where
  "path_Clean p =
     (let rooted = (p \<noteq> [] \<and> hd p = CHR ''/''); out = clean_terms rooted (split_slash p) [] in
      if rooted then ''/'' @ join_slash out else if out = [] then ''.'' else join_slash out)"

definition path_Dir :: "string \<Rightarrow> string" where
  "path_Dir p = path_Clean (rev (dropWhile (\<lambda>c. c \<noteq> CHR ''/'') (rev p)))"

definition path_Base :: "string \<Rightarrow> string" where
  "path_Base p =
     (if p = [] then ''.''
      else let q = rev (takeWhile (\<lambda>c. c \<noteq> CHR ''/'') (dropWhile (\<lambda>c. c = CHR ''/'') (rev p))) in if q = [] then ''/'' else q)"

definition TrimPrefix :: "string \<Rightarrow> string \<Rightarrow> string" where
  "TrimPrefix s pre = (if take (length pre) s = pre then drop (length pre) s else s)"

definition stripKey :: "string \<Rightarrow> string \<Rightarrow> string" where
  "stripKey key pre = TrimPrefix (TrimPrefix key pre) ''/''"

definition pathToTerms :: "string \<Rightarrow> string list" where
  "pathToTerms filePath = split_slash (path_Clean filePath)"

definition samePrefixTerms :: "string list \<Rightarrow> string list \<Rightarrow> bool" where
  "samePrefixTerms pre test = (\<not> length test < length pre \<and> (\<forall>i < length pre. pre ! i = test ! i))"

definition MapStore_List :: "'v MapStore \<Rightarrow> string \<Rightarrow> kv_error + string list" where
  "MapStore_List s filePath =
     (let pre = pathToTerms filePath;
          found = concat (map (\<lambda>kv.
            if Key kv = filePath then [path_Base (Key kv)]
            else if samePrefixTerms pre (pathToTerms (path_Dir (Key kv))) then [hd (split_slash (stripKey (Key kv) filePath))]
            else []) (map snd s))
      in Inr (sort (remdups found)))"

definition MapStore_ListDir :: "'v MapStore \<Rightarrow> string \<Rightarrow> kv_error + string list" where
  "MapStore_ListDir s filePath =
     (let pre = pathToTerms filePath;
          found = concat (map (\<lambda>kv.
            if take (length filePath) (Key kv) = filePath then
              (let items = pathToTerms (path_Dir (Key kv)) in
               if samePrefixTerms pre items \<and> length items \<ge> length pre + 1 then [items ! length pre] else [])
            else []) (map snd s))
      in Inr (sort (remdups found)))"

text \<open>
  The JSON object of the store, as its members; decoding starts from an empty map and the last member of
  a key wins.
\<close>

definition MapStore_MarshalJSON :: "'v MapStore \<Rightarrow> (string \<times> 'v Pair) list" where
  "MapStore_MarshalJSON s = s"

definition MapStore_UnmarshalJSON :: "(string \<times> 'v Pair) list \<Rightarrow> 'v MapStore" where
  "MapStore_UnmarshalJSON doc = fold (\<lambda>(k, p). alist_put k p) doc NewMapStore"

section \<open>The state machine\<close>

definition ResultCodeFailure :: nat where "ResultCodeFailure = 0"
definition ResultCodeSuccess :: nat where "ResultCodeSuccess = 1"
definition ResultCodeVersionMismatch :: nat where "ResultCodeVersionMismatch = 2"

record 'v kvUpdate =
  Op :: string
  KVPair :: "'v Pair"

text \<open>
  An entry carries the update its JSON text denotes, \<open>None\<close> when there is none, and its result: a
  code and the pair its data denotes.
\<close>

record 'v kvEntry =
  keIndex :: nat
  keCmd :: "'v kvUpdate option"
  keResult :: "(nat \<times> 'v Pair) option"

text \<open>The body of the loop: the result and the store after one update.\<close>

definition LFSM_apply :: "nat \<Rightarrow> 'v kvUpdate \<Rightarrow> 'v MapStore \<Rightarrow> kv_error + ((nat \<times> 'v Pair) \<times> 'v MapStore)" where
  "LFSM_apply idx update s =
     (case (case MapStore_Get s (Key (KVPair update)) of
              Inr v \<Rightarrow> if Ver v \<noteq> Ver (KVPair update) then Some v else None
            | Inl _ \<Rightarrow> None) of
        Some v \<Rightarrow> Inr ((ResultCodeVersionMismatch, v), s)
      | None \<Rightarrow>
          let update = update\<lparr>KVPair := (KVPair update)\<lparr>Ver := idx\<rparr>\<rparr>; p = KVPair update in
          rbind (if Op update = ''set'' then rbind (MapStore_Set s (Key p) (Value p) (Ver p)) (\<lambda>(_, s). Inr s)
                 else if Op update = ''delete'' then MapStore_Delete s (Key p) (Ver p)
                 else Inr s)
            (\<lambda>s. Inr ((ResultCodeSuccess, p), s)))"

fun LFSM_Update :: "'v MapStore \<Rightarrow> 'v kvEntry list \<Rightarrow> kv_error + ('v kvEntry list \<times> 'v MapStore)" where
  "LFSM_Update s [] = Inr ([], s)"
| "LFSM_Update s (ent # entries) =
     (case keCmd ent of
        None \<Rightarrow> Inl ErrInvalidEntry
      | Some update \<Rightarrow>
          rbind (LFSM_apply (keIndex ent) update s) (\<lambda>(res, s).
          rbind (LFSM_Update s entries) (\<lambda>(out, s).
            Inr (ent\<lparr>keResult := Some res\<rparr> # out, s))))"

datatype kv_query =
    QueryExist string
  | QueryKey string
  | QueryAll string
  | QueryAllValues string
  | QueryList string
  | QueryListDir string

datatype 'v kv_answer =
    ExistAnswer bool
  | KeyAnswer "'v Pair"
  | AllAnswer "'v Pair list"
  | ValuesAnswer "'v list"
  | ListAnswer "string list"

definition LFSM_Lookup :: "('v \<Rightarrow> string) \<Rightarrow> 'v MapStore \<Rightarrow> kv_query \<Rightarrow> kv_error + 'v kv_answer" where
  "LFSM_Lookup txt s e =
     (case e of
        QueryExist key \<Rightarrow> rbind (MapStore_Exists s key) (\<lambda>b. Inr (ExistAnswer b))
      | QueryKey key \<Rightarrow> rbind (MapStore_Get s key) (\<lambda>p. Inr (KeyAnswer p))
      | QueryAll pattern \<Rightarrow> rbind (MapStore_GetAll s pattern) (\<lambda>ps. Inr (AllAnswer ps))
      | QueryAllValues pattern \<Rightarrow> rbind (MapStore_GetAllValues txt s pattern) (\<lambda>vs. Inr (ValuesAnswer vs))
      | QueryList path \<Rightarrow> rbind (MapStore_List s path) (\<lambda>vs. Inr (ListAnswer vs))
      | QueryListDir path \<Rightarrow> rbind (MapStore_ListDir s path) (\<lambda>vs. Inr (ListAnswer vs)))"

text \<open>The snapshot of the store is its JSON object.\<close>

definition LFSM_PrepareSnapshot :: "'v MapStore \<Rightarrow> (string \<times> 'v Pair) list" where
  "LFSM_PrepareSnapshot s = MapStore_MarshalJSON s"

definition LFSM_SaveSnapshot :: "(string \<times> 'v Pair) list \<Rightarrow> (string \<times> 'v Pair) list" where
  "LFSM_SaveSnapshot ctx = ctx"

definition LFSM_RecoverFromSnapshot :: "'v MapStore \<Rightarrow> (string \<times> 'v Pair) list \<Rightarrow> 'v MapStore" where
  "LFSM_RecoverFromSnapshot s r = MapStore_UnmarshalJSON r"

section \<open>The client\<close>

text \<open>
  The Raft group of the store: \<^verbatim>\<open>SyncPropose\<close> of an update, which returns the result of the state
  machine or an error, and \<^verbatim>\<open>SyncRead\<close>. The type assertions on the answers cannot fail.
\<close>

record ('w, 'v) raft =
  rfPropose :: "'w \<Rightarrow> 'v kvUpdate \<Rightarrow> (string + (nat \<times> 'v Pair)) \<times> 'w"
  rfRead :: "'w \<Rightarrow> kv_query \<Rightarrow> kv_error + 'v kv_answer"

definition RaftStore_Delete :: "('w, 'v) raft \<Rightarrow> 'v \<Rightarrow> 'w \<Rightarrow> string \<Rightarrow> nat \<Rightarrow> (kv_error + unit) \<times> 'w" where
  "RaftStore_Delete R emptyValue w key ver =
     (case rfPropose R w \<lparr>Op = ''delete'', KVPair = \<lparr>Key = key, Value = emptyValue, Ver = ver\<rparr>\<rparr> of
        (Inl e, w) \<Rightarrow> (Inl (ErrRaft e), w)
      | (Inr (code, _), w) \<Rightarrow> (if code = ResultCodeVersionMismatch then Inl ErrVersionMismatch else Inr (), w))"

definition RaftStore_Set :: "('w, 'v) raft \<Rightarrow> 'w \<Rightarrow> string \<Rightarrow> 'v \<Rightarrow> nat \<Rightarrow> (kv_error + 'v Pair) \<times> 'w" where
  "RaftStore_Set R w key value ver =
     (case rfPropose R w \<lparr>Op = ''set'', KVPair = \<lparr>Key = key, Value = value, Ver = ver\<rparr>\<rparr> of
        (Inl e, w) \<Rightarrow> (Inl (ErrRaft e), w)
      | (Inr (code, pair), w) \<Rightarrow> (if code = ResultCodeVersionMismatch then Inl ErrVersionMismatch else Inr pair, w))"

definition RaftStore_Exists :: "('w, 'v) raft \<Rightarrow> 'w \<Rightarrow> string \<Rightarrow> kv_error + bool" where
  "RaftStore_Exists R w key =
     rbind (rfRead R w (QueryExist key)) (\<lambda>a. case a of ExistAnswer b \<Rightarrow> Inr b | _ \<Rightarrow> Inl ErrInvalidQuery)"

definition RaftStore_Get :: "('w, 'v) raft \<Rightarrow> 'w \<Rightarrow> string \<Rightarrow> kv_error + 'v Pair" where
  "RaftStore_Get R w key =
     rbind (rfRead R w (QueryKey key)) (\<lambda>a. case a of KeyAnswer p \<Rightarrow> Inr p | _ \<Rightarrow> Inl ErrInvalidQuery)"

definition RaftStore_GetAll :: "('w, 'v) raft \<Rightarrow> 'w \<Rightarrow> string \<Rightarrow> kv_error + 'v Pair list" where
  "RaftStore_GetAll R w pattern =
     rbind (rfRead R w (QueryAll pattern)) (\<lambda>a. case a of AllAnswer ps \<Rightarrow> Inr ps | _ \<Rightarrow> Inl ErrInvalidQuery)"

definition RaftStore_GetAllValues :: "('w, 'v) raft \<Rightarrow> 'w \<Rightarrow> string \<Rightarrow> kv_error + 'v list" where
  "RaftStore_GetAllValues R w pattern =
     rbind (rfRead R w (QueryAllValues pattern)) (\<lambda>a. case a of ValuesAnswer vs \<Rightarrow> Inr vs | _ \<Rightarrow> Inl ErrInvalidQuery)"

definition RaftStore_List :: "('w, 'v) raft \<Rightarrow> 'w \<Rightarrow> string \<Rightarrow> kv_error + string list" where
  "RaftStore_List R w filePath =
     rbind (rfRead R w (QueryList filePath)) (\<lambda>a. case a of ListAnswer vs \<Rightarrow> Inr vs | _ \<Rightarrow> Inl ErrInvalidQuery)"

definition RaftStore_ListDir :: "('w, 'v) raft \<Rightarrow> 'w \<Rightarrow> string \<Rightarrow> kv_error + string list" where
  "RaftStore_ListDir R w filePath =
     rbind (rfRead R w (QueryListDir filePath)) (\<lambda>a. case a of ListAnswer vs \<Rightarrow> Inr vs | _ \<Rightarrow> Inl ErrInvalidQuery)"

section \<open>The store keeps its invariant\<close>

text \<open>Keys are sorted, every pair is stored under its key, and versions are indexes already applied.\<close>

definition kv_ok :: "'v MapStore \<Rightarrow> nat \<Rightarrow> bool" where
  "kv_ok s i \<longleftrightarrow> sorted_keys s \<and> (\<forall>(k, p) \<in> set s. Key p = k \<and> 0 < Ver p \<and> Ver p \<le> i)"

lemma kv_ok_empty [simp]: "kv_ok NewMapStore i"
  by (simp add: kv_ok_def NewMapStore_def)

lemma snapshot_recovers:
  assumes "kv_ok s i"
  shows "LFSM_RecoverFromSnapshot s' (LFSM_SaveSnapshot (LFSM_PrepareSnapshot s)) = s"
proof -
  have gen: "map_of (fold (\<lambda>(k, p). alist_put k p) xs m) = map_of m ++ map_of (rev xs)" for xs and m :: "'a MapStore"
    by (induction xs arbitrary: m) (auto simp: map_of_alist_put fun_eq_iff map_add_def split: option.splits)
  have srt: "sorted_keys (fold (\<lambda>(k, p). alist_put k p) xs m)" if "sorted_keys m" for xs and m :: "'a MapStore"
    using that by (induction xs arbitrary: m) (auto simp: sorted_keys_alist_put)
  have s: "sorted_keys s" using assms by (simp add: kv_ok_def)
  have "map_of (rev s) = map_of s" using sorted_keys_distinct [OF s] map_of_inject_set [of "rev s" s] by (simp add: rev_map [symmetric])
  then show ?thesis
    using sorted_keys_map_of_inject [OF srt s, of "[]" s] gen [of s "[]"]
    by (simp add: LFSM_RecoverFromSnapshot_def LFSM_SaveSnapshot_def LFSM_PrepareSnapshot_def MapStore_UnmarshalJSON_def
        MapStore_MarshalJSON_def NewMapStore_def)
qed

lemma kv_ok_mono: "kv_ok s i \<Longrightarrow> i \<le> j \<Longrightarrow> kv_ok s j"
  by (fastforce simp: kv_ok_def)

lemma kv_ok_get: "kv_ok s i \<Longrightarrow> map_of s k = Some p \<Longrightarrow> Key p = k \<and> 0 < Ver p \<and> Ver p \<le> i"
  by (auto simp: kv_ok_def dest!: map_of_SomeD)

text \<open>
  What an applied update does: a stale version of an existing key changes nothing, otherwise the
  operation takes effect and the new version is the index.
\<close>

definition kv_effect :: "nat \<Rightarrow> 'v kvUpdate \<Rightarrow> 'v MapStore \<Rightarrow> 'v MapStore" where
  "kv_effect i u s =
     (let k = Key (KVPair u) in
      if Op u = ''set'' then alist_put k \<lparr>Key = k, Value = Value (KVPair u), Ver = i\<rparr> s
      else if Op u = ''delete'' then filter (\<lambda>p. fst p \<noteq> k) s else s)"

definition kv_stale :: "'v kvUpdate \<Rightarrow> 'v MapStore \<Rightarrow> bool" where
  "kv_stale u s \<longleftrightarrow> (case map_of s (Key (KVPair u)) of None \<Rightarrow> False | Some v \<Rightarrow> Ver v \<noteq> Ver (KVPair u))"

lemma LFSM_apply_eq:
  "LFSM_apply i u s =
     Inr (if kv_stale u s then ((ResultCodeVersionMismatch, the (map_of s (Key (KVPair u)))), s)
          else ((ResultCodeSuccess, (KVPair u)\<lparr>Ver := i\<rparr>), kv_effect i u s))"
proof -
  have eff: "(let update = u\<lparr>KVPair := (KVPair u)\<lparr>Ver := i\<rparr>\<rparr>; p = KVPair update in
          rbind (if Op update = ''set'' then rbind (MapStore_Set s (Key p) (Value p) (Ver p)) (\<lambda>(_, s). Inr s)
                 else if Op update = ''delete'' then MapStore_Delete s (Key p) (Ver p)
                 else Inr s)
            (\<lambda>s. Inr ((ResultCodeSuccess, p), s))) = Inr ((ResultCodeSuccess, (KVPair u)\<lparr>Ver := i\<rparr>), kv_effect i u s)"
    by (simp add: Let_def MapStore_Set_def MapStore_Delete_def kv_effect_def)
  show ?thesis unfolding LFSM_apply_def eff
    by (simp add: MapStore_Get_def kv_stale_def split: option.splits)
qed

lemma map_of_kv_effect:
  "map_of (kv_effect i u s) = (if Op u = ''set'' then (map_of s)(Key (KVPair u) \<mapsto> \<lparr>Key = Key (KVPair u), Value = Value (KVPair u), Ver = i\<rparr>)
     else if Op u = ''delete'' then (map_of s)(Key (KVPair u) := None) else map_of s)"
  by (simp add: kv_effect_def Let_def map_of_alist_put map_of_filter_keys [of "\<lambda>x. x \<noteq> Key (KVPair u)" s] fun_eq_iff)

lemma LFSM_apply_ok:
  assumes "kv_ok s j" and "j < i" and "LFSM_apply i u s = Inr (r, s')"
  shows "kv_ok s' i"
proof -
  have s: "kv_ok s i" using kv_ok_mono assms by (metis less_imp_le)
  have set: "kv_ok (alist_put k \<lparr>Key = k, Value = v, Ver = i\<rparr> s) i" for k v
  proof -
    have srt: "sorted_keys (alist_put k \<lparr>Key = k, Value = v, Ver = i\<rparr> s)"
      using s by (simp add: kv_ok_def sorted_keys_alist_put)
    have "Key p = x \<and> 0 < Ver p \<and> Ver p \<le> i" if "(x, p) \<in> set (alist_put k \<lparr>Key = k, Value = v, Ver = i\<rparr> s)" for x p
    proof -
      have "map_of (alist_put k \<lparr>Key = k, Value = v, Ver = i\<rparr> s) x = Some p"
        using that srt by (simp add: sorted_keys_distinct)
      then show ?thesis using kv_ok_get [OF s, of x p] assms(2) by (auto simp: map_of_alist_put split: if_splits)
    qed
    then show ?thesis using srt by (auto simp: kv_ok_def)
  qed
  have "kv_ok (filter (\<lambda>p. fst p \<noteq> k) s) i" for k
    using s by (auto simp: kv_ok_def sorted_keys_filter)
  with set s assms(3) show ?thesis
    by (auto simp: LFSM_apply_eq kv_effect_def Let_def split: if_splits)
qed

end
