(* ===== verification/Table_Manager.thy ===== *)
theory Table_Manager
  imports KV_Store
begin

text \<open>
  The table manager (\<^verbatim>\<open>storage/table/manager.go\<close>): leases, the sequence of cluster ids, creation,
  deletion and listing of tables, and the reconciliation of the running shards with the stored tables. The
  metadata store is used through the interface the manager declares; the node host is a parameter.
  Times, ids and versions are natural numbers.
\<close>

section \<open>Documents\<close>

text \<open>
  The JSON documents the manager stores, in place of their texts. A field that is missing keeps its
  zero value, a field of another type is an error, unknown fields are ignored.
\<close>

datatype json = JNum nat | JStr string | JTime nat | JObj "(string \<times> json) list"

datatype mgr_error =
    MKv kv_error
  | MJson
  | MParse
  | ErrTableExists
  | ErrTableNotFound
  | ErrLeaseNotAcquired
  | MHost string

definition numField :: "(string \<times> json) list \<Rightarrow> string \<Rightarrow> mgr_error + nat" where
  "numField fs n = (case map_of fs n of None \<Rightarrow> Inr 0 | Some (JNum x) \<Rightarrow> if x < 2 ^ 64 then Inr x else Inl MJson | Some _ \<Rightarrow> Inl MJson)"

definition strField :: "(string \<times> json) list \<Rightarrow> string \<Rightarrow> mgr_error + string" where
  "strField fs n = (case map_of fs n of None \<Rightarrow> Inr [] | Some (JStr x) \<Rightarrow> Inr x | Some _ \<Rightarrow> Inl MJson)"

definition timeField :: "(string \<times> json) list \<Rightarrow> string \<Rightarrow> mgr_error + nat" where
  "timeField fs n = (case map_of fs n of None \<Rightarrow> Inr 0 | Some (JTime x) \<Rightarrow> Inr x | Some _ \<Rightarrow> Inl MJson)"

fun objFields :: "json \<Rightarrow> mgr_error + (string \<times> json) list" where
  "objFields (JObj fs) = Inr fs"
| "objFields _ = Inl MJson"

record Lease =
  leID :: nat
  leUntil :: nat

record Table =
  tbName :: string
  tbClusterID :: nat
  tbRecoverID :: nat

record Cleanup =
  clCreated :: nat
  clClusterID :: nat
  clSMDataPath :: string

definition emptyTable :: Table where
  "emptyTable = \<lparr>tbName = [], tbClusterID = 0, tbRecoverID = 0\<rparr>"

definition Lease_Marshal :: "Lease \<Rightarrow> json" where
  "Lease_Marshal l = JObj [(''id'', JNum (leID l)), (''until'', JTime (leUntil l))]"

definition Lease_Unmarshal :: "json \<Rightarrow> mgr_error + Lease" where
  "Lease_Unmarshal j =
     rbind (objFields j) (\<lambda>fs. rbind (numField fs ''id'') (\<lambda>i. rbind (timeField fs ''until'') (\<lambda>u.
       Inr \<lparr>leID = i, leUntil = u\<rparr>)))"

definition Table_Marshal :: "Table \<Rightarrow> json" where
  "Table_Marshal t = JObj [(''name'', JStr (tbName t)), (''cluster_id'', JNum (tbClusterID t)), (''recover_id'', JNum (tbRecoverID t))]"

definition Table_Unmarshal :: "json \<Rightarrow> mgr_error + Table" where
  "Table_Unmarshal j =
     rbind (objFields j) (\<lambda>fs. rbind (strField fs ''name'') (\<lambda>n. rbind (numField fs ''cluster_id'') (\<lambda>c.
     rbind (numField fs ''recover_id'') (\<lambda>r. Inr \<lparr>tbName = n, tbClusterID = c, tbRecoverID = r\<rparr>))))"

definition Cleanup_Marshal :: "Cleanup \<Rightarrow> json" where
  "Cleanup_Marshal c = JObj [(''created'', JTime (clCreated c)), (''cluster_id'', JNum (clClusterID c)), (''sm_data_path'', JStr (clSMDataPath c))]"

definition Cleanup_Unmarshal :: "json \<Rightarrow> mgr_error + Cleanup" where
  "Cleanup_Unmarshal j =
     rbind (objFields j) (\<lambda>fs. rbind (timeField fs ''created'') (\<lambda>t. rbind (numField fs ''cluster_id'') (\<lambda>c.
     rbind (strField fs ''sm_data_path'') (\<lambda>p. Inr \<lparr>clCreated = t, clClusterID = c, clSMDataPath = p\<rparr>))))"

text \<open>A decimal text is the document of its number; \<^verbatim>\<open>strconv.ParseUint\<close> refuses what does not fit.\<close>

definition FormatUint :: "nat \<Rightarrow> json" where
  "FormatUint n = JNum n"

definition ParseUint :: "json \<Rightarrow> mgr_error + nat" where
  "ParseUint j = (case j of JNum n \<Rightarrow> if n < 2 ^ 64 then Inr n else Inl MParse | _ \<Rightarrow> Inl MParse)"

section \<open>The store the manager uses\<close>

record 'w store =
  stExists :: "'w \<Rightarrow> string \<Rightarrow> kv_error + bool"
  stSet :: "'w \<Rightarrow> string \<Rightarrow> json \<Rightarrow> nat \<Rightarrow> (kv_error + json Pair) \<times> 'w"
  stDelete :: "'w \<Rightarrow> string \<Rightarrow> nat \<Rightarrow> (kv_error + unit) \<times> 'w"
  stGet :: "'w \<Rightarrow> string \<Rightarrow> kv_error + json Pair"
  stGetAll :: "'w \<Rightarrow> string \<Rightarrow> kv_error + json Pair list"

definition raft_store :: "('w, json) raft \<Rightarrow> 'w store" where
  "raft_store R = \<lparr>stExists = RaftStore_Exists R, stSet = RaftStore_Set R, stDelete = RaftStore_Delete R (JStr []),
     stGet = RaftStore_Get R, stGetAll = RaftStore_GetAll R\<rparr>"

fun liftKv :: "(kv_error + 'a) \<times> 'w \<Rightarrow> (mgr_error + 'a) \<times> 'w" where
  "liftKv (Inl e, w) = (Inl (MKv e), w)"
| "liftKv (Inr x, w) = (Inr x, w)"

text \<open>Sequencing of calls that change the world.\<close>

fun wbind :: "('e + 'a) \<times> 'w \<Rightarrow> ('a \<Rightarrow> 'w \<Rightarrow> ('e + 'b) \<times> 'w) \<Rightarrow> ('e + 'b) \<times> 'w" where
  "wbind (Inl e, w) f = (Inl e, w)"
| "wbind (Inr x, w) f = f x w"

section \<open>Leases\<close>

definition keyPrefix :: string where "keyPrefix = ''/tables/''"
definition sequenceKey :: string where "sequenceKey = keyPrefix @ ''sys/idseq''"
definition tableIDsRangeStart :: nat where "tableIDsRangeStart = 10000"

definition storedTableName :: "string \<Rightarrow> string" where
  "storedTableName name = keyPrefix @ name"

definition leaseKey :: "string \<Rightarrow> string" where
  "leaseKey name = storedTableName name @ ''/lease''"

text \<open>
  What \<^verbatim>\<open>LeaseTable\<close> decides between reading and writing: the lease to write and the version it
  replaces. \<open>now\<close> and \<open>now'\<close> are its two readings of the clock.
\<close>

definition leaseDecide :: "nat \<Rightarrow> nat \<Rightarrow> nat \<Rightarrow> nat \<Rightarrow> kv_error + json Pair \<Rightarrow> mgr_error + (Lease \<times> nat)" where
  "leaseDecide nodeID now now' lease got =
     (case got of
        Inl e \<Rightarrow> if e = ErrNotExist then Inr (\<lparr>leID = nodeID, leUntil = now' + lease\<rparr>, 0) else Inl (MKv e)
      | Inr p \<Rightarrow>
          rbind (Lease_Unmarshal (Value p)) (\<lambda>l.
            if leID l = nodeID \<or> leUntil l < now then Inr (\<lparr>leID = nodeID, leUntil = now' + lease\<rparr>, Ver p)
            else Inl ErrLeaseNotAcquired))"

definition LeaseTable :: "'w store \<Rightarrow> nat \<Rightarrow> nat \<Rightarrow> nat \<Rightarrow> string \<Rightarrow> nat \<Rightarrow> 'w \<Rightarrow> (mgr_error + unit) \<times> 'w" where
  "LeaseTable S nodeID now now' name lease w =
     (case leaseDecide nodeID now now' lease (stGet S w (leaseKey name)) of
        Inl e \<Rightarrow> (Inl e, w)
      | Inr (l, ver) \<Rightarrow> wbind (liftKv (stSet S w (leaseKey name) (Lease_Marshal l) ver)) (\<lambda>_ w. (Inr (), w)))"

text \<open>What \<^verbatim>\<open>ReturnTable\<close> decides: the version to delete, or nothing to return.\<close>

definition returnDecide :: "nat \<Rightarrow> kv_error + json Pair \<Rightarrow> mgr_error + nat option" where
  "returnDecide nodeID got =
     (case got of
        Inl e \<Rightarrow> if e = ErrNotExist then Inr None else Inl (MKv e)
      | Inr p \<Rightarrow>
          rbind (Lease_Unmarshal (Value p)) (\<lambda>l. Inr (if leID l \<noteq> nodeID then None else Some (Ver p))))"

definition ReturnTable :: "'w store \<Rightarrow> nat \<Rightarrow> string \<Rightarrow> 'w \<Rightarrow> (mgr_error + bool) \<times> 'w" where
  "ReturnTable S nodeID name w =
     (case returnDecide nodeID (stGet S w (leaseKey name)) of
        Inl e \<Rightarrow> (Inl e, w)
      | Inr None \<Rightarrow> (Inr False, w)
      | Inr (Some ver) \<Rightarrow> wbind (liftKv (stDelete S w (leaseKey name) ver)) (\<lambda>_ w. (Inr True, w)))"

section \<open>Ids and tables\<close>

text \<open>What \<^verbatim>\<open>incAndGetIDSeq\<close> decides: the next id and the version it replaces.\<close>

definition seqDecide :: "kv_error + json Pair \<Rightarrow> mgr_error + (nat \<times> nat)" where
  "seqDecide got =
     rbind (case got of
              Inl e \<Rightarrow> if e = ErrNotExist then Inr \<lparr>Key = sequenceKey, Value = FormatUint tableIDsRangeStart, Ver = 0\<rparr>
                       else Inl (MKv e)
            | Inr p \<Rightarrow> Inr p) (\<lambda>seq.
     rbind (ParseUint (Value seq)) (\<lambda>currSeq. Inr ((currSeq + 1) mod 2 ^ 64, Ver seq)))"

definition seqKey :: "kv_error + json Pair \<Rightarrow> string" where
  "seqKey got = (case got of Inl _ \<Rightarrow> sequenceKey | Inr seq \<Rightarrow> Key seq)"

definition incAndGetIDSeq :: "'w store \<Rightarrow> 'w \<Rightarrow> (mgr_error + nat) \<times> 'w" where
  "incAndGetIDSeq S w =
     (case seqDecide (stGet S w sequenceKey) of
        Inl e \<Rightarrow> (Inl e, w)
      | Inr (nxt, ver) \<Rightarrow>
          wbind (liftKv (stSet S w (seqKey (stGet S w sequenceKey)) (FormatUint nxt) ver)) (\<lambda>_ w. (Inr nxt, w)))"

definition getTableVersion :: "'w store \<Rightarrow> 'w \<Rightarrow> string \<Rightarrow> mgr_error + (Table \<times> nat)" where
  "getTableVersion S w name =
     (case stGet S w (storedTableName name) of
        Inl e \<Rightarrow> if e = ErrNotExist then Inl ErrTableNotFound else Inl (MKv e)
      | Inr v \<Rightarrow> rbind (Table_Unmarshal (Value v)) (\<lambda>tab. Inr (tab, Ver v)))"

definition setTableVersion :: "'w store \<Rightarrow> 'w \<Rightarrow> Table \<Rightarrow> nat \<Rightarrow> (mgr_error + unit) \<times> 'w" where
  "setTableVersion S w tbl version =
     wbind (liftKv (stSet S w (storedTableName (tbName tbl)) (Table_Marshal tbl) version)) (\<lambda>_ w. (Inr (), w))"

definition createTable :: "'w store \<Rightarrow> 'w \<Rightarrow> string \<Rightarrow> (mgr_error + Table) \<times> 'w" where
  "createTable S w name =
     (case stExists S w (storedTableName name) of
        Inl e \<Rightarrow> (Inl (MKv e), w)
      | Inr exists \<Rightarrow>
          if exists then (Inl ErrTableExists, w)
          else wbind (incAndGetIDSeq S w) (\<lambda>seq w.
            let tab = \<lparr>tbName = name, tbClusterID = seq, tbRecoverID = 0\<rparr> in
            (case setTableVersion S w tab 0 of
               (Inl e, w) \<Rightarrow> (Inl (if e = MKv ErrVersionMismatch then ErrTableExists else e), w)
             | (Inr _, w) \<Rightarrow> (Inr tab, w))))"

definition DeleteTable :: "'w store \<Rightarrow> 'w \<Rightarrow> string \<Rightarrow> (mgr_error + unit) \<times> 'w" where
  "DeleteTable S w name =
     (case stGet S w (storedTableName name) of
        Inl e \<Rightarrow> (Inl (MKv e), w)
      | Inr tab \<Rightarrow> liftKv (stDelete S w (storedTableName name) (Ver tab)))"

text \<open>The map of tables by name, as a sorted list.\<close>

fun getTables_loop :: "json Pair list \<Rightarrow> (string \<times> Table) list \<Rightarrow> mgr_error + (string \<times> Table) list" where
  "getTables_loop [] tables = Inr tables"
| "getTables_loop (v # vs) tables =
     rbind (Table_Unmarshal (Value v)) (\<lambda>tab. getTables_loop vs (alist_put (tbName tab) tab tables))"

definition getTables :: "'w store \<Rightarrow> 'w \<Rightarrow> mgr_error + (string \<times> Table) list" where
  "getTables S w =
     (case stGetAll S w (keyPrefix @ ''*'') of
        Inl e \<Rightarrow> Inl (MKv e)
      | Inr vs \<Rightarrow> getTables_loop vs [])"

definition GetTableByID :: "'w store \<Rightarrow> 'w \<Rightarrow> nat \<Rightarrow> mgr_error + Table" where
  "GetTableByID S w i =
     rbind (getTables S w) (\<lambda>tables.
       case find (\<lambda>t. tbClusterID t = i) (map snd tables) of None \<Rightarrow> Inl ErrTableNotFound | Some t \<Rightarrow> Inr t)"

definition GetTables :: "'w store \<Rightarrow> 'w \<Rightarrow> mgr_error + Table list" where
  "GetTables S w = rbind (getTables S w) (\<lambda>tables. Inr (map snd tables))"

section \<open>Reconciliation\<close>

text \<open>\<open>raftInfo\<close> are the ids of the running shards; a map with number keys is a sorted list.\<close>

definition diff_ids :: "Table list \<Rightarrow> (nat \<times> Table) list" where
  "diff_ids tables =
     fold (\<lambda>t m.
       let m = (if tbClusterID t \<noteq> 0 then alist_put (tbClusterID t) t m else m)
       in if tbRecoverID t \<noteq> 0 then alist_put (tbRecoverID t) t m else m) tables []"

definition diffTables :: "Table list \<Rightarrow> nat list \<Rightarrow> (nat \<times> Table) list \<times> nat list" where
  "diffTables tables raftInfo =
     (let tableIDs = diff_ids tables; raftTableIDs = remdups raftInfo in
      (filter (\<lambda>(tID, _). tID \<notin> set raftTableIDs \<and> tID > tableIDsRangeStart) tableIDs,
       filter (\<lambda>rID. map_of tableIDs rID = None \<and> rID > tableIDsRangeStart) raftTableIDs))"

text \<open>
  The node host and the file system: \<open>nhStart w first name id\<close> is \<^verbatim>\<open>StartOnDiskReplica\<close> with the
  initial members when the node has no data of the shard.
\<close>

record 'w nodehost =
  nhHasNodeInfo :: "'w \<Rightarrow> nat \<Rightarrow> bool"
  nhStart :: "'w \<Rightarrow> bool \<Rightarrow> string \<Rightarrow> nat \<Rightarrow> (string + unit) \<times> 'w"
  nhStopShard :: "'w \<Rightarrow> nat \<Rightarrow> (string + unit) \<times> 'w"
  nhPath :: "'w \<Rightarrow> nat \<Rightarrow> string + string"
  nhShards :: "'w \<Rightarrow> nat list option"
  nhRemoveData :: "'w \<Rightarrow> nat \<Rightarrow> (string + unit) \<times> 'w"
  fsRemoveAll :: "'w \<Rightarrow> string \<Rightarrow> (string + unit) \<times> 'w"

fun liftHost :: "(string + 'a) \<times> 'w \<Rightarrow> (mgr_error + 'a) \<times> 'w" where
  "liftHost (Inl e, w) = (Inl (MHost e), w)"
| "liftHost (Inr x, w) = (Inr x, w)"

text \<open>A manager: its node, its clock reading and its cache of tables by name.\<close>

record Manager =
  mgNodeID :: nat
  mgGracePeriod :: nat
  mgCache :: "(string \<times> Table) list"

definition startTable :: "'w nodehost \<Rightarrow> 'w \<Rightarrow> string \<Rightarrow> nat \<Rightarrow> (mgr_error + unit) \<times> 'w" where
  "startTable H w name i =
     (if nhHasNodeInfo H w i then liftHost (nhStart H w False name i) else liftHost (nhStart H w True name i))"

definition CreateTable :: "'w store \<Rightarrow> 'w nodehost \<Rightarrow> 'w \<Rightarrow> string \<Rightarrow> (mgr_error + unit) \<times> 'w" where
  "CreateTable S H w name = wbind (createTable S w name) (\<lambda>created w. startTable H w (tbName created) (tbClusterID created))"

definition GetTable :: "'w store \<Rightarrow> Manager \<Rightarrow> 'w \<Rightarrow> string \<Rightarrow> mgr_error + Table" where
  "GetTable S m w name =
     (case map_of (mgCache m) name of
        Some t \<Rightarrow> Inr t
      | None \<Rightarrow> rbind (getTableVersion S w name) (\<lambda>(tab, _). Inr tab))"

definition cacheTable :: "Manager \<Rightarrow> Table \<Rightarrow> Manager" where
  "cacheTable m tbl = m\<lparr>mgCache := alist_put (tbName tbl) tbl (mgCache m)\<rparr>"

definition clearTable :: "Manager \<Rightarrow> nat \<Rightarrow> Manager" where
  "clearTable m clusterID = m\<lparr>mgCache := filter (\<lambda>(name, t). tbClusterID t \<noteq> clusterID) (mgCache m)\<rparr>"

text \<open>\<open>nameBytes\<close> are the bytes of a string.\<close>

definition nameBytes :: "string \<Rightarrow> bytes" where
  "nameBytes s = map (\<lambda>c. of_nat (of_char c)) s"

text \<open>Decimal digits of the ids in a key.\<close>

fun decimal :: "nat \<Rightarrow> string" where
  "decimal n = (if n < 10 then [char_of (48 + n)] else decimal (n div 10) @ [char_of (48 + n mod 10)])"

definition cleanupKey :: "nat \<Rightarrow> nat \<Rightarrow> string" where
  "cleanupKey nodeID clusterID = ''/cleanup/'' @ decimal nodeID @ ''/'' @ decimal clusterID"

definition stopTable :: "'w store \<Rightarrow> 'w nodehost \<Rightarrow> Manager \<Rightarrow> nat \<Rightarrow> 'w \<Rightarrow> nat \<Rightarrow> (mgr_error + unit) \<times> 'w" where
  "stopTable S H m now w clusterID =
     (case nhPath H w clusterID of
        Inl e \<Rightarrow> (Inl (MHost e), w)
      | Inr path \<Rightarrow>
          let b = Cleanup_Marshal \<lparr>clCreated = now, clClusterID = clusterID, clSMDataPath = path\<rparr>;
              key = cleanupKey (mgNodeID m) clusterID in
          (case (case stGet S w key of Inr c \<Rightarrow> Inr (Ver c) | Inl e \<Rightarrow> if e = ErrNotExist then Inr 0 else Inl (MKv e)) of
             Inl e \<Rightarrow> (Inl e, w)
           | Inr ver \<Rightarrow>
               wbind (liftKv (stSet S w key b ver)) (\<lambda>_ w. liftHost (nhStopShard H w clusterID))))"

text \<open>The two loops of \<^verbatim>\<open>reconcile\<close>; the first error ends them.\<close>

fun startTables :: "'w nodehost \<Rightarrow> (nat \<times> Table) list \<Rightarrow> Manager \<Rightarrow> 'w \<Rightarrow> (mgr_error + Manager) \<times> 'w" where
  "startTables H [] m w = (Inr m, w)"
| "startTables H ((i, tbl) # ts) m w =
     wbind (startTable H w (tbName tbl) i) (\<lambda>_ w. startTables H ts (cacheTable m tbl) w)"

fun stopTables :: "'w store \<Rightarrow> 'w nodehost \<Rightarrow> nat \<Rightarrow> nat list \<Rightarrow> Manager \<Rightarrow> 'w \<Rightarrow> (mgr_error + Manager) \<times> 'w" where
  "stopTables S H now [] m w = (Inr m, w)"
| "stopTables S H now (i # is) m w =
     wbind (stopTable S H m now w i) (\<lambda>_ w. stopTables S H now is (clearTable m i) w)"

definition reconcile :: "'w store \<Rightarrow> 'w nodehost \<Rightarrow> nat \<Rightarrow> Manager \<Rightarrow> 'w \<Rightarrow> (mgr_error + Manager) \<times> 'w" where
  "reconcile S H now m w =
     (case getTables S w of
        Inl e \<Rightarrow> (Inl e, w)
      | Inr tabs \<Rightarrow>
          (case nhShards H w of
             None \<Rightarrow> (Inl (MHost ''nodehost info unavailable''), w)
           | Some shards \<Rightarrow>
               let m = fold (\<lambda>t m. cacheTable m t) (map snd tabs) m;
                   (start, stop) = diffTables (map snd tabs) shards in
               wbind (startTables H start m w) (\<lambda>m w. stopTables S H now stop m w)))"

fun cleanup_loop :: "'w store \<Rightarrow> 'w nodehost \<Rightarrow> nat \<Rightarrow> Manager \<Rightarrow> json Pair list \<Rightarrow> 'w \<Rightarrow> (mgr_error + unit) \<times> 'w" where
  "cleanup_loop S H now m [] w = (Inr (), w)"
| "cleanup_loop S H now m (l # ls) w =
     (case Cleanup_Unmarshal (Value l) of
        Inl e \<Rightarrow> (Inl e, w)
      | Inr c \<Rightarrow>
          if clCreated c + mgGracePeriod m < now then
            (if GetTableByID S w (clClusterID c) \<noteq> Inl ErrTableNotFound then liftKv (stDelete S w (Key l) (Ver l))
             else
               wbind (liftHost (nhRemoveData H w (clClusterID c))) (\<lambda>_ w.
               wbind (liftHost (fsRemoveAll H w (clSMDataPath c))) (\<lambda>_ w.
               wbind (liftKv (stDelete S w (Key l) (Ver l))) (\<lambda>_ w.
                 cleanup_loop S H now m ls w))))
          else cleanup_loop S H now m ls w)"

definition cleanup :: "'w store \<Rightarrow> 'w nodehost \<Rightarrow> nat \<Rightarrow> Manager \<Rightarrow> 'w \<Rightarrow> (mgr_error + unit) \<times> 'w" where
  "cleanup S H now m w =
     (case stGetAll S w (''/cleanup/'' @ decimal (mgNodeID m) @ ''/*'') of
        Inl e \<Rightarrow> (Inl (MKv e), w)
      | Inr ls \<Rightarrow> cleanup_loop S H now m ls w)"

end
