(* ===== verification/Lease_Protocol.thy ===== *)
theory Lease_Protocol
  imports Table_Manager
begin

text \<open>
  Leases under interleaving. The nodes of a cluster lease one table by reading the lease, deciding
  and writing it back with the version they read; between these steps other nodes, other keys and
  the clock move. The system's steps use the decisions of \<^verbatim>\<open>LeaseTable\<close> and \<^verbatim>\<open>ReturnTable\<close> and the
  state machine's update; a write may succeed without its caller learning of it.
\<close>

section \<open>Round trips of documents\<close>

lemma Lease_roundtrip: "leID l < 2 ^ 64 \<Longrightarrow> Lease_Unmarshal (Lease_Marshal l) = Inr l"
  by (simp add: Lease_Unmarshal_def Lease_Marshal_def numField_def timeField_def)

lemma Table_roundtrip:
  "tbClusterID t < 2 ^ 64 \<Longrightarrow> tbRecoverID t < 2 ^ 64 \<Longrightarrow> Table_Unmarshal (Table_Marshal t) = Inr t"
  by (simp add: Table_Unmarshal_def Table_Marshal_def numField_def strField_def)

section \<open>The system\<close>

datatype lease_pend =
    LeaseRead nat "json Pair option"
  | LeaseWrite nat "json Pair option" Lease nat
  | ReturnWrite nat "json Pair option" nat

text \<open>\<open>lsHeld n\<close> is the time until which node \<open>n\<close> takes itself to hold the lease.\<close>

record lease_sys =
  lsIndex :: nat
  lsStore :: "json MapStore"
  lsNow :: nat
  lsPend :: "lease_pend set"
  lsHeld :: "nat \<Rightarrow> nat option"

definition got :: "json Pair option \<Rightarrow> kv_error + json Pair" where
  "got r = (case r of None \<Rightarrow> Inl ErrNotExist | Some p \<Rightarrow> Inr p)"

abbreviation setUpdate :: "string \<Rightarrow> json \<Rightarrow> nat \<Rightarrow> json kvUpdate" where
  "setUpdate k v ver \<equiv> \<lparr>Op = ''set'', KVPair = \<lparr>Key = k, Value = v, Ver = ver\<rparr>\<rparr>"

abbreviation deleteUpdate :: "string \<Rightarrow> nat \<Rightarrow> json kvUpdate" where
  "deleteUpdate k ver \<equiv> \<lparr>Op = ''delete'', KVPair = \<lparr>Key = k, Value = JStr [], Ver = ver\<rparr>\<rparr>"

inductive lease_step :: "(nat \<Rightarrow> nat) \<Rightarrow> string \<Rightarrow> lease_sys \<Rightarrow> lease_sys \<Rightarrow> bool" for dur k where
  tick: "lsNow s \<le> t \<Longrightarrow> lease_step dur k s (s\<lparr>lsNow := t\<rparr>)"
| other: "lsIndex s < i \<Longrightarrow> Key (KVPair u) \<noteq> k \<Longrightarrow> LFSM_apply i u (lsStore s) = Inr (res, st) \<Longrightarrow>
    lease_step dur k s (s\<lparr>lsIndex := i, lsStore := st\<rparr>)"
| lost: "lease_step dur k s (s\<lparr>lsPend := lsPend s - {x}\<rparr>)"
| begin_lease: "n < 2 ^ 64 \<Longrightarrow> lease_step dur k s (s\<lparr>lsPend := insert (LeaseRead n (map_of (lsStore s) k)) (lsPend s)\<rparr>)"
| decide_lease: "LeaseRead n r \<in> lsPend s \<Longrightarrow> n < 2 ^ 64 \<Longrightarrow> lsNow s \<le> t \<Longrightarrow>
    leaseDecide n (lsNow s) t (dur n) (got r) = Inr (l, ver) \<Longrightarrow>
    lease_step dur k s (s\<lparr>lsNow := t, lsPend := insert (LeaseWrite n r l ver) (lsPend s - {LeaseRead n r})\<rparr>)"
| commit_lease: "LeaseWrite n r l ver \<in> lsPend s \<Longrightarrow> lsIndex s < i \<Longrightarrow>
    LFSM_apply i (setUpdate k (Lease_Marshal l) ver) (lsStore s) = Inr ((code, p), st) \<Longrightarrow>
    lease_step dur k s (s\<lparr>lsIndex := i, lsStore := st, lsPend := lsPend s - {LeaseWrite n r l ver},
      lsHeld := (if code = ResultCodeSuccess \<and> reported then (lsHeld s)(n := Some (leUntil l)) else lsHeld s)\<rparr>)"
| begin_return: "returnDecide n (got (map_of (lsStore s) k)) = Inr (Some ver) \<Longrightarrow>
    lease_step dur k s (s\<lparr>lsPend := insert (ReturnWrite n (map_of (lsStore s) k) ver) (lsPend s), lsHeld := (lsHeld s)(n := None)\<rparr>)"
| commit_return: "ReturnWrite n r ver \<in> lsPend s \<Longrightarrow> lsIndex s < i \<Longrightarrow>
    LFSM_apply i (deleteUpdate k ver) (lsStore s) = Inr (res, st) \<Longrightarrow>
    lease_step dur k s (s\<lparr>lsIndex := i, lsStore := st, lsPend := lsPend s - {ReturnWrite n r ver}\<rparr>)"

inductive lease_reach :: "(nat \<Rightarrow> nat) \<Rightarrow> string \<Rightarrow> lease_sys \<Rightarrow> bool" for dur k where
  start: "kv_ok st i \<Longrightarrow> map_of st k = None \<Longrightarrow>
    lease_reach dur k \<lparr>lsIndex = i, lsStore = st, lsNow = t, lsPend = {}, lsHeld = \<lambda>_. None\<rparr>"
| step: "lease_reach dur k s \<Longrightarrow> lease_step dur k s s' \<Longrightarrow> lease_reach dur k s'"

section \<open>The invariant\<close>

text \<open>A pair read earlier is the stored one whenever the versions agree.\<close>

definition read_ok :: "nat \<Rightarrow> json Pair option \<Rightarrow> json Pair option \<Rightarrow> bool" where
  "read_ok idx cur r \<longleftrightarrow> (\<forall>p. r = Some p \<longrightarrow> Ver p \<le> idx \<and> (\<forall>q. cur = Some q \<and> Ver q = Ver p \<longrightarrow> p = q))"

fun pend_ok :: "(nat \<Rightarrow> nat) \<Rightarrow> nat \<Rightarrow> nat \<Rightarrow> json Pair option \<Rightarrow> (nat \<Rightarrow> nat option) \<Rightarrow> lease_pend \<Rightarrow> bool" where
  "pend_ok dur idx now cur held (LeaseRead n r) \<longleftrightarrow> read_ok idx cur r \<and>
     (\<forall>p. r = Some p \<longrightarrow> (\<exists>l0. Value p = Lease_Marshal l0 \<and> leID l0 < 2 ^ 64 \<and> leUntil l0 \<le> now + dur (leID l0)))"
| "pend_ok dur idx now cur held (LeaseWrite n r l ver) \<longleftrightarrow> read_ok idx cur r \<and> leID l = n \<and> n < 2 ^ 64 \<and> leUntil l \<le> now + dur n \<and>
     (case r of None \<Rightarrow> ver = 0
      | Some p \<Rightarrow> ver = Ver p \<and> (\<exists>l0. Value p = Lease_Marshal l0 \<and> leID l0 < 2 ^ 64
          \<and> (leID l0 = n \<and> leUntil l0 \<le> leUntil l \<or> leUntil l0 < now)))"
| "pend_ok dur idx now cur held (ReturnWrite n r ver) \<longleftrightarrow> read_ok idx cur r \<and>
     (\<exists>p. r = Some p \<and> ver = Ver p \<and> (\<exists>l0. Value p = Lease_Marshal l0 \<and> leID l0 = n))
     \<and> (\<forall>q. cur = Some q \<and> Ver q = ver \<longrightarrow> held n = None)"

definition lease_inv :: "(nat \<Rightarrow> nat) \<Rightarrow> string \<Rightarrow> lease_sys \<Rightarrow> bool" where
  "lease_inv dur k s \<longleftrightarrow> kv_ok (lsStore s) (lsIndex s)
     \<and> (\<forall>x \<in> lsPend s. pend_ok dur (lsIndex s) (lsNow s) (map_of (lsStore s) k) (lsHeld s) x)
     \<and> (\<forall>q. map_of (lsStore s) k = Some q \<longrightarrow>
          (\<exists>l0. Value q = Lease_Marshal l0 \<and> leID l0 < 2 ^ 64 \<and> leUntil l0 \<le> lsNow s + dur (leID l0)))
     \<and> (\<forall>n u. lsHeld s n = Some u \<longrightarrow> lsNow s \<le> u \<longrightarrow>
          (\<exists>q l0. map_of (lsStore s) k = Some q \<and> Value q = Lease_Marshal l0 \<and> leID l0 = n \<and> u \<le> leUntil l0))"

lemma Lease_Marshal_inject [simp]: "Lease_Marshal l = Lease_Marshal l' \<longleftrightarrow> l = l'"
  by (cases l; cases l') (simp add: Lease_Marshal_def)

text \<open>Later clocks and indexes keep what is pending.\<close>

lemma read_ok_mono: "read_ok idx cur r \<Longrightarrow> idx \<le> idx' \<Longrightarrow> read_ok idx' cur r"
  by (cases r) (auto simp: read_ok_def)

lemma read_ok_write: "read_ok idx cur r \<Longrightarrow> idx < i \<Longrightarrow> (\<forall>q. cur' = Some q \<longrightarrow> Ver q = i) \<Longrightarrow> read_ok i cur' r"
  by (cases r) (auto simp: read_ok_def)

lemma read_ok_current: "kv_ok st idx \<Longrightarrow> read_ok idx (map_of st k) (map_of st k)"
  by (auto simp: read_ok_def dest: kv_ok_get)

lemma pend_ok_mono:
  assumes "pend_ok dur idx now cur held x" and "idx \<le> idx'" and "now \<le> now'"
  shows "pend_ok dur idx' now' cur held x"
proof (cases x)
  case (LeaseRead n r)
  have "read_ok idx' cur r" using assms(1) LeaseRead read_ok_mono [OF _ assms(2), of cur r] by simp
  then show ?thesis using assms(1,3) LeaseRead by (cases r) (auto intro: le_trans)
next
  case (LeaseWrite n r l ver)
  have "read_ok idx' cur r" using assms(1) LeaseWrite read_ok_mono [OF _ assms(2), of cur r] by simp
  then show ?thesis using assms(1,3) LeaseWrite by (cases r) auto
next
  case (ReturnWrite n r ver)
  then show ?thesis using assms(1) read_ok_mono [OF _ assms(2), of cur r] by auto
qed

text \<open>A write of the key with a new index makes every earlier read stale.\<close>

lemma pend_ok_write:
  assumes "pend_ok dur idx now cur held x" and "idx < i" and "\<forall>q. cur' = Some q \<longrightarrow> Ver q = i"
  shows "pend_ok dur i now cur' held' x"
proof (cases x)
  case (LeaseRead n r)
  then show ?thesis using assms(1) read_ok_write [OF _ assms(2,3), of cur r] by simp
next
  case (LeaseWrite n r l ver)
  then show ?thesis using assms(1) read_ok_write [OF _ assms(2,3), of cur r] by simp
next
  case (ReturnWrite n r ver)
  then obtain p where p: "r = Some p" "ver = Ver p" "read_ok idx cur r"
    and l: "\<exists>l0. Value p = Lease_Marshal l0 \<and> leID l0 = n" using assms(1) by auto
  then have "Ver p < i" using assms(2) by (simp add: read_ok_def)
  then have "cur' = Some q \<Longrightarrow> Ver q \<noteq> ver" for q using assms(3) p(2) by force
  then show ?thesis using read_ok_write [OF p(3) assms(2,3)] p l unfolding ReturnWrite by auto
qed

section \<open>Every step keeps the invariant\<close>

lemma LFSM_apply_other:
  "LFSM_apply i u st = Inr (res, st') \<Longrightarrow> Key (KVPair u) \<noteq> k \<Longrightarrow> map_of st' k = map_of st k"
  by (cases "kv_stale u st") (auto simp: LFSM_apply_eq map_of_kv_effect)

text \<open>A conditional update of a key: refused when its version is stale, applied otherwise.\<close>

lemma LFSM_apply_set:
  assumes "LFSM_apply i (setUpdate k v ver) st = Inr ((code, p), st')"
  obtains (stale) q where "map_of st k = Some q" and "Ver q \<noteq> ver" and "st' = st" and "code = ResultCodeVersionMismatch"
  | (applied) "\<forall>q. map_of st k = Some q \<longrightarrow> Ver q = ver" and "code = ResultCodeSuccess"
      and "map_of st' = (map_of st)(k \<mapsto> \<lparr>Key = k, Value = v, Ver = i\<rparr>)"
proof (cases "kv_stale (setUpdate k v ver) st")
  case True
  then obtain q where "map_of st k = Some q" "Ver q \<noteq> ver" by (auto simp: kv_stale_def split: option.splits)
  moreover have "st' = st" "code = ResultCodeVersionMismatch" using assms True by (simp_all add: LFSM_apply_eq)
  ultimately show ?thesis by (rule stale)
next
  case False
  then have "map_of st' = (map_of st)(k \<mapsto> \<lparr>Key = k, Value = v, Ver = i\<rparr>)" "code = ResultCodeSuccess"
    using assms map_of_kv_effect [of i "setUpdate k v ver" st] by (auto simp: LFSM_apply_eq)
  moreover have "\<forall>q. map_of st k = Some q \<longrightarrow> Ver q = ver" using False by (simp add: kv_stale_def split: option.splits)
  ultimately show ?thesis using applied by blast
qed

lemma LFSM_apply_delete:
  assumes "LFSM_apply i (deleteUpdate k ver) st = Inr (res, st')"
  obtains (stale) q where "map_of st k = Some q" and "Ver q \<noteq> ver" and "st' = st"
  | (applied) "\<forall>q. map_of st k = Some q \<longrightarrow> Ver q = ver" and "map_of st' = (map_of st)(k := None)"
proof (cases "kv_stale (deleteUpdate k ver) st")
  case True
  then obtain q where "map_of st k = Some q" "Ver q \<noteq> ver" by (auto simp: kv_stale_def split: option.splits)
  moreover have "st' = st" using assms True by (simp_all add: LFSM_apply_eq)
  ultimately show ?thesis by (rule stale)
next
  case False
  then have "map_of st' = (map_of st)(k := None)"
    using assms map_of_kv_effect [of i "deleteUpdate k ver" st] by (auto simp: LFSM_apply_eq)
  moreover have "\<forall>q. map_of st k = Some q \<longrightarrow> Ver q = ver" using False by (simp add: kv_stale_def split: option.splits)
  ultimately show ?thesis using applied by blast
qed

lemma leaseDecide_cases:
  assumes "leaseDecide n now t d (got r) = Inr (l, ver)"
  shows "l = \<lparr>leID = n, leUntil = t + d\<rparr> \<and> (case r of None \<Rightarrow> ver = 0
      | Some p \<Rightarrow> ver = Ver p \<and> (\<exists>l0. Lease_Unmarshal (Value p) = Inr l0 \<and> (leID l0 = n \<or> leUntil l0 < now)))"
proof (cases r)
  case None
  then show ?thesis using assms by (simp add: leaseDecide_def got_def)
next
  case (Some p)
  then show ?thesis using assms
    by (cases "Lease_Unmarshal (Value p)") (simp_all add: leaseDecide_def got_def split: if_splits)
qed

lemma returnDecide_cases:
  assumes "returnDecide n (got r) = Inr (Some ver)"
  shows "\<exists>p l0. r = Some p \<and> ver = Ver p \<and> Lease_Unmarshal (Value p) = Inr l0 \<and> leID l0 = n"
proof (cases r)
  case None
  then show ?thesis using assms by (simp add: returnDecide_def got_def)
next
  case (Some p)
  then show ?thesis using assms
    by (cases "Lease_Unmarshal (Value p)") (simp_all add: returnDecide_def got_def split: if_splits)
qed

lemma lease_invI:
  assumes "kv_ok (lsStore s) (lsIndex s)"
    and "\<And>x. x \<in> lsPend s \<Longrightarrow> pend_ok dur (lsIndex s) (lsNow s) (map_of (lsStore s) k) (lsHeld s) x"
    and "\<And>q. map_of (lsStore s) k = Some q \<Longrightarrow>
      \<exists>l0. Value q = Lease_Marshal l0 \<and> leID l0 < 2 ^ 64 \<and> leUntil l0 \<le> lsNow s + dur (leID l0)"
    and "\<And>n u. lsHeld s n = Some u \<Longrightarrow> lsNow s \<le> u \<Longrightarrow>
      \<exists>q l0. map_of (lsStore s) k = Some q \<and> Value q = Lease_Marshal l0 \<and> leID l0 = n \<and> u \<le> leUntil l0"
  shows "lease_inv dur k s"
  using assms unfolding lease_inv_def by blast

lemma lease_invD:
  assumes "lease_inv dur k s"
  shows "kv_ok (lsStore s) (lsIndex s)"
    and "x \<in> lsPend s \<Longrightarrow> pend_ok dur (lsIndex s) (lsNow s) (map_of (lsStore s) k) (lsHeld s) x"
    and "map_of (lsStore s) k = Some q \<Longrightarrow>
      \<exists>l0. Value q = Lease_Marshal l0 \<and> leID l0 < 2 ^ 64 \<and> leUntil l0 \<le> lsNow s + dur (leID l0)"
    and "lsHeld s n = Some u \<Longrightarrow> lsNow s \<le> u \<Longrightarrow>
      \<exists>q l0. map_of (lsStore s) k = Some q \<and> Value q = Lease_Marshal l0 \<and> leID l0 = n \<and> u \<le> leUntil l0"
  using assms unfolding lease_inv_def by blast+

text \<open>A clock that moves on, updates of other keys and lost calls.\<close>

lemma inv_quiet:
  assumes inv: "lease_inv dur k s" and "kv_ok st i" and "map_of st k = map_of (lsStore s) k" and "lsIndex s \<le> i"
    and "lsNow s \<le> t" and "P \<subseteq> lsPend s"
  shows "lease_inv dur k (s\<lparr>lsIndex := i, lsStore := st, lsNow := t, lsPend := P\<rparr>)"
proof (rule lease_invI; simp add: assms(2,3))
  show "pend_ok dur i t (map_of (lsStore s) k) (lsHeld s) x" if "x \<in> P" for x
    using lease_invD(2) [OF inv] that assms(4-6) pend_ok_mono by blast
  show "\<exists>l0. Value q = Lease_Marshal l0 \<and> leID l0 < 18446744073709551616 \<and> leUntil l0 \<le> t + dur (leID l0)"
    if q: "map_of (lsStore s) k = Some q" for q
  proof -
    obtain l0 where "Value q = Lease_Marshal l0 \<and> leID l0 < 2 ^ 64 \<and> leUntil l0 \<le> lsNow s + dur (leID l0)"
      using lease_invD(3) [OF inv q] by blast
    then show ?thesis using assms(5) by (intro exI [of _ l0]) simp
  qed
  show "\<exists>q. map_of (lsStore s) k = Some q \<and> (\<exists>l0. Value q = Lease_Marshal l0 \<and> leID l0 = n \<and> u \<le> leUntil l0)"
    if "lsHeld s n = Some u" "t \<le> u" for n u
    using lease_invD(4) [OF inv that(1)] that(2) assms(5) by auto
qed

lemma inv_decide:
  assumes inv: "lease_inv dur k s" and "LeaseRead n r \<in> lsPend s" and n: "n < 2 ^ 64" and t: "lsNow s \<le> t"
    and dec: "leaseDecide n (lsNow s) t (dur n) (got r) = Inr (l, ver)"
  shows "pend_ok dur (lsIndex s) t (map_of (lsStore s) k) (lsHeld s) (LeaseWrite n r l ver)"
proof -
  have l: "l = \<lparr>leID = n, leUntil = t + dur n\<rparr>"
    and r: "case r of None \<Rightarrow> ver = 0 | Some p \<Rightarrow> ver = Ver p \<and> (\<exists>l0. Lease_Unmarshal (Value p) = Inr l0 \<and> (leID l0 = n \<or> leUntil l0 < lsNow s))"
    using leaseDecide_cases [OF dec] by auto
  have rd: "pend_ok dur (lsIndex s) (lsNow s) (map_of (lsStore s) k) (lsHeld s) (LeaseRead n r)"
    using lease_invD(2) [OF inv assms(2)] .
  show ?thesis
  proof (cases r)
    case None
    then show ?thesis using rd r l n by simp
  next
    case (Some p)
    then obtain l0 where l0: "Value p = Lease_Marshal l0" "leID l0 < 2 ^ 64" "leUntil l0 \<le> lsNow s + dur (leID l0)"
      using rd by auto
    then have "leID l0 = n \<or> leUntil l0 < lsNow s" using r Some by (simp add: Lease_roundtrip)
    then have "leID l0 = n \<and> leUntil l0 \<le> t + dur n \<or> leUntil l0 < t" using l0(3) t by auto
    then show ?thesis using rd r l n l0 Some by auto
  qed
qed

text \<open>
  While another node holds an unexpired lease, no write of the key goes through: it was read before
  the holder's write, or it was decided on an expired or own lease.
\<close>

lemma write_blocked:
  assumes inv: "lease_inv dur k s" and w: "LeaseWrite m r l ver \<in> lsPend s"
    and h: "lsHeld s n = Some u" "lsNow s \<le> u"
    and ok: "\<forall>q. map_of (lsStore s) k = Some q \<longrightarrow> Ver q = ver"
  shows "m = n \<and> u \<le> leUntil l"
proof -
  obtain q l0 where q: "map_of (lsStore s) k = Some q" "Value q = Lease_Marshal l0" "leID l0 = n" "u \<le> leUntil l0"
    using lease_invD(4) [OF inv h] by blast
  have v: "Ver q = ver" "0 < Ver q" using ok q(1) kv_ok_get [OF lease_invD(1) [OF inv] q(1)] by auto
  have pd: "pend_ok dur (lsIndex s) (lsNow s) (map_of (lsStore s) k) (lsHeld s) (LeaseWrite m r l ver)"
    using lease_invD(2) [OF inv w] .
  then obtain p l1 where p: "r = Some p" "ver = Ver p" "Value p = Lease_Marshal l1"
    "leID l1 = m \<and> leUntil l1 \<le> leUntil l \<or> leUntil l1 < lsNow s"
    using v by (cases r) auto
  have "p = q" using pd p q(1) v by (auto simp: read_ok_def)
  then have "l1 = l0" using p(3) q(2) by simp
  then show ?thesis using p(4) q(3,4) h(2) by auto
qed

lemma inv_commit:
  assumes inv: "lease_inv dur k s" and w: "LeaseWrite n r l ver \<in> lsPend s" and i: "lsIndex s < i"
    and ap: "LFSM_apply i (setUpdate k (Lease_Marshal l) ver) (lsStore s) = Inr ((code, p), st)"
    and s': "s' = s\<lparr>lsIndex := i, lsStore := st, lsPend := lsPend s - {LeaseWrite n r l ver},
      lsHeld := (if code = ResultCodeSuccess \<and> reported then (lsHeld s)(n := Some (leUntil l)) else lsHeld s)\<rparr>"
  shows "lease_inv dur k s'"
  using ap
proof (cases rule: LFSM_apply_set)
  case (stale q)
  then have "s' = s\<lparr>lsIndex := i, lsStore := lsStore s, lsNow := lsNow s, lsPend := lsPend s - {LeaseWrite n r l ver}\<rparr>"
    using s' by (simp add: ResultCodeVersionMismatch_def ResultCodeSuccess_def)
  then show ?thesis
    using inv_quiet [OF inv kv_ok_mono [OF lease_invD(1) [OF inv] less_imp_le [OF i]] refl _ le_refl,
        of "lsPend s - {LeaseWrite n r l ver}"] i by auto
next
  case applied
  let ?q = "\<lparr>Key = k, Value = Lease_Marshal l, Ver = i\<rparr>"
  have cur: "map_of st k = Some ?q" using applied(3) by simp
  have pd: "leID l = n" "n < 2 ^ 64" "leUntil l \<le> lsNow s + dur n" using lease_invD(2) [OF inv w] by auto
  show ?thesis
  proof (rule lease_invI)
    show "kv_ok (lsStore s') (lsIndex s')" using LFSM_apply_ok [OF lease_invD(1) [OF inv] i ap] s' by simp
    show "pend_ok dur (lsIndex s') (lsNow s') (map_of (lsStore s') k) (lsHeld s') x" if "x \<in> lsPend s'" for x
    proof -
      have "x \<in> lsPend s" using that s' by simp
      then have "pend_ok dur i (lsNow s) (map_of st k) (lsHeld s') x"
        by (intro pend_ok_write [OF lease_invD(2) [OF inv] i]) (simp_all add: cur)
      then show ?thesis using s' by simp
    qed
    show "\<exists>l0. Value q = Lease_Marshal l0 \<and> leID l0 < 2 ^ 64 \<and> leUntil l0 \<le> lsNow s' + dur (leID l0)"
      if q: "map_of (lsStore s') k = Some q" for q
      using q cur pd s' by auto
    show "\<exists>q l0. map_of (lsStore s') k = Some q \<and> Value q = Lease_Marshal l0 \<and> leID l0 = m \<and> u \<le> leUntil l0"
      if h: "lsHeld s' m = Some u" "lsNow s' \<le> u" for m u
    proof -
      have "m = n \<and> u \<le> leUntil l"
      proof (cases "lsHeld s m = Some u")
        case True
        have "n = m \<and> u \<le> leUntil l" using h(2) s' by (intro write_blocked [OF inv w True _ applied(1)]) simp
        then show ?thesis by simp
      next
        case False
        then show ?thesis using h(1) s' by (auto split: if_splits)
      qed
      then show ?thesis using cur pd s' by auto
    qed
  qed
qed

lemma inv_begin_return:
  assumes inv: "lease_inv dur k s" and dec: "returnDecide n (got (map_of (lsStore s) k)) = Inr (Some ver)"
  shows "lease_inv dur k (s\<lparr>lsPend := insert (ReturnWrite n (map_of (lsStore s) k) ver) (lsPend s), lsHeld := (lsHeld s)(n := None)\<rparr>)"
proof -
  obtain p l0 where p: "map_of (lsStore s) k = Some p" "ver = Ver p" "Lease_Unmarshal (Value p) = Inr l0" "leID l0 = n"
    using returnDecide_cases [OF dec] by blast
  obtain l1 where l1: "Value p = Lease_Marshal l1" "leID l1 < 2 ^ 64" using lease_invD(3) [OF inv p(1)] by blast
  have "l1 = l0" using Lease_roundtrip [OF l1(2)] l1(1) p(3) by simp
  have held: "pend_ok dur (lsIndex s) (lsNow s) (map_of (lsStore s) k) ((lsHeld s)(n := None)) x"
    if "x \<in> lsPend s" for x
    using lease_invD(2) [OF inv that] by (cases x) auto
  have rd: "read_ok (lsIndex s) (map_of (lsStore s) k) (map_of (lsStore s) k)"
    using read_ok_current [OF lease_invD(1) [OF inv]] .
  show ?thesis
    by (rule lease_invI)
      (use lease_invD [OF inv] held rd p l1 \<open>l1 = l0\<close> in \<open>auto split: if_splits\<close>)
qed

lemma inv_commit_return:
  assumes inv: "lease_inv dur k s" and w: "ReturnWrite n r ver \<in> lsPend s" and i: "lsIndex s < i"
    and ap: "LFSM_apply i (deleteUpdate k ver) (lsStore s) = Inr (res, st)"
  shows "lease_inv dur k (s\<lparr>lsIndex := i, lsStore := st, lsPend := lsPend s - {ReturnWrite n r ver}\<rparr>)"
  using ap
proof (cases rule: LFSM_apply_delete)
  case (stale q)
  then show ?thesis
    using inv_quiet [OF inv kv_ok_mono [OF lease_invD(1) [OF inv] less_imp_le [OF i]] refl _ le_refl,
        of "lsPend s - {ReturnWrite n r ver}"] i by auto
next
  case applied
  have cur: "map_of st k = None" using applied(2) by simp
  have pd: "pend_ok dur (lsIndex s) (lsNow s) (map_of (lsStore s) k) (lsHeld s) (ReturnWrite n r ver)"
    using lease_invD(2) [OF inv w] .
  have "False" if h: "lsHeld s m = Some u" "lsNow s \<le> u" for m u
  proof -
    obtain q l0 where q: "map_of (lsStore s) k = Some q" "Value q = Lease_Marshal l0" "leID l0 = m"
      using lease_invD(4) [OF inv h] by blast
    have v: "Ver q = ver" using applied(1) q(1) by simp
    then have "lsHeld s n = None" "r = Some q" using pd q(1) by (auto simp: read_ok_def)
    then have "m = n" using pd q by auto
    then show False using h(1) \<open>lsHeld s n = None\<close> by simp
  qed
  moreover have "pend_ok dur i (lsNow s) (map_of st k) (lsHeld s) x" if "x \<in> lsPend s" for x
    by (rule pend_ok_write [OF lease_invD(2) [OF inv that] i]) (simp add: cur)
  ultimately show ?thesis
    using LFSM_apply_ok [OF lease_invD(1) [OF inv] i ap] cur by (intro lease_invI) auto
qed

lemma lease_step_inv: "lease_step dur k s s' \<Longrightarrow> lease_inv dur k s \<Longrightarrow> lease_inv dur k s'"
proof (induction rule: lease_step.induct)
  case (tick s t)
  then show ?case
    using inv_quiet [OF tick(2) lease_invD(1) [OF tick(2)], of t "lsPend s"] by simp
next
  case (other s i u res st)
  then show ?case
    using inv_quiet [OF other(4) LFSM_apply_ok [OF lease_invD(1) [OF other(4)] other(1,3)], of "lsNow s" "lsPend s"]
      LFSM_apply_other [OF other(3,2)] by simp
next
  case (lost s x)
  then show ?case
    using inv_quiet [OF lost lease_invD(1) [OF lost], of "lsNow s" "lsPend s - {x}"] by simp
next
  case (begin_lease n s)
  then show ?case
    using read_ok_current [OF lease_invD(1) [OF begin_lease(2)], of k] lease_invD [OF begin_lease(2)]
    by (intro lease_invI) auto
next
  case (decide_lease n r s t l ver)
  let ?s = "s\<lparr>lsNow := t, lsPend := lsPend s - {LeaseRead n r}\<rparr>"
  have "lease_inv dur k ?s"
    using inv_quiet [OF decide_lease(5) lease_invD(1) [OF decide_lease(5)], of t "lsPend s - {LeaseRead n r}"] decide_lease(3) by auto
  then show ?case
    using inv_decide [OF decide_lease(5,1-4)] lease_invD [of dur k ?s] by (intro lease_invI) auto
next
  case (commit_lease n r l ver s i code p st reported)
  then show ?case using inv_commit [OF commit_lease(4,1-3) refl] by simp
next
  case (begin_return n s ver)
  then show ?case using inv_begin_return by blast
next
  case (commit_return n r ver s i res st)
  then show ?case using inv_commit_return by blast
qed

lemma lease_reach_inv: "lease_reach dur k s \<Longrightarrow> lease_inv dur k s"
proof (induction rule: lease_reach.induct)
  case (start st i t)
  then show ?case by (intro lease_invI) auto
next
  case (step s s')
  then show ?case using lease_step_inv by blast
qed

end
