(* ===== verification/Table_Ids.thy ===== *)
theory Table_Ids
  imports Lease_Protocol
begin

text \<open>
  Cluster ids under interleaving. Any number of nodes draw ids from the sequence and write them into
  table records: creating a table, marking it for recovery, finishing the recovery. The steps use
  \<^verbatim>\<open>incAndGetIDSeq\<close>'s decision and the records \<^verbatim>\<open>createTable\<close> and \<^verbatim>\<open>Restore\<close> write.
\<close>

section \<open>The records Restore writes\<close>

definition restoreMark :: "Table \<Rightarrow> string \<Rightarrow> nat \<Rightarrow> Table" where
  "restoreMark tbl name recoveryID = tbl\<lparr>tbName := name, tbRecoverID := recoveryID\<rparr>"

definition restoreDone :: "Table \<Rightarrow> nat \<Rightarrow> Table" where
  "restoreDone tbl recoveryID = tbl\<lparr>tbClusterID := recoveryID, tbRecoverID := 0\<rparr>"

section \<open>The system\<close>

text \<open>
  \<open>idOwner\<close> records for which table an id was drawn; \<open>idPend\<close> are sequence writes (the pair read,
  the next id, its version) and table writes (name, record, version) on their way.
\<close>

record id_sys =
  idIndex :: nat
  idStore :: "json MapStore"
  idSeqPend :: "(json Pair option \<times> nat \<times> nat) set"
  idTabPend :: "(string \<times> Table \<times> nat) set"
  idIssued :: "nat list"
  idOwner :: "nat \<rightharpoonup> string"

text \<open>A document that carries no table ids, or a key outside the tables.\<close>

definition harmless :: "json kvUpdate \<Rightarrow> bool" where
  "harmless u \<longleftrightarrow> Key (KVPair u) \<noteq> sequenceKey \<and> ((\<forall>name. Key (KVPair u) \<noteq> storedTableName name) \<or>
     (\<forall>t. Table_Unmarshal (Value (KVPair u)) = Inr t \<longrightarrow> tbClusterID t = 0 \<and> tbRecoverID t = 0))"

text \<open>A reported id is used for one table; the sequence is not exhausted (\<open>0 < nxt\<close>).\<close>

inductive id_step :: "id_sys \<Rightarrow> id_sys \<Rightarrow> bool" where
  other: "idIndex s < i \<Longrightarrow> harmless u \<Longrightarrow> LFSM_apply i u (idStore s) = Inr (res, st) \<Longrightarrow>
    id_step s (s\<lparr>idIndex := i, idStore := st\<rparr>)"
| begin_seq: "seqDecide (got (map_of (idStore s) sequenceKey)) = Inr (nxt, ver) \<Longrightarrow> 0 < nxt \<Longrightarrow>
    id_step s (s\<lparr>idSeqPend := insert (map_of (idStore s) sequenceKey, nxt, ver) (idSeqPend s)\<rparr>)"
| commit_seq: "(r, nxt, ver) \<in> idSeqPend s \<Longrightarrow> idIndex s < i \<Longrightarrow>
    LFSM_apply i (setUpdate sequenceKey (FormatUint nxt) ver) (idStore s) = Inr ((code, p), st) \<Longrightarrow>
    id_step s (s\<lparr>idIndex := i, idStore := st, idSeqPend := idSeqPend s - {(r, nxt, ver)},
      idIssued := (if code = ResultCodeSuccess \<and> reported then idIssued s @ [nxt] else idIssued s),
      idOwner := (if code = ResultCodeSuccess \<and> reported then (idOwner s)(nxt \<mapsto> name) else idOwner s)\<rparr>)"
| create: "idOwner s x = Some name \<Longrightarrow>
    id_step s (s\<lparr>idTabPend := insert (name, \<lparr>tbName = name, tbClusterID = x, tbRecoverID = 0\<rparr>, 0) (idTabPend s)\<rparr>)"
| mark: "idOwner s x = Some name \<Longrightarrow> map_of (idStore s) (storedTableName name) = Some p \<Longrightarrow>
    Table_Unmarshal (Value p) = Inr t \<Longrightarrow>
    id_step s (s\<lparr>idTabPend := insert (name, restoreMark t name x, Ver p) (idTabPend s)\<rparr>)"
| mark_new: "idOwner s x = Some name \<Longrightarrow>
    id_step s (s\<lparr>idTabPend := insert (name, restoreMark emptyTable name x, 0) (idTabPend s)\<rparr>)"
| finish: "idOwner s x = Some name \<Longrightarrow> map_of (idStore s) (storedTableName name) = Some p \<Longrightarrow>
    Table_Unmarshal (Value p) = Inr t \<Longrightarrow>
    id_step s (s\<lparr>idTabPend := insert (name, restoreDone t x, Ver p) (idTabPend s)\<rparr>)"
| commit_table: "(name, t, ver) \<in> idTabPend s \<Longrightarrow> idIndex s < i \<Longrightarrow> storedTableName name \<noteq> sequenceKey \<Longrightarrow>
    LFSM_apply i (setUpdate (storedTableName name) (Table_Marshal t) ver) (idStore s) = Inr (res, st) \<Longrightarrow>
    id_step s (s\<lparr>idIndex := i, idStore := st, idTabPend := idTabPend s - {(name, t, ver)}\<rparr>)"
| delete: "idIndex s < i \<Longrightarrow> storedTableName name \<noteq> sequenceKey \<Longrightarrow>
    LFSM_apply i (deleteUpdate (storedTableName name) ver) (idStore s) = Inr (res, st) \<Longrightarrow>
    id_step s (s\<lparr>idIndex := i, idStore := st\<rparr>)"

inductive id_reach :: "id_sys \<Rightarrow> bool" where
  start: "id_reach \<lparr>idIndex = i, idStore = [], idSeqPend = {}, idTabPend = {}, idIssued = [], idOwner = Map.empty\<rparr>"
| step: "id_reach s \<Longrightarrow> id_step s s' \<Longrightarrow> id_reach s'"

section \<open>Ids are drawn once\<close>

text \<open>The value of the sequence, and what a pending write of it was computed from.\<close>

definition seq_value :: "json Pair option \<Rightarrow> nat list \<Rightarrow> bool" where
  "seq_value cur issued \<longleftrightarrow> (case cur of None \<Rightarrow> issued = []
     | Some q \<Rightarrow> \<exists>v. Value q = FormatUint v \<and> tableIDsRangeStart < v \<and> v < 2 ^ 64 \<and> (\<forall>x \<in> set issued. x \<le> v))"

definition seq_pend :: "nat \<Rightarrow> json Pair option \<Rightarrow> json Pair option \<times> nat \<times> nat \<Rightarrow> bool" where
  "seq_pend idx cur x \<longleftrightarrow> (case x of (r, nxt, ver) \<Rightarrow>
     read_ok idx cur r \<and> 0 < nxt \<and> (r \<noteq> None \<longrightarrow> cur \<noteq> None) \<and> seqDecide (got r) = Inr (nxt, ver))"

definition seq_inv :: "id_sys \<Rightarrow> bool" where
  "seq_inv s \<longleftrightarrow> kv_ok (idStore s) (idIndex s) \<and> seq_value (map_of (idStore s) sequenceKey) (idIssued s)
     \<and> (\<forall>x \<in> idSeqPend s. seq_pend (idIndex s) (map_of (idStore s) sequenceKey) x)
     \<and> distinct (idIssued s) \<and> (\<forall>x \<in> set (idIssued s). tableIDsRangeStart < x)"

lemma seq_pend_mono: "seq_pend idx cur x \<Longrightarrow> idx \<le> idx' \<Longrightarrow> seq_pend idx' cur x"
  using read_ok_mono [of idx cur "fst x" idx'] by (cases x) (simp add: seq_pend_def)

lemma seq_pend_write: "seq_pend idx cur x \<Longrightarrow> idx < i \<Longrightarrow> Ver q = i \<Longrightarrow> seq_pend i (Some q) x"
  using read_ok_write [of idx cur "fst x" i "Some q"] by (cases x) (auto simp: seq_pend_def)

lemma seqDecide_cases:
  assumes "seqDecide (got r) = Inr (nxt, ver)" and "0 < nxt"
  shows "case r of None \<Rightarrow> nxt = tableIDsRangeStart + 1 \<and> ver = 0
    | Some p \<Rightarrow> ver = Ver p \<and> (\<forall>v. Value p = FormatUint v \<longrightarrow> nxt = v + 1 \<and> v + 1 < 2 ^ 64)"
proof (cases r)
  case None
  then show ?thesis using assms
    by (simp add: seqDecide_def got_def ParseUint_def FormatUint_def tableIDsRangeStart_def)
next
  case (Some p)
  have "nxt = v + 1 \<and> v + 1 < 2 ^ 64" if v: "Value p = FormatUint v" for v
  proof -
    have lt: "v < 2 ^ 64" and eq: "nxt = (v + 1) mod 2 ^ 64"
      using assms(1) Some v by (auto simp: seqDecide_def got_def ParseUint_def FormatUint_def split: if_splits)
    have "v + 1 \<noteq> 2 ^ 64"
    proof
      assume "v + 1 = 2 ^ 64"
      then have "nxt = 0" using eq by simp
      then show False using assms(2) by simp
    qed
    then have "v + 1 < 2 ^ 64" using lt by linarith
    then show ?thesis using eq by simp
  qed
  moreover have "ver = Ver p"
    using assms(1) Some by (auto simp: seqDecide_def got_def ParseUint_def result_simps split: json.splits if_splits)
  ultimately show ?thesis using Some by simp
qed

lemma seq_quiet:
  assumes "seq_inv s" and "kv_ok (idStore s') (idIndex s')" and "map_of (idStore s') sequenceKey = map_of (idStore s) sequenceKey"
    and "idIndex s \<le> idIndex s'" and "idSeqPend s' \<subseteq> idSeqPend s" and "idIssued s' = idIssued s"
  shows "seq_inv s'"
  using assms seq_pend_mono [OF _ assms(4)] unfolding seq_inv_def by (metis subsetD)

lemma seq_inv_kv: "seq_inv s \<Longrightarrow> kv_ok (idStore s) (idIndex s)"
  by (simp add: seq_inv_def)

text \<open>An id that is written is above every id drawn before.\<close>

lemma seq_fresh:
  assumes inv: "seq_inv s" and w: "(r, nxt, ver) \<in> idSeqPend s"
    and ok: "\<forall>q. map_of (idStore s) sequenceKey = Some q \<longrightarrow> Ver q = ver"
  shows "tableIDsRangeStart < nxt \<and> nxt < 2 ^ 64 \<and> (\<forall>x \<in> set (idIssued s). x < nxt)"
proof -
  have pd: "seq_pend (idIndex s) (map_of (idStore s) sequenceKey) (r, nxt, ver)"
    and val: "seq_value (map_of (idStore s) sequenceKey) (idIssued s)"
    using inv w by (auto simp: seq_inv_def)
  have dec: "case r of None \<Rightarrow> nxt = tableIDsRangeStart + 1 \<and> ver = 0
    | Some p \<Rightarrow> ver = Ver p \<and> (\<forall>v. Value p = FormatUint v \<longrightarrow> nxt = v + 1 \<and> v + 1 < 2 ^ 64)"
    using pd by (intro seqDecide_cases) (auto simp: seq_pend_def)
  show ?thesis
  proof (cases "map_of (idStore s) sequenceKey")
    case None
    then show ?thesis using pd dec val by (simp add: tableIDsRangeStart_def seq_pend_def seq_value_def)
  next
    case (Some q)
    then have v: "Ver q = ver" "0 < Ver q" using ok kv_ok_get [OF seq_inv_kv [OF inv] Some] by auto
    then obtain p where p: "r = Some p" "ver = Ver p" using dec by (cases r) auto
    have "p = q" using pd p v Some by (auto simp: seq_pend_def read_ok_def)
    moreover obtain u where u: "Value q = FormatUint u" "tableIDsRangeStart < u" "\<forall>x \<in> set (idIssued s). x \<le> u"
      using val Some by (auto simp: seq_value_def)
    ultimately have "nxt = u + 1 \<and> u + 1 < 2 ^ 64" using dec p by simp
    then show ?thesis using u by auto
  qed
qed

lemma seq_commit:
  assumes inv: "seq_inv s" and w: "(r, nxt, ver) \<in> idSeqPend s" and i: "idIndex s < i"
    and ap: "LFSM_apply i (setUpdate sequenceKey (FormatUint nxt) ver) (idStore s) = Inr ((code, p), st)"
    and s': "s' = s\<lparr>idIndex := i, idStore := st, idSeqPend := idSeqPend s - {(r, nxt, ver)},
      idIssued := (if code = ResultCodeSuccess \<and> reported then idIssued s @ [nxt] else idIssued s), idOwner := own\<rparr>"
  shows "seq_inv s'"
  using ap
proof (cases rule: LFSM_apply_set)
  case (stale q)
  then show ?thesis
    using kv_ok_mono [OF seq_inv_kv [OF inv] less_imp_le [OF i]] s' i
    by (intro seq_quiet [OF inv]) (auto simp: ResultCodeVersionMismatch_def ResultCodeSuccess_def)
next
  case applied
  have fresh: "tableIDsRangeStart < nxt" "nxt < 2 ^ 64" "\<forall>x \<in> set (idIssued s). x < nxt"
    using seq_fresh [OF inv w applied(1)] by auto
  have cur: "map_of st sequenceKey = Some \<lparr>Key = sequenceKey, Value = FormatUint nxt, Ver = i\<rparr>" using applied(3) by simp
  have "seq_pend i (map_of st sequenceKey) x" if "x \<in> idSeqPend s" for x
    unfolding cur using inv that by (intro seq_pend_write [OF _ i]) (auto simp: seq_inv_def)
  moreover have "kv_ok st i" using LFSM_apply_ok [OF seq_inv_kv [OF inv] i ap] .
  moreover have "nxt \<notin> set (idIssued s)" using fresh(3) by auto
  moreover have "seq_value (map_of st sequenceKey) (idIssued s @ [nxt])" "seq_value (map_of st sequenceKey) (idIssued s)"
    unfolding cur seq_value_def using fresh by (auto intro: less_imp_le)
  ultimately show ?thesis
    using inv fresh(1) unfolding s' seq_inv_def by simp
qed

lemma id_step_seq: "id_step s s' \<Longrightarrow> seq_inv s \<Longrightarrow> seq_inv s'"
proof (induction rule: id_step.induct)
  case (other s i u res st)
  then show ?case
    using LFSM_apply_ok [OF seq_inv_kv [OF other(4)] other(1,3)] LFSM_apply_other [OF other(3), of sequenceKey]
    by (intro seq_quiet [OF other(4)]) (auto simp: harmless_def)
next
  case (begin_seq s nxt ver)
  have "seq_pend (idIndex s) (map_of (idStore s) sequenceKey) (map_of (idStore s) sequenceKey, nxt, ver)"
    using begin_seq(1,2) read_ok_current [OF seq_inv_kv [OF begin_seq(3)], of sequenceKey] by (simp add: seq_pend_def)
  then show ?case using begin_seq(3) by (simp add: seq_inv_def)
next
  case (commit_seq r nxt ver s i code p st reported name)
  show ?case by (rule seq_commit [OF commit_seq(4,1,2,3)]) simp
next
  case (commit_table name t ver s i res st)
  then show ?case
    using LFSM_apply_ok [OF seq_inv_kv [OF commit_table(5)] commit_table(2,4)] LFSM_apply_other [OF commit_table(4), of sequenceKey]
    by (intro seq_quiet [OF commit_table(5)]) auto
next
  case (delete s i name ver res st)
  then show ?case
    using LFSM_apply_ok [OF seq_inv_kv [OF delete(4)] delete(1,3)] LFSM_apply_other [OF delete(3), of sequenceKey]
    by (intro seq_quiet [OF delete(4)]) auto
qed (simp_all add: seq_inv_def)

section \<open>An id belongs to one table\<close>

definition owned :: "(nat \<rightharpoonup> string) \<Rightarrow> string \<Rightarrow> Table \<Rightarrow> bool" where
  "owned own name t \<longleftrightarrow> (tbClusterID t \<noteq> 0 \<longrightarrow> own (tbClusterID t) = Some name) \<and> (tbRecoverID t \<noteq> 0 \<longrightarrow> own (tbRecoverID t) = Some name)"

definition tab_inv :: "id_sys \<Rightarrow> bool" where
  "tab_inv s \<longleftrightarrow> (\<forall>x name. idOwner s x = Some name \<longrightarrow> x \<in> set (idIssued s))
     \<and> (\<forall>(name, t, ver) \<in> idTabPend s. owned (idOwner s) name t)
     \<and> (\<forall>name p t. map_of (idStore s) (storedTableName name) = Some p \<longrightarrow> Table_Unmarshal (Value p) = Inr t \<longrightarrow>
          owned (idOwner s) name t)"

lemma owned_grow: "owned own name t \<Longrightarrow> own x = None \<Longrightarrow> owned (own(x \<mapsto> n)) name t"
  by (auto simp: owned_def)

lemma storedTableName_inject [simp]: "storedTableName a = storedTableName b \<longleftrightarrow> a = b"
  by (simp add: storedTableName_def)

lemma tab_invD:
  assumes "tab_inv s"
  shows "idOwner s x = Some name \<Longrightarrow> x \<in> set (idIssued s)"
    and "(name, t, ver) \<in> idTabPend s \<Longrightarrow> owned (idOwner s) name t"
    and "map_of (idStore s) (storedTableName name) = Some p \<Longrightarrow> Table_Unmarshal (Value p) = Inr t \<Longrightarrow> owned (idOwner s) name t"
  using assms by (auto simp: tab_inv_def)

lemma tab_invI:
  assumes "\<And>x name. idOwner s x = Some name \<Longrightarrow> x \<in> set (idIssued s)"
    and "\<And>name t ver. (name, t, ver) \<in> idTabPend s \<Longrightarrow> owned (idOwner s) name t"
    and "\<And>name p t. map_of (idStore s) (storedTableName name) = Some p \<Longrightarrow> Table_Unmarshal (Value p) = Inr t \<Longrightarrow> owned (idOwner s) name t"
  shows "tab_inv s"
  using assms by (auto simp: tab_inv_def)

text \<open>What an update may leave under a key: what was there, nothing, or its own value.\<close>

lemma LFSM_apply_value:
  assumes "LFSM_apply i u st = Inr (res, st')" and "map_of st' k = Some p"
  shows "map_of st k = Some p \<or> k = Key (KVPair u) \<and> Value p = Value (KVPair u) \<and> Op u = ''set''"
  using assms by (cases "kv_stale u st") (auto simp: LFSM_apply_eq map_of_kv_effect split: if_splits)

text \<open>A new pending record of a table made of ids it owns.\<close>

lemma tab_pend:
  assumes "tab_inv s" and "owned (idOwner s) name t"
  shows "tab_inv (s\<lparr>idTabPend := insert (name, t, ver) (idTabPend s)\<rparr>)"
  using assms by (auto simp: tab_inv_def)

lemma Table_Unmarshal_Marshal:
  "Table_Unmarshal (Table_Marshal t) = Inr t' \<Longrightarrow> t' = t"
  by (auto simp: Table_Unmarshal_def Table_Marshal_def numField_def strField_def split: if_splits)

lemma id_step_tab: "id_step s s' \<Longrightarrow> seq_inv s \<Longrightarrow> tab_inv s \<Longrightarrow> tab_inv s'"
proof (induction rule: id_step.induct)
  case (other s i u res st)
  have "owned (idOwner s) name t" if "map_of st (storedTableName name) = Some p" "Table_Unmarshal (Value p) = Inr t" for name p t
    using LFSM_apply_value [OF other(3) that(1)]
  proof
    assume "map_of (idStore s) (storedTableName name) = Some p"
    then show ?thesis using that(2) tab_invD(3) [OF other(5)] by blast
  next
    assume "storedTableName name = Key (KVPair u) \<and> Value p = Value (KVPair u) \<and> Op u = ''set''"
    then have "tbClusterID t = 0 \<and> tbRecoverID t = 0" using that(2) other(2) by (metis harmless_def)
    then show ?thesis by (simp add: owned_def)
  qed
  then show ?case using tab_invD(1,2) [OF other(5)] by (intro tab_invI) auto
next
  case (begin_seq s nxt ver)
  then show ?case by (simp add: tab_inv_def)
next
  case (commit_seq r nxt ver s i code p st reported name)
  note inv = commit_seq(4) and tab = commit_seq(5)
  have old: "owned (idOwner s) n t" if "map_of st (storedTableName n) = Some q" "Table_Unmarshal (Value q) = Inr t" for n q t
    using LFSM_apply_value [OF commit_seq(3) that(1)] that(2) tab_invD(3) [OF tab, of n q t]
    by (auto simp: FormatUint_def Table_Unmarshal_def)
  show ?case
  proof (cases "code = ResultCodeSuccess \<and> reported")
    case False
    then show ?thesis using tab_invD(1,2) [OF tab] old by (intro tab_invI) (auto simp: if_not_P)
  next
    case True
    have "\<forall>q. map_of (idStore s) sequenceKey = Some q \<longrightarrow> Ver q = ver"
      using commit_seq(3) True
      by (auto simp: LFSM_apply_eq kv_stale_def ResultCodeVersionMismatch_def ResultCodeSuccess_def split: if_splits option.splits)
    then have "nxt \<notin> set (idIssued s)" using seq_fresh [OF inv commit_seq(1)] by auto
    then have none: "idOwner s nxt = None" using tab_invD(1) [OF tab, of nxt] by (cases "idOwner s nxt") auto
    have grow: "owned ((idOwner s)(nxt \<mapsto> name)) n t" if "owned (idOwner s) n t" for n t
      using owned_grow [of "idOwner s" n t nxt name] that none by blast
    show ?thesis using True tab_invD(1,2) [OF tab] old grow
      by (intro tab_invI) (auto split: if_splits)
  qed
next
  case (create s x name)
  then show ?case by (intro tab_pend) (simp_all add: owned_def)
next
  case (mark s x name p t)
  then show ?case using tab_invD(3) [OF mark(5,2,3)] by (intro tab_pend) (auto simp: owned_def restoreMark_def)
next
  case (mark_new s x name)
  then show ?case by (intro tab_pend) (auto simp: owned_def restoreMark_def emptyTable_def)
next
  case (finish s x name p t)
  then show ?case by (intro tab_pend) (auto simp: owned_def restoreDone_def)
next
  case (commit_table name t ver s i res st)
  note tab = commit_table(6)
  have "owned (idOwner s) n t'" if "map_of st (storedTableName n) = Some p" "Table_Unmarshal (Value p) = Inr t'" for n p t'
    using LFSM_apply_value [OF commit_table(4) that(1)] that(2) tab_invD(3) [OF tab, of n p t'] tab_invD(2) [OF tab commit_table(1)]
    by (auto dest: Table_Unmarshal_Marshal)
  then show ?case using tab_invD(1,2) [OF tab] by (intro tab_invI) auto
next
  case (delete s i name ver res st)
  have "owned (idOwner s) n t'" if "map_of st (storedTableName n) = Some p" "Table_Unmarshal (Value p) = Inr t'" for n p t'
    using LFSM_apply_value [OF delete(3) that(1)] that(2) tab_invD(3) [OF delete(5), of n p t'] by auto
  then show ?case using tab_invD(1,2) [OF delete(5)] by (intro tab_invI) auto
qed

lemma id_reach_inv: "id_reach s \<Longrightarrow> seq_inv s \<and> tab_inv s"
proof (induction rule: id_reach.induct)
  case (start i)
  then show ?case by (simp add: seq_inv_def seq_value_def tab_inv_def kv_ok_def)
next
  case (step s s')
  then show ?case using id_step_seq id_step_tab by blast
qed

end
