(* ===== verification/Manager_Refinement.thy ===== *)
theory Manager_Refinement
  imports Table_Ids
begin

text \<open>
  The manager over a metadata store that keeps its contract: what the client of the Raft group
  reads and writes, the listing of tables, the creation of a table and the difference between the stored
  tables and the running shards.
\<close>

section \<open>Listing by pattern\<close>

lemma pmatch_literal:
  "pmatch (map PLit xs @ [PStar]) s \<longleftrightarrow> (\<exists>t. s = xs @ t \<and> CHR ''/'' \<notin> set t)"
proof (induction xs arbitrary: s)
  case Nil
  show ?case by (induction s) auto
next
  case (Cons x xs)
  then show ?case by (cases s) auto
qed

lemma tables_pattern: "parsePattern (length (keyPrefix @ ''*'')) (keyPrefix @ ''*'') = Some (map PLit keyPrefix @ [PStar])"
  by code_simp

lemma path_Match_tables:
  "path_Match (keyPrefix @ ''*'') k = Some (\<exists>n. k = storedTableName n \<and> CHR ''/'' \<notin> set n)"
  unfolding path_Match_def tables_pattern option.map pmatch_literal storedTableName_def ..

lemma GetAll_loop_filter:
  "(\<And>kv. kv \<in> set kvs \<Longrightarrow> path_Match pattern (Key kv) = Some (P (Key kv))) \<Longrightarrow>
   GetAll_loop pattern kvs = Inr (filter (\<lambda>kv. P (Key kv)) kvs)"
  by (induction kvs) auto

lemma kv_ok_keys: "kv_ok s i \<Longrightarrow> map (\<lambda>x. Key (snd x)) s = map fst s"
  by (auto simp: kv_ok_def)

lemma sort_key_sorted: "sorted (map f xs) \<Longrightarrow> sort_key f xs = xs"
  by (induction xs) (simp_all add: insort_is_Cons)

lemma kv_ok_sort:
  assumes "kv_ok s i"
  shows "sort_key Key (filter (\<lambda>kv. P (Key kv)) (map snd s)) = map snd (filter (\<lambda>x. P (fst x)) s)"
proof -
  have k: "Key (snd x) = fst x" if "x \<in> set s" for x using assms that by (auto simp: kv_ok_def)
  have "filter (\<lambda>kv. P (Key kv)) (map snd s) = map snd (filter (\<lambda>x. P (Key (snd x))) s)"
    by (simp add: filter_map o_def)
  also have "filter (\<lambda>x. P (Key (snd x))) s = filter (\<lambda>x. P (fst x)) s"
    by (rule filter_cong) (simp_all add: k)
  finally have f: "filter (\<lambda>kv. P (Key kv)) (map snd s) = map snd (filter (\<lambda>x. P (fst x)) s)" .
  have "map Key (map snd (filter (\<lambda>x. P (fst x)) s)) = map fst (filter (\<lambda>x. P (fst x)) s)"
    by (simp add: k)
  moreover have "sorted_keys (filter (\<lambda>x. P (fst x)) s)" using assms by (simp add: kv_ok_def sorted_keys_filter)
  ultimately have "sorted (map Key (map snd (filter (\<lambda>x. P (fst x)) s)))"
    using strict_sorted_imp_sorted by metis
  then show ?thesis unfolding f by (rule sort_key_sorted)
qed

lemma MapStore_GetAll_tables:
  assumes "kv_ok s i"
  shows "MapStore_GetAll s (keyPrefix @ ''*'')
    = Inr (map snd (filter (\<lambda>x. \<exists>n. fst x = storedTableName n \<and> CHR ''/'' \<notin> set n) s))"
  unfolding MapStore_GetAll_def
    GetAll_loop_filter [of "map snd s" "keyPrefix @ ''*''" "\<lambda>k. \<exists>n. k = storedTableName n \<and> CHR ''/'' \<notin> set n", OF path_Match_tables]
  using kv_ok_sort [OF assms, of "\<lambda>k. \<exists>n. k = storedTableName n \<and> CHR ''/'' \<notin> set n"] by simp

text \<open>The records of the tables carry their own names and ids of 64 bits.\<close>

definition tables_ok :: "json MapStore \<Rightarrow> bool" where
  "tables_ok s \<longleftrightarrow> (\<forall>n p. map_of s (storedTableName n) = Some p \<and> CHR ''/'' \<notin> set n \<longrightarrow>
     (\<exists>t. Value p = Table_Marshal t \<and> tbName t = n \<and> tbClusterID t < 2 ^ 64 \<and> tbRecoverID t < 2 ^ 64))"

lemma tables_okD:
  assumes "tables_ok s" and "map_of s (storedTableName n) = Some p" and "CHR ''/'' \<notin> set n"
  shows "\<exists>t. Table_Unmarshal (Value p) = Inr t \<and> tbName t = n"
proof -
  obtain t where "Value p = Table_Marshal t" "tbName t = n" "tbClusterID t < 2 ^ 64" "tbRecoverID t < 2 ^ 64"
    using assms unfolding tables_ok_def by blast
  then show ?thesis using Table_roundtrip [of t] by simp
qed

lemma getTables_loop_map:
  assumes "getTables_loop vs m = Inr tabs"
    and "\<And>v. v \<in> set vs \<Longrightarrow> \<exists>t. Table_Unmarshal (Value v) = Inr t \<and> Key v = storedTableName (tbName t)"
    and "distinct (map Key vs)"
  shows "map_of tabs n = Some t \<longleftrightarrow> (\<exists>v \<in> set vs. Key v = storedTableName n \<and> Table_Unmarshal (Value v) = Inr t)
    \<or> (\<forall>v \<in> set vs. Key v \<noteq> storedTableName n) \<and> map_of m n = Some t"
  using assms
proof (induction vs arbitrary: m)
  case (Cons v vs)
  obtain t0 where t0: "Table_Unmarshal (Value v) = Inr t0" "Key v = storedTableName (tbName t0)"
    using Cons.prems(2) [of v] by auto
  have rec: "getTables_loop vs (alist_put (tbName t0) t0 m) = Inr tabs" using Cons.prems(1) t0(1) by simp
  have "map_of tabs n = Some t \<longleftrightarrow> (\<exists>v \<in> set vs. Key v = storedTableName n \<and> Table_Unmarshal (Value v) = Inr t)
    \<or> (\<forall>v \<in> set vs. Key v \<noteq> storedTableName n) \<and> ((map_of m)(tbName t0 \<mapsto> t0)) n = Some t"
    using Cons.IH [OF rec] Cons.prems(2,3) by (simp add: map_of_alist_put)
  moreover have "tbName t0 = n \<Longrightarrow> u \<in> set vs \<Longrightarrow> Key u \<noteq> storedTableName n" for u
    using Cons.prems(3) t0(2) by (metis distinct.simps(2) image_eqI list.map(2) list.set_map)
  ultimately show ?case using t0 by (cases "tbName t0 = n") auto
qed simp

section \<open>The contract of the metadata group\<close>

text \<open>
  A read answers from the store or fails; a proposal is applied at a new index, and then its result
  or an error comes back, or it fails and is not applied.
\<close>

locale meta_group =
  fixes R :: "('w, json) raft" and tx :: "json \<Rightarrow> string"
    and st :: "'w \<Rightarrow> json MapStore" and ix :: "'w \<Rightarrow> nat"
  assumes reads: "rfRead R w q = Inr a \<Longrightarrow> LFSM_Lookup tx (st w) q = Inr a"
    and read_errors: "rfRead R w q = Inl e \<Longrightarrow> LFSM_Lookup tx (st w) q = Inl e \<or> (\<exists>x. e = ErrRaft x)"
    and proposes: "rfPropose R w u = (Inr res, w') \<Longrightarrow> \<exists>i. ix w < i \<and> i \<le> ix w' \<and> LFSM_apply i u (st w) = Inr (res, st w')"
    and fails: "rfPropose R w u = (Inl err, w') \<Longrightarrow>
      (\<exists>i res. ix w < i \<and> i \<le> ix w' \<and> LFSM_apply i u (st w) = Inr (res, st w')) \<or> st w' = st w \<and> ix w \<le> ix w'"
begin

lemma Get_Inr:
  assumes "stGet (raft_store R) w k = Inr p"
  shows "map_of (st w) k = Some p"
proof -
  obtain a where a: "rfRead R w (QueryKey k) = Inr a" "(case a of KeyAnswer p \<Rightarrow> Inr p | _ \<Rightarrow> Inl ErrInvalidQuery) = Inr p"
    using assms unfolding raft_store_def RaftStore_Get_def store.select_convs rbind_Inr_iff by blast
  then have "a = KeyAnswer p" by (cases a) auto
  then show ?thesis using reads [OF a(1)]
    by (simp add: LFSM_Lookup_def MapStore_Get_def result_simps split: option.splits)
qed

lemma Get_NotExist:
  assumes "stGet (raft_store R) w k = Inl ErrNotExist"
  shows "map_of (st w) k = None"
proof (cases "rfRead R w (QueryKey k)")
  case (Inl e)
  then have "e = ErrNotExist" using assms by (simp add: raft_store_def RaftStore_Get_def)
  then show ?thesis using read_errors [OF Inl]
    by (simp add: LFSM_Lookup_def MapStore_Get_def result_simps split: option.splits)
next
  case (Inr a)
  then show ?thesis using assms by (cases a) (simp_all add: raft_store_def RaftStore_Get_def)
qed

lemma Exists_Inr:
  assumes "stExists (raft_store R) w k = Inr b"
  shows "b = (map_of (st w) k \<noteq> None)"
proof -
  obtain a where a: "rfRead R w (QueryExist k) = Inr a" "(case a of ExistAnswer b \<Rightarrow> Inr b | _ \<Rightarrow> Inl ErrInvalidQuery) = Inr b"
    using assms unfolding raft_store_def RaftStore_Exists_def store.select_convs rbind_Inr_iff by blast
  then have "a = ExistAnswer b" by (cases a) auto
  then show ?thesis using reads [OF a(1)] by (simp add: LFSM_Lookup_def MapStore_Exists_def)
qed

lemma GetAll_Inr:
  assumes "stGetAll (raft_store R) w pat = Inr ps"
  shows "MapStore_GetAll (st w) pat = Inr ps"
proof -
  obtain a where a: "rfRead R w (QueryAll pat) = Inr a" "(case a of AllAnswer ps \<Rightarrow> Inr ps | _ \<Rightarrow> Inl ErrInvalidQuery) = Inr ps"
    using assms unfolding raft_store_def RaftStore_GetAll_def store.select_convs rbind_Inr_iff by blast
  then have "a = AllAnswer ps" by (cases a) auto
  then show ?thesis using reads [OF a(1)] by (simp add: LFSM_Lookup_def result_simps)
qed

lemma propose_ok:
  assumes "kv_ok (st w) (ix w)" and "rfPropose R w u = (r, w')"
  shows "kv_ok (st w') (ix w')"
proof -
  have "(\<exists>i res. ix w < i \<and> i \<le> ix w' \<and> LFSM_apply i u (st w) = Inr (res, st w')) \<or> st w' = st w \<and> ix w \<le> ix w'"
    using assms(2) proposes fails by (cases r) blast+
  then show ?thesis using LFSM_apply_ok [OF assms(1)] kv_ok_mono assms(1) by metis
qed

lemma Set_ok:
  assumes "kv_ok (st w) (ix w)" and "stSet (raft_store R) w k v ver = (r, w')"
  shows "kv_ok (st w') (ix w')"
proof -
  obtain x y where "rfPropose R w (setUpdate k v ver) = (x, y)" by fastforce
  with assms show ?thesis using propose_ok [OF assms(1)]
    by (auto simp: raft_store_def RaftStore_Set_def split: sum.splits)
qed

lemma Set_Inr:
  assumes "stSet (raft_store R) w k v ver = (Inr p, w')"
  shows "\<exists>i. ix w < i \<and> i \<le> ix w' \<and> (\<forall>q. map_of (st w) k = Some q \<longrightarrow> Ver q = ver)
    \<and> map_of (st w') = (map_of (st w))(k \<mapsto> \<lparr>Key = k, Value = v, Ver = i\<rparr>)"
proof -
  from assms obtain code q where pr: "rfPropose R w (setUpdate k v ver) = (Inr (code, q), w')" "code \<noteq> ResultCodeVersionMismatch"
    by (auto simp: raft_store_def RaftStore_Set_def split: sum.splits prod.splits if_splits)
  then obtain i where i: "ix w < i" "i \<le> ix w'" "LFSM_apply i (setUpdate k v ver) (st w) = Inr ((code, q), st w')"
    using proposes by blast
  from i(3) show ?thesis
  proof (cases rule: LFSM_apply_set)
    case (stale q)
    then show ?thesis using pr(2) by simp
  next
    case applied
    then show ?thesis using i by blast
  qed
qed

text \<open>A successful creation: the table did not exist, its id continues the sequence, and its record is stored.\<close>

lemma incAndGetIDSeq_Inr:
  assumes ok: "kv_ok (st w) (ix w)" and "incAndGetIDSeq (raft_store R) w = (Inr x, w')"
  shows "\<exists>ver i. seqDecide (got (map_of (st w) sequenceKey)) = Inr (x, ver)
    \<and> map_of (st w') = (map_of (st w))(sequenceKey \<mapsto> \<lparr>Key = sequenceKey, Value = FormatUint x, Ver = i\<rparr>)"
proof -
  obtain nxt ver where d: "seqDecide (stGet (raft_store R) w sequenceKey) = Inr (nxt, ver)"
    and s: "wbind (liftKv (stSet (raft_store R) w (seqKey (stGet (raft_store R) w sequenceKey)) (FormatUint nxt) ver))
      (\<lambda>_ w. (Inr nxt, w)) = (Inr x, w')"
    using assms(2) unfolding incAndGetIDSeq_def by (auto split: sum.splits)
  have g: "stGet (raft_store R) w sequenceKey = got (map_of (st w) sequenceKey)"
  proof (cases "stGet (raft_store R) w sequenceKey")
    case (Inl e)
    then have "e = ErrNotExist" using d by (auto simp: seqDecide_def split: if_splits)
    then show ?thesis using Get_NotExist Inl by (simp add: got_def)
  next
    case (Inr p)
    then show ?thesis using Get_Inr by (simp add: got_def)
  qed
  have key: "seqKey (stGet (raft_store R) w sequenceKey) = sequenceKey"
    unfolding g using kv_ok_get [OF ok] by (auto simp: got_def seqKey_def split: option.splits)
  obtain res w1 where set: "stSet (raft_store R) w sequenceKey (FormatUint nxt) ver = (res, w1)" by fastforce
  then obtain p where p: "res = Inr p" "w1 = w'" "nxt = x" using s unfolding key by (cases res) auto
  then show ?thesis using d Set_Inr [OF set [unfolded p]] g by auto
qed

lemma createTable_Inr:
  assumes ok: "kv_ok (st w) (ix w)" and cr: "createTable (raft_store R) w name = (Inr tab, w')" and nm: "name \<noteq> ''sys/idseq''"
  shows "map_of (st w) (storedTableName name) = None \<and>
    (\<exists>ver i j. seqDecide (got (map_of (st w) sequenceKey)) = Inr (tbClusterID tab, ver)
       \<and> tab = \<lparr>tbName = name, tbClusterID = tbClusterID tab, tbRecoverID = 0\<rparr>
       \<and> map_of (st w') = (map_of (st w))(
           sequenceKey \<mapsto> \<lparr>Key = sequenceKey, Value = FormatUint (tbClusterID tab), Ver = i\<rparr>,
           storedTableName name \<mapsto> \<lparr>Key = storedTableName name, Value = Table_Marshal tab, Ver = j\<rparr>))"
proof -
  have ex: "stExists (raft_store R) w (storedTableName name) = Inr False"
    using cr by (auto simp: createTable_def split: sum.splits if_splits)
  obtain sq w1 where inc: "incAndGetIDSeq (raft_store R) w = (sq, w1)" by fastforce
  then obtain x where x: "sq = Inr x" using cr ex by (cases sq) (auto simp: createTable_def)
  let ?tab = "\<lparr>tbName = name, tbClusterID = x, tbRecoverID = 0\<rparr>"
  obtain r w2 where set: "stSet (raft_store R) w1 (storedTableName name) (Table_Marshal ?tab) 0 = (r, w2)" by fastforce
  then obtain p where p: "r = Inr p" "w2 = w'" "tab = ?tab"
    using cr ex inc x by (cases r) (auto simp: createTable_def setTableVersion_def)
  have none: "map_of (st w) (storedTableName name) = None" using Exists_Inr [OF ex] by simp
  obtain ver i where "seqDecide (got (map_of (st w) sequenceKey)) = Inr (x, ver)"
    "map_of (st w1) = (map_of (st w))(sequenceKey \<mapsto> \<lparr>Key = sequenceKey, Value = FormatUint x, Ver = i\<rparr>)"
    using incAndGetIDSeq_Inr [OF ok inc [unfolded x]] by blast
  moreover obtain j where "map_of (st w') = (map_of (st w1))(storedTableName name \<mapsto>
      \<lparr>Key = storedTableName name, Value = Table_Marshal ?tab, Ver = j\<rparr>)"
    using Set_Inr [OF set [unfolded p(1,2)]] by blast
  ultimately show ?thesis using none p(3) by auto
qed

text \<open>Listing: the records under the prefix with slash-free names.\<close>

lemma getTables_Inr:
  assumes ok: "kv_ok (st w) (ix w)" and docs: "tables_ok (st w)" and g: "getTables (raft_store R) w = Inr tabs"
  shows "map_of tabs n = Some t \<longleftrightarrow> CHR ''/'' \<notin> set n \<and>
    (\<exists>p. map_of (st w) (storedTableName n) = Some p \<and> Table_Unmarshal (Value p) = Inr t)"
proof -
  let ?F = "filter (\<lambda>x. \<exists>n. fst x = storedTableName n \<and> CHR ''/'' \<notin> set n) (st w)"
  obtain vs where vs: "stGetAll (raft_store R) w (keyPrefix @ ''*'') = Inr vs" "getTables_loop vs [] = Inr tabs"
    using g by (auto simp: getTables_def split: sum.splits)
  then have eq: "vs = map snd ?F" using GetAll_Inr [OF vs(1)] MapStore_GetAll_tables [OF ok] by simp
  have mem: "map_of (st w) (fst x) = Some (snd x) \<and> Key (snd x) = fst x" if "x \<in> set (st w)" for x
    using ok that by (auto simp: kv_ok_def sorted_keys_distinct)
  have "map fst ?F = map Key vs" unfolding eq using mem by simp
  moreover have "distinct (map fst ?F)" using ok by (simp add: kv_ok_def sorted_keys_filter sorted_keys_distinct)
  ultimately have d: "distinct (map Key vs)" by simp
  have un: "\<exists>t. Table_Unmarshal (Value v) = Inr t \<and> Key v = storedTableName (tbName t)" if "v \<in> set vs" for v
  proof -
    obtain k n where "(k, v) \<in> set (st w)" "k = storedTableName n" "CHR ''/'' \<notin> set n" using \<open>v \<in> set vs\<close> eq by auto
    then show ?thesis using tables_okD [OF docs, of n v] mem [of "(k, v)"] by auto
  qed
  have "map_of tabs n = Some t \<longleftrightarrow> (\<exists>v \<in> set vs. Key v = storedTableName n \<and> Table_Unmarshal (Value v) = Inr t)"
    using getTables_loop_map [OF vs(2) un d] by simp
  also have "\<dots> \<longleftrightarrow> CHR ''/'' \<notin> set n \<and> (\<exists>p. map_of (st w) (storedTableName n) = Some p \<and> Table_Unmarshal (Value p) = Inr t)"
    using mem by (auto simp: eq) (metis map_of_SomeD fst_conv snd_conv)+
  finally show ?thesis .
qed

end

section \<open>A single-replica group\<close>

text \<open>A group that applies a proposal with \<^verbatim>\<open>LFSM.Update\<close> at the next index and reads its own store.\<close>

definition local_raft :: "(json \<Rightarrow> string) \<Rightarrow> (nat \<times> json MapStore, json) raft" where
  "local_raft tx =
     \<lparr>rfPropose = \<lambda>(i, s) u.
        (case LFSM_Update s [\<lparr>keIndex = i + 1, keCmd = Some u, keResult = None\<rparr>] of
           Inl e \<Rightarrow> (Inl ''update failed'', (i, s))
         | Inr (out, s') \<Rightarrow> (Inr (the (keResult (hd out))), (i + 1, s'))),
      rfRead = \<lambda>(i, s) q. LFSM_Lookup tx s q\<rparr>"

interpretation local_group: meta_group "local_raft tx" tx snd fst for tx
  by unfold_locales (auto simp: local_raft_def LFSM_apply_eq)

section \<open>Reconciliation\<close>

text \<open>The shards the stored tables ask for.\<close>

definition wanted :: "Table list \<Rightarrow> nat set" where
  "wanted tables = (tbClusterID ` set tables \<union> tbRecoverID ` set tables) - {0}"

lemma diff_ids_wanted: "fst ` set (diff_ids tables) = wanted tables"
proof -
  have "fst ` set (fold (\<lambda>t m.
       let m = (if tbClusterID t \<noteq> 0 then alist_put (tbClusterID t) t m else m)
       in if tbRecoverID t \<noteq> 0 then alist_put (tbRecoverID t) t m else m) tables m) = fst ` set m \<union> wanted tables" for m
    by (induction tables arbitrary: m) (auto simp: wanted_def Let_def fst_set_alist_put)
  then show ?thesis by (simp add: diff_ids_def)
qed

lemma diffTables_start: "fst ` set (fst (diffTables tables running)) = {i \<in> wanted tables. i \<notin> set running \<and> tableIDsRangeStart < i}"
  unfolding diff_ids_wanted [symmetric] by (force simp: diffTables_def Let_def)

lemma diffTables_stop: "set (snd (diffTables tables running)) = {i \<in> set running. i \<notin> wanted tables \<and> tableIDsRangeStart < i}"
  using diff_ids_wanted [of tables] by (auto simp: diffTables_def Let_def map_of_eq_None_iff)

text \<open>
  What reconciliation relies on: the host lists the running shards, a started shard runs, a stopped
  one does not, and writing the store does not touch them.
\<close>

locale shard_host =
  fixes S :: "'w store" and H :: "'w nodehost" and sh :: "'w \<Rightarrow> nat set"
  assumes shards: "nhShards H w = Some l \<Longrightarrow> set l = sh w"
    and starts: "nhStart H w first name i = (Inr (), w') \<Longrightarrow> sh w' = insert i (sh w)"
    and stops: "nhStopShard H w i = (Inr (), w') \<Longrightarrow> sh w' = sh w - {i}"
    and writes: "stSet S w k v ver = (r, w') \<Longrightarrow> sh w' = sh w"
begin

lemma startTable_sh: "startTable H w name i = (Inr u, w') \<Longrightarrow> sh w' = insert i (sh w)"
  by (cases "nhStart H w (\<not> nhHasNodeInfo H w i) name i"; cases "fst (nhStart H w (\<not> nhHasNodeInfo H w i) name i)")
    (auto simp: startTable_def starts split: if_splits)

lemma startTables_sh: "startTables H ts m w = (Inr m', w') \<Longrightarrow> sh w' = sh w \<union> fst ` set ts"
proof (induction ts arbitrary: m w)
  case (Cons it ts)
  obtain i t where it: "it = (i, t)" by fastforce
  obtain x w1 where st: "startTable H w (tbName t) i = (x, w1)" by fastforce
  then obtain u where "x = Inr u" using Cons.prems it by (cases x) auto
  then show ?case using Cons st startTable_sh [of w "tbName t" i u w1] it by auto
qed simp

lemma stopTable_sh:
  assumes "stopTable S H m now w i = (Inr u, w')"
  shows "sh w' = sh w - {i}"
proof -
  obtain k b ver where st: "wbind (liftKv (stSet S w k b ver)) (\<lambda>_ w. liftHost (nhStopShard H w i)) = (Inr u, w')"
    using assms by (auto simp: stopTable_def Let_def split: sum.splits if_splits)
  obtain r w1 where r: "stSet S w k b ver = (r, w1)" by fastforce
  then obtain p where "r = Inr p" using st by (cases r) auto
  moreover obtain x w2 where "nhStopShard H w1 i = (x, w2)" by fastforce
  ultimately show ?thesis using st r writes [OF r] stops [of w1 i w2] by (cases x) auto
qed

lemma stopTables_sh: "stopTables S H now ids m w = (Inr m', w') \<Longrightarrow> sh w' = sh w - set ids"
proof (induction ids arbitrary: m w)
  case (Cons i ids)
  obtain x w1 where st: "stopTable S H m now w i = (x, w1)" by fastforce
  then obtain u where "x = Inr u" using Cons.prems by (cases x) auto
  then show ?case using Cons st stopTable_sh [of m now w i u w1] by auto
qed simp

lemma reconcile_sh:
  assumes "getTables S w = Inr tabs" and "reconcile S H now m w = (Inr m', w')"
  shows "sh w' = {i \<in> sh w. i \<le> tableIDsRangeStart} \<union> {i \<in> wanted (map snd tabs). tableIDsRangeStart < i}"
proof -
  obtain l where l: "nhShards H w = Some l" using assms by (auto simp: reconcile_def split: option.splits)
  obtain start stop where d: "diffTables (map snd tabs) l = (start, stop)" by fastforce
  let ?m = "fold (\<lambda>t m. cacheTable m t) (map snd tabs) m"
  have r: "wbind (startTables H start ?m w) (\<lambda>m w. stopTables S H now stop m w) = (Inr m', w')"
    using assms l d by (simp add: reconcile_def Let_def)
  obtain x w1 where st: "startTables H start ?m w = (x, w1)" by fastforce
  then obtain m1 where x: "x = Inr m1" using r by (cases x) auto
  have "stopTables S H now stop m1 w1 = (Inr m', w')" using r st x by simp
  then have "sh w' = (sh w \<union> fst ` set start) - set stop"
    using startTables_sh [OF st [unfolded x]] stopTables_sh by blast
  then show ?thesis
    using diffTables_start [of "map snd tabs" l] diffTables_stop [of "map snd tabs" l] shards [OF l] d by auto
qed

end

text \<open>A host that keeps the list of its shards beside the metadata store.\<close>

definition beside :: "('w, 'v) raft \<Rightarrow> ('w \<times> 'x, 'v) raft" where
  "beside R = \<lparr>rfPropose = \<lambda>(w, x) u. (case rfPropose R w u of (r, w') \<Rightarrow> (r, (w', x))), rfRead = \<lambda>(w, x) q. rfRead R w q\<rparr>"

definition local_host :: "('w \<times> nat list) nodehost" where
  "local_host =
     \<lparr>nhHasNodeInfo = \<lambda>_ _. False,
      nhStart = \<lambda>(w, l) first name i. if i \<in> set l then (Inl ''shard already exists'', (w, l)) else (Inr (), (w, i # l)),
      nhStopShard = \<lambda>(w, l) i. if i \<in> set l then (Inr (), (w, filter (\<lambda>j. j \<noteq> i) l)) else (Inl ''shard not found'', (w, l)),
      nhPath = \<lambda>_ _. Inr ''/data'',
      nhShards = \<lambda>(w, l). Some l,
      nhRemoveData = \<lambda>w _. (Inr (), w),
      fsRemoveAll = \<lambda>w _. (Inr (), w)\<rparr>"

lemma beside_Set: "stSet (raft_store (beside R)) (w, x) k v ver = (r, (w', y)) \<Longrightarrow> y = x"
  by (auto simp: raft_store_def RaftStore_Set_def beside_def split: prod.splits sum.splits)

interpretation beside_group: meta_group "beside (local_raft tx)" tx "\<lambda>w. snd (fst w)" "\<lambda>w. fst (fst w)" for tx
  by unfold_locales (auto simp: beside_def local_raft_def LFSM_apply_eq)

interpretation local_shards: shard_host "raft_store (beside R)" "local_host :: ('w \<times> nat list) nodehost" "\<lambda>w. set (snd w)" for R :: "('w, json) raft"
proof
  show "set (snd w') = set (snd w)" if "stSet (raft_store (beside R)) w k v ver = (r, w')" for w k v ver r w'
    using that beside_Set [of R "fst w" "snd w" k v ver r "fst w'" "snd w'"] by simp
qed (auto simp: local_host_def split: if_splits)

end
