(* ===== verification/Active_Table.thy ===== *)
theory Active_Table
  imports Replication_Properties Table_Manager
begin

text \<open>
  The active table (\<^verbatim>\<open>storage/table/table.go\<close>): requests of the API validated, turned into
  queries or commands of the table's Raft group, and the answers turned back. The Raft library is a
  parameter; \<open>raft_table\<close> is its contract, kept by the state machine itself.
\<close>

section \<open>Requests and responses\<close>

record ResponseHeader =
  hdShardId :: nat
  hdReplicaId :: nat
  hdRevision :: u64
  hdRaftTerm :: u64
  hdRaftLeaderId :: u64
  hdUnknown :: bytes

record RangeRequest =
  rgTable :: bytes
  rgKey :: bytes
  rgRangeEnd :: "bytes option"
  rgLimit :: u64
  rgLinearizable :: bool
  rgKeysOnly :: bool
  rgCountOnly :: bool
  rgMinModRevision :: u64
  rgMaxModRevision :: u64
  rgMinCreateRevision :: u64
  rgMaxCreateRevision :: u64
  rgqUnknown :: bytes

record RangeResponse =
  rgHeader :: "ResponseHeader option"
  rgKvs :: "KeyValue list"
  rgMore :: bool
  rgCount :: u64
  rgrUnknown :: bytes

record PutRequest =
  puTable :: bytes
  puKey :: bytes
  puValue :: bytes
  puPrevKv :: bool
  puqUnknown :: bytes

record PutResponse =
  puHeader :: "ResponseHeader option"
  puPrev :: "KeyValue option"
  pupUnknown :: bytes

record DeleteRangeRequest =
  deTable :: bytes
  deKey :: bytes
  deRangeEnd :: "bytes option"
  dePrevKv :: bool
  deCount :: bool
  deqUnknown :: bytes

record DeleteRangeResponse =
  deHeader :: "ResponseHeader option"
  deDeleted :: u64
  dePrevKvs :: "KeyValue list"
  depUnknown :: bytes

text \<open>A transaction's response with its header.\<close>

record TxnAnswer =
  taHeader :: "ResponseHeader option"
  taSucceeded :: bool
  taResponses :: "ResponseOp list"
  taUnknown :: bytes

definition emptyHeader :: ResponseHeader where
  "emptyHeader = \<lparr>hdShardId = 0, hdReplicaId = 0, hdRevision = 0, hdRaftTerm = 0, hdRaftLeaderId = 0, hdUnknown = []\<rparr>"

definition revisionHeader :: "u64 \<Rightarrow> ResponseHeader option" where
  "revisionHeader revision = Some (emptyHeader\<lparr>hdRevision := revision\<rparr>)"

datatype table_error =
    ErrEmptyKey
  | ErrKeyLengthExceeded
  | ErrValueLengthExceeded
  | ErrNoResultFound
  | ErrUnknownResultType
  | TRaft string
  | TProto proto_error
  | TPanic string

section \<open>The Raft library\<close>

text \<open>
  \<^verbatim>\<open>SyncRead\<close>, \<^verbatim>\<open>StaleRead\<close> and \<^verbatim>\<open>SyncPropose\<close> of a shard; \<open>'w\<close> is the writer a
  snapshot request carries, and a proposal returns the value and the data of its result.
\<close>

record ('n, 'w) raftHandler =
  rhSyncRead :: "'n \<Rightarrow> nat \<Rightarrow> lookup_request \<Rightarrow> 'w \<Rightarrow> string + (lookup_response \<times> 'w)"
  rhStaleRead :: "'n \<Rightarrow> nat \<Rightarrow> lookup_request \<Rightarrow> 'w \<Rightarrow> string + (lookup_response \<times> 'w)"
  rhSyncPropose :: "'n \<Rightarrow> nat \<Rightarrow> bytes \<Rightarrow> (string + (u64 \<times> bytes)) \<times> 'n"

definition MaxValueLen :: nat where
  "MaxValueLen = 2 * 1024 * 1024"

text \<open>
  The generic functions of the source, over the type test of their type parameter: the assertion
  \<^verbatim>\<open>val.(S)\<close> of a read panics on another type, the type switch of a proposal is an error.
\<close>

definition readTable :: "(lookup_response \<Rightarrow> 's option) \<Rightarrow> ('n, 'w) raftHandler \<Rightarrow> Table \<Rightarrow> 'n \<Rightarrow> bool \<Rightarrow> lookup_request \<Rightarrow> 'w
  \<Rightarrow> table_error + ('s \<times> 'w)"
where
  "readTable asS H t n linearizable req w =
     (case (if linearizable then rhSyncRead H n (tbClusterID t) req w else rhStaleRead H n (tbClusterID t) req w) of
        Inl e \<Rightarrow> Inl (TRaft e)
      | Inr (val, w) \<Rightarrow> (case asS val of None \<Rightarrow> Inl (TPanic ''interface conversion'') | Some x \<Rightarrow> Inr (x, w)))"

definition proposeTable :: "(isResponseOp_Response \<Rightarrow> 's option) \<Rightarrow> ('n, 'w) raftHandler \<Rightarrow> Table \<Rightarrow> 'n \<Rightarrow> Command
  \<Rightarrow> (table_error + ('s \<times> u64)) \<times> 'n"
where
  "proposeTable asS H t n cmd =
     (case rhSyncPropose H n (tbClusterID t) (Command_MarshalVT cmd) of
        (Inl e, n) \<Rightarrow> (Inl (TRaft e), n)
      | (Inr (_, dat), n) \<Rightarrow>
          (case CommandResult_UnmarshalVT dat emptyCommandResult of
             Inl e \<Rightarrow> Inl (TProto e)
           | Inr pr \<Rightarrow>
               (case crResponses pr of
                  [] \<Rightarrow> Inl ErrNoResultFound
                | r # _ \<Rightarrow>
                    (case Option.bind (reResponse r) asS of
                       None \<Rightarrow> Inl ErrUnknownResultType
                     | Some x \<Rightarrow> Inr (x, crRevision pr))), n))"

fun asRange :: "lookup_response \<Rightarrow> ResponseOp_Range option" where
  "asRange (RangeResult r) = Some r"
| "asRange _ = None"

fun asTxn :: "lookup_response \<Rightarrow> TxnResponse option" where
  "asTxn (TxnResult r) = Some r"
| "asTxn _ = None"

fun asSnapshot :: "lookup_response \<Rightarrow> u64 option" where
  "asSnapshot (SnapshotResponse i) = Some i"
| "asSnapshot _ = None"

fun asIndex :: "lookup_response \<Rightarrow> u64 option" where
  "asIndex (IndexResponse i) = Some i"
| "asIndex _ = None"

fun asPut :: "isResponseOp_Response \<Rightarrow> ResponseOp_Put option" where
  "asPut (ResponseOp_ResponsePut r) = Some r"
| "asPut _ = None"

fun asDelete :: "isResponseOp_Response \<Rightarrow> ResponseOp_DeleteRange option" where
  "asDelete (ResponseOp_ResponseDeleteRange r) = Some r"
| "asDelete _ = None"

section \<open>Operations\<close>

definition ActiveTable_Range :: "('n, 'w) raftHandler \<Rightarrow> Table \<Rightarrow> 'n \<Rightarrow> RangeRequest \<Rightarrow> 'w \<Rightarrow> table_error + RangeResponse" where
  "ActiveTable_Range H t n req w =
     (if length (rgKey req) > V1KeyLen then Inl ErrKeyLengthExceeded
      else if length (case rgRangeEnd req of None \<Rightarrow> [] | Some e \<Rightarrow> e) > V1KeyLen then Inl ErrKeyLengthExceeded
      else rbind (readTable asRange H t n (rgLinearizable req) (RangeQuery (emptyRequestOp_Range\<lparr>rrKey := rgKey req,
               rrRangeEnd := rgRangeEnd req, rrLimit := rgLimit req, rrKeysOnly := rgKeysOnly req, rrCountOnly := rgCountOnly req\<rparr>)) w)
             (\<lambda>(response, w).
                Inr \<lparr>rgHeader = None, rgKvs = rsKvs response, rgMore = rsMore response, rgCount = rsCount response, rgrUnknown = []\<rparr>))"

definition putCommand :: "PutRequest \<Rightarrow> Command" where
  "putCommand req = set_cmdPrevKvs (puPrevKv req) (set_cmdKv (Some (emptyKeyValue\<lparr>kvKey := puKey req, kvValue := puValue req\<rparr>))
     (set_cmdTable (puTable req) (set_cmdType Command_PUT emptyCommand)))"

definition ActiveTable_Put :: "('n, 'w) raftHandler \<Rightarrow> Table \<Rightarrow> 'n \<Rightarrow> PutRequest \<Rightarrow> (table_error + PutResponse) \<times> 'n" where
  "ActiveTable_Put H t n req =
     (if length (puKey req) = 0 then (Inl ErrEmptyKey, n)
      else if length (puKey req) > V1KeyLen then (Inl ErrKeyLengthExceeded, n)
      else if length (puValue req) > MaxValueLen then (Inl ErrValueLengthExceeded, n)
      else case proposeTable asPut H t n (putCommand req) of
        (Inl e, n) \<Rightarrow> (Inl e, n)
      | (Inr (r, revision), n) \<Rightarrow> (Inr \<lparr>puHeader = revisionHeader revision, puPrev = spPrevKv r, pupUnknown = []\<rparr>, n))"

definition deleteCommand :: "DeleteRangeRequest \<Rightarrow> Command" where
  "deleteCommand req = set_cmdCount (deCount req) (set_cmdRangeEnd (deRangeEnd req) (set_cmdPrevKvs (dePrevKv req)
     (set_cmdKv (Some (emptyKeyValue\<lparr>kvKey := deKey req\<rparr>)) (set_cmdTable (deTable req) (set_cmdType Command_DELETE emptyCommand)))))"

definition ActiveTable_Delete :: "('n, 'w) raftHandler \<Rightarrow> Table \<Rightarrow> 'n \<Rightarrow> DeleteRangeRequest \<Rightarrow> (table_error + DeleteRangeResponse) \<times> 'n" where
  "ActiveTable_Delete H t n req =
     (if length (deKey req) = 0 then (Inl ErrEmptyKey, n)
      else if length (deKey req) > V1KeyLen then (Inl ErrKeyLengthExceeded, n)
      else case proposeTable asDelete H t n (deleteCommand req) of
        (Inl e, n) \<Rightarrow> (Inl e, n)
      | (Inr (r, revision), n) \<Rightarrow>
          (Inr \<lparr>deHeader = revisionHeader revision, deDeleted = sdDeleted r, dePrevKvs = sdPrevKvs r, depUnknown = []\<rparr>, n))"

fun isRange :: "RequestOp \<Rightarrow> bool" where
  "isRange op = (case roRequest op of Some (RequestOp_RequestRange _) \<Rightarrow> True | _ \<Rightarrow> False)"

definition isReadonlyTransaction :: "TxnRequest \<Rightarrow> bool" where
  "isReadonlyTransaction req = (list_all isRange (trSuccess req) \<and> list_all isRange (trFailure req))"

definition txnCommand :: "TxnRequest \<Rightarrow> Command" where
  "txnCommand req = set_cmdTxn (Some (emptyTxn\<lparr>txCompare := trCompare req, txSuccess := trSuccess req, txFailure := trFailure req\<rparr>))
     (set_cmdTable (trTable req) (set_cmdType Command_TXN emptyCommand))"

definition ActiveTable_Txn :: "('n, 'w) raftHandler \<Rightarrow> Table \<Rightarrow> 'n \<Rightarrow> TxnRequest \<Rightarrow> 'w \<Rightarrow> (table_error + TxnAnswer) \<times> 'n" where
  "ActiveTable_Txn H t n req w =
     (if isReadonlyTransaction req then
        (rbind (readTable asTxn H t n True (TxnQuery req) w) (\<lambda>(r, w).
           Inr \<lparr>taHeader = None, taSucceeded = tpSucceeded r, taResponses = tpResponses r, taUnknown = []\<rparr>), n)
      else case rhSyncPropose H n (tbClusterID t) (Command_MarshalVT (txnCommand req)) of
        (Inl e, n) \<Rightarrow> (Inl (TRaft e), n)
      | (Inr (v, dat), n) \<Rightarrow>
          (case CommandResult_UnmarshalVT dat emptyCommandResult of
             Inl e \<Rightarrow> Inl (TProto e)
           | Inr txr \<Rightarrow> Inr \<lparr>taHeader = revisionHeader (crRevision txr), taSucceeded = (v = ResultSuccess), taResponses = crResponses txr, taUnknown = []\<rparr>, n))"

definition ActiveTable_Snapshot :: "('n, 'w) raftHandler \<Rightarrow> Table \<Rightarrow> 'n \<Rightarrow> bool list \<Rightarrow> 'w \<Rightarrow> table_error + (u64 \<times> 'w)" where
  "ActiveTable_Snapshot H t n stopped w = readTable asSnapshot H t n True (SnapshotRequest stopped) w"

definition ActiveTable_LocalIndex :: "('n, 'w) raftHandler \<Rightarrow> Table \<Rightarrow> 'n \<Rightarrow> bool \<Rightarrow> 'w \<Rightarrow> table_error + u64" where
  "ActiveTable_LocalIndex H t n linearizable w =
     rbind (readTable asIndex H t n linearizable LocalIndexRequest w) (\<lambda>(i, w). Inr i)"

definition ActiveTable_LeaderIndex :: "('n, 'w) raftHandler \<Rightarrow> Table \<Rightarrow> 'n \<Rightarrow> bool \<Rightarrow> 'w \<Rightarrow> table_error + u64" where
  "ActiveTable_LeaderIndex H t n linearizable w =
     rbind (readTable asIndex H t n linearizable LeaderIndexRequest w) (\<lambda>(i, w). Inr i)"

definition resetCommand :: "bytes \<Rightarrow> Command" where
  "resetCommand name = set_cmdLeaderIndex (Some 0) (set_cmdTable name (set_cmdType Command_DUMMY emptyCommand))"

definition ActiveTable_Reset :: "('n, 'w) raftHandler \<Rightarrow> Table \<Rightarrow> 'n \<Rightarrow> (table_error + unit) \<times> 'n" where
  "ActiveTable_Reset H t n =
     (case rhSyncPropose H n (tbClusterID t) (Command_MarshalVT (resetCommand (nameBytes (tbName t)))) of
        (Inl e, n) \<Rightarrow> (Inl (TRaft e), n)
      | (Inr _, n) \<Rightarrow> (Inr (), n))"

section \<open>The contract\<close>

text \<open>
  A proposal is applied as one entry at the next index and its result comes back, or it fails and is
  applied or not; a linearizable read answers from the table's state.
\<close>

locale raft_table =
  fixes H :: "('n, 'w) raftHandler" and table :: "nat \<Rightarrow> 'n \<Rightarrow> table_state" and ok :: "nat \<Rightarrow> 'n \<Rightarrow> bool"
  assumes propose_ok: "ok i n \<Longrightarrow> rhSyncPropose H n i b = (r, n') \<Longrightarrow> ok i n'"
    and propose_Inr: "ok i n \<Longrightarrow> rhSyncPropose H n i b = (Inr (v, dat), n') \<Longrightarrow>
      \<exists>e e'. entCmd e = b \<and> entData e = [] \<and> spec_update [e] (table i n) = Inr ([e'], table i n') \<and> entValue e' = v \<and> entData e' = dat"
    and propose_Inl: "ok i n \<Longrightarrow> rhSyncPropose H n i b = (Inl err, n') \<Longrightarrow>
      (\<exists>e out. entCmd e = b \<and> spec_update [e] (table i n) = Inr (out, table i n')) \<or> table i n' = table i n"
    and read_range: "ok i n \<Longrightarrow> rhSyncRead H n i (RangeQuery req) w = Inr a \<Longrightarrow> fst a = RangeResult (spec_lookup req (tsKvs (table i n)))"
    and read_index: "ok i n \<Longrightarrow> rhSyncRead H n i LocalIndexRequest w = Inr a \<Longrightarrow> fst a = IndexResponse (tsIndex (table i n))"
    and read_leader: "ok i n \<Longrightarrow> rhSyncRead H n i LeaderIndexRequest w = Inr a \<Longrightarrow> fst a = IndexResponse (tsLeader (table i n))"

text \<open>The handler of a table's own state machine: every shard of the host is its one replica.\<close>

definition fsm_handler :: "('d, 'b) pebble \<Rightarrow> ('w \<Rightarrow> bytes \<Rightarrow> string + 'w) \<Rightarrow> (nat \<Rightarrow> 'd FSM, 'w) raftHandler" where
  "fsm_handler P wr =
     (let rd = (\<lambda>n i req w. case Lookup P wr (n i) req w of Inl e \<Rightarrow> Inl ''lookup failed'' | Inr r \<Rightarrow> Inr r) in
      \<lparr>rhSyncRead = rd, rhStaleRead = rd,
       rhSyncPropose = \<lambda>n i b.
         (case Update P (n i) [\<lparr>entIndex = fsmApplied (n i) + 1, entCmd = b, entValue = 0, entData = []\<rparr>] of
            Inl e \<Rightarrow> (Inl ''proposal failed'', n)
          | Inr (out, p) \<Rightarrow> (Inr (entValue (hd out), entData (hd out)), n(i := p)))\<rparr>)"

lemma fsm_handler_simps:
  "rhSyncRead (fsm_handler P wr) n i req w = (case Lookup P wr (n i) req w of Inl e \<Rightarrow> Inl ''lookup failed'' | Inr r \<Rightarrow> Inr r)"
  "rhStaleRead (fsm_handler P wr) n i req w = (case Lookup P wr (n i) req w of Inl e \<Rightarrow> Inl ''lookup failed'' | Inr r \<Rightarrow> Inr r)"
  "rhSyncPropose (fsm_handler P wr) n i b =
     (case Update P (n i) [\<lparr>entIndex = fsmApplied (n i) + 1, entCmd = b, entValue = 0, entData = []\<rparr>] of
        Inl e \<Rightarrow> (Inl ''proposal failed'', n)
      | Inr (out, p) \<Rightarrow> (Inr (entValue (hd out), entData (hd out)), n(i := p)))"
  by (simp_all add: fsm_handler_def Let_def)

interpretation fsm_table: raft_table "fsm_handler P wr" "\<lambda>i n. db_state P (n i)" "\<lambda>i n. pebble_laws P W \<and> fsm_ok P (n i)" for P W wr
proof
  fix i n b r n'
  assume ok: "pebble_laws P W \<and> fsm_ok P (n i)" and pr: "rhSyncPropose (fsm_handler P wr) n i b = (r, n')"
  show "pebble_laws P W \<and> fsm_ok P (n' i)"
    using ok pr Update_spec(1) [of P W "n i"] by (auto simp: fsm_handler_simps split: sum.splits)
next
  fix i n b v dat n'
  assume ok: "pebble_laws P W \<and> fsm_ok P (n i)" and pr: "rhSyncPropose (fsm_handler P wr) n i b = (Inr (v, dat), n')"
  let ?e = "\<lparr>entIndex = fsmApplied (n i) + 1, entCmd = b, entValue = 0, entData = []\<rparr>"
  obtain out p where u: "Update P (n i) [?e] = Inr (out, p)" "n' = n(i := p)" "v = entValue (hd out)" "dat = entData (hd out)"
    using pr by (auto simp: fsm_handler_simps split: sum.splits)
  have st: "spec_update [?e] (db_state P (n i)) = Inr (out, db_state P (n' i))" using Update_spec(2) [of P W "n i"] ok u by simp
  then obtain e' where "out = [e']" by (auto simp: spec_update_def result_simps split: sum.splits)
  then show "\<exists>e e'. entCmd e = b \<and> entData e = [] \<and> spec_update [e] (db_state P (n i)) = Inr ([e'], db_state P (n' i)) \<and> entValue e' = v \<and> entData e' = dat"
    using st u(3,4) by (intro exI [of _ ?e] exI [of _ e']) simp
next
  fix i n b err n'
  assume ok: "pebble_laws P W \<and> fsm_ok P (n i)" and pr: "rhSyncPropose (fsm_handler P wr) n i b = (Inl err, n')"
  then show "(\<exists>e out. entCmd e = b \<and> spec_update [e] (db_state P (n i)) = Inr (out, db_state P (n' i))) \<or> db_state P (n' i) = db_state P (n i)"
    by (auto simp: fsm_handler_simps split: sum.splits)
next
  fix i :: nat and n req w a
  assume ok: "pebble_laws P W \<and> fsm_ok P (n i)" and rd: "rhSyncRead (fsm_handler P wr) n i (RangeQuery req) w = Inr a"
  obtain db where "fsmPebble (n i) = Some db" "reader_ok (pbReader P db)" "table_ok (contents (pbReader P db))"
    using fsm_ok_reader ok by blast
  then show "fst a = RangeResult (spec_lookup req (tsKvs (db_state P (n i))))"
    using rd lookup_spec [of "pbReader P db" req] by (auto simp: fsm_handler_simps Lookup_def table_ok_def abs_state_def)
next
  fix i :: nat and n w a
  assume ok: "pebble_laws P W \<and> fsm_ok P (n i)" and rd: "rhSyncRead (fsm_handler P wr) n i LocalIndexRequest w = Inr a"
  obtain db where "fsmPebble (n i) = Some db" "reader_ok (pbReader P db)" "table_ok (contents (pbReader P db))"
    using fsm_ok_reader ok by blast
  then show "fst a = IndexResponse (tsIndex (db_state P (n i)))"
    using rd readLocalIndex_user [of "pbReader P db" sysLocalIndex] by (auto simp: fsm_handler_simps Lookup_def table_ok_def abs_state_def)
next
  fix i :: nat and n w a
  assume ok: "pebble_laws P W \<and> fsm_ok P (n i)" and rd: "rhSyncRead (fsm_handler P wr) n i LeaderIndexRequest w = Inr a"
  obtain db where "fsmPebble (n i) = Some db" "reader_ok (pbReader P db)" "table_ok (contents (pbReader P db))"
    using fsm_ok_reader ok by blast
  then show "fst a = IndexResponse (tsLeader (db_state P (n i)))"
    using rd readLocalIndex_user [of "pbReader P db" sysLeaderIndex] by (auto simp: fsm_handler_simps Lookup_def table_ok_def abs_state_def)
qed

end
