(* ===== verification/Table_Properties.thy ===== *)
theory Table_Properties
  imports Active_Table
begin

text \<open>
  What a client of an active table gets: answers of the right type, its own writes, and revisions
  that are indexes of the table.
\<close>

section \<open>Commands survive their encoding\<close>

lemma putCommand_eq: "putCommand req = Command (puTable req) Command_PUT (Some (emptyKeyValue\<lparr>kvKey := puKey req, kvValue := puValue req\<rparr>))
    None [] None None (puPrevKv req) [] False []"
  by (simp add: putCommand_def emptyCommand_def)

lemma deleteCommand_eq: "deleteCommand req = Command (deTable req) Command_DELETE (Some (emptyKeyValue\<lparr>kvKey := deKey req\<rparr>))
    None [] None (deRangeEnd req) (dePrevKv req) [] (deCount req) []"
  by (simp add: deleteCommand_def emptyCommand_def)

lemma putCommand_decode:
  assumes "length (puKey req) \<le> V1KeyLen" and "length (puValue req) \<le> MaxValueLen" and "length (puTable req) < 2 ^ 62"
  shows "Command_UnmarshalVT (Command_MarshalVT (putCommand req)) emptyCommand = Inr (putCommand req)"
proof (rule Command_UnmarshalVT_MarshalVT)
  show "Command_wf (putCommand req)" by (simp add: putCommand_eq KeyValue_wf_def emptyKeyValue_def)
  have "sizeMessage (KeyValue_SizeVT (emptyKeyValue\<lparr>kvKey := puKey req, kvValue := puValue req\<rparr>)) \<le> 2098209"
    using KeyValue_overhead [where k = "puKey req" and v = "puValue req"] assms(1,2) by (simp add: V1KeyLen_def MaxValueLen_def)
  moreover have "sizeBytes (puTable req) \<le> length (puTable req) + 11"
    using sov_le_10 [of "of_nat (length (puTable req))"] by (simp add: sizeBytes_def Let_def)
  ultimately show "Command_SizeVT (putCommand req) < 2 ^ 63" using assms(3)
    by (simp add: putCommand_eq sizeVarint_def sizeBool_def sizeRepeated_def Command_PUT_def sizeMessage_def)
qed

text \<open>The result of a put survives its encoding unless the stored value is absurdly long.\<close>

lemma putResult_decode:
  assumes "spPrevKv r = None \<or> (\<exists>k v. spPrevKv r = Some (emptyKeyValue\<lparr>kvKey := k, kvValue := v\<rparr>) \<and> length k + length v < 2 ^ 62)"
    and "spUnknown r = []"
  shows "CommandResult_UnmarshalVT (CommandResult_MarshalVT (mkResult idx [wrapPut r])) emptyCommandResult = Inr (mkResult idx [wrapPut r])"
proof (rule CommandResult_UnmarshalVT_MarshalVT)
  show "CommandResult_wf (mkResult idx [wrapPut r])" using assms
    by (auto simp: CommandResult_wf_def mkResult_def emptyCommandResult_def wrapPut_def ResponseOp_wf_def emptyResponseOp_def
        ResponseOp_Put_wf_def KeyValue_wf_def emptyKeyValue_def)
  have p: "ResponseOp_Put_SizeVT r < 2 ^ 62 + 100"
  proof (cases "spPrevKv r")
    case None
    then show ?thesis using assms(2) by (simp add: ResponseOp_Put_SizeVT_def)
  next
    case (Some kv)
    then obtain k v where "kv = emptyKeyValue\<lparr>kvKey := k, kvValue := v\<rparr>" "length k + length v < 2 ^ 62" using assms(1) by auto
    then show ?thesis using Some assms(2) KeyValue_overhead [where k = k and v = v]
      by (simp add: ResponseOp_Put_SizeVT_def sizeMessage_def)
  qed
  have "sizeMessage (ResponseOp_Put_SizeVT r) \<le> ResponseOp_Put_SizeVT r + 11"
    using sov_le_10 [of "of_nat (ResponseOp_Put_SizeVT r)"] by (simp add: sizeMessage_def)
  moreover have "ResponseOp_SizeVT (wrapPut r) = sizeMessage (ResponseOp_Put_SizeVT r)"
    by (simp add: ResponseOp_SizeVT_def wrapPut_def emptyResponseOp_def)
  ultimately show "CommandResult_SizeVT (mkResult idx [wrapPut r]) < 2 ^ 63"
    using p sov_le_10 [of idx] sov_le_10 [of "of_nat (ResponseOp_SizeVT (wrapPut r))"]
    by (simp add: CommandResult_SizeVT_def mkResult_def emptyCommandResult_def sizeRepeated_def sizeVarint_def)
qed

text \<open>A linearizable read of a single key.\<close>

definition getRequest :: "bytes \<Rightarrow> bytes \<Rightarrow> RangeRequest" where
  "getRequest tbl k = \<lparr>rgTable = tbl, rgKey = k, rgRangeEnd = None, rgLimit = 0, rgLinearizable = True, rgKeysOnly = False,
     rgCountOnly = False, rgMinModRevision = 0, rgMaxModRevision = 0, rgMinCreateRevision = 0, rgMaxCreateRevision = 0, rgqUnknown = []\<rparr>"

section \<open>What the contract gives\<close>

context raft_table
begin

text \<open>A proposed command of which the specification gives one typed response.\<close>

lemma proposeTable_result:
  assumes ok: "ok (tbClusterID t) n" and dec: "Command_UnmarshalVT (Command_MarshalVT cmd) emptyCommand = Inr cmd"
    and typed: "\<And>v rs m. spec_command cmd (tsKvs (table (tbClusterID t) n)) = Inr ((v, rs), m) \<Longrightarrow>
      \<exists>r x. rs = [r] \<and> Option.bind (reResponse r) asS = Some x
        \<and> (\<forall>idx. CommandResult_UnmarshalVT (CommandResult_MarshalVT (mkResult idx [r])) emptyCommandResult = Inr (mkResult idx [r]))"
    and pr: "proposeTable asS H t n cmd = (res, n')"
  shows "(\<exists>e. res = Inl (TRaft e)) \<or>
    (\<exists>v r x. spec_command cmd (tsKvs (table (tbClusterID t) n)) = Inr ((v, [r]), tsKvs (table (tbClusterID t) n'))
       \<and> Option.bind (reResponse r) asS = Some x \<and> res = Inr (x, tsIndex (table (tbClusterID t) n')))"
proof (cases "fst (rhSyncPropose H n (tbClusterID t) (Command_MarshalVT cmd))")
  case (Inl e)
  then show ?thesis using pr by (auto simp: proposeTable_def split: prod.splits)
next
  case (Inr vd)
  then obtain v dat where p: "rhSyncPropose H n (tbClusterID t) (Command_MarshalVT cmd) = (Inr (v, dat), n')"
    using pr by (cases vd) (auto simp: proposeTable_def split: prod.splits)
  obtain e e' where e: "entCmd e = Command_MarshalVT cmd" "entData e = []"
    "spec_update [e] (table (tbClusterID t) n) = Inr ([e'], table (tbClusterID t) n')" "entData e' = dat"
    using propose_Inr [OF ok p] by blast
  obtain j where j: "spec_entries [e] (tsKvs (table (tbClusterID t) n)) (0, None) = Inr (([e'], tsKvs (table (tbClusterID t) n')), j)"
    "tsIndex (table (tbClusterID t) n') = fst j"
    using spec_update_InrD [OF e(3)] by blast
  then obtain v' rs where sc: "spec_command cmd (tsKvs (table (tbClusterID t) n)) = Inr ((v', rs), tsKvs (table (tbClusterID t) n'))"
    and ix: "tsIndex (table (tbClusterID t) n') = entIndex e" and e': "e' = setResult e v' (mkResult (entIndex e) rs)"
    by (auto simp: result_simps e(1) dec spec_result_def)
  obtain r x where r: "rs = [r]" "Option.bind (reResponse r) asS = Some x"
    "CommandResult_UnmarshalVT (CommandResult_MarshalVT (mkResult (entIndex e) [r])) emptyCommandResult = Inr (mkResult (entIndex e) [r])"
    using typed [OF sc] by blast
  have "dat = CommandResult_MarshalVT (mkResult (entIndex e) [r])"
    using e(4) e' r(1) by (simp add: setResult_def mkResult_def)
  then have "res = Inr (x, entIndex e)"
    using pr p r(2,3) by (simp add: proposeTable_def) (simp add: mkResult_def)
  then show ?thesis using sc r ix by auto
qed

lemma Put_result:
  assumes ok: "ok (tbClusterID t) n" and tbl: "length (puTable req) < 2 ^ 62"
    and stored: "\<forall>v. map_of (tsKvs (table (tbClusterID t) n)) (puKey req) = Some v \<longrightarrow> length v < 2 ^ 61"
    and pr: "ActiveTable_Put H t n req = (res, n')"
  shows "(\<exists>e. res = Inl e \<and> (e \<in> {ErrEmptyKey, ErrKeyLengthExceeded, ErrValueLengthExceeded} \<and> n' = n \<or> (\<exists>x. e = TRaft x))) \<or>
    (\<exists>prev. res = Inr \<lparr>puHeader = revisionHeader (tsIndex (table (tbClusterID t) n')), puPrev = prev, pupUnknown = []\<rparr>)
      \<and> tsKvs (table (tbClusterID t) n') = alist_put (puKey req) (puValue req) (tsKvs (table (tbClusterID t) n))"
proof (cases "length (puKey req) = 0 \<or> length (puKey req) > V1KeyLen \<or> length (puValue req) > MaxValueLen")
  case True
  then show ?thesis using pr by (auto simp: ActiveTable_Put_def split: if_splits)
next
  case False
  obtain pres where pt: "proposeTable asPut H t n (putCommand req) = (pres, n')"
    using pr False by (cases "proposeTable asPut H t n (putCommand req)") (auto simp: ActiveTable_Put_def split: sum.splits)
  have typed: "\<exists>r x. rs = [r] \<and> Option.bind (reResponse r) asPut = Some x
        \<and> (\<forall>idx. CommandResult_UnmarshalVT (CommandResult_MarshalVT (mkResult idx [r])) emptyCommandResult = Inr (mkResult idx [r]))"
    if sc: "spec_command (putCommand req) (tsKvs (table (tbClusterID t) n)) = Inr ((v, rs), m)" for v rs m
  proof -
    obtain p where p: "rs = [wrapPut p]" "spec_put (putRequest (emptyKeyValue\<lparr>kvKey := puKey req, kvValue := puValue req\<rparr>) (puPrevKv req))
        (tsKvs (table (tbClusterID t) n)) = Inr (p, m)"
      using sc by (auto simp: spec_command.simps putCommand_eq result_simps)
    then have "spUnknown p = [] \<and> (spPrevKv p = None \<or> (\<exists>k v. spPrevKv p = Some (emptyKeyValue\<lparr>kvKey := k, kvValue := v\<rparr>) \<and> length k + length v < 2 ^ 62))"
      using stored False
      by (fastforce simp: spec_put_def putRequest_def emptyRequestOp_Put_def emptyResponseOp_Put_def V1KeyLen_def emptyKeyValue_def
          split: if_splits option.splits)
    then show ?thesis using putResult_decode [of p] p(1) by (simp add: wrapPut_def)
  qed
  have dec: "Command_UnmarshalVT (Command_MarshalVT (putCommand req)) emptyCommand = Inr (putCommand req)"
    using False by (intro putCommand_decode [OF _ _ tbl]) simp_all
  have "(\<exists>e. pres = Inl (TRaft e)) \<or>
    (\<exists>v r x. spec_command (putCommand req) (tsKvs (table (tbClusterID t) n)) = Inr ((v, [r]), tsKvs (table (tbClusterID t) n'))
       \<and> Option.bind (reResponse r) asPut = Some x \<and> pres = Inr (x, tsIndex (table (tbClusterID t) n')))"
    by (rule proposeTable_result [OF ok dec _ pt]) (erule typed)
  then consider (raft) e where "pres = Inl (TRaft e)"
    | (done_) v r x where "spec_command (putCommand req) (tsKvs (table (tbClusterID t) n)) = Inr ((v, [r]), tsKvs (table (tbClusterID t) n'))"
        "pres = Inr (x, tsIndex (table (tbClusterID t) n'))"
    by blast
  then show ?thesis
  proof cases
    case raft
    then show ?thesis using pr pt False by (auto simp: ActiveTable_Put_def)
  next
    case done_
    have "tsKvs (table (tbClusterID t) n') = alist_put (puKey req) (puValue req) (tsKvs (table (tbClusterID t) n))"
      using done_(1) by (auto simp: spec_command.simps putCommand_eq result_simps spec_put_def putRequest_def emptyRequestOp_Put_def
          emptyKeyValue_def split: if_splits option.splits)
    then show ?thesis using pr pt False done_(2) by (auto simp: ActiveTable_Put_def)
  qed
qed

lemma Range_linearizable:
  assumes ok: "ok (tbClusterID t) n" and lin: "rgLinearizable req" and "length (rgKey req) \<le> V1KeyLen"
    and "length (case rgRangeEnd req of None \<Rightarrow> [] | Some e \<Rightarrow> e) \<le> V1KeyLen"
  shows "(\<exists>e. ActiveTable_Range H t n req w = Inl (TRaft e)) \<or>
    (let r = spec_lookup (emptyRequestOp_Range\<lparr>rrKey := rgKey req, rrRangeEnd := rgRangeEnd req, rrLimit := rgLimit req,
        rrKeysOnly := rgKeysOnly req, rrCountOnly := rgCountOnly req\<rparr>) (tsKvs (table (tbClusterID t) n)) in
     ActiveTable_Range H t n req w = Inr \<lparr>rgHeader = None, rgKvs = rsKvs r, rgMore = rsMore r, rgCount = rsCount r, rgrUnknown = []\<rparr>)"
proof (cases "rhSyncRead H n (tbClusterID t) (RangeQuery (emptyRequestOp_Range\<lparr>rrKey := rgKey req, rrRangeEnd := rgRangeEnd req,
    rrLimit := rgLimit req, rrKeysOnly := rgKeysOnly req, rrCountOnly := rgCountOnly req\<rparr>)) w")
  case (Inl e)
  then show ?thesis using assms by (simp add: ActiveTable_Range_def readTable_def)
next
  case (Inr a)
  then show ?thesis using assms read_range [OF ok Inr] by (cases a) (simp add: ActiveTable_Range_def readTable_def Let_def)
qed

lemma proposeTable_ok: "ok (tbClusterID t) n \<Longrightarrow> proposeTable asS H t n cmd = (res, n') \<Longrightarrow> ok (tbClusterID t) n'"
  using propose_ok [of "tbClusterID t" n "Command_MarshalVT cmd"] by (auto simp: proposeTable_def split: prod.splits sum.splits)

lemma Put_ok: "ok (tbClusterID t) n \<Longrightarrow> ActiveTable_Put H t n req = (res, n') \<Longrightarrow> ok (tbClusterID t) n'"
  using proposeTable_ok [of t n asPut "putCommand req"] by (auto simp: ActiveTable_Put_def split: if_splits prod.splits sum.splits)

lemma Put_Range:
  assumes ok: "ok (tbClusterID t) n" and tbl: "length (puTable req) < 2 ^ 62"
    and stored: "\<forall>v. map_of (tsKvs (table (tbClusterID t) n)) (puKey req) = Some v \<longrightarrow> length v < 2 ^ 61"
    and pr: "ActiveTable_Put H t n req = (Inr resp, n')"
  shows "puHeader resp = revisionHeader (tsIndex (table (tbClusterID t) n')) \<and>
    ActiveTable_Range H t n' (getRequest (puTable req) (puKey req)) w
      \<in> {Inr \<lparr>rgHeader = None, rgKvs = [emptyKeyValue\<lparr>kvKey := puKey req, kvValue := puValue req\<rparr>], rgMore = False, rgCount = 1, rgrUnknown = []\<rparr>}
        \<union> range (\<lambda>e. Inl (TRaft e))"
proof -
  have "map_of (tsKvs (table (tbClusterID t) n')) (puKey req) = Some (puValue req)"
    and hd: "puHeader resp = revisionHeader (tsIndex (table (tbClusterID t) n'))"
    using Put_result [OF ok tbl stored pr] by (auto simp: map_of_alist_put)
  moreover have "length (puKey req) \<le> V1KeyLen" using pr by (auto simp: ActiveTable_Put_def split: if_splits)
  ultimately show ?thesis
    using Range_linearizable [OF Put_ok [OF ok pr], of "getRequest (puTable req) (puKey req)" w]
    by (auto simp: getRequest_def spec_lookup_def spec_single_def emptyRequestOp_Range_def emptyResponseOp_Range_def Let_def)
qed

end

section \<open>Properties\<close>

text \<open>
  A put is answered with a put's result. Over any Raft group that keeps its contract, a put on a
  table can fail only by its own checks or by the Raft library: the result of the state machine always
  decodes, is never missing and always has the type of a put, so that the errors for those cases are
  unreachable.
\<close>

theorem Put_typed:
  assumes "raft_table H table ok" and "ok (tbClusterID t) n" and "length (puTable req) < 2 ^ 62"
    and "\<forall>v. map_of (tsKvs (table (tbClusterID t) n)) (puKey req) = Some v \<longrightarrow> length v < 2 ^ 61"
    and "ActiveTable_Put H t n req = (Inl e, n')"
  shows "e \<in> {ErrEmptyKey, ErrKeyLengthExceeded, ErrValueLengthExceeded} \<union> range TRaft"
  using raft_table.Put_result [OF assms] by auto

definition exPutRequest :: "bytes \<Rightarrow> bytes \<Rightarrow> PutRequest" where
  "exPutRequest k v = \<lparr>puTable = [], puKey = k, puValue = v, puPrevKv = False, puqUnknown = []\<rparr>"

definition exNode :: "nat \<Rightarrow> batch_op list FSM" where
  "exNode = (\<lambda>_. exFSM [])"

definition exHandler :: "(nat \<Rightarrow> batch_op list FSM, unit) raftHandler" where
  "exHandler = fsm_handler mem_pebble (\<lambda>w b. Inr w)"

lemma exHandler_table: "raft_table exHandler (\<lambda>i n. db_state mem_pebble (n i)) (\<lambda>i n. pebble_laws mem_pebble snd \<and> fsm_ok mem_pebble (n i))"
  unfolding exHandler_def by (rule fsm_table.raft_table_axioms)

lemma exNode_ok: "pebble_laws mem_pebble snd \<and> fsm_ok mem_pebble (exNode i)"
  by (simp add: exNode_def exFSM_ok)

lemma exNode_kvs: "tsKvs (db_state mem_pebble (exNode i)) = []"
  unfolding exNode_def exFSM_state by simp

theorem Put_typed_witness:
  "ActiveTable_Put exHandler emptyTable exNode (exPutRequest [] [1]) = (Inl ErrEmptyKey, exNode)
    \<and> ErrEmptyKey \<in> {ErrEmptyKey, ErrKeyLengthExceeded, ErrValueLengthExceeded} \<union> range TRaft"
proof -
  have r: "ActiveTable_Put exHandler emptyTable exNode (exPutRequest [] [1]) = (Inl ErrEmptyKey, exNode)"
    by (simp add: ActiveTable_Put_def exPutRequest_def)
  have "ErrEmptyKey \<in> {ErrEmptyKey, ErrKeyLengthExceeded, ErrValueLengthExceeded} \<union> range TRaft"
    by (rule Put_typed [OF exHandler_table exNode_ok _ _ r]) (simp_all add: exNode_kvs exPutRequest_def)
  with r show ?thesis by simp
qed

text \<open>
  A client reads its own writes. If a put succeeds, a linearizable read of the key finds exactly the
  value that was put, whatever was stored before, or fails in the Raft library; and the revision the put
  reports is the index of the table that holds the value.
\<close>

theorem Put_then_Range:
  assumes "raft_table H table ok" and "ok (tbClusterID t) n" and "length (puTable req) < 2 ^ 62"
    and "\<forall>v. map_of (tsKvs (table (tbClusterID t) n)) (puKey req) = Some v \<longrightarrow> length v < 2 ^ 61"
    and "ActiveTable_Put H t n req = (Inr resp, n')"
  shows "puHeader resp = revisionHeader (tsIndex (table (tbClusterID t) n')) \<and>
    ActiveTable_Range H t n' (getRequest (puTable req) (puKey req)) w
      \<in> {Inr \<lparr>rgHeader = None, rgKvs = [emptyKeyValue\<lparr>kvKey := puKey req, kvValue := puValue req\<rparr>], rgMore = False, rgCount = 1, rgrUnknown = []\<rparr>}
        \<union> range (\<lambda>e. Inl (TRaft e))"
  using raft_table.Put_Range [OF assms] .

lemma exPut_succeeds:
  "\<exists>resp n'. ActiveTable_Put exHandler emptyTable exNode (exPutRequest [97] [1]) = (Inr resp, n')"
proof -
  obtain res n' where r: "ActiveTable_Put exHandler emptyTable exNode (exPutRequest [97] [1]) = (res, n')" by fastforce
  have c: "putCommand (exPutRequest [97] [1]) = exPut [97] [1] None" by (simp add: putCommand_eq exPutRequest_def exPut_def)
  obtain out p' where u: "Update mem_pebble (exFSM []) [exEntry 1 (exPut [97] [1] None)] = Inr (out, p')"
    using exUpdate [OF exFSM_ok, of "[97]" "[1]" 1 None] by auto
  then have "rhSyncPropose exHandler exNode 0 (Command_MarshalVT (putCommand (exPutRequest [97] [1])))
      = (Inr (entValue (hd out), entData (hd out)), exNode(0 := p'))"
    unfolding exHandler_def fsm_handler_simps c by (simp add: exNode_def exEntry_def) (simp add: exFSM_def exNode_def)
  then have "res \<noteq> Inl (TRaft e)" for e
    using r by (auto simp: ActiveTable_Put_def proposeTable_def emptyTable_def exPutRequest_def split: if_splits sum.splits prod.splits list.splits option.splits)
  moreover have "res \<noteq> Inl e" if "e \<in> {ErrEmptyKey, ErrKeyLengthExceeded, ErrValueLengthExceeded}" for e
    using r that by (auto simp: ActiveTable_Put_def proposeTable_def exPutRequest_def V1KeyLen_def MaxValueLen_def
        split: sum.splits prod.splits list.splits option.splits)
  ultimately have "\<exists>resp. res = Inr resp"
    using raft_table.Put_result [OF exHandler_table exNode_ok _ _ r] by (auto simp: exNode_kvs exPutRequest_def)
  then show ?thesis using r by auto
qed

theorem Put_then_Range_witness:
  "\<exists>resp n'. ActiveTable_Put exHandler emptyTable exNode (exPutRequest [97] [1]) = (Inr resp, n') \<and>
    ActiveTable_Range exHandler emptyTable n' (getRequest [] [97]) ()
      \<in> {Inr \<lparr>rgHeader = None, rgKvs = [emptyKeyValue\<lparr>kvKey := [97], kvValue := [1]\<rparr>], rgMore = False, rgCount = 1, rgrUnknown = []\<rparr>}
        \<union> range (\<lambda>e. Inl (TRaft e))"
proof -
  obtain resp n' where r: "ActiveTable_Put exHandler emptyTable exNode (exPutRequest [97] [1]) = (Inr resp, n')"
    using exPut_succeeds by blast
  from Put_then_Range [OF exHandler_table exNode_ok _ _ r, of "()"] r show ?thesis
    by (simp add: exNode_kvs exPutRequest_def)
qed

end
