(* ===== verification/Snapshot_Stream.thy ===== *)
theory Snapshot_Stream
  imports FSM_Properties
begin

text \<open>
  Snapshot files and streams (\<^verbatim>\<open>replication/snapshot/snapshot.go\<close>, the readers and writers of
  \<^verbatim>\<open>regattaserver/maintenance.go\<close> and \<^verbatim>\<open>replication/backup/backup.go\<close>): length-prefixed
  messages in a compressed file, sent in chunks. The operating system and the compressor are a
  parameter; \<open>disk_laws\<close> is what the code relies on.
\<close>

section \<open>Readers\<close>

datatype io_error = IoEOF | IoUnexpectedEOF | IoShortBuffer | IoPanic string | IoError string

text \<open>\<^verbatim>\<open>io.ReadFull\<close> of \<open>n\<close> bytes from what is left of a stream.\<close>

definition readFull :: "nat \<Rightarrow> bytes \<Rightarrow> (io_error + bytes) \<times> bytes" where
  "readFull n s =
     (if n \<le> length s then (Inr (take n s), drop n s)
      else if s = [] then (Inl IoEOF, []) else (Inl IoUnexpectedEOF, []))"

section \<open>Snapshot files\<close>

text \<open>
  The disk under the files: the compressor over a sequence of writes, its inverse, and the errors of
  creating a temporary file, of compressed and of plain writes, of flushing and of seeking.
  \<open>dkReads k b\<close> are the pieces in which reads with a buffer of \<open>k\<close> bytes deliver a file.
\<close>

record disk =
  dkCompress :: "bytes list \<Rightarrow> bytes"
  dkDecompress :: "bytes \<Rightarrow> bytes"
  dkTempError :: "string option"
  dkWriteError :: "bytes list \<Rightarrow> bytes \<Rightarrow> string option"
  dkRawError :: "bytes \<Rightarrow> bytes \<Rightarrow> string option"
  dkSyncError :: "bytes \<Rightarrow> string option"
  dkSeekError :: "bytes \<Rightarrow> string option"
  dkReads :: "nat \<Rightarrow> bytes \<Rightarrow> bytes list"

definition disk_laws :: "disk \<Rightarrow> bool" where
  "disk_laws D \<longleftrightarrow> (\<forall>ws. dkDecompress D (dkCompress D ws) = concat ws) \<and> dkDecompress D [] = []
     \<and> (\<forall>k b. concat (dkReads D k b) = b)"

definition disk_works :: "disk \<Rightarrow> bool" where
  "disk_works D \<longleftrightarrow> disk_laws D \<and> dkTempError D = None \<and> (\<forall>ws b. dkWriteError D ws b = None) \<and> (\<forall>f b. dkRawError D f b = None)
     \<and> (\<forall>f. dkSyncError D f = None \<and> dkSeekError D f = None)"

text \<open>\<open>sfBuffered\<close> are the writes the compressor holds, \<open>sfReader\<close> is what the decompressing reader has left.\<close>

record snapshotFile =
  sfFile :: bytes
  sfBuffered :: "bytes list"
  sfReader :: bytes

definition raise_opt :: "string option \<Rightarrow> 'a \<Rightarrow> io_error + 'a" where
  "raise_opt err x = (case err of None \<Rightarrow> Inr x | Some e \<Rightarrow> Inl (IoError e))"

definition newFile :: "bytes \<Rightarrow> snapshotFile" where
  "newFile content = \<lparr>sfFile = content, sfBuffered = [], sfReader = []\<rparr>"

definition NewTemp :: "disk \<Rightarrow> io_error + snapshotFile" where
  "NewTemp D = raise_opt (dkTempError D) (newFile [])"

definition compressed_write :: "disk \<Rightarrow> snapshotFile \<Rightarrow> bytes \<Rightarrow> io_error + snapshotFile" where
  "compressed_write D s p = raise_opt (dkWriteError D (sfBuffered s) p) (s\<lparr>sfBuffered := sfBuffered s @ [p]\<rparr>)"

definition snapshotFile_Write :: "disk \<Rightarrow> snapshotFile \<Rightarrow> bytes \<Rightarrow> io_error + (nat \<times> snapshotFile)" where
  "snapshotFile_Write D s p =
     (if length p = 0 then Inr (0, s)
      else rbind (compressed_write D s (PutUint64 (of_nat (length p)))) (\<lambda>s.
           rbind (compressed_write D s p) (\<lambda>s. Inr (length p, s))))"

text \<open>\<open>cap\<close> is the length of the caller's buffer; a longer message slices it out of range.\<close>

definition snapshotFile_Read :: "nat \<Rightarrow> snapshotFile \<Rightarrow> (io_error + bytes) \<times> snapshotFile" where
  "snapshotFile_Read cap s =
     (case readFull 8 (sfReader s) of
        (Inl e, rest) \<Rightarrow> (Inl e, s\<lparr>sfReader := rest\<rparr>)
      | (Inr buf, rest) \<Rightarrow>
          (case Uint64 buf of
             None \<Rightarrow> (Inl (IoPanic ''index out of range''), s\<lparr>sfReader := rest\<rparr>)
           | Some sz \<Rightarrow>
               if cap < unat sz then (Inl (IoPanic ''slice bounds out of range''), s\<lparr>sfReader := rest\<rparr>)
               else (case readFull (unat sz) rest of (r, rest) \<Rightarrow> (r, s\<lparr>sfReader := rest\<rparr>))))"

definition snapshotFile_Sync :: "disk \<Rightarrow> snapshotFile \<Rightarrow> io_error + snapshotFile" where
  "snapshotFile_Sync D s =
     raise_opt (dkSyncError D (sfFile s))
       (s\<lparr>sfFile := sfFile s @ (if sfBuffered s = [] then [] else dkCompress D (sfBuffered s)), sfBuffered := []\<rparr>)"

text \<open>\<^verbatim>\<open>sf.Seek(0, io.SeekStart)\<close>: the reader starts at the beginning of the file.\<close>

definition Seek :: "disk \<Rightarrow> snapshotFile \<Rightarrow> io_error + snapshotFile" where
  "Seek D s = raise_opt (dkSeekError D (sfFile s)) (s\<lparr>sfReader := dkDecompress D (sfFile s)\<rparr>)"

text \<open>\<^verbatim>\<open>sf.File.Write\<close>, below the compressor.\<close>

definition raw_write :: "disk \<Rightarrow> snapshotFile \<Rightarrow> bytes \<Rightarrow> io_error + snapshotFile" where
  "raw_write D s p = raise_opt (dkRawError D (sfFile s) p) (s\<lparr>sfFile := sfFile s @ p\<rparr>)"

section \<open>Chunks\<close>

record SnapshotChunk =
  scData :: bytes
  scLen :: u64

definition DefaultSnapshotChunkSize :: nat where
  "DefaultSnapshotChunkSize = 1024 * 1024"

type_synonym 'm send = "'m list \<Rightarrow> 'm \<Rightarrow> string option"

definition send_msg :: "'m send \<Rightarrow> 'm list \<Rightarrow> 'm \<Rightarrow> (io_error + unit) \<times> 'm list" where
  "send_msg sendTo sent m = (case sendTo sent m of None \<Rightarrow> (Inr (), sent @ [m]) | Some e \<Rightarrow> (Inl (IoError e), sent))"

text \<open>
  A reader as the results of its \<^verbatim>\<open>Read\<close> calls: the bytes read and an error; after them it is at
  its end. \<^verbatim>\<open>ReadFrom\<close> returns the count, its error and what was sent.
\<close>

fun Writer_ReadFrom :: "SnapshotChunk send \<Rightarrow> (bytes \<times> io_error option) list \<Rightarrow> nat \<Rightarrow> SnapshotChunk list
  \<Rightarrow> nat \<times> io_error option \<times> SnapshotChunk list"
where
  "Writer_ReadFrom sendTo [] count sent = (count, None, sent)"
| "Writer_ReadFrom sendTo ((chunk, err) # reads) count sent =
     (let step = (if 0 < length chunk
                  then send_msg sendTo sent \<lparr>scData = chunk, scLen = of_nat (length chunk)\<rparr>
                  else (Inr (), sent));
          count = count + length chunk in
      case step of
        (Inl e, sent) \<Rightarrow> (count, Some e, sent)
      | (Inr _, sent) \<Rightarrow>
          (case err of
             None \<Rightarrow> Writer_ReadFrom sendTo reads count sent
           | Some e \<Rightarrow> (count, if e = IoEOF then None else Some e, sent)))"

definition Writer_Write :: "SnapshotChunk send \<Rightarrow> SnapshotChunk list \<Rightarrow> bytes \<Rightarrow> (io_error + nat) \<times> SnapshotChunk list" where
  "Writer_Write sendTo sent p =
     (case send_msg sendTo sent \<lparr>scData = p, scLen = of_nat (length p)\<rparr> of
        (Inl e, sent) \<Rightarrow> (Inl e, sent)
      | (Inr _, sent) \<Rightarrow> (Inr (length p), sent))"

text \<open>
  A stream as the results of its receives, at its end after them. The limiter only delays. \<open>copy\<close>
  fills the buffer with as much of the data as fits.
\<close>

definition Reader_Read :: "nat \<Rightarrow> (io_error + SnapshotChunk) list \<Rightarrow> (io_error + bytes) \<times> (io_error + SnapshotChunk) list" where
  "Reader_Read cap stream =
     (case stream of
        [] \<Rightarrow> (Inl IoEOF, [])
      | Inl e # rest \<Rightarrow> (Inl e, rest)
      | Inr chunk # rest \<Rightarrow>
          (if cap < unat (scLen chunk) then Inl IoShortBuffer else Inr (take cap (scData chunk)), rest))"

fun Reader_WriteTo :: "('f \<Rightarrow> bytes \<Rightarrow> io_error + 'f) \<Rightarrow> (io_error + SnapshotChunk) list \<Rightarrow> nat \<Rightarrow> 'f \<Rightarrow> (nat \<times> io_error option) \<times> 'f" where
  "Reader_WriteTo wr [] n f = ((n, None), f)"
| "Reader_WriteTo wr (Inl e # stream) n f = ((n, if e = IoEOF then None else Some e), f)"
| "Reader_WriteTo wr (Inr chunk # stream) n f =
     (case wr f (scData chunk) of
        Inl e \<Rightarrow> ((n, Some e), f)
      | Inr f \<Rightarrow> Reader_WriteTo wr stream (n + length (scData chunk)) f)"

section \<open>Backup streams\<close>

datatype RestoreMessage = RestoreInfo bytes | RestoreChunk SnapshotChunk | RestoreEmpty

definition backupReader_Read :: "nat \<Rightarrow> (io_error + RestoreMessage) list \<Rightarrow> (io_error + bytes) \<times> (io_error + RestoreMessage) list" where
  "backupReader_Read cap stream =
     (case stream of
        [] \<Rightarrow> (Inl IoEOF, [])
      | Inl e # rest \<Rightarrow> (Inl e, rest)
      | Inr m # rest \<Rightarrow>
          (case m of
             RestoreChunk chunk \<Rightarrow>
               (if cap < unat (scLen chunk) then Inl IoShortBuffer else Inr (take cap (scData chunk)), rest)
           | _ \<Rightarrow> (Inl (IoError ''chunk expected''), rest)))"

fun backupReader_WriteTo :: "('f \<Rightarrow> bytes \<Rightarrow> io_error + 'f) \<Rightarrow> (io_error + RestoreMessage) list \<Rightarrow> nat \<Rightarrow> 'f \<Rightarrow> (nat \<times> io_error option) \<times> 'f" where
  "backupReader_WriteTo wr [] n f = ((n, None), f)"
| "backupReader_WriteTo wr (Inl e # stream) n f = ((n, if e = IoEOF then None else Some e), f)"
| "backupReader_WriteTo wr (Inr m # stream) n f =
     (case m of
        RestoreChunk chunk \<Rightarrow>
          (case wr f (scData chunk) of
             Inl e \<Rightarrow> ((n, Some e), f)
           | Inr f \<Rightarrow> backupReader_WriteTo wr stream (n + length (scData chunk)) f)
      | _ \<Rightarrow> ((0, Some (IoError ''chunk expected'')), f))"

definition backup_Writer_Write :: "RestoreMessage send \<Rightarrow> RestoreMessage list \<Rightarrow> bytes \<Rightarrow> (io_error + nat) \<times> RestoreMessage list" where
  "backup_Writer_Write sendTo sent p =
     (case send_msg sendTo sent (RestoreChunk \<lparr>scData = p, scLen = of_nat (length p)\<rparr>) of
        (Inl e, sent) \<Rightarrow> (Inl e, sent)
      | (Inr _, sent) \<Rightarrow> (Inr (length p), sent))"

section \<open>All messages of a file\<close>

text \<open>
  The results of reading a file to its end with a buffer of \<open>cap\<close> bytes; the last one is the error
  that ends it. Each successful read consumes at least the length prefix.
\<close>

lemma snapshotFile_Read_shorter:
  assumes "snapshotFile_Read cap s = (Inr m, s')"
  shows "length (sfReader s') < length (sfReader s)"
  using assms by (auto simp: snapshotFile_Read_def readFull_def split: if_splits option.splits prod.splits sum.splits)

function file_reads :: "nat \<Rightarrow> snapshotFile \<Rightarrow> (io_error + bytes) list" where
  "file_reads cap s =
     (case snapshotFile_Read cap s of
        (Inl e, _) \<Rightarrow> [Inl e]
      | (Inr m, s') \<Rightarrow> Inr m # file_reads cap s')"
  by pat_completeness auto
termination
  by (relation "measure (\<lambda>(cap, s). length (sfReader s))") (auto dest: snapshotFile_Read_shorter [OF sym])

declare file_reads.simps [simp del]

text \<open>One message with its length, and what the compressor gets for it.\<close>

definition frame :: "bytes \<Rightarrow> bytes" where
  "frame m = (if m = [] then [] else PutUint64 (of_nat (length m)) @ m)"

lemma snapshotFile_Read_frame:
  assumes "m \<noteq> []" and "length m \<le> cap" and "length m < 2 ^ 64"
  shows "snapshotFile_Read cap (s\<lparr>sfReader := frame m @ rest\<rparr>) = (Inr m, s\<lparr>sfReader := rest\<rparr>)"
proof -
  have "unat (of_nat (length m) :: u64) = length m" using assms(3) by (simp add: unsigned_of_nat take_bit_nat_eq_self)
  then show ?thesis using assms by (simp add: snapshotFile_Read_def frame_def readFull_def)
qed

lemma file_reads_frames:
  "(\<And>m. m \<in> set ms \<Longrightarrow> m \<noteq> [] \<and> length m \<le> cap) \<Longrightarrow> cap < 2 ^ 64 \<Longrightarrow>
   file_reads cap (s\<lparr>sfReader := concat (map frame ms)\<rparr>) = map Inr ms @ [Inl IoEOF]"
proof (induction ms)
  case Nil
  then show ?case by (simp add: file_reads.simps [of _ "s\<lparr>sfReader := []\<rparr>"] snapshotFile_Read_def readFull_def)
next
  case (Cons m ms)
  then have "snapshotFile_Read cap (s\<lparr>sfReader := concat (map frame (m # ms))\<rparr>) = (Inr m, s\<lparr>sfReader := concat (map frame ms)\<rparr>)"
    using snapshotFile_Read_frame [of m cap "concat (map frame ms)" s] by force
  then show ?case using Cons by (subst file_reads.simps) simp
qed

end
