(* ===== verification/Table_Restore.thy ===== *)
theory Table_Restore
  imports Snapshot_Stream Active_Table Table_Ids
begin

text \<open>
  Loading a table from a snapshot: \<^verbatim>\<open>readIntoTable\<close> and \<^verbatim>\<open>Restore\<close> of the table manager, the
  services that send and receive snapshots (\<^verbatim>\<open>SnapshotServer\<close>, \<^verbatim>\<open>BackupServer\<close>) and the
  recovery of a replication worker.
\<close>

section \<open>Proposing with retries\<close>

definition errShardNotFound :: string where
  "errShardNotFound = ''shard not found''"

text \<open>
  \<^verbatim>\<open>backoff.Retry\<close> without a time limit: a proposal is repeated until it succeeds or the shard is
  gone; \<open>None\<close> when it never ends.
\<close>

partial_function (option) Retry :: "('n \<Rightarrow> bytes \<Rightarrow> string option \<times> 'n) \<Rightarrow> 'n \<Rightarrow> bytes \<Rightarrow> (string option \<times> 'n) option" where
  "Retry propose n b =
     (case propose n b of
        (None, n) \<Rightarrow> Some (None, n)
      | (Some e, n) \<Rightarrow> if e = errShardNotFound then Some (Some e, n) else Retry propose n b)"

section \<open>readIntoTable\<close>

datatype restore_error = RsRead io_error | RsProto proto_error | RsPropose string

text \<open>A nil pair in a batch is encoded as the empty pair.\<close>

definition nilKv :: "KeyValue option \<Rightarrow> KeyValue" where
  "nilKv kv = (case kv of None \<Rightarrow> emptyKeyValue | Some x \<Rightarrow> x)"

definition batchCommand :: Command where
  "batchCommand = set_cmdType Command_PUT_BATCH emptyCommand"

text \<open>
  The loop: \<open>reads\<close> are the results of \<^verbatim>\<open>reader.Read\<close>, at the end of the stream after them. At the
  end the batch is proposed and the loop ends.
\<close>

definition proposeLast :: "('n \<Rightarrow> bytes \<Rightarrow> string option \<times> 'n) \<Rightarrow> Command \<Rightarrow> 'n \<Rightarrow> (restore_error option \<times> 'n) option" where
  "proposeLast propose batchCmd n =
     map_option (\<lambda>(e, n). (map_option RsPropose e, n)) (Retry propose n (Command_MarshalVT batchCmd))"

fun readIntoTable_loop :: "('n \<Rightarrow> bytes \<Rightarrow> string option \<times> 'n) \<Rightarrow> nat \<Rightarrow> Command \<Rightarrow> nat \<Rightarrow> (io_error + bytes) list \<Rightarrow> 'n
  \<Rightarrow> (restore_error option \<times> 'n) option"
where
  "readIntoTable_loop propose maxLog batchCmd est [] n = proposeLast propose batchCmd n"
| "readIntoTable_loop propose maxLog batchCmd est (Inl e # reads) n =
     (if e = IoEOF then proposeLast propose batchCmd n else Some (Some (RsRead e), n))"
| "readIntoTable_loop propose maxLog batchCmd est (Inr msg # reads) n =
     (case Command_UnmarshalVT msg emptyCommand of
        Inl e \<Rightarrow> Some (Some (RsProto e), n)
      | Inr cmd \<Rightarrow>
          let est = est + length msg;
              batchCmd = set_cmdLeaderIndex (cmdLeaderIndex cmd) (set_cmdTable (cmdTable cmd) batchCmd) in
          if est < maxLog div 2 then
            readIntoTable_loop propose maxLog (set_cmdBatch (cmdBatch batchCmd @ [nilKv (cmdKv cmd)]) batchCmd) est reads n
          else
            (case Retry propose n (Command_MarshalVT batchCmd) of
               None \<Rightarrow> None
             | Some (Some e, n) \<Rightarrow> Some (Some (RsPropose e), n)
             | Some (None, n) \<Rightarrow>
                 readIntoTable_loop propose maxLog (set_cmdBatch [] (set_cmdLeaderIndex None batchCmd)) 0 reads n))"

definition readIntoTable :: "('n \<Rightarrow> bytes \<Rightarrow> string option \<times> 'n) \<Rightarrow> nat \<Rightarrow> (io_error + bytes) list \<Rightarrow> 'n \<Rightarrow> (restore_error option \<times> 'n) option" where
  "readIntoTable propose maxLog reads n = readIntoTable_loop propose maxLog batchCommand 0 reads n"

section \<open>Restore\<close>

text \<open>The polls of the leader until the deadline.\<close>

fun waitForLeader :: "bool list \<Rightarrow> mgr_error + unit" where
  "waitForLeader [] = Inl (MHost ''context deadline exceeded'')"
| "waitForLeader (ok # polls) = (if ok then Inr () else waitForLeader polls)"

fun obind :: "(('e + 'a) \<times> 'w) option \<Rightarrow> ('a \<Rightarrow> 'w \<Rightarrow> (('e + 'b) \<times> 'w) option) \<Rightarrow> (('e + 'b) \<times> 'w) option" where
  "obind None f = None"
| "obind (Some (Inl e, w)) f = Some (Inl e, w)"
| "obind (Some (Inr x, w)) f = f x w"

definition liftRead :: "(restore_error option \<times> 'w) option \<Rightarrow> ((mgr_error + unit) \<times> 'w) option" where
  "liftRead r = map_option (\<lambda>(e, w). (case e of None \<Rightarrow> Inr () | Some _ \<Rightarrow> Inl (MHost ''restore failed''), w)) r"

text \<open>\<open>readBuffer\<close> is the buffer of four megabytes the messages are read into.\<close>

definition readBuffer :: nat where
  "readBuffer = 1024 * 1024 * 4"

definition Manager_Restore :: "'w store \<Rightarrow> 'w nodehost \<Rightarrow> (nat \<Rightarrow> 'w \<Rightarrow> bytes \<Rightarrow> string option \<times> 'w) \<Rightarrow> bool list \<Rightarrow> nat \<Rightarrow> Manager
  \<Rightarrow> string \<Rightarrow> (io_error + bytes) list \<Rightarrow> 'w \<Rightarrow> ((mgr_error + Manager) \<times> 'w) option"
where
  "Manager_Restore S H propose polls maxLog m name reads w =
     (case (case getTableVersion S w name of
              Inl e \<Rightarrow> if e = ErrTableNotFound then Inr (emptyTable, 0) else Inl e
            | Inr x \<Rightarrow> Inr x) of
        Inl e \<Rightarrow> Some (Inl e, w)
      | Inr (tbl, version) \<Rightarrow>
          obind (Some (incAndGetIDSeq S w)) (\<lambda>recoveryID w.
          let tbl = restoreMark tbl name recoveryID in
          obind (Some (startTable H w (tbName tbl) (tbRecoverID tbl))) (\<lambda>_ w.
          obind (Some (setTableVersion S w tbl version)) (\<lambda>_ w.
          obind (Some (waitForLeader polls, w)) (\<lambda>_ w.
          obind (liftRead (readIntoTable (propose (tbRecoverID tbl)) maxLog reads w)) (\<lambda>_ w.
          obind (Some (getTableVersion S w name, w)) (\<lambda>(tbl, version) w.
          let tbl = restoreDone tbl recoveryID in
          obind (Some (setTableVersion S w tbl version)) (\<lambda>_ w.
            Some (Inr (cacheTable m tbl), w)))))))))"

section \<open>Services\<close>

datatype srv_error =
    SrvUnavailable string
  | SrvTable table_error
  | SrvIo io_error
  | SrvMgr mgr_error
  | SrvError string

definition liftIo :: "io_error + 'a \<Rightarrow> srv_error + 'a" where
  "liftIo r = (case r of Inl e \<Rightarrow> Inl (SrvIo e) | Inr x \<Rightarrow> Inr x)"

text \<open>The file as the writer of a table's snapshot.\<close>

definition sf_writer :: "disk \<Rightarrow> snapshotFile \<Rightarrow> bytes \<Rightarrow> string + snapshotFile" where
  "sf_writer D sf b = (case snapshotFile_Write D sf b of Inl e \<Rightarrow> Inl ''write failed'' | Inr (_, sf) \<Rightarrow> Inr sf)"

definition finalCommand :: "bytes \<Rightarrow> u64 \<Rightarrow> Command" where
  "finalCommand tbl index = set_cmdLeaderIndex (Some index) (set_cmdType Command_DUMMY (set_cmdTable tbl emptyCommand))"

text \<open>
  \<open>snapshot\<close> is the snapshot of the table the name resolves to, written to the file. The reader of
  the file passes the writer's \<^verbatim>\<open>ReadFrom\<close> the pieces of the file.
\<close>

definition sendFile :: "disk \<Rightarrow> SnapshotChunk send \<Rightarrow> snapshotFile \<Rightarrow> (srv_error + unit) \<times> SnapshotChunk list" where
  "sendFile D sendTo sf =
     (case Writer_ReadFrom sendTo (map (\<lambda>b. (b, None)) (dkReads D DefaultSnapshotChunkSize (sfFile sf))) 0 [] of
        (_, None, sent) \<Rightarrow> (Inr (), sent)
      | (_, Some e, sent) \<Rightarrow> (Inl (SrvIo e), sent))"

definition SnapshotServer_Stream :: "disk \<Rightarrow> (bytes \<Rightarrow> mgr_error + 't) \<Rightarrow> ('t \<Rightarrow> snapshotFile \<Rightarrow> table_error + (u64 \<times> snapshotFile))
  \<Rightarrow> SnapshotChunk send \<Rightarrow> bytes \<Rightarrow> (srv_error + unit) \<times> SnapshotChunk list"
where
  "SnapshotServer_Stream D getTable snapshot sendTo tbl =
     (case (case getTable tbl of Inl e \<Rightarrow> Inl (SrvUnavailable ''unable to stream from table'') | Inr t \<Rightarrow>
            rbind (liftIo (NewTemp D)) (\<lambda>sf.
            rbind (case snapshot t sf of Inl e \<Rightarrow> Inl (SrvTable e) | Inr x \<Rightarrow> Inr x) (\<lambda>(index, sf).
            rbind (liftIo (snapshotFile_Write D sf (Command_MarshalVT (finalCommand tbl index)))) (\<lambda>(_, sf).
            rbind (liftIo (snapshotFile_Sync D sf)) (\<lambda>sf.
            liftIo (Seek D sf)))))) of
        Inl e \<Rightarrow> (Inl e, [])
      | Inr sf \<Rightarrow> sendFile D sendTo sf)"

definition BackupServer_Backup :: "disk \<Rightarrow> (bytes \<Rightarrow> mgr_error + 't) \<Rightarrow> ('t \<Rightarrow> snapshotFile \<Rightarrow> table_error + (u64 \<times> snapshotFile))
  \<Rightarrow> SnapshotChunk send \<Rightarrow> bytes \<Rightarrow> (srv_error + unit) \<times> SnapshotChunk list"
where
  "BackupServer_Backup D getTable snapshot sendTo tbl =
     (case (case getTable tbl of Inl e \<Rightarrow> Inl (SrvMgr e) | Inr t \<Rightarrow>
            rbind (liftIo (NewTemp D)) (\<lambda>sf.
            rbind (case snapshot t sf of Inl e \<Rightarrow> Inl (SrvTable e) | Inr x \<Rightarrow> Inr x) (\<lambda>(_, sf).
            rbind (liftIo (snapshotFile_Sync D sf)) (\<lambda>sf.
            liftIo (Seek D sf))))) of
        Inl e \<Rightarrow> (Inl e, [])
      | Inr sf \<Rightarrow> sendFile D sendTo sf)"

text \<open>Receiving into a file: the data below the compressor, then flushed and read from the start.\<close>

definition loadFile :: "disk \<Rightarrow> (nat \<times> io_error option) \<times> snapshotFile \<Rightarrow> srv_error + snapshotFile" where
  "loadFile D r =
     (case r of
        ((_, Some e), sf) \<Rightarrow> Inl (SrvIo e)
      | ((_, None), sf) \<Rightarrow> rbind (liftIo (snapshotFile_Sync D sf)) (\<lambda>sf. liftIo (Seek D sf)))"

definition BackupServer_Restore :: "disk \<Rightarrow> (bytes \<Rightarrow> (io_error + bytes) list \<Rightarrow> 'w \<Rightarrow> ((mgr_error + unit) \<times> 'w) option)
  \<Rightarrow> (io_error + RestoreMessage) list \<Rightarrow> 'w \<Rightarrow> ((srv_error + unit) \<times> 'w) option"
where
  "BackupServer_Restore D restore stream w =
     (case stream of
        [] \<Rightarrow> Some (Inl (SrvIo IoEOF), w)
      | Inl e # _ \<Rightarrow> Some (Inl (SrvIo e), w)
      | Inr (RestoreInfo tbl) # rest \<Rightarrow>
          (case rbind (liftIo (NewTemp D)) (\<lambda>sf. loadFile D (backupReader_WriteTo (raw_write D) rest 0 sf)) of
             Inl e \<Rightarrow> Some (Inl e, w)
           | Inr sf \<Rightarrow>
               map_option (\<lambda>(r, w). (case r of Inl e \<Rightarrow> Inl (SrvMgr e) | Inr _ \<Rightarrow> Inr (), w))
                 (restore tbl (file_reads readBuffer sf) w))
      | Inr _ # _ \<Rightarrow> Some (Inl (SrvError ''first message should contain info''), w))"

text \<open>\<open>open_stream\<close> is \<^verbatim>\<open>snapshotClient.Stream\<close>: an error or what the stream delivers.\<close>

definition worker_recover :: "disk \<Rightarrow> (bytes \<Rightarrow> string + (io_error + SnapshotChunk) list)
  \<Rightarrow> (bytes \<Rightarrow> (io_error + bytes) list \<Rightarrow> 'w \<Rightarrow> ((mgr_error + unit) \<times> 'w) option) \<Rightarrow> bytes \<Rightarrow> 'w \<Rightarrow> ((srv_error + unit) \<times> 'w) option"
where
  "worker_recover D open_stream restore tbl w =
     (case open_stream tbl of
        Inl e \<Rightarrow> Some (Inl (SrvError e), w)
      | Inr stream \<Rightarrow>
          (case rbind (liftIo (NewTemp D)) (\<lambda>sf. loadFile D (Reader_WriteTo (raw_write D) stream 0 sf)) of
             Inl e \<Rightarrow> Some (Inl e, w)
           | Inr sf \<Rightarrow>
               map_option (\<lambda>(r, w). (case r of Inl e \<Rightarrow> Inl (SrvMgr e) | Inr _ \<Rightarrow> Inr (), w))
                 (restore tbl (file_reads readBuffer sf) w)))"

end
