(* ===== verification/Restore_Properties.thy ===== *)
theory Restore_Properties
  imports Table_Restore
begin

text \<open>
  What loading a snapshot does to a table: which pairs arrive, that retries do no harm, and the whole way
  from one table through a stream and a file into another.
\<close>

section \<open>Batches of puts\<close>

definition putall :: "KeyValue list \<Rightarrow> kvs \<Rightarrow> kvs" where
  "putall B m = fold (\<lambda>kv. alist_put (kvKey kv) (kvValue kv)) B m"

lemma putall_append [simp]: "putall (A @ B) m = putall B (putall A m)"
  by (simp add: putall_def)

lemma sorted_putall: "sorted_keys m \<Longrightarrow> sorted_keys (putall B m)"
  by (induction B arbitrary: m) (simp_all add: putall_def sorted_keys_alist_put)

lemma map_of_putall: "map_of (putall B m) = map_of m ++ map_of (rev (map (\<lambda>kv. (kvKey kv, kvValue kv)) B))"
  by (induction B arbitrary: m) (simp_all add: putall_def map_of_alist_put fun_eq_iff map_add_def split: option.splits)

lemma putall_twice:
  assumes "sorted_keys m"
  shows "putall B (putall B m) = putall B m"
  using assms by (intro sorted_keys_map_of_inject sorted_putall) (auto simp: map_of_putall map_add_def fun_eq_iff split: option.splits)

definition batchOf :: "bytes \<Rightarrow> u64 option \<Rightarrow> KeyValue list \<Rightarrow> Command" where
  "batchOf tbl li B = Command tbl Command_PUT_BATCH None li B None None False [] False []"

lemma batchOf_simps [simp]:
  "set_cmdLeaderIndex x (batchOf tbl li B) = batchOf tbl x B" "set_cmdTable y (batchOf tbl li B) = batchOf y li B"
  "set_cmdBatch z (batchOf tbl li B) = batchOf tbl li z" "cmdBatch (batchOf tbl li B) = B"
  "batchCommand = batchOf [] None []"
  by (simp_all add: batchOf_def batchCommand_def emptyCommand_def)

lemma spec_put_plain: "spec_put (putRequest kv False) m = Inr (emptyResponseOp_Put, alist_put (kvKey kv) (kvValue kv) m)"
  by (simp add: spec_put_def putRequest_def emptyRequestOp_Put_def)

lemma spec_seq_put:
  "\<exists>rs. spec_seq spec_put (map (\<lambda>kv. putRequest kv False) B) m = Inr (rs, putall B m)"
proof (induction B arbitrary: m)
  case (Cons kv B)
  obtain rs where "spec_seq spec_put (map (\<lambda>kv. putRequest kv False) B) (alist_put (kvKey kv) (kvValue kv) m)
      = Inr (rs, putall B (alist_put (kvKey kv) (kvValue kv) m))" using Cons by blast
  then show ?case by (simp add: putall_def spec_put_plain)
qed (simp add: putall_def)

lemma spec_update_batch:
  assumes "Command_UnmarshalVT (entCmd e) emptyCommand = Inr (batchOf tbl li B)" and "spec_update [e] st = Inr (out, st')"
  shows "tsKvs st' = putall B (tsKvs st)" and "tsLeader st' = (case li of None \<Rightarrow> tsLeader st | Some l \<Rightarrow> l)"
proof -
  obtain rs where "spec_seq spec_put (map (\<lambda>kv. putRequest kv False) B) (tsKvs st) = Inr (rs, putall B (tsKvs st))"
    using spec_seq_put by blast
  then show "tsKvs st' = putall B (tsKvs st)" and "tsLeader st' = (case li of None \<Rightarrow> tsLeader st | Some l \<Rightarrow> l)"
    using assms by (auto simp: spec_update_def result_simps spec_result_def spec_command.simps batchOf_def Command_types)
qed

section \<open>Sizes\<close>

text \<open>Messages that decode and whose batches stay far below the limits of the encoding.\<close>

definition load_size :: "Command list \<Rightarrow> nat" where
  "load_size cs = sum_list (map (\<lambda>c. Command_SizeVT c + 40) cs)"

definition loadable :: "Command list \<Rightarrow> bool" where
  "loadable cs \<longleftrightarrow> list_all Command_wf cs \<and> load_size cs < 2 ^ 61"

lemma nilKv_size: "sizeMessage (KeyValue_SizeVT (nilKv (cmdKv c))) \<le> Command_SizeVT c + 40"
proof (cases "cmdKv c")
  case None
  have "KeyValue_SizeVT emptyKeyValue = 0" by (simp add: KeyValue_SizeVT_def emptyKeyValue_def sizeBytes_def sizeVarint_def)
  then show ?thesis using None sov_le_10 [of 0] by (simp add: nilKv_def sizeMessage_def)
next
  case (Some kv)
  then show ?thesis by (cases c) (simp add: nilKv_def sizeMessage_def)
qed

lemma table_size: "sizeBytes (cmdTable c) \<le> Command_SizeVT c"
  by (cases c) simp

lemma nilKv_wf: "Command_wf c \<Longrightarrow> KeyValue_wf (nilKv (cmdKv c))"
  by (cases c) (auto simp: nilKv_def KeyValue_wf_def emptyKeyValue_def split: option.splits)

lemma batch_size:
  "sizeRepeated 1 KeyValue_SizeVT (map (\<lambda>c. nilKv (cmdKv c)) cs) \<le> load_size cs"
proof (induction cs)
  case (Cons c cs)
  then show ?case using nilKv_size [of c] by (simp add: sizeRepeated_def load_size_def sizeMessage_def)
qed (simp add: sizeRepeated_def)

lemma batch_decode:
  assumes "loadable cs" and "sizeBytes tbl < 2 ^ 61"
  shows "Command_UnmarshalVT (Command_MarshalVT (batchOf tbl li (map (\<lambda>c. nilKv (cmdKv c)) cs))) emptyCommand
    = Inr (batchOf tbl li (map (\<lambda>c. nilKv (cmdKv c)) cs))"
proof (rule Command_UnmarshalVT_MarshalVT)
  show "Command_wf (batchOf tbl li (map (\<lambda>c. nilKv (cmdKv c)) cs))"
    using assms(1) by (auto simp: batchOf_def loadable_def list_all_iff nilKv_wf)
  have "sizePresentVarint li \<le> 11" using sov_le_10 [of "the li"] by (cases li) simp_all
  moreover have "Command_SizeVT (batchOf tbl li B) = sizeBytes tbl + sizeVarint (scast Command_PUT_BATCH) + sizePresentVarint li + sizeRepeated 1 KeyValue_SizeVT B" for B
    by (simp add: batchOf_def sizeBool_def sizeRepeated_def)
  moreover have "sizeVarint (scast Command_PUT_BATCH) \<le> 11" using sov_le_10 [of "scast Command_PUT_BATCH"] by (simp add: sizeVarint_def)
  ultimately show "Command_SizeVT (batchOf tbl li (map (\<lambda>c. nilKv (cmdKv c)) cs)) < 2 ^ 63"
    using assms batch_size [of cs] unfolding loadable_def by simp
qed

section \<open>Loading\<close>

text \<open>The pairs that are proposed: a message that fills the batch is left out of it.\<close>

fun kept :: "nat \<Rightarrow> nat \<Rightarrow> Command list \<Rightarrow> KeyValue list" where
  "kept maxLog est [] = []"
| "kept maxLog est (c # cs) =
     (let est = est + Command_SizeVT c in
      if est < maxLog div 2 then nilKv (cmdKv c) # kept maxLog est cs else kept maxLog 0 cs)"

text \<open>The leader index after loading: that of the last message of every batch, when it has one.\<close>

fun loaded_leader :: "nat \<Rightarrow> nat \<Rightarrow> u64 option \<Rightarrow> u64 \<Rightarrow> Command list \<Rightarrow> u64" where
  "loaded_leader maxLog est li old [] = (case li of None \<Rightarrow> old | Some l \<Rightarrow> l)"
| "loaded_leader maxLog est li old (c # cs) =
     (let est = est + Command_SizeVT c in
      if est < maxLog div 2 then loaded_leader maxLog est (cmdLeaderIndex c) old cs
      else loaded_leader maxLog 0 None (case cmdLeaderIndex c of None \<Rightarrow> old | Some l \<Rightarrow> l) cs)"

abbreviation kvsOf :: "Command list \<Rightarrow> KeyValue list" where
  "kvsOf cs \<equiv> map (\<lambda>c. nilKv (cmdKv c)) cs"

text \<open>The group can always apply a batch, perhaps after some attempts.\<close>

definition retries_end :: "('n \<Rightarrow> bytes \<Rightarrow> string option \<times> 'n) \<Rightarrow> ('n \<Rightarrow> bool) \<Rightarrow> bool" where
  "retries_end propose ok \<longleftrightarrow> (\<forall>n b tbl li B. ok n \<longrightarrow> Command_UnmarshalVT b emptyCommand = Inr (batchOf tbl li B) \<longrightarrow> Retry propose n b \<noteq> None)"

definition batch_state :: "KeyValue list \<Rightarrow> u64 option \<Rightarrow> kvs \<Rightarrow> u64 \<Rightarrow> table_state \<Rightarrow> bool" where
  "batch_state B li m old st \<longleftrightarrow> tsKvs st = putall B m \<and> tsLeader st = (case li of None \<Rightarrow> old | Some l \<Rightarrow> l)"

context table_group
begin

text \<open>Repeated proposals of a batch have the effect of one.\<close>

lemma propose_batch:
  assumes ok: "group_ok n" and dec: "Command_UnmarshalVT b emptyCommand = Inr (batchOf tbl li B)" and m: "sorted_keys m"
    and st: "tsKvs (table n) = m \<and> tsLeader (table n) = old \<or> batch_state B li m old (table n)" and pr: "propose n b = (err, n')"
  shows "group_ok n' \<and> (tsKvs (table n') = m \<and> tsLeader (table n') = old \<or> batch_state B li m old (table n'))
    \<and> (err = None \<longrightarrow> batch_state B li m old (table n'))"
proof -
  have "batch_state B li m old (table n') \<or> err \<noteq> None \<and> table n' = table n"
    using propose_applies [OF ok pr]
  proof (elim disjE exE conjE)
    fix e out
    assume e: "entCmd e = b" and up: "spec_update [e] (table n) = Inr (out, table n')"
    have "Command_UnmarshalVT (entCmd e) emptyCommand = Inr (batchOf tbl li B)" using dec e by simp
    note u = spec_update_batch [OF this up]
    have "tsKvs (table n') = putall B m" using u(1) st putall_twice [OF m] by (auto simp: batch_state_def)
    moreover have "tsLeader (table n') = (case li of None \<Rightarrow> old | Some l \<Rightarrow> l)"
      using u(2) st by (cases li) (auto simp: batch_state_def)
    ultimately show ?thesis by (simp add: batch_state_def)
  qed simp
  then show ?thesis using propose_ok [OF ok pr] st by auto
qed

lemma Retry_batch:
  assumes run: "Retry propose n b = Some y" and ok: "group_ok n" and dec: "Command_UnmarshalVT b emptyCommand = Inr (batchOf tbl li B)"
    and m: "sorted_keys m" and st: "tsKvs (table n) = m \<and> tsLeader (table n) = old \<or> batch_state B li m old (table n)"
  shows "group_ok (snd y) \<and> (fst y = None \<longrightarrow> batch_state B li m old (table (snd y)))"
proof -
  let ?Q = "\<lambda>p n c y. p = propose \<longrightarrow> c = b \<longrightarrow> group_ok n \<longrightarrow>
      (tsKvs (table n) = m \<and> tsLeader (table n) = old \<or> batch_state B li m old (table n)) \<longrightarrow>
      group_ok (snd y) \<and> (fst y = None \<longrightarrow> batch_state B li m old (table (snd y)))"
  have "?Q propose n b y"
  proof (rule Retry.raw_induct [where P = ?Q, OF _ run], intro impI)
    fix R p n c y
    assume IH: "\<And>p n c y. R p n c = Some y \<Longrightarrow> ?Q p n c y"
      and body: "(case p n c of (None, n) \<Rightarrow> Some (None, n)
        | (Some e, n) \<Rightarrow> if e = errShardNotFound then Some (Some e, n) else R p n c) = Some y"
      and p: "p = propose" "c = b" and ok: "group_ok n"
      and st: "tsKvs (table n) = m \<and> tsLeader (table n) = old \<or> batch_state B li m old (table n)"
    obtain err n1 where pr: "propose n b = (err, n1)" by fastforce
    note st' = propose_batch [OF ok dec m st pr]
    show "group_ok (snd y) \<and> (fst y = None \<longrightarrow> batch_state B li m old (table (snd y)))"
    proof (cases "err = None \<or> err = Some errShardNotFound")
      case True
      then show ?thesis using body p pr st' by auto
    next
      case False
      then have "R p n1 c = Some y" using body p pr by (auto split: option.splits)
      then show ?thesis using IH st' p by blast
    qed
  qed
  then show ?thesis using ok st by blast
qed

lemma load_loop:
  assumes ends: "retries_end propose group_ok" and rest: "rest = [] \<or> (\<exists>xs. rest = Inl IoEOF # xs)"
  shows "loadable (ps @ cs) \<Longrightarrow> sizeBytes tbl < 2 ^ 61 \<Longrightarrow> group_ok n \<Longrightarrow> sorted_keys (tsKvs (table n)) \<Longrightarrow>
    \<exists>err n'. readIntoTable_loop propose maxLog (batchOf tbl li (kvsOf ps)) est (map (\<lambda>c. Inr (Command_MarshalVT c)) cs @ rest) n = Some (err, n')
      \<and> group_ok n' \<and> (err = None \<longrightarrow> tsKvs (table n') = putall (kvsOf ps @ kept maxLog est cs) (tsKvs (table n))
        \<and> tsLeader (table n') = loaded_leader maxLog est li (tsLeader (table n)) cs)"
proof (induction cs arbitrary: ps tbl li est n)
  case Nil
  let ?b = "Command_MarshalVT (batchOf tbl li (kvsOf ps))"
  have dec: "Command_UnmarshalVT ?b emptyCommand = Inr (batchOf tbl li (kvsOf ps))"
    using Nil.prems(1,2) by (intro batch_decode) simp_all
  obtain y where y: "Retry propose n ?b = Some y" using ends Nil(3) dec unfolding retries_end_def by blast
  have "readIntoTable_loop propose maxLog (batchOf tbl li (kvsOf ps)) est rest n = Some (map_option RsPropose (fst y), snd y)"
    using rest y by (auto simp: proposeLast_def split: prod.splits)
  then show ?case using Retry_batch [OF y Nil(3) dec Nil(4), of "tsLeader (table n)"] by (auto simp: batch_state_def)
next
  case (Cons c cs)
  let ?msg = "Command_MarshalVT c" and ?e = "est + Command_SizeVT c" and ?tbl = "cmdTable c" and ?li = "cmdLeaderIndex c"
  have wf: "Command_wf c" "load_size [c] < 2 ^ 61" using Cons.prems(1) by (auto simp: loadable_def load_size_def)
  have dc: "Command_UnmarshalVT ?msg emptyCommand = Inr c"
    using wf by (intro Command_UnmarshalVT_MarshalVT) (simp_all add: load_size_def)
  have tb: "sizeBytes ?tbl < 2 ^ 61" using table_size [of c] wf(2) by (simp add: load_size_def)
  show ?case
  proof (cases "?e < maxLog div 2")
    case True
    have l: "loadable ((ps @ [c]) @ cs)" using Cons.prems(1) by simp
    show ?thesis using Cons.IH [OF l tb Cons.prems(3,4), of ?li ?e] True
      by (simp add: dc Let_def Command_MarshalVT_length)
  next
    case False
    let ?b = "Command_MarshalVT (batchOf ?tbl ?li (kvsOf ps))"
    have "loadable ps" using Cons.prems(1) by (simp add: loadable_def load_size_def)
    then have dec: "Command_UnmarshalVT ?b emptyCommand = Inr (batchOf ?tbl ?li (kvsOf ps))" using tb by (rule batch_decode)
    obtain y where y: "Retry propose n ?b = Some y" using ends Cons.prems(3) dec unfolding retries_end_def by blast
    note st = Retry_batch [OF y Cons.prems(3) dec Cons.prems(4), of "tsLeader (table n)"]
    show ?thesis
    proof (cases "fst y")
      case (Some e)
      then show ?thesis using y st False by (cases y) (auto simp: dc Let_def Command_MarshalVT_length)
    next
      case None
      then have s1: "group_ok (snd y)" "tsKvs (table (snd y)) = putall (kvsOf ps) (tsKvs (table n))"
        "tsLeader (table (snd y)) = (case ?li of None \<Rightarrow> tsLeader (table n) | Some l \<Rightarrow> l)"
        using st by (auto simp: batch_state_def)
      have l: "loadable ([] @ cs)" using Cons.prems(1) by (simp add: loadable_def load_size_def)
      show ?thesis
        using Cons.IH [OF l tb s1(1), of None 0] s1 y None False sorted_putall [OF Cons.prems(4)]
        by (cases y) (simp add: dc Let_def Command_MarshalVT_length)
    qed
  qed
qed

end

lemma fsm_retries_end:
  assumes "pebble_total P"
  shows "retries_end (fsm_propose P) (\<lambda>p. pebble_laws P W \<and> fsm_ok P p)"
proof -
  have "Retry (fsm_propose P) p b \<noteq> None"
    if laws: "pebble_laws P W" and ok: "fsm_ok P p" and dec: "Command_UnmarshalVT b emptyCommand = Inr (batchOf tbl li B)" for p b tbl li B
  proof -
    let ?e = "\<lparr>entIndex = fsmApplied p + 1, entCmd = b, entValue = 0, entData = []\<rparr>"
    obtain rs where "spec_seq spec_put (map (\<lambda>kv. putRequest kv False) B) (tsKvs (db_state P p)) = Inr (rs, putall B (tsKvs (db_state P p)))"
      using spec_seq_put by blast
    then obtain out st where "spec_update [?e] (db_state P p) = Inr (out, st)"
      using dec by (simp add: spec_update_def spec_result_def spec_command.simps batchOf_def Command_types)
    then obtain p' where "Update P p [?e] = Inr (out, p')" using Update_total [OF laws assms ok] by blast
    then show ?thesis by (subst Retry.simps) (simp add: fsm_propose_def)
  qed
  then show ?thesis by (simp add: retries_end_def)
qed

section \<open>Properties of loading\<close>

text \<open>
  A loaded message fills a batch or is in it. \<^verbatim>\<open>readIntoTable\<close> on a stream of messages returns;
  if it succeeds, a table that was empty holds exactly the pairs of the messages that did not fill a
  batch, later ones over earlier ones, however often a proposal was repeated, and the leader index is
  the one of the last message of the last batch that has one.
\<close>

theorem readIntoTable_loads:
  assumes "table_group propose table group_ok" and "retries_end propose group_ok" and "loadable cs" and "group_ok n" and "tsKvs (table n) = []"
  shows "\<exists>err n'. readIntoTable propose maxLog (map (\<lambda>c. Inr (Command_MarshalVT c)) cs) n = Some (err, n') \<and> group_ok n'
    \<and> (err = None \<longrightarrow> tsKvs (table n') = putall (kept maxLog 0 cs) []
        \<and> tsLeader (table n') = loaded_leader maxLog 0 None (tsLeader (table n)) cs)"
  using table_group.load_loop [OF assms(1,2), of "[]" "[]" cs "[]" n maxLog None 0] assms(3-5)
  by (simp add: readIntoTable_def sizeBytes_def)

definition exDump :: "Command list" where
  "exDump = [dumpCommand [] ([97], [1]), dumpCommand [] ([98], [2]), dumpCommand [] ([99], [3])]"

lemma exDump_sizes: "map Command_SizeVT exDump = [8, 8, 8]"
  by code_simp

lemma exDump_wf: "list_all Command_wf exDump"
  by (simp add: exDump_def dumpCommand_def emptyCommand_def KeyValue_wf_def emptyKeyValue_def)

lemma exDump_loadable: "loadable exDump"
proof -
  have "load_size exDump = sum_list (map (\<lambda>x. x + 40) (map Command_SizeVT exDump))" by (simp add: load_size_def o_def)
  then show ?thesis using exDump_wf unfolding loadable_def exDump_sizes by simp
qed

lemma exDump_kept: "kept 1000 0 exDump = map (\<lambda>e. emptyKeyValue\<lparr>kvKey := fst e, kvValue := snd e\<rparr>) [([97], [1]), ([98], [2]), ([99], [3])]"
  using exDump_sizes by (simp add: exDump_def nilKv_def) (simp add: dumpCommand_def emptyCommand_def)

theorem readIntoTable_loads_witness:
  "\<exists>err n'. readIntoTable (fsm_propose mem_pebble) 1000 (map (\<lambda>c. Inr (Command_MarshalVT c)) exDump) (exFSM []) = Some (err, n')
    \<and> (err = None \<longrightarrow> tsKvs (db_state mem_pebble n') = [([97], [1]), ([98], [2]), ([99], [3])])"
proof -
  have e: "putall (kept 1000 0 exDump) [] = [([97], [1]), ([98], [2]), ([99], [3])]"
    unfolding exDump_kept by (simp add: putall_def emptyKeyValue_def)
  show ?thesis
    using readIntoTable_loads [OF fsm_group.table_group_axioms fsm_retries_end [OF mem_pebble_total] exDump_loadable, of snd "exFSM []" 1000]
    unfolding e exFSM_state using exFSM_ok mem_pebble_laws by auto
qed

text \<open>Messages that fit into a batch, and one that fills it.\<close>

lemma kept_all: "est + sum_list (map Command_SizeVT cs) < maxLog div 2 \<Longrightarrow> kept maxLog est cs = kvsOf cs"
  by (induction cs arbitrary: est) (simp_all add: Let_def)

lemma kept_drop:
  "est + sum_list (map Command_SizeVT ds) < maxLog div 2 \<Longrightarrow> maxLog div 2 \<le> est + sum_list (map Command_SizeVT ds) + Command_SizeVT c \<Longrightarrow>
   kept maxLog est (ds @ c # bs) = kvsOf ds @ kept maxLog 0 bs"
  by (induction ds arbitrary: est) (simp_all add: Let_def)

lemma kept_subset: "set (kept maxLog est cs) \<subseteq> set (kvsOf cs)"
  by (induction cs arbitrary: est) (auto simp: Let_def)

text \<open>
  C32: the message that fills a batch is lost. If the messages before it fit into a batch and it does not,
  \<^verbatim>\<open>readIntoTable\<close> proposes the batch without it and goes on with the next one: a key that only this
  message carries is missing from the loaded table although loading succeeds.
\<close>

theorem readIntoTable_drops:
  assumes "table_group propose table group_ok" and "retries_end propose group_ok" and "loadable (ds @ c # bs)" and "group_ok n"
    and "tsKvs (table n) = []" and "sum_list (map Command_SizeVT ds) < maxLog div 2"
    and "maxLog div 2 \<le> sum_list (map Command_SizeVT ds) + Command_SizeVT c"
    and "k \<notin> kvKey ` set (kvsOf (ds @ bs))"
  shows "\<exists>err n'. readIntoTable propose maxLog (map (\<lambda>c. Inr (Command_MarshalVT c)) (ds @ c # bs)) n = Some (err, n')
    \<and> (err = None \<longrightarrow> map_of (tsKvs (table n')) k = None)"
proof -
  let ?K = "kept maxLog 0 (ds @ c # bs)"
  have "?K = kvsOf ds @ kept maxLog 0 bs" using kept_drop [of 0 ds maxLog c bs] assms(6,7) by simp
  then have "k \<notin> kvKey ` set ?K" using assms(8) kept_subset [of maxLog 0 bs] by auto
  then have "map_of (putall ?K []) k = None" by (auto simp: map_of_putall map_add_def map_of_eq_None_iff split: option.splits dest!: map_of_SomeD)
  then show ?thesis
    using table_group.load_loop [OF assms(1,2), of "[]" "[]" "ds @ c # bs" "[]" n maxLog None 0] assms(3-5)
    by (fastforce simp: readIntoTable_def sizeBytes_def simp del: kept.simps)
qed

theorem readIntoTable_drops_witness:
  "\<exists>err n'. readIntoTable (fsm_propose mem_pebble) 24 (map (\<lambda>c. Inr (Command_MarshalVT c)) exDump) (exFSM []) = Some (err, n')
    \<and> (err = None \<longrightarrow> map_of (tsKvs (db_state mem_pebble n')) [98] = None)"
proof -
  have sz: "Command_SizeVT (dumpCommand [] ([97], [1])) = 8" "Command_SizeVT (dumpCommand [] ([98], [2])) = 8"
    using exDump_sizes by (simp_all add: exDump_def)
  have k: "nilKv (cmdKv (dumpCommand [] e)) = emptyKeyValue\<lparr>kvKey := fst e, kvValue := snd e\<rparr>" for e
    by (simp add: nilKv_def dumpCommand_def emptyCommand_def)
  have l: "loadable ([dumpCommand [] ([97], [1])] @ dumpCommand [] ([98], [2]) # [dumpCommand [] ([99], [3])])"
    using exDump_loadable by (simp add: exDump_def)
  have "\<exists>err n'. readIntoTable (fsm_propose mem_pebble) 24 (map (\<lambda>c. Inr (Command_MarshalVT c))
      ([dumpCommand [] ([97], [1])] @ dumpCommand [] ([98], [2]) # [dumpCommand [] ([99], [3])])) (exFSM []) = Some (err, n')
    \<and> (err = None \<longrightarrow> map_of (tsKvs (db_state mem_pebble n')) [98] = None)"
    by (rule readIntoTable_drops [OF fsm_group.table_group_axioms fsm_retries_end [OF mem_pebble_total] l, of snd])
      (simp_all add: exFSM_ok exFSM_state sz k emptyKeyValue_def)
  then show ?thesis by (simp add: exDump_def)
qed

end
