(* ===== verification/Transfer_Properties.thy ===== *)
theory Transfer_Properties
  imports Restore_Properties
begin

text \<open>
  Whole transfers of a table: its dump written to a compressed file, sent in chunks, received into a
  file, read back message by message and loaded into another table.
\<close>

section \<open>Through the file\<close>

definition frame_writes :: "bytes \<Rightarrow> bytes list" where
  "frame_writes m = (if m = [] then [] else [PutUint64 (of_nat (length m)), m])"

lemma concat_frame_writes: "concat (concat (map frame_writes ms)) = concat (map frame ms)"
  by (induction ms) (simp_all add: frame_writes_def frame_def)

lemma snapshotFile_Write_works:
  "disk_works D \<Longrightarrow> snapshotFile_Write D sf b = Inr (length b, sf\<lparr>sfBuffered := sfBuffered sf @ frame_writes b\<rparr>)"
  by (cases sf) (simp add: snapshotFile_Write_def compressed_write_def raise_opt_def disk_works_def frame_writes_def)

lemma sf_writer_works: "disk_works D \<Longrightarrow> sf_writer D sf b = Inr (sf\<lparr>sfBuffered := sfBuffered sf @ frame_writes b\<rparr>)"
  by (simp add: sf_writer_def snapshotFile_Write_works)

lemma fold_writes:
  "fold (\<lambda>b sf. sf\<lparr>sfBuffered := sfBuffered sf @ frame_writes b\<rparr>) ms sf = sf\<lparr>sfBuffered := sfBuffered sf @ concat (map frame_writes ms)\<rparr>"
  by (induction ms arbitrary: sf) simp_all

section \<open>Through the stream\<close>

lemma ReadFrom_sends:
  "\<exists>count out. Writer_ReadFrom (\<lambda>_ _. None) (map (\<lambda>b. (b, None)) pieces) c sent = (count, None, out)
    \<and> concat (map scData out) = concat (map scData sent) @ concat pieces"
proof (induction pieces arbitrary: c sent)
  case (Cons p ps)
  show ?case
    using Cons.IH [of "c + length p" "if p = [] then sent else sent @ [\<lparr>scData = p, scLen = of_nat (length p)\<rparr>]"]
    by (auto simp: Let_def send_msg_def)
qed simp

lemma sendFile_sends:
  assumes "disk_works D"
  shows "\<exists>chunks. sendFile D (\<lambda>_ _. None) sf = (Inr (), chunks) \<and> concat (map scData chunks) = sfFile sf"
proof -
  have "concat (dkReads D DefaultSnapshotChunkSize (sfFile sf)) = sfFile sf" using assms by (simp add: disk_works_def disk_laws_def)
  then show ?thesis using ReadFrom_sends [of "dkReads D DefaultSnapshotChunkSize (sfFile sf)" 0 "[]"] by (auto simp: sendFile_def)
qed

lemma Reader_receives:
  assumes "disk_works D"
  shows "Reader_WriteTo (raw_write D) (map Inr chunks) c sf = ((c + length (concat (map scData chunks)), None), sf\<lparr>sfFile := sfFile sf @ concat (map scData chunks)\<rparr>)"
  using assms by (induction chunks arbitrary: c sf) (simp_all add: raw_write_def raise_opt_def disk_works_def add.assoc)


text \<open>What was written to a file and flushed is what is read from a copy of it.\<close>

lemma file_copy_reads:
  assumes "disk_works D" and "snapshotFile_Sync D ((newFile [])\<lparr>sfBuffered := concat (map frame_writes ms)\<rparr>) = Inr sf"
    and "\<And>m. m \<in> set ms \<Longrightarrow> m \<noteq> [] \<and> length m \<le> cap" and "cap < 2 ^ 64"
    and "concat (map scData chunks) = sfFile sf"
  shows "\<exists>sf'. loadFile D ((k, None), (newFile [])\<lparr>sfFile := concat (map scData chunks)\<rparr>) = Inr sf' \<and> file_reads cap sf' = map Inr ms @ [Inl IoEOF]"
proof -
  let ?sf = "(newFile (sfFile sf))\<lparr>sfReader := dkDecompress D (sfFile sf)\<rparr>"
  have "dkDecompress D (sfFile sf) = concat (map frame ms)"
    using assms(1,2) concat_frame_writes [of ms]
    by (cases "concat (map frame_writes ms) = []")
      (auto simp: snapshotFile_Sync_def raise_opt_def disk_works_def disk_laws_def newFile_def)
  then have "file_reads cap ?sf = map Inr ms @ [Inl IoEOF]" using file_reads_frames [of ms cap "newFile (sfFile sf)"] assms(3,4) by simp
  moreover have "loadFile D ((k, None), (newFile [])\<lparr>sfFile := concat (map scData chunks)\<rparr>) = Inr ?sf"
    using assms(1,5) by (simp add: loadFile_def snapshotFile_Sync_def Seek_def raise_opt_def disk_works_def liftIo_def newFile_def)
  ultimately show ?thesis by blast
qed

lemma send_and_load:
  assumes D: "disk_works D" and ms: "\<And>m. m \<in> set ms \<Longrightarrow> m \<noteq> [] \<and> length m \<le> readBuffer"
  shows "\<exists>sf sk chunks sf'. snapshotFile_Sync D ((newFile [])\<lparr>sfBuffered := concat (map frame_writes ms)\<rparr>) = Inr sf \<and> Seek D sf = Inr sk
    \<and> sendFile D (\<lambda>_ _. None) sk = (Inr (), chunks)
    \<and> loadFile D ((length (concat (map scData chunks)), None), (newFile [])\<lparr>sfFile := concat (map scData chunks)\<rparr>) = Inr sf'
    \<and> file_reads readBuffer sf' = map Inr ms @ [Inl IoEOF]"
proof -
  obtain sf where sf: "snapshotFile_Sync D ((newFile [])\<lparr>sfBuffered := concat (map frame_writes ms)\<rparr>) = Inr sf"
    using D by (simp add: snapshotFile_Sync_def raise_opt_def disk_works_def)
  define sk where "sk = sf\<lparr>sfReader := dkDecompress D (sfFile sf)\<rparr>"
  have sk: "Seek D sf = Inr sk" using D by (simp add: Seek_def raise_opt_def disk_works_def sk_def)
  obtain chunks where ch: "sendFile D (\<lambda>_ _. None) sk = (Inr (), chunks)" "concat (map scData chunks) = sfFile sf"
    using sendFile_sends [OF D, of sk] by (auto simp: sk_def)
  have "readBuffer < 2 ^ 64" by (simp add: readBuffer_def)
  from file_copy_reads [OF D sf ms this ch(2), of "length (concat (map scData chunks))"] sf sk ch(1) show ?thesis by blast
qed

lemma NewTemp_works: "disk_works D \<Longrightarrow> NewTemp D = Inr (newFile [])"
  by (simp add: NewTemp_def raise_opt_def disk_works_def)

section \<open>The dump of a table\<close>

definition dumpOf :: "('d, 'b) pebble \<Rightarrow> 'd FSM \<Rightarrow> Command list" where
  "dumpOf P p = map (dumpCommand (fsmTableName p)) (tsKvs (db_state P p))"

lemma writeCommand_dump: "writeCommand t (fst e) (snd e) = Command_MarshalVT (dumpCommand t e)"
  by (simp add: writeCommand_def dumpCommand_def)

lemma Snapshot_writes:
  assumes "pebble_laws P W" and "fsm_ok P (n (tbClusterID t))" and "disk_works D" and "\<not> (True \<in> set stopped)"
    and "[] \<notin> fst ` set (tsKvs (db_state P (n (tbClusterID t))))"
  shows "ActiveTable_Snapshot (fsm_handler P (sf_writer D)) t n stopped sf
    = Inr (tsIndex (db_state P (n (tbClusterID t))),
        sf\<lparr>sfBuffered := sfBuffered sf @ concat (map frame_writes (map Command_MarshalVT (dumpOf P (n (tbClusterID t)))))\<rparr>)"
proof -
  obtain db where db: "fsmPebble (n (tbClusterID t)) = Some db" "reader_ok (pbReader P db)" "table_ok (contents (pbReader P db))"
    using fsm_ok_reader [OF assms(1,2)] by blast
  let ?kvs = "user_kvs (contents (pbReader P db))"
  have "dumped ?kvs = ?kvs" using assms(5) db(1) by (force simp: dumped_def filter_id_conv abs_state_def)
  then have "commandSnapshot (sf_writer D) (pbReader P db) (fsmTableName (n (tbClusterID t))) stopped sf
      = Inr (stored_index (contents (pbReader P db)) sysLocalIndex,
          fold (\<lambda>b sf. sf\<lparr>sfBuffered := sfBuffered sf @ frame_writes b\<rparr>)
            (map (\<lambda>e. writeCommand (fsmTableName (n (tbClusterID t))) (fst e) (snd e)) ?kvs) sf)"
    using commandSnapshot_dump [of "pbReader P db" stopped "sf_writer D" "\<lambda>b sf. sf\<lparr>sfBuffered := sfBuffered sf @ frame_writes b\<rparr>"]
      db(2,3) assms(4) sf_writer_works [OF assms(3)] by (simp add: table_ok_def)
  then show ?thesis using db(1)
    by (simp add: ActiveTable_Snapshot_def readTable_def fsm_handler_simps Lookup_def Let_def fold_writes writeCommand_dump dumpOf_def
        abs_state_def o_def)
qed

lemma dump_kvs: "putall (kvsOf (map (dumpCommand t) es)) m = fold (\<lambda>e. alist_put (fst e) (snd e)) es m"
  by (induction es arbitrary: m) (simp_all add: putall_def nilKv_def dumpCommand_def emptyCommand_def emptyKeyValue_def)


lemma dumpOf_sorted:
  assumes "pebble_laws P W" and "fsm_ok P p"
  shows "sorted_keys (tsKvs (db_state P p))"
proof -
  obtain db where "fsmPebble p = Some db" "table_ok (contents (pbReader P db))" using fsm_ok_reader [OF assms] by blast
  then show ?thesis using sorted_user by (simp add: abs_state_def table_ok_def)
qed

lemma dump_restores:
  assumes "pebble_laws P W" and "fsm_ok P p"
  shows "putall (kvsOf (dumpOf P p)) [] = tsKvs (db_state P p)"
  using fold_alist_put_append [of "[]" "tsKvs (db_state P p)"] dumpOf_sorted [OF assms] by (simp add: dumpOf_def dump_kvs del: map_map)

lemma dumpCommand_nonempty: "Command_MarshalVT (dumpCommand t e) \<noteq> []"
proof -
  have "0 < Command_SizeVT (dumpCommand t e)" by (simp add: dumpCommand_def emptyCommand_def)
  then show ?thesis using Command_MarshalVT_length [of "dumpCommand t e"] by auto
qed

text \<open>The loader as the \<^verbatim>\<open>Restore\<close> the services call.\<close>

definition loader :: "('n \<Rightarrow> bytes \<Rightarrow> string option \<times> 'n) \<Rightarrow> nat \<Rightarrow> bytes \<Rightarrow> (io_error + bytes) list \<Rightarrow> 'n \<Rightarrow> ((mgr_error + unit) \<times> 'n) option" where
  "loader propose maxLog tbl reads n = liftRead (readIntoTable propose maxLog reads n)"

lemma loader_loads:
  assumes "table_group propose table group_ok" and "retries_end propose group_ok" and "loadable cs" and "group_ok g" and "tsKvs (table g) = []"
  shows "\<exists>r g'. loader propose maxLog tbl (map Inr (map Command_MarshalVT cs) @ [Inl IoEOF]) g = Some (r, g')
    \<and> (r = Inr () \<longrightarrow> tsKvs (table g') = putall (kept maxLog 0 cs) [] \<and> tsLeader (table g') = loaded_leader maxLog 0 None (tsLeader (table g)) cs)"
proof -
  obtain err g' where "readIntoTable propose maxLog (map Inr (map Command_MarshalVT cs) @ [Inl IoEOF]) g = Some (err, g')"
    "err = None \<longrightarrow> tsKvs (table g') = putall (kept maxLog 0 cs) [] \<and> tsLeader (table g') = loaded_leader maxLog 0 None (tsLeader (table g)) cs"
    using table_group.load_loop [OF assms(1,2), of "[Inl IoEOF]" "[]" cs "[]" g maxLog None 0] assms(3-5)
    by (auto simp: readIntoTable_def sizeBytes_def o_def)
  then show ?thesis by (cases err) (auto simp: loader_def liftRead_def)
qed

section \<open>Properties\<close>


definition exDisk :: disk where
  "exDisk = \<lparr>dkCompress = concat, dkDecompress = \<lambda>b. b, dkTempError = None, dkWriteError = \<lambda>_ _. None, dkRawError = \<lambda>_ _. None,
     dkSyncError = \<lambda>_. None, dkSeekError = \<lambda>_. None, dkReads = \<lambda>k b. [b]\<rparr>"

lemma exDisk_works: "disk_works exDisk"
  by (simp add: disk_works_def disk_laws_def exDisk_def)

definition exSource :: "nat \<Rightarrow> batch_op list FSM" where
  "exSource = (\<lambda>_. exFSM exDB)"

lemma exSource_dump: "dumpOf mem_pebble (exSource i) = exDump"
  unfolding dumpOf_def exSource_def exDB_state by (simp add: exDump_def exFSM_def)

lemma exSource_kvs: "tsKvs (db_state mem_pebble (exSource i)) = [([97], [1]), ([98], [2]), ([99], [3])]"
  unfolding exSource_def exDB_state by simp

lemma exDump_small: "list_all (\<lambda>c. Command_SizeVT c \<le> readBuffer) exDump" "sum_list (map Command_SizeVT exDump) = 24"
  using exDump_sizes by (simp_all add: exDump_def readBuffer_def)


text \<open>The command that ends a recovery stream.\<close>

lemma finalCommand_eq: "finalCommand tbl idx = Command tbl Command_DUMMY None (Some idx) [] None None False [] False []"
  by (simp add: finalCommand_def emptyCommand_def)

lemma finalCommand_nonempty: "Command_MarshalVT (finalCommand tbl idx) \<noteq> []"
proof -
  have "0 < Command_SizeVT (finalCommand tbl idx)" by (simp add: finalCommand_eq)
  then show ?thesis using Command_MarshalVT_length [of "finalCommand tbl idx"] by auto
qed

lemma last_leader: "est + sum_list (map Command_SizeVT (cs @ [c])) < maxLog div 2 \<Longrightarrow> cmdLeaderIndex c = Some l \<Longrightarrow>
    loaded_leader maxLog est li old (cs @ [c]) = l"
  by (induction cs arbitrary: est li) (simp_all add: Let_def)

text \<open>
  C33: a recovered follower has one pair too many. The snapshot stream of a table, received by a recovering
  worker and loaded into an empty table, gives the pairs and the index of the leader's table and, besides
  them, a pair of an empty key and an empty value: the final command of the stream has no pair, and it is
  put into the last batch like every other one.
\<close>

theorem recovery_adds_empty_key:
  assumes "pebble_laws P W" and "fsm_ok P (n (tbClusterID t))" and "disk_works D" and "\<not> (True \<in> set stopped)"
    and "[] \<notin> fst ` set (tsKvs (db_state P (n (tbClusterID t))))"
    and "cs = dumpOf P (n (tbClusterID t)) @ [finalCommand tbl (tsIndex (db_state P (n (tbClusterID t))))]"
    and "loadable cs" and "list_all (\<lambda>c. Command_SizeVT c \<le> readBuffer) cs" and "sum_list (map Command_SizeVT cs) < maxLog div 2"
    and "table_group propose table group_ok" and "retries_end propose group_ok" and "group_ok g" and "tsKvs (table g) = []"
  shows "\<exists>chunks r g'. SnapshotServer_Stream D (\<lambda>_. Inr t) (\<lambda>t. ActiveTable_Snapshot (fsm_handler P (sf_writer D)) t n stopped) (\<lambda>_ _. None) tbl = (Inr (), chunks)
    \<and> worker_recover D (\<lambda>_. Inr (map Inr chunks)) (loader propose maxLog) tbl g = Some (r, g')
    \<and> (r = Inr () \<longrightarrow> tsKvs (table g') = alist_put [] [] (tsKvs (db_state P (n (tbClusterID t))))
        \<and> tsLeader (table g') = tsIndex (db_state P (n (tbClusterID t))))"
proof -
  define p where "p = n (tbClusterID t)"
  define ms where "ms = map Command_MarshalVT cs"
  have ms: "m \<noteq> [] \<and> length m \<le> readBuffer" if "m \<in> set ms" for m
    using that assms(6,8) dumpCommand_nonempty finalCommand_nonempty
    by (auto simp: ms_def dumpOf_def list_all_iff Command_MarshalVT_length)
  obtain sf sk chunks sf' where tr: "snapshotFile_Sync D ((newFile [])\<lparr>sfBuffered := concat (map frame_writes ms)\<rparr>) = Inr sf"
    "Seek D sf = Inr sk" "sendFile D (\<lambda>_ _. None) sk = (Inr (), chunks)"
    "loadFile D ((length (concat (map scData chunks)), None), (newFile [])\<lparr>sfFile := concat (map scData chunks)\<rparr>) = Inr sf'"
    "file_reads readBuffer sf' = map Inr ms @ [Inl IoEOF]"
    using send_and_load [OF assms(3) ms] by blast
  have snap: "ActiveTable_Snapshot (fsm_handler P (sf_writer D)) t n stopped (newFile [])
      = Inr (tsIndex (db_state P p), (newFile [])\<lparr>sfBuffered := concat (map frame_writes (map Command_MarshalVT (dumpOf P p)))\<rparr>)"
    using Snapshot_writes [where n = n and t = t and sf = "newFile []", OF assms(1-5)] by (simp add: newFile_def p_def)
  have stream: "SnapshotServer_Stream D (\<lambda>_. Inr t) (\<lambda>t. ActiveTable_Snapshot (fsm_handler P (sf_writer D)) t n stopped) (\<lambda>_ _. None) tbl = (Inr (), chunks)"
    using tr(1-3) snap by (simp add: SnapshotServer_Stream_def NewTemp_works [OF assms(3)] liftIo_def snapshotFile_Write_works [OF assms(3)]
        ms_def assms(6) p_def newFile_def)
  obtain r g' where lg: "loader propose maxLog tbl (map Inr ms @ [Inl IoEOF]) g = Some (r, g')"
    "r = Inr () \<longrightarrow> tsKvs (table g') = putall (kept maxLog 0 cs) [] \<and> tsLeader (table g') = loaded_leader maxLog 0 None (tsLeader (table g)) cs"
    unfolding ms_def using loader_loads [OF assms(10,11,7,12,13)] by blast
  have res: "worker_recover D (\<lambda>_. Inr (map Inr chunks)) (loader propose maxLog) tbl g = Some (case r of Inl e \<Rightarrow> Inl (SrvMgr e) | Inr _ \<Rightarrow> Inr (), g')"
    using tr(4,5) lg(1) Reader_receives [OF assms(3), of chunks 0 "newFile []"]
    by (simp add: worker_recover_def NewTemp_works [OF assms(3)] liftIo_def newFile_def)
  have "kept maxLog 0 cs = kvsOf (dumpOf P p) @ [emptyKeyValue]"
    using kept_all [of 0 cs maxLog] assms(6,9) by (simp add: finalCommand_eq nilKv_def p_def)
  then have "putall (kept maxLog 0 cs) [] = alist_put [] [] (tsKvs (db_state P p))"
    using dump_restores [OF assms(1,2)] by (simp add: p_def) (simp add: putall_def emptyKeyValue_def)
  moreover have "loaded_leader maxLog 0 None (tsLeader (table g)) cs = tsIndex (db_state P p)"
    using last_leader [of 0 "dumpOf P p" "finalCommand tbl (tsIndex (db_state P p))" maxLog] assms(6,9) by (simp add: finalCommand_eq p_def)
  ultimately show ?thesis using stream res lg(2) unfolding p_def by (cases r) auto
qed

lemma exFinal: "Command_SizeVT (finalCommand [116] 0) = 7" "Command_wf (finalCommand [116] 0)"
  by code_simp (simp add: finalCommand_eq)

theorem recovery_adds_empty_key_witness:
  "\<exists>chunks r g'. SnapshotServer_Stream exDisk (\<lambda>_. Inr emptyTable) (\<lambda>t. ActiveTable_Snapshot (fsm_handler mem_pebble (sf_writer exDisk)) t exSource [])
      (\<lambda>_ _. None) [116] = (Inr (), chunks)
    \<and> worker_recover exDisk (\<lambda>_. Inr (map Inr chunks)) (loader (fsm_propose mem_pebble) 1000) [116] (exFSM []) = Some (r, g')
    \<and> (r = Inr () \<longrightarrow> tsKvs (db_state mem_pebble g') = [([], []), ([97], [1]), ([98], [2]), ([99], [3])])"
proof -
  have ok: "fsm_ok mem_pebble (exSource (tbClusterID emptyTable))" by (simp add: exSource_def exDB_ok)
  have g: "pebble_laws mem_pebble snd \<and> fsm_ok mem_pebble (exFSM [])" by (simp add: exFSM_ok)
  have e: "tsKvs (db_state mem_pebble (exFSM [])) = []" unfolding exFSM_state by simp
  have idx: "tsIndex (db_state mem_pebble (exSource i)) = 0" for i unfolding exSource_def exDB_state by simp
  have "load_size (exDump @ [finalCommand [116] 0]) = load_size exDump + 47" using exFinal(1) by (simp add: load_size_def)
  moreover have "load_size exDump = 144" using exDump_sizes by (simp add: load_size_def exDump_def)
  ultimately have l: "loadable (exDump @ [finalCommand [116] 0])" using exFinal(2) exDump_wf by (simp add: loadable_def)
  have "list_all (\<lambda>c. Command_SizeVT c \<le> readBuffer) (exDump @ [finalCommand [116] 0])"
    using exDump_small(1) exFinal(1) by (simp add: readBuffer_def)
  moreover have "sum_list (map Command_SizeVT (exDump @ [finalCommand [116] 0])) < 1000 div 2"
    using exDump_small(2) exFinal(1) by simp
  ultimately show ?thesis
    using recovery_adds_empty_key [where n = exSource and t = emptyTable and g = "exFSM []" and stopped = "[]" and tbl = "[116]" and maxLog = 1000,
      OF mem_pebble_laws ok exDisk_works _ _ _ _ _ _ fsm_group.table_group_axioms fsm_retries_end [OF mem_pebble_total] g e] l
    unfolding exSource_dump exSource_kvs idx by fastforce
qed

end
