(* ===== verification/FSM_Directory.thy ===== *)
theory FSM_Directory
  imports Table_Manager
begin

text \<open>
  The directory of a table's state machine (\<^verbatim>\<open>pebble/dir.go\<close>): the file \<^verbatim>\<open>current\<close> that names the
  database in use, its replacement, and the removal of what is left over. The file system is a
  parameter; \<open>fs_laws\<close> states its behaviour, with what a crash of the machine may leave behind.
\<close>

section \<open>MD5\<close>

text \<open>\<^verbatim>\<open>crypto/md5\<close>: the padding, the sixty-four steps of a block, and the digest.\<close>

definition md5_K :: "u32 list" where
  "md5_K =
    [3614090360, 3905402710, 606105819, 3250441966, 4118548399, 1200080426, 2821735955, 4249261313,
     1770035416, 2336552879, 4294925233, 2304563134, 1804603682, 4254626195, 2792965006, 1236535329,
     4129170786, 3225465664, 643717713, 3921069994, 3593408605, 38016083, 3634488961, 3889429448,
     568446438, 3275163606, 4107603335, 1163531501, 2850285829, 4243563512, 1735328473, 2368359562,
     4294588738, 2272392833, 1839030562, 4259657740, 2763975236, 1272893353, 4139469664, 3200236656,
     681279174, 3936430074, 3572445317, 76029189, 3654602809, 3873151461, 530742520, 3299628645,
     4096336452, 1126891415, 2878612391, 4237533241, 1700485571, 2399980690, 4293915773, 2240044497,
     1873313359, 4264355552, 2734768916, 1309151649, 4149444226, 3174756917, 718787259, 3951481745]"

definition md5_shift :: "nat \<Rightarrow> nat" where
  "md5_shift i = (if i < 16 then [7, 12, 17, 22] else if i < 32 then [5, 9, 14, 20] else if i < 48 then [4, 11, 16, 23] else [6, 10, 15, 21]) ! (i mod 4)"

definition le32 :: "u32 \<Rightarrow> bytes" where
  "le32 x = map (\<lambda>i. ucast (drop_bit (8 * i) x)) [0..<4]"

definition from_le32 :: "bytes \<Rightarrow> u32" where
  "from_le32 b = foldr (\<lambda>x acc. ucast x OR push_bit 8 acc) b 0"

definition md5_pad :: "bytes \<Rightarrow> bytes" where
  "md5_pad m = m @ [128] @ replicate ((119 - length m mod 64) mod 64) 0 @ PutUint64 (of_nat (8 * length m))"

definition md5_step :: "bytes \<Rightarrow> nat \<Rightarrow> u32 \<times> u32 \<times> u32 \<times> u32 \<Rightarrow> u32 \<times> u32 \<times> u32 \<times> u32" where
  "md5_step block i = (\<lambda>(a, b, c, d).
     let (f, g) = (if i < 16 then ((b AND c) OR (NOT b AND d), i)
           else if i < 32 then ((d AND b) OR (NOT d AND c), (5 * i + 1) mod 16)
           else if i < 48 then (b XOR c XOR d, (3 * i + 5) mod 16)
           else (c XOR (b OR NOT d), (7 * i) mod 16));
         x = from_le32 (take 4 (drop (4 * g) block)) in
     (d, b + word_rotl (md5_shift i) (a + f + md5_K ! i + x), b, c))"

fun md5_blocks :: "nat \<Rightarrow> bytes \<Rightarrow> u32 \<times> u32 \<times> u32 \<times> u32 \<Rightarrow> u32 \<times> u32 \<times> u32 \<times> u32" where
  "md5_blocks 0 m s = s"
| "md5_blocks (Suc n) m (a, b, c, d) =
     (let (a', b', c', d') = fold (md5_step (take 64 m)) [0..<64] (a, b, c, d) in
      md5_blocks n (drop 64 m) (a + a', b + b', c + c', d + d'))"

definition md5 :: "bytes \<Rightarrow> bytes" where
  "md5 m = (let (a, b, c, d) = md5_blocks (length (md5_pad m) div 64) (md5_pad m) (1732584193, 4023233417, 2562383102, 271733878) in
     le32 a @ le32 b @ le32 c @ le32 d)"

lemma length_md5 [simp]: "length (md5 m) = 16"
  by (simp add: md5_def le32_def split: prod.splits)

section \<open>The file system\<close>

text \<open>
  The calls of \<^verbatim>\<open>vfs.FS\<close> and \<^verbatim>\<open>vfs.File\<close> over a state \<open>'w\<close>. \<open>vfStat\<close> tells whether a path is a
  directory, \<open>vfReadAll\<close> is \<^verbatim>\<open>Open\<close> with \<^verbatim>\<open>io.ReadAll\<close>, \<open>vfSyncDir\<close> is \<^verbatim>\<open>Open\<close> with \<^verbatim>\<open>Sync\<close> of a
  directory; \<open>vfWrite\<close> and \<open>vfSync\<close> act on the file that was created at the path.
\<close>

record 'w vfs =
  vfStat :: "'w \<Rightarrow> string \<Rightarrow> string + bool"
  vfReadAll :: "'w \<Rightarrow> string \<Rightarrow> string + bytes"
  vfList :: "'w \<Rightarrow> string \<Rightarrow> string + string list"
  vfMkdirAll :: "'w \<Rightarrow> string \<Rightarrow> (string + unit) \<times> 'w"
  vfCreate :: "'w \<Rightarrow> string \<Rightarrow> (string + unit) \<times> 'w"
  vfWrite :: "'w \<Rightarrow> string \<Rightarrow> bytes \<Rightarrow> (string + unit) \<times> 'w"
  vfSync :: "'w \<Rightarrow> string \<Rightarrow> (string + unit) \<times> 'w"
  vfClose :: "'w \<Rightarrow> string \<Rightarrow> (string + unit) \<times> 'w"
  vfSyncDir :: "'w \<Rightarrow> string \<Rightarrow> (string + unit) \<times> 'w"
  vfRename :: "'w \<Rightarrow> string \<Rightarrow> string \<Rightarrow> (string + unit) \<times> 'w"
  vfRemoveAll :: "'w \<Rightarrow> string \<Rightarrow> (string + unit) \<times> 'w"

text \<open>\<^verbatim>\<open>filepath.Join\<close>.\<close>

definition Join :: "string list \<Rightarrow> string" where
  "Join elems = (case dropWhile (\<lambda>e. e = []) elems of [] \<Rightarrow> [] | es \<Rightarrow> path_Clean (join_slash es))"

definition bytesString :: "bytes \<Rightarrow> string" where
  "bytesString b = map (\<lambda>x. char_of (unat x)) b"

lemma bytesString_nameBytes [simp]: "bytesString (nameBytes s) = s"
proof -
  have "char_of (unat (of_nat (of_char c) :: byte)) = c" for c
    by (simp add: unat_of_nat)
  then show ?thesis by (simp add: bytesString_def nameBytes_def comp_def)
qed

lemma length_nameBytes [simp]: "length (nameBytes s) = length s"
  by (simp add: nameBytes_def)

section \<open>Operations\<close>

definition currentDBFilename :: string where
  "currentDBFilename = ''current''"

definition updatingDBFilename :: string where
  "updatingDBFilename = ''current.updating''"

definition ErrIsNotDir :: string where
  "ErrIsNotDir = ''is not a dir''"

definition syncDir :: "'w vfs \<Rightarrow> 'w \<Rightarrow> string \<Rightarrow> (string + unit) \<times> 'w" where
  "syncDir F w dir =
     (case vfStat F w dir of
        Inl e \<Rightarrow> (Inl e, w)
      | Inr isDir \<Rightarrow> if \<not> isDir then (Inl ErrIsNotDir, w) else vfSyncDir F w (path_Clean dir))"

definition IsNewRun :: "'w vfs \<Rightarrow> 'w \<Rightarrow> string \<Rightarrow> bool" where
  "IsNewRun F w dir = isl (vfStat F w (Join [dir, currentDBFilename]))"

definition GetNodeDBDirName :: "string \<Rightarrow> string \<Rightarrow> string \<Rightarrow> string" where
  "GetNodeDBDirName baseDir hostname name = Join [baseDir, hostname, name]"

definition GetNewRandomDBDirName :: "nat \<Rightarrow> nat \<Rightarrow> string" where
  "GetNewRandomDBDirName rnd now = decimal rnd @ ''_'' @ decimal now"

definition ReplaceCurrentDBFile :: "'w vfs \<Rightarrow> 'w \<Rightarrow> string \<Rightarrow> (string + unit) \<times> 'w" where
  "ReplaceCurrentDBFile F w dir =
     wbind (vfRename F w (Join [dir, updatingDBFilename]) (Join [dir, currentDBFilename])) (\<lambda>_ w. syncDir F w dir)"

text \<open>The deferred \<^verbatim>\<open>Close\<close> and \<^verbatim>\<open>syncDir\<close> run whatever the writes return.\<close>

definition SaveCurrentDBDirName :: "'w vfs \<Rightarrow> 'w \<Rightarrow> string \<Rightarrow> string \<Rightarrow> (string + unit) \<times> 'w" where
  "SaveCurrentDBDirName F w dir dbdir =
     (let h = md5 (nameBytes dbdir); fp = Join [dir, updatingDBFilename] in
      wbind (vfCreate F w fp) (\<lambda>_ w.
        let (r, w) = wbind (vfWrite F w fp (take 8 h)) (\<lambda>_ w.
              wbind (vfWrite F w fp (nameBytes dbdir)) (\<lambda>_ w. vfSync F w fp)) in
        (r, snd (syncDir F (snd (vfClose F w fp)) dir))))"

text \<open>A file that is too short or whose checksum does not match is answered with the empty name and no error.\<close>

definition GetCurrentDBDirName :: "'w vfs \<Rightarrow> 'w \<Rightarrow> string \<Rightarrow> string + string" where
  "GetCurrentDBDirName F w dir =
     rbind (vfReadAll F w (Join [dir, currentDBFilename])) (\<lambda>dat.
       if length dat \<le> 8 then Inr []
       else if take 8 dat \<noteq> take 8 (md5 (drop 8 dat)) then Inr []
       else Inr (bytesString (drop 8 dat)))"

definition CreateNodeDataDir :: "'w vfs \<Rightarrow> 'w \<Rightarrow> string \<Rightarrow> (string + unit) \<times> 'w" where
  "CreateNodeDataDir F w dir = wbind (vfMkdirAll F w dir) (\<lambda>_ w. syncDir F w (path_Dir dir))"

fun Cleanup_loop :: "'w vfs \<Rightarrow> string \<Rightarrow> string \<Rightarrow> string list \<Rightarrow> 'w \<Rightarrow> (string + unit) \<times> 'w" where
  "Cleanup_loop F dir dbdir [] w = (Inr (), w)"
| "Cleanup_loop F dir dbdir (fi # files) w =
     (if fi = currentDBFilename then Cleanup_loop F dir dbdir files w
      else if Join [dir, fi] \<noteq> Join [dir, dbdir] then
        wbind (vfRemoveAll F w (Join [dir, fi])) (\<lambda>_ w. Cleanup_loop F dir dbdir files w)
      else Cleanup_loop F dir dbdir files w)"

definition CleanupNodeDataDir :: "'w vfs \<Rightarrow> 'w \<Rightarrow> string \<Rightarrow> (string + unit) \<times> 'w" where
  "CleanupNodeDataDir F w dir =
     wbind (vfRemoveAll F w (Join [dir, updatingDBFilename])) (\<lambda>_ w.
       case GetCurrentDBDirName F w dir of
         Inl e \<Rightarrow> (Inl e, w)
       | Inr dbdir \<Rightarrow>
           (case vfList F w dir of
              Inl e \<Rightarrow> (Inl e, w)
            | Inr files \<Rightarrow> Cleanup_loop F dir dbdir files w))"

section \<open>What the file system promises\<close>

datatype fnode = FDir | FFile bytes

text \<open>
  \<open>V w\<close> is what the paths hold in state \<open>w\<close>; \<open>crash w z\<close> says that \<open>z\<close> may be found after a loss of
  power in \<open>w\<close>; \<open>S w p b\<close> says that the data \<open>b\<close> of the file at \<open>p\<close> is on disk, though perhaps not
  yet its name. An operation on one path leaves the others alone also in what a crash can leave. A
  failed operation may have been carried out in part. A renamed file whose data is on disk is found
  after a crash with all of it, or the old file is; the names in a directory are on disk once it is synced.
\<close>

definition elsewhere :: "('w \<Rightarrow> string \<Rightarrow> fnode option) \<Rightarrow> ('w \<Rightarrow> 'w \<Rightarrow> bool) \<Rightarrow> string set \<Rightarrow> 'w \<Rightarrow> 'w \<Rightarrow> bool" where
  "elsewhere V crash P w w' \<longleftrightarrow> (\<forall>p. p \<notin> P \<longrightarrow> V w' p = V w p) \<and> (\<forall>z. crash w' z \<longrightarrow> (\<exists>y. crash w y \<and> (\<forall>p. p \<notin> P \<longrightarrow> V z p = V y p)))"

record 'w fs_view =
  fvNodes :: "'w \<Rightarrow> string \<Rightarrow> fnode option"
  fvCrash :: "'w \<Rightarrow> 'w \<Rightarrow> bool"
  fvOnDisk :: "'w \<Rightarrow> string \<Rightarrow> bytes \<Rightarrow> bool"

definition fs_laws :: "'w vfs \<Rightarrow> 'w fs_view \<Rightarrow> bool" where
  "fs_laws F v \<longleftrightarrow>
     (\<forall>w p b. vfReadAll F w p = Inr b \<longrightarrow> fvNodes v w p = Some (FFile b)) \<and>
     (\<forall>w p r w'. vfCreate F w p = (r, w') \<longrightarrow> elsewhere (fvNodes v) (fvCrash v) {p} w w' \<and> (r = Inr () \<longrightarrow> fvNodes v w' p = Some (FFile []))) \<and>
     (\<forall>w p b r w'. vfWrite F w p b = (r, w') \<longrightarrow> elsewhere (fvNodes v) (fvCrash v) {p} w w' \<and>
        (\<forall>a. r = Inr () \<longrightarrow> fvNodes v w p = Some (FFile a) \<longrightarrow> fvNodes v w' p = Some (FFile (a @ b)))) \<and>
     (\<forall>w p r w'. vfSync F w p = (r, w') \<longrightarrow> elsewhere (fvNodes v) (fvCrash v) {p} w w' \<and> fvNodes v w' p = fvNodes v w p \<and>
        (\<forall>b. r = Inr () \<longrightarrow> fvNodes v w p = Some (FFile b) \<longrightarrow> fvOnDisk v w' p b)) \<and>
     (\<forall>w p r w'. vfClose F w p = (r, w') \<longrightarrow> elsewhere (fvNodes v) (fvCrash v) {} w w' \<and> (\<forall>q b. fvOnDisk v w q b \<longrightarrow> fvOnDisk v w' q b)) \<and>
     (\<forall>w d r w'. vfSyncDir F w d = (r, w') \<longrightarrow> elsewhere (fvNodes v) (fvCrash v) {} w w' \<and> (\<forall>q b. fvOnDisk v w q b \<longrightarrow> fvOnDisk v w' q b)) \<and>
     (\<forall>w d w' f b z. vfSyncDir F w (path_Clean d) = (Inr (), w') \<longrightarrow> fvOnDisk v w (Join [d, f]) b \<longrightarrow> fvCrash v w' z \<longrightarrow> fvNodes v z (Join [d, f]) = Some (FFile b)) \<and>
     (\<forall>w p q b r w'. vfRename F w p q = (r, w') \<longrightarrow> fvOnDisk v w p b \<longrightarrow>
        (r = Inr () \<longrightarrow> fvNodes v w' q = Some (FFile b) \<and> fvOnDisk v w' q b) \<and>
        (\<forall>z. fvCrash v w' z \<longrightarrow> fvNodes v z q = Some (FFile b) \<or> (\<exists>y. fvCrash v w y \<and> fvNodes v z q = fvNodes v y q))) \<and>
     (\<forall>w p r w'. vfRemoveAll F w p = (r, w') \<longrightarrow>
        (\<forall>q. fvNodes v w' q = fvNodes v w q \<or> fvNodes v w' q = None \<and> (q = p \<or> (\<exists>s. q = p @ ''/'' @ s))) \<and>
        (r = Inr () \<longrightarrow> fvNodes v w' p = None))"

lemma fs_readD: "fs_laws F v \<Longrightarrow> vfReadAll F w p = Inr b \<Longrightarrow> fvNodes v w p = Some (FFile b)"
  unfolding fs_laws_def by (elim conjE) metis

lemma fs_createD:
  assumes "fs_laws F v" and "vfCreate F w p = (r, w')"
  shows "elsewhere (fvNodes v) (fvCrash v) {p} w w'" and "r = Inr () \<Longrightarrow> fvNodes v w' p = Some (FFile [])"
  using assms unfolding fs_laws_def by metis+

lemma fs_writeD:
  assumes "fs_laws F v" and "vfWrite F w p b = (r, w')"
  shows "elsewhere (fvNodes v) (fvCrash v) {p} w w'"
    and "r = Inr () \<Longrightarrow> fvNodes v w p = Some (FFile a) \<Longrightarrow> fvNodes v w' p = Some (FFile (a @ b))"
  using assms unfolding fs_laws_def by metis+

lemma fs_syncD:
  assumes "fs_laws F v" and "vfSync F w p = (r, w')"
  shows "elsewhere (fvNodes v) (fvCrash v) {p} w w'" and "fvNodes v w' p = fvNodes v w p"
    and "r = Inr () \<Longrightarrow> fvNodes v w p = Some (FFile b) \<Longrightarrow> fvOnDisk v w' p b"
  using assms unfolding fs_laws_def by metis+

lemma fs_closeD:
  assumes "fs_laws F v" and "vfClose F w p = (r, w')"
  shows "elsewhere (fvNodes v) (fvCrash v) {} w w'" and "fvOnDisk v w q b \<Longrightarrow> fvOnDisk v w' q b"
  using assms unfolding fs_laws_def by metis+

lemma fs_syncDirD:
  assumes "fs_laws F v" and "vfSyncDir F w d = (r, w')"
  shows "elsewhere (fvNodes v) (fvCrash v) {} w w'" and "fvOnDisk v w q b \<Longrightarrow> fvOnDisk v w' q b"
  using assms unfolding fs_laws_def by metis+

lemma fs_syncDir_durable:
  assumes "fs_laws F v" and "vfSyncDir F w (path_Clean d) = (Inr (), w')" and "fvOnDisk v w (Join [d, f]) b" and "fvCrash v w' z"
  shows "fvNodes v z (Join [d, f]) = Some (FFile b)"
  using assms unfolding fs_laws_def by metis

lemma fs_renameD:
  assumes "fs_laws F v" and "vfRename F w p q = (r, w')" and "fvOnDisk v w p b"
  shows "r = Inr () \<Longrightarrow> fvNodes v w' q = Some (FFile b) \<and> fvOnDisk v w' q b"
    and "fvCrash v w' z \<Longrightarrow> fvNodes v z q = Some (FFile b) \<or> (\<exists>y. fvCrash v w y \<and> fvNodes v z q = fvNodes v y q)"
  using assms unfolding fs_laws_def by metis+

lemma fs_removeD:
  assumes "fs_laws F v" and "vfRemoveAll F w p = (r, w')"
  shows "fvNodes v w' q = fvNodes v w q \<or> fvNodes v w' q = None \<and> (q = p \<or> (\<exists>s. q = p @ ''/'' @ s))"
    and "r = Inr () \<Longrightarrow> fvNodes v w' p = None"
  using assms unfolding fs_laws_def by metis+

section \<open>Names in a directory\<close>

definition plain :: "string \<Rightarrow> bool" where
  "plain f \<longleftrightarrow> f \<noteq> [] \<and> f \<noteq> ''.'' \<and> f \<noteq> ''..'' \<and> CHR ''/'' \<notin> set f"

lemma split_slash_nonempty: "split_slash s \<noteq> []"
  by (induction s) (auto split: list.splits)

lemma split_slash_append: "split_slash (a @ CHR ''/'' # b) = split_slash a @ split_slash b"
proof (induction a)
  case (Cons c a)
  then show ?case using split_slash_nonempty [of a] by (cases "split_slash a") auto
qed simp

lemma split_slash_plain: "CHR ''/'' \<notin> set f \<Longrightarrow> split_slash f = [f]"
  by (induction f) auto

lemma clean_terms_append: "clean_terms r (ts @ us) acc = clean_terms r us (rev (clean_terms r ts acc))"
  by (induction r ts acc rule: clean_terms.induct) (auto split: list.splits)

lemma join_slash_snoc: "join_slash (X @ [f]) = (if X = [] then [] else join_slash X @ ''/'') @ f"
proof (induction X rule: join_slash.induct)
  case (3 t u ts)
  then show ?case by (cases "ts @ [f]") simp_all
qed simp_all

text \<open>The path of a plain name is the directory's path and the name; the empty name is the directory.\<close>

definition dirPath :: "string \<Rightarrow> string" where
  "dirPath d = (let rooted = (d \<noteq> [] \<and> hd d = CHR ''/''); X = (if d = [] then [] else clean_terms rooted (split_slash d) []) in
     (if rooted then ''/'' else []) @ (if X = [] then [] else join_slash X @ ''/''))"

lemma Join_plain:
  assumes "plain f"
  shows "Join [d, f] = dirPath d @ f"
proof (cases "d = []")
  case True
  then show ?thesis using assms
    by (cases f) (auto simp: Join_def path_Clean_def plain_def split_slash_plain dirPath_def)
next
  case False
  let ?r = "hd d = CHR ''/''"
  let ?X = "clean_terms ?r (split_slash d) []"
  have "clean_terms ?r (split_slash (d @ CHR ''/'' # f)) [] = ?X @ [f]"
    using assms by (simp add: split_slash_append clean_terms_append split_slash_plain plain_def)
  then show ?thesis using False by (cases ?r) (simp_all add: Join_def path_Clean_def dirPath_def Let_def join_slash_snoc)
qed

lemma Join_inject: "plain f \<Longrightarrow> plain g \<Longrightarrow> Join [d, f] = Join [d, g] \<longleftrightarrow> f = g"
  by (simp add: Join_plain)

lemma Join_empty:
  assumes "plain f"
  shows "Join [d, f] \<noteq> Join [d, []]"
proof (cases "d = []")
  case True
  then show ?thesis using assms by (simp add: Join_plain) (simp add: Join_def plain_def)
next
  case False
  let ?r = "hd d = CHR ''/''"
  let ?X = "clean_terms ?r (split_slash d) []"
  have "clean_terms ?r (split_slash (d @ ''/'')) [] = ?X" by (simp add: split_slash_append clean_terms_append)
  then have j: "Join [d, []] = (if ?r then ''/'' @ join_slash ?X else if ?X = [] then ''.'' else join_slash ?X)"
    using False by (cases ?r) (simp_all add: Join_def path_Clean_def Let_def)
  have "Join [d, f] = (if ?r then ''/'' else []) @ (if ?X = [] then [] else join_slash ?X @ ''/'') @ f"
    using assms False by (simp add: Join_plain dirPath_def Let_def)
  then show ?thesis using assms unfolding j by (auto simp: plain_def)
qed

lemma plain_files [simp]: "plain currentDBFilename" "plain updatingDBFilename" "currentDBFilename \<noteq> updatingDBFilename"
  by (simp_all add: plain_def currentDBFilename_def updatingDBFilename_def)

lemma not_below: "plain f \<Longrightarrow> plain g \<Longrightarrow> Join [d, f] \<noteq> Join [d, g] @ ''/'' @ s"
  by (auto simp: Join_plain plain_def)

section \<open>The switch to another database\<close>

abbreviation els :: "'w fs_view \<Rightarrow> string set \<Rightarrow> 'w \<Rightarrow> 'w \<Rightarrow> bool" where
  "els v \<equiv> elsewhere (fvNodes v) (fvCrash v)"

lemma els_refl: "els v P w w"
  by (auto simp: elsewhere_def)

lemma els_trans:
  assumes "els v P w w'" and "els v Q w' w''"
  shows "els v (P \<union> Q) w w''"
  unfolding elsewhere_def
proof (intro conjI allI impI)
  fix q assume "q \<notin> P \<union> Q"
  then show "fvNodes v w'' q = fvNodes v w q" using assms by (simp add: elsewhere_def)
next
  fix z assume "fvCrash v w'' z"
  then obtain y where y: "fvCrash v w' y" "\<forall>q. q \<notin> Q \<longrightarrow> fvNodes v z q = fvNodes v y q" using assms(2) unfolding elsewhere_def by blast
  obtain x where x: "fvCrash v w x" "\<forall>q. q \<notin> P \<longrightarrow> fvNodes v y q = fvNodes v x q" using assms(1) y(1) unfolding elsewhere_def by blast
  show "\<exists>y. fvCrash v w y \<and> (\<forall>q. q \<notin> P \<union> Q \<longrightarrow> fvNodes v z q = fvNodes v y q)" using x y(2) by (intro exI [of _ x]) simp
qed

lemma els_node: "els v P w w' \<Longrightarrow> q \<notin> P \<Longrightarrow> fvNodes v w' q = fvNodes v w q"
  by (simp add: elsewhere_def)

lemma els_crash: "els v P w w' \<Longrightarrow> fvCrash v w' z \<Longrightarrow> q \<notin> P \<Longrightarrow> \<exists>y. fvCrash v w y \<and> fvNodes v z q = fvNodes v y q"
  unfolding elsewhere_def by blast

lemma syncDir_els:
  assumes "fs_laws F v" and "syncDir F w d = (r, w')"
  shows "els v {} w w'" and "fvOnDisk v w q b \<Longrightarrow> fvOnDisk v w' q b"
    and "r = Inr () \<Longrightarrow> vfSyncDir F w (path_Clean d) = (r, w')"
  using assms(2) fs_syncDirD [OF assms(1)] els_refl [of v "{}" w] by (auto simp: syncDir_def split: sum.splits if_splits)

text \<open>The content of the file that names a database.\<close>

definition currentFile :: "string \<Rightarrow> bytes" where
  "currentFile dbdir = take 8 (md5 (nameBytes dbdir)) @ nameBytes dbdir"

lemma wbind_eq: "wbind a f = (case a of (Inl e, w) \<Rightarrow> (Inl e, w) | (Inr x, w) \<Rightarrow> f x w)"
  by (cases "(a, f)" rule: wbind.cases) simp_all

lemma Save_els:
  assumes L: "fs_laws F v" and S: "SaveCurrentDBDirName F w dir new = (r, w')"
  shows "els v {Join [dir, updatingDBFilename]} w w'"
    and "r = Inr () \<Longrightarrow> fvOnDisk v w' (Join [dir, updatingDBFilename]) (currentFile new)"
proof -
  define fp where "fp = Join [dir, updatingDBFilename]"
  obtain r1 w1 where c: "vfCreate F w fp = (r1, w1)" by fastforce
  obtain r2 w2 where w2: "vfWrite F w1 fp (take 8 (md5 (nameBytes new))) = (r2, w2)" by fastforce
  obtain r3 w3 where w3: "vfWrite F w2 fp (nameBytes new) = (r3, w3)" by fastforce
  obtain r4 w4 where w4: "vfSync F w3 fp = (r4, w4)" by fastforce
  define rx where "rx = wbind (vfWrite F w1 fp (take 8 (md5 (nameBytes new)))) (\<lambda>_ w. wbind (vfWrite F w fp (nameBytes new)) (\<lambda>_ w. vfSync F w fp))"
  have rx: "rx = (case r2 of Inl e \<Rightarrow> (Inl e, w2) | Inr _ \<Rightarrow> (case r3 of Inl e \<Rightarrow> (Inl e, w3) | Inr _ \<Rightarrow> (r4, w4)))"
    unfolding rx_def w2 by (cases r2; cases r3) (simp_all add: w3 w4)
  have e1: "els v {fp} w w1" by (rule fs_createD(1) [OF L c])
  have e2: "els v {fp} w w2" using els_trans [OF e1 fs_writeD(1) [OF L w2]] by simp
  have e3: "els v {fp} w w3" using els_trans [OF e2 fs_writeD(1) [OF L w3]] by simp
  have e4: "els v {fp} w w4" using els_trans [OF e3 fs_syncD(1) [OF L w4]] by simp
  have ex: "els v {fp} w (snd rx)" using e2 e3 e4 unfolding rx by (cases r2; cases r3) simp_all
  obtain rc wc where cl: "vfClose F (snd rx) fp = (rc, wc)" by fastforce
  obtain rs ws where sy: "syncDir F wc dir = (rs, ws)" by fastforce
  have res: "(r, w') = (case r1 of Inl e \<Rightarrow> (Inl e, w1) | Inr _ \<Rightarrow> (fst rx, ws))"
    using S unfolding SaveCurrentDBDirName_def Let_def fp_def [symmetric]
    by (cases r1) (auto simp: c rx_def [symmetric] split_beta cl sy)
  have es: "els v {fp} w ws" using els_trans [OF els_trans [OF ex fs_closeD(1) [OF L cl]] syncDir_els(1) [OF L sy]] by simp
  show "els v {Join [dir, updatingDBFilename]} w w'" using e1 es res unfolding fp_def by (cases r1) simp_all
  assume r: "r = Inr ()"
  then have o1: "r1 = Inr ()" "fst rx = Inr ()" "w' = ws" using res by (cases r1; simp)+
  have "r2 = Inr () \<and> r3 = Inr () \<and> r4 = Inr () \<and> snd rx = w4"
  proof (cases r2)
    case (Inl e)
    then show ?thesis using o1(2) unfolding rx by simp
  next
    case (Inr u)
    then show ?thesis using o1(2) unfolding rx by (cases r3) simp_all
  qed
  then have ok: "r1 = Inr ()" "r2 = Inr ()" "r3 = Inr ()" "r4 = Inr ()" "snd rx = w4" "w' = ws" using o1 by blast+
  have "fvNodes v w1 fp = Some (FFile [])" by (rule fs_createD(2) [OF L c ok(1)])
  from fs_writeD(2) [OF L w2 ok(2) this] have "fvNodes v w2 fp = Some (FFile (take 8 (md5 (nameBytes new))))" by simp
  from fs_writeD(2) [OF L w3 ok(3) this] have "fvNodes v w3 fp = Some (FFile (currentFile new))" by (simp add: currentFile_def)
  from fs_syncD(3) [OF L w4 ok(4) this] have "fvOnDisk v w4 fp (currentFile new)" .
  then have "fvOnDisk v wc fp (currentFile new)" using ok(5) by (intro fs_closeD(2) [OF L cl]) simp
  from syncDir_els(2) [OF L sy this] show "fvOnDisk v w' (Join [dir, updatingDBFilename]) (currentFile new)" using ok(6) by (simp add: fp_def)
qed

lemma Replace_crash:
  assumes L: "fs_laws F v" and d: "fvOnDisk v w (Join [dir, updatingDBFilename]) b" and R: "ReplaceCurrentDBFile F w dir = (r, w')"
    and z: "fvCrash v w' z"
  shows "fvNodes v z (Join [dir, currentDBFilename]) = Some (FFile b) \<or>
      r \<noteq> Inr () \<and> (\<exists>y. fvCrash v w y \<and> fvNodes v z (Join [dir, currentDBFilename]) = fvNodes v y (Join [dir, currentDBFilename]))"
proof -
  obtain r1 w1 where rn: "vfRename F w (Join [dir, updatingDBFilename]) (Join [dir, currentDBFilename]) = (r1, w1)" by fastforce
  obtain rs ws where sy: "syncDir F w1 dir = (rs, ws)" by fastforce
  have res: "(r, w') = (case r1 of Inl e \<Rightarrow> (Inl e, w1) | Inr _ \<Rightarrow> (rs, ws))"
    using R rn sy by (auto simp: ReplaceCurrentDBFile_def wbind_eq split: sum.splits)
  show ?thesis
  proof (cases r1)
    case (Inl e)
    then show ?thesis using res z fs_renameD(2) [OF L rn d, of z] by simp
  next
    case (Inr u)
    then have eq: "r = rs" "w' = ws" using res by simp_all
    show ?thesis
    proof (cases "rs = Inr ()")
      case True
      have "fvOnDisk v w1 (Join [dir, currentDBFilename]) b" using fs_renameD(1) [OF L rn d] Inr by simp
      from fs_syncDir_durable [OF L _ this] syncDir_els(3) [OF L sy True] True z eq show ?thesis by simp
    next
      case False
      obtain y where y: "fvCrash v w1 y" "fvNodes v z (Join [dir, currentDBFilename]) = fvNodes v y (Join [dir, currentDBFilename])"
        using els_crash [OF syncDir_els(1) [OF L sy]] z eq by auto
      show ?thesis using fs_renameD(2) [OF L rn d y(1)] y(2) False eq(1) by simp
    qed
  qed
qed

text \<open>Both steps of the switch, as the recovery of a snapshot and the first start do them.\<close>

definition switchTo :: "'w vfs \<Rightarrow> 'w \<Rightarrow> string \<Rightarrow> string \<Rightarrow> (string + unit) \<times> 'w" where
  "switchTo F w dir new = wbind (SaveCurrentDBDirName F w dir new) (\<lambda>_ w. ReplaceCurrentDBFile F w dir)"

lemma switchTo_crash:
  assumes L: "fs_laws F v" and S: "switchTo F w dir new = (r, w')" and z: "fvCrash v w' z"
  shows "fvNodes v z (Join [dir, currentDBFilename]) = Some (FFile (currentFile new)) \<or>
      r \<noteq> Inr () \<and> (\<exists>y. fvCrash v w y \<and> fvNodes v z (Join [dir, currentDBFilename]) = fvNodes v y (Join [dir, currentDBFilename]))"
proof -
  have neq: "Join [dir, currentDBFilename] \<noteq> Join [dir, updatingDBFilename]" by (simp add: Join_inject)
  obtain r1 w1 where sv: "SaveCurrentDBDirName F w dir new = (r1, w1)" by fastforce
  note e = Save_els(1) [OF L sv]
  have prior: "\<exists>x. fvCrash v w x \<and> fvNodes v y (Join [dir, currentDBFilename]) = fvNodes v x (Join [dir, currentDBFilename])" if "fvCrash v w1 y" for y
    using els_crash [OF e that] neq by blast
  show ?thesis
  proof (cases r1)
    case (Inl err)
    then have "r = Inl err" "w' = w1" using S sv by (simp_all add: switchTo_def)
    then show ?thesis using prior z by simp
  next
    case (Inr u)
    then have rp: "ReplaceCurrentDBFile F w1 dir = (r, w')" using S sv by (simp add: switchTo_def)
    have d: "fvOnDisk v w1 (Join [dir, updatingDBFilename]) (currentFile new)" using Save_els(2) [OF L sv] Inr by simp
    from Replace_crash [OF L d rp z] show ?thesis
    proof (elim disjE conjE exE)
      fix y assume y: "r \<noteq> Inr ()" "fvCrash v w1 y" "fvNodes v z (Join [dir, currentDBFilename]) = fvNodes v y (Join [dir, currentDBFilename])"
      obtain x where "fvCrash v w x" "fvNodes v y (Join [dir, currentDBFilename]) = fvNodes v x (Join [dir, currentDBFilename])" using prior [OF y(2)] by blast
      then show ?thesis using y by (intro disjI2 conjI exI [of _ x]) simp_all
    qed simp
  qed
qed

lemma GetCurrentDBDirName_file:
  assumes "fs_laws F v" and "fvNodes v w (Join [dir, currentDBFilename]) = Some (FFile (currentFile new))" and "new \<noteq> []"
    and "GetCurrentDBDirName F w dir = Inr name"
  shows "name = new"
proof -
  obtain dat where r: "vfReadAll F w (Join [dir, currentDBFilename]) = Inr dat" using assms(4) by (auto simp: GetCurrentDBDirName_def result_simps)
  then have "dat = currentFile new" using fs_readD [OF assms(1) r] assms(2) by simp
  then show ?thesis using assms(3,4) r by (auto simp: GetCurrentDBDirName_def currentFile_def split: if_splits)
qed

section \<open>A file system in memory\<close>

text \<open>Paths and what they hold; every change is on disk at once.\<close>

definition mem_fs :: "(string \<times> fnode) list vfs" where
  "mem_fs =
     \<lparr>vfStat = \<lambda>w p. case map_of w p of None \<Rightarrow> Inl ''file does not exist'' | Some n \<Rightarrow> Inr (n = FDir),
      vfReadAll = \<lambda>w p. case map_of w p of Some (FFile b) \<Rightarrow> Inr b | _ \<Rightarrow> Inl ''file does not exist'',
      vfList = \<lambda>w d. Inr (filter plain (map (\<lambda>(p, n). drop (length (dirPath d)) p) (filter (\<lambda>(p, n). take (length (dirPath d)) p = dirPath d) w))),
      vfMkdirAll = \<lambda>w p. (Inr (), (p, FDir) # w),
      vfCreate = \<lambda>w p. (Inr (), (p, FFile []) # w),
      vfWrite = \<lambda>w p b. case map_of w p of Some (FFile a) \<Rightarrow> (Inr (), (p, FFile (a @ b)) # w) | _ \<Rightarrow> (Inl ''file does not exist'', w),
      vfSync = \<lambda>w p. (Inr (), w),
      vfClose = \<lambda>w p. (Inr (), w),
      vfSyncDir = \<lambda>w d. (Inr (), w),
      vfRename = \<lambda>w p q. case map_of w p of None \<Rightarrow> (Inl ''file does not exist'', w) | Some n \<Rightarrow> (Inr (), (q, n) # filter (\<lambda>(p', _). p' \<noteq> p) w),
      vfRemoveAll = \<lambda>w p. (Inr (), filter (\<lambda>(q, _). q \<noteq> p \<and> take (Suc (length p)) q \<noteq> p @ ''/'') w)\<rparr>"

definition mem_view :: "(string \<times> fnode) list fs_view" where
  "mem_view = \<lparr>fvNodes = map_of, fvCrash = (=), fvOnDisk = \<lambda>w p b. map_of w p = Some (FFile b)\<rparr>"

lemma map_of_filter_fst: "map_of (filter (\<lambda>(q, _). Q q) w) k = (if Q k then map_of w k else None)"
  by (induction w) auto

lemma mem_els: "els mem_view P w w' \<longleftrightarrow> (\<forall>p. p \<notin> P \<longrightarrow> map_of w' p = map_of w p)"
  by (auto simp: elsewhere_def mem_view_def)

lemma take_slash: "take (Suc (length p)) q = p @ ''/'' \<Longrightarrow> \<exists>s. q = p @ ''/'' @ s"
  by (rule exI [of _ "drop (Suc (length p)) q"]) (metis append.assoc append_take_drop_id)

lemma mem_fs_laws: "fs_laws mem_fs mem_view"
  unfolding fs_laws_def mem_els
  by (intro conjI; auto simp: mem_fs_def mem_view_def map_of_filter_fst dest!: take_slash split: option.splits fnode.splits)

section \<open>Properties\<close>

text \<open>
  C16: the switch to another database survives a crash. Whatever fails while the file that names the
  database is written and put in place, and wherever the power is lost, the file found afterwards names
  the new database or is one that could have been found before; once the switch has returned without an
  error only the new name can be found.
\<close>

theorem switch_atomic:
  assumes "fs_laws F v" and "new \<noteq> []" and "switchTo F w dir new = (r, w')" and "fvCrash v w' z"
    and "GetCurrentDBDirName F z dir = Inr name"
  shows "name = new \<or>
    r \<noteq> Inr () \<and> (\<exists>y. fvCrash v w y \<and> fvNodes v z (Join [dir, currentDBFilename]) = fvNodes v y (Join [dir, currentDBFilename]))"
  using switchTo_crash [OF assms(1,3,4)] GetCurrentDBDirName_file [OF assms(1) _ assms(2,5)] by blast

theorem switch_atomic_witness:
  "\<exists>w'. switchTo mem_fs [(''/d'', FDir)] ''/d'' ''7_1'' = (Inr (), w') \<and> GetCurrentDBDirName mem_fs w' ''/d'' = Inr ''7_1''"
proof -
  have j: "Join [''/d'', currentDBFilename] = ''/d/current''" "Join [''/d'', updatingDBFilename] = ''/d/current.updating''"
    by (simp_all add: Join_def currentDBFilename_def updatingDBFilename_def path_Clean_def)
  have c: "path_Clean ''/d'' = ''/d''" by (simp add: path_Clean_def)
  obtain w' where s: "switchTo mem_fs [(''/d'', FDir)] ''/d'' ''7_1'' = (Inr (), w')"
    and m: "map_of w' ''/d/current'' = Some (FFile (currentFile ''7_1''))"
    by (simp add: switchTo_def SaveCurrentDBDirName_def ReplaceCurrentDBFile_def j c syncDir_def mem_fs_def currentFile_def Let_def)
  have g: "GetCurrentDBDirName mem_fs w' ''/d'' = Inr ''7_1''"
    using m by (simp add: GetCurrentDBDirName_def j mem_fs_def currentFile_def)
  have "(''7_1'' :: string) = ''7_1'' \<or> Inr () \<noteq> (Inr () :: string + unit) \<and> (\<exists>y. fvCrash mem_view [(''/d'', FDir)] y
      \<and> fvNodes mem_view w' (Join [''/d'', currentDBFilename]) = fvNodes mem_view y (Join [''/d'', currentDBFilename]))"
    by (rule switch_atomic [OF mem_fs_laws _ s _ g]) (simp_all add: mem_view_def)
  with s g show ?thesis by blast
qed

end
