(* ===== verification/FSM_Lifecycle.thy ===== *)
theory FSM_Lifecycle
  imports FSM_Directory Snapshot_Stream
begin

text \<open>
  The life of a table's state machine (\<^verbatim>\<open>storage/table/fsm/fsm.go\<close>, \<^verbatim>\<open>snapshot_snapshot.go\<close>,
  \<^verbatim>\<open>snapshot_checkpoint.go\<close>, \<^verbatim>\<open>encode.go\<close>): opening and closing its database, and the snapshots by
  which Raft moves its state to another replica. The database files, the writer of sorted tables and
  the tar format are parameters; \<open>engine_laws\<close> is what the recovery relies on.
\<close>

section \<open>The engine's files\<close>

text \<open>\<^verbatim>\<open>pebble.Open\<close>, \<^verbatim>\<open>Flush\<close>, \<^verbatim>\<open>Close\<close>, \<^verbatim>\<open>Checkpoint\<close> and \<^verbatim>\<open>Ingest\<close>.\<close>

record ('w, 'd) engine =
  enOpen :: "'w \<Rightarrow> string \<Rightarrow> (string + 'd) \<times> 'w"
  enFlush :: "'w \<Rightarrow> 'd \<Rightarrow> (string + unit) \<times> 'w"
  enClose :: "'w \<Rightarrow> 'd \<Rightarrow> (string + unit) \<times> 'w"
  enCheckpoint :: "'w \<Rightarrow> 'd \<Rightarrow> string \<Rightarrow> (string + unit) \<times> 'w"
  enIngest :: "'w \<Rightarrow> 'd \<Rightarrow> string list \<Rightarrow> (string + 'd) \<times> 'w"

text \<open>\<^verbatim>\<open>sstable.Writer\<close> after the pairs that were set: the file it closes with, its estimated size, its errors.\<close>

record sstable =
  ssFile :: "(bytes \<times> bytes) list \<Rightarrow> bytes"
  ssEstimatedSize :: "(bytes \<times> bytes) list \<Rightarrow> nat"
  ssSetError :: "(bytes \<times> bytes) list \<Rightarrow> bytes \<Rightarrow> bytes \<Rightarrow> string option"
  ssCloseError :: "(bytes \<times> bytes) list \<Rightarrow> string option"

datatype typeflag = TypeDir | TypeReg | TypeOther

record tar_entry =
  teName :: string
  teTypeflag :: typeflag
  teData :: bytes

text \<open>The bytes of an archive and what reading them delivers, an error being the last item.\<close>

record tar =
  tarWrite :: "tar_entry list \<Rightarrow> bytes"
  tarRead :: "bytes \<Rightarrow> (string + tar_entry) list"

datatype life_error =
    ErrStateMachineClosed
  | LFsm fsm_error
  | LFs string
  | LEngine string
  | LWriter string
  | LTar string
  | LIo io_error
  | PathTraversal string

fun liftW :: "('e \<Rightarrow> 'f) \<Rightarrow> ('e + 'a) \<times> 'w \<Rightarrow> ('f + 'a) \<times> 'w" where
  "liftW f (Inl e, w) = (Inl (f e), w)"
| "liftW f (Inr x, w) = (Inr x, w)"

section \<open>Opening and closing\<close>

definition New :: "string \<Rightarrow> string \<Rightarrow> string \<Rightarrow> byte \<Rightarrow> u64 \<Rightarrow> u64 \<Rightarrow> 'd FSM" where
  "New tableName stateMachineDir hostname srt clusterID nodeID =
     \<lparr>fsmPebble = None, fsmClusterID = clusterID, fsmNodeID = nodeID, fsmTableName = nameBytes tableName,
      fsmDirname = GetNodeDBDirName stateMachineDir hostname (tableName @ ''-'' @ decimal (unat clusterID)),
      fsmClosed = False, fsmRecoveryType = srt, fsmApplied = 0\<rparr>"

text \<open>\<open>randomDir\<close> is the name \<^verbatim>\<open>GetNewRandomDBDirName\<close> gives.\<close>

definition openDir :: "'w vfs \<Rightarrow> string \<Rightarrow> string \<Rightarrow> 'w \<Rightarrow> (life_error + string) \<times> 'w" where
  "openDir F dirname randomDir w =
     wbind (liftW LFs (CreateNodeDataDir F w dirname)) (\<lambda>_ w.
       if IsNewRun F w dirname then
         wbind (liftW LFs (switchTo F w dirname randomDir)) (\<lambda>_ w. (Inr (Join [dirname, randomDir]), w))
       else
         wbind (liftW LFs (CleanupNodeDataDir F w dirname)) (\<lambda>_ w.
           case GetCurrentDBDirName F w dirname of
             Inl e \<Rightarrow> (Inl (LFs e), w)
           | Inr randomDir \<Rightarrow>
               (case vfStat F w (Join [dirname, randomDir]) of
                  Inl e \<Rightarrow> (Inl (LFs e), w)
                | Inr _ \<Rightarrow> (Inr (Join [dirname, randomDir]), w))))"

definition Open :: "('w, 'd) engine \<Rightarrow> 'w vfs \<Rightarrow> ('d, 'b) pebble \<Rightarrow> string \<Rightarrow> 'd FSM \<Rightarrow> 'w \<Rightarrow> (life_error + u64) \<times> 'd FSM \<times> 'w" where
  "Open E F P randomDir p w =
     (if fsmClusterID p < 1 then (Inl (LFsm ErrInvalidClusterID), p, w)
      else if fsmNodeID p < 1 then (Inl (LFsm ErrInvalidNodeID), p, w)
      else case wbind (openDir F (fsmDirname p) randomDir w) (\<lambda>dbdir w. liftW LEngine (enOpen E w dbdir)) of
        (Inl e, w) \<Rightarrow> (Inl e, p, w)
      | (Inr db, w) \<Rightarrow>
          let p = p\<lparr>fsmPebble := Some db\<rparr> in
          (case readLocalIndex (pbReader P db) sysLocalIndex of
             Inl e \<Rightarrow> (Inl (LFsm e), p, w)
           | Inr idx \<Rightarrow> (Inr idx, p\<lparr>fsmApplied := idx\<rparr>, w)))"

definition Sync :: "('w, 'd) engine \<Rightarrow> 'd FSM \<Rightarrow> 'w \<Rightarrow> (life_error + unit) \<times> 'w" where
  "Sync E p w =
     (case fsmPebble p of
        None \<Rightarrow> (Inl (LFsm (GoPanic ''nil pointer dereference'')), w)
      | Some db \<Rightarrow> liftW LEngine (enFlush E w db))"

definition Close :: "('w, 'd) engine \<Rightarrow> 'd FSM \<Rightarrow> 'w \<Rightarrow> (life_error + unit) \<times> 'd FSM \<times> 'w" where
  "Close E p w =
     (let p = p\<lparr>fsmClosed := True\<rparr> in
      case fsmPebble p of
        None \<Rightarrow> (Inr (), p, w)
      | Some db \<Rightarrow>
          (case wbind (liftW LEngine (enFlush E w db)) (\<lambda>_ w. liftW LEngine (enClose E w db)) of (r, w) \<Rightarrow> (r, p, w)))"

text \<open>\<^verbatim>\<open>hash/fnv\<close>, variant 1 of 64 bits.\<close>

definition fnv64_write :: "bytes \<Rightarrow> u64 \<Rightarrow> u64" where
  "fnv64_write b h = fold (\<lambda>x h. (h * 1099511628211) XOR ucast x) b h"

definition GetHash :: "('d, 'b) pebble \<Rightarrow> 'd FSM \<Rightarrow> life_error + u64" where
  "GetHash P p =
     (case fsmPebble p of
        None \<Rightarrow> Inl (LFsm (GoPanic ''nil pointer dereference''))
      | Some db \<Rightarrow> Inr (fold (\<lambda>(k, v) h. fnv64_write v (fnv64_write k h)) (rdIter (pbReader P db) None None) 14695981039346656037))"

section \<open>Snapshots as sorted tables\<close>

definition RecoveryTypeSnapshot :: byte where
  "RecoveryTypeSnapshot = 0"

definition RecoveryTypeCheckpoint :: byte where
  "RecoveryTypeCheckpoint = 1"

definition setSnapshotType :: "byte \<Rightarrow> bytes \<Rightarrow> bytes" where
  "setSnapshotType t s = s[6 := t]"

definition snapshotType :: "bytes \<Rightarrow> byte" where
  "snapshotType s = s ! 6"

definition snapshot_getHeader :: bytes where
  "snapshot_getHeader = setSnapshotType RecoveryTypeSnapshot (replicate 8 0)"

definition checkpoint_getHeader :: bytes where
  "checkpoint_getHeader = setSnapshotType RecoveryTypeCheckpoint (replicate 8 0)"

definition maxBatchSize :: nat where
  "maxBatchSize = 16 * 1024 * 1024"

text \<open>\<open>wr out b\<close> is \<^verbatim>\<open>Write\<close> of the writer; copying an empty buffer writes nothing.\<close>

definition writeLenDelimited :: "('o \<Rightarrow> bytes \<Rightarrow> string + 'o) \<Rightarrow> bytes \<Rightarrow> 'o \<Rightarrow> string + 'o" where
  "writeLenDelimited wr b out =
     rbind (wr out (PutUint64 (of_nat (length b)))) (\<lambda>out. if b = [] then Inr out else wr out b)"

fun liftE :: "('e \<Rightarrow> 'f) \<Rightarrow> 'e + 'a \<Rightarrow> 'f + 'a" where
  "liftE f (Inl e) = Inl (f e)"
| "liftE f (Inr x) = Inr x"

definition closeWriter :: "sstable \<Rightarrow> ('o \<Rightarrow> bytes \<Rightarrow> string + 'o) \<Rightarrow> (bytes \<times> bytes) list \<Rightarrow> 'o \<Rightarrow> life_error + 'o" where
  "closeWriter S wr held out =
     (case ssCloseError S held of Some e \<Rightarrow> Inl (LEngine e) | None \<Rightarrow> liftE LWriter (writeLenDelimited wr (ssFile S held) out))"

fun save_loop :: "sstable \<Rightarrow> ('o \<Rightarrow> bytes \<Rightarrow> string + 'o) \<Rightarrow> (bytes \<times> bytes) list \<Rightarrow> bool list \<Rightarrow> (bytes \<times> bytes) list \<Rightarrow> 'o
  \<Rightarrow> life_error + ((bytes \<times> bytes) list \<times> 'o)"
where
  "save_loop S wr [] stopped held out = Inr (held, out)"
| "save_loop S wr ((k, v) # es) stopped held out =
     (if stopped \<noteq> [] \<and> hd stopped then Inl (LFsm ErrSnapshotStopped)
      else case ssSetError S held k v of
        Some e \<Rightarrow> Inl (LEngine e)
      | None \<Rightarrow>
          if ssEstimatedSize S (held @ [(k, v)]) \<ge> maxBatchSize then
            rbind (closeWriter S wr (held @ [(k, v)]) out) (\<lambda>out. save_loop S wr es (tl stopped) [] out)
          else save_loop S wr es (tl stopped) (held @ [(k, v)]) out)"

definition snapshot_save :: "sstable \<Rightarrow> ('o \<Rightarrow> bytes \<Rightarrow> string + 'o) \<Rightarrow> reader \<Rightarrow> bool list \<Rightarrow> 'o \<Rightarrow> life_error + 'o" where
  "snapshot_save S wr r stopped out =
     rbind (save_loop S wr (rdIter r None None) stopped [] out) (\<lambda>(held, out). closeWriter S wr held out)"

text \<open>The checks every recovery starts with.\<close>

definition checkRecover :: "'d FSM \<Rightarrow> life_error option" where
  "checkRecover p =
     (if fsmClosed p then Some ErrStateMachineClosed
      else if fsmClusterID p < 1 then Some (LFsm ErrInvalidClusterID)
      else if fsmNodeID p < 1 then Some (LFsm ErrInvalidNodeID)
      else None)"

text \<open>The end of every recovery: the switch on disk, then in memory, then the removal of what is left over.\<close>

definition finishRecovery :: "('w, 'd) engine \<Rightarrow> 'w vfs \<Rightarrow> ('d, 'b) pebble \<Rightarrow> string \<Rightarrow> 'd \<Rightarrow> 'd FSM \<Rightarrow> 'w
  \<Rightarrow> (life_error + unit) \<times> 'd FSM \<times> 'w"
where
  "finishRecovery E F P randomDirName db p w =
     (case readLocalIndex (pbReader P db) sysLocalIndex of
        Inl e \<Rightarrow> (Inl (LFsm e), p, w)
      | Inr idx \<Rightarrow>
          (case switchTo F w (fsmDirname p) randomDirName of
             (Inl e, w) \<Rightarrow> (Inl (LFs e), p, w)
           | (Inr _, w) \<Rightarrow>
               let w = (case fsmPebble p of None \<Rightarrow> w | Some old \<Rightarrow> snd (enClose E w old)) in
               (case liftW LFs (CleanupNodeDataDir F w (fsmDirname p)) of
                  (r, w) \<Rightarrow> (r, p\<lparr>fsmPebble := Some db, fsmApplied := idx\<rparr>, w))))"

definition ingestName :: "string \<Rightarrow> nat \<Rightarrow> string" where
  "ingestName dirname count = Join [dirname, ''ingest-'' @ decimal count @ ''.sst'']"

text \<open>\<^verbatim>\<open>io.CopyBuffer(f, io.LimitReader(r, int64(size)), buff)\<close>: at most what is left of the stream.\<close>

definition limited :: "u64 \<Rightarrow> bytes \<Rightarrow> bytes" where
  "limited sz r = take (nat (sint sz)) r"

definition writeFile :: "'w vfs \<Rightarrow> string \<Rightarrow> bytes \<Rightarrow> 'w \<Rightarrow> (string + unit) \<times> 'w" where
  "writeFile F name b w =
     wbind (if b = [] then (Inr (), w) else vfWrite F w name b) (\<lambda>_ w.
     wbind (vfSync F w name) (\<lambda>_ w. vfClose F w name))"

function recover_read :: "'w vfs \<Rightarrow> string \<Rightarrow> nat \<Rightarrow> string list \<Rightarrow> bool list \<Rightarrow> bytes \<Rightarrow> 'w \<Rightarrow> (life_error + string list) \<times> 'w" where
  "recover_read F dirname count files stopped r w =
     (if stopped \<noteq> [] \<and> hd stopped then (Inl (LFsm ErrSnapshotStopped), w)
      else if length r < 8 then (if r = [] then (Inr files, w) else (Inl (LIo IoUnexpectedEOF), w))
      else
        let sz = the (Uint64 (take 8 r)); rest = drop 8 r; name = ingestName dirname count in
        (case vfCreate F w name of
           (Inl e, w) \<Rightarrow> (Inl (LFs e), w)
         | (Inr _, w) \<Rightarrow>
             (case writeFile F name (limited sz rest) w of
                (Inl e, w) \<Rightarrow> (Inl (LFs e), w)
              | (Inr _, w) \<Rightarrow>
                  recover_read F dirname (Suc count) (files @ [name]) (tl stopped) (drop (length (limited sz rest)) rest) w)))"
  by pat_completeness auto
termination
  by (relation "measure (\<lambda>(F, d, c, fs, st, r, w). length r)") auto

definition snapshot_recover :: "('w, 'd) engine \<Rightarrow> 'w vfs \<Rightarrow> ('d, 'b) pebble \<Rightarrow> string \<Rightarrow> bool list \<Rightarrow> bytes \<Rightarrow> 'd FSM \<Rightarrow> 'w
  \<Rightarrow> (life_error + unit) \<times> 'd FSM \<times> 'w"
where
  "snapshot_recover E F P randomDirName stopped r p w =
     (case checkRecover p of
        Some e \<Rightarrow> (Inl e, p, w)
      | None \<Rightarrow>
          (case enOpen E w (Join [fsmDirname p, randomDirName]) of
             (Inl e, w) \<Rightarrow> (Inl (LEngine e), p, w)
           | (Inr db, w) \<Rightarrow>
               (case recover_read F (fsmDirname p) 0 [] stopped r w of
                  (Inl e, w) \<Rightarrow>
                    (Inl e, p, if e = LFsm ErrSnapshotStopped
                       then snd (CleanupNodeDataDir F (snd (enClose E w db)) (fsmDirname p)) else w)
                | (Inr files, w) \<Rightarrow>
                    (case enIngest E w db files of
                       (Inl e, w) \<Rightarrow> (Inl (LEngine e), p, w)
                     | (Inr db, w) \<Rightarrow> finishRecovery E F P randomDirName db p w))))"

section \<open>Snapshots as checkpoints\<close>

definition checkpoint_prepare :: "('w, 'd) engine \<Rightarrow> string \<Rightarrow> string \<Rightarrow> 'd \<Rightarrow> 'w \<Rightarrow> (life_error + string) \<times> 'w" where
  "checkpoint_prepare E dirname randomDirName db w =
     wbind (liftW LEngine (enFlush E w db)) (\<lambda>_ w.
       let dir = Join [dirname, ''checkpoint'', randomDirName] in
       wbind (liftW LEngine (enCheckpoint E w db dir)) (\<lambda>_ w. (Inr dir, w)))"

fun checkpoint_entries :: "'w vfs \<Rightarrow> string \<Rightarrow> string list \<Rightarrow> bool list \<Rightarrow> 'w \<Rightarrow> life_error + tar_entry list" where
  "checkpoint_entries F dir [] stopped w = Inr []"
| "checkpoint_entries F dir (fn # fns) stopped w =
     (if stopped \<noteq> [] \<and> hd stopped then Inl (LFsm ErrSnapshotStopped)
      else rbind (liftE LFs (vfStat F w (Join [dir, fn]))) (\<lambda>isDir.
           rbind (if isDir then Inr \<lparr>teName = fn, teTypeflag = TypeDir, teData = []\<rparr>
                  else rbind (liftE LFs (vfReadAll F w (Join [dir, fn]))) (\<lambda>dat.
                         Inr \<lparr>teName = fn, teTypeflag = TypeReg, teData = dat\<rparr>)) (\<lambda>e.
           rbind (checkpoint_entries F dir fns (tl stopped) w) (\<lambda>es. Inr (e # es)))))"

text \<open>The directory of the checkpoint is removed whatever happens.\<close>

definition checkpoint_save :: "'w vfs \<Rightarrow> tar \<Rightarrow> ('o \<Rightarrow> bytes \<Rightarrow> string + 'o) \<Rightarrow> string \<Rightarrow> bool list \<Rightarrow> 'o \<Rightarrow> 'w \<Rightarrow> (life_error + 'o) \<times> 'w" where
  "checkpoint_save F A wr dir stopped out w =
     (rbind (liftE LFs (vfList F w dir)) (\<lambda>fns.
      rbind (checkpoint_entries F dir fns stopped w) (\<lambda>es. liftE LWriter (wr out (tarWrite A es)))),
      snd (vfRemoveAll F w dir))"

text \<open>\<^verbatim>\<open>filepath.IsLocal\<close>.\<close>

definition IsLocal :: "string \<Rightarrow> bool" where
  "IsLocal path =
     (path \<noteq> [] \<and> hd path \<noteq> CHR ''/'' \<and>
      (let c = (if ''.'' \<in> set (split_slash path) \<or> ''..'' \<in> set (split_slash path) then path_Clean path else path) in
       c \<noteq> ''..'' \<and> take 3 c \<noteq> ''../''))"

fun untar :: "'w vfs \<Rightarrow> string \<Rightarrow> bool list \<Rightarrow> (string + tar_entry) list \<Rightarrow> 'w \<Rightarrow> (life_error + unit) \<times> 'w" where
  "untar F dbdir stopped items w =
     (if stopped \<noteq> [] \<and> hd stopped then (Inl (LFsm ErrSnapshotStopped), w)
      else case items of
        [] \<Rightarrow> (Inr (), w)
      | Inl e # _ \<Rightarrow> (Inl (LTar e), w)
      | Inr h # items' \<Rightarrow>
          if \<not> IsLocal (teName h) then (Inl (PathTraversal (teName h)), w)
          else
            let target = Join [dbdir, path_Clean (teName h)] in
            wbind (case teTypeflag h of
                     TypeDir \<Rightarrow> if isl (vfStat F w target) then liftW LFs (vfMkdirAll F w target) else (Inr (), w)
                   | TypeReg \<Rightarrow> liftW LFs (wbind (vfCreate F w target) (\<lambda>_ w. writeFile F target (teData h) w))
                   | TypeOther \<Rightarrow> (Inr (), w)) (\<lambda>_ w.
              untar F dbdir (tl stopped) items' w))"

definition checkpoint_recover :: "('w, 'd) engine \<Rightarrow> 'w vfs \<Rightarrow> tar \<Rightarrow> ('d, 'b) pebble \<Rightarrow> string \<Rightarrow> bool list \<Rightarrow> bytes \<Rightarrow> 'd FSM \<Rightarrow> 'w
  \<Rightarrow> (life_error + unit) \<times> 'd FSM \<times> 'w"
where
  "checkpoint_recover E F A P randomDirName stopped r p w =
     (case checkRecover p of
        Some e \<Rightarrow> (Inl e, p, w)
      | None \<Rightarrow>
          let dbdir = Join [fsmDirname p, randomDirName] in
          (case wbind (liftW LFs (vfMkdirAll F w dbdir)) (\<lambda>_ w.
                wbind (untar F dbdir stopped (tarRead A r) w) (\<lambda>_ w. liftW LEngine (enOpen E w dbdir))) of
             (Inl e, w) \<Rightarrow> (Inl e, p, w)
           | (Inr db, w) \<Rightarrow> finishRecovery E F P randomDirName db p w))"

section \<open>The two kinds of snapshot\<close>

datatype snapshot_ctx = SnapshotContext reader | CheckpointContext string

definition PrepareSnapshot :: "('w, 'd) engine \<Rightarrow> ('d, 'b) pebble \<Rightarrow> string \<Rightarrow> 'd FSM \<Rightarrow> 'w \<Rightarrow> (life_error + snapshot_ctx) \<times> 'w" where
  "PrepareSnapshot E P randomDirName p w =
     (case fsmPebble p of
        None \<Rightarrow> (Inl (LFsm (GoPanic ''nil pointer dereference'')), w)
      | Some db \<Rightarrow>
          if fsmRecoveryType p = RecoveryTypeSnapshot then (Inr (SnapshotContext (pbReader P db)), w)
          else if fsmRecoveryType p = RecoveryTypeCheckpoint then
            wbind (checkpoint_prepare E (fsmDirname p) randomDirName db w) (\<lambda>dir w. (Inr (CheckpointContext dir), w))
          else (Inl (LFsm (GoPanic ''unknown recoverer type'')), w))"

text \<open>The context of the other kind fails the type assertion.\<close>

definition SaveSnapshot :: "'w vfs \<Rightarrow> sstable \<Rightarrow> tar \<Rightarrow> ('o \<Rightarrow> bytes \<Rightarrow> string + 'o) \<Rightarrow> 'd FSM \<Rightarrow> snapshot_ctx \<Rightarrow> bool list \<Rightarrow> 'o \<Rightarrow> 'w
  \<Rightarrow> (life_error + 'o) \<times> 'w"
where
  "SaveSnapshot F S A wr p ctx stopped out w =
     (if fsmRecoveryType p = RecoveryTypeSnapshot then
        (rbind (liftE LWriter (wr out snapshot_getHeader)) (\<lambda>out.
           case ctx of
             SnapshotContext r \<Rightarrow> snapshot_save S wr r stopped out
           | CheckpointContext _ \<Rightarrow> Inl (LFsm (GoPanic ''interface conversion''))), w)
      else if fsmRecoveryType p = RecoveryTypeCheckpoint then
        (case liftE LWriter (wr out checkpoint_getHeader) of
           Inl e \<Rightarrow> (Inl e, w)
         | Inr out \<Rightarrow>
             (case ctx of
                CheckpointContext dir \<Rightarrow> checkpoint_save F A wr dir stopped out w
              | SnapshotContext _ \<Rightarrow> (Inl (LFsm (GoPanic ''interface conversion'')), w)))
      else (Inl (LFsm (GoPanic ''unknown recoverer type'')), w))"

definition RecoverFromSnapshot :: "('w, 'd) engine \<Rightarrow> 'w vfs \<Rightarrow> tar \<Rightarrow> ('d, 'b) pebble \<Rightarrow> string \<Rightarrow> bool list \<Rightarrow> bytes \<Rightarrow> 'd FSM \<Rightarrow> 'w
  \<Rightarrow> (life_error + unit) \<times> 'd FSM \<times> 'w"
where
  "RecoverFromSnapshot E F A P randomDirName stopped r p w =
     (case readFull 8 r of
        (Inl e, _) \<Rightarrow> (Inl (LIo e), p, w)
      | (Inr header, rest) \<Rightarrow>
          if snapshotType header = RecoveryTypeSnapshot then snapshot_recover E F P randomDirName stopped rest p w
          else if snapshotType header = RecoveryTypeCheckpoint then checkpoint_recover E F A P randomDirName stopped rest p w
          else (Inl (LFsm (GoPanic ''unknown recoverer type'')), p, w))"

section \<open>What the recovery relies on\<close>

text \<open>
  A database opened in a new directory is empty; ingesting the files of sorted tables that follow one
  another into an empty database gives it their pairs.
\<close>

definition engine_laws :: "('w, 'd) engine \<Rightarrow> sstable \<Rightarrow> ('d, 'b) pebble \<Rightarrow> 'w fs_view \<Rightarrow> bool" where
  "engine_laws E S P v \<longleftrightarrow>
     (\<forall>w d db w'. enOpen E w d = (Inr db, w') \<longrightarrow> fvNodes v w d = None \<longrightarrow> contents (pbReader P db) = []) \<and>
     (\<forall>w db files db' w' kvss. enIngest E w db files = (Inr db', w') \<longrightarrow> contents (pbReader P db) = [] \<longrightarrow>
        list_all2 (\<lambda>f kvs. fvNodes v w f = Some (FFile (ssFile S kvs))) files kvss \<longrightarrow> sorted_keys (concat kvss) \<longrightarrow>
        contents (pbReader P db') = concat kvss)"

lemma engine_openD: "engine_laws E S P v \<Longrightarrow> enOpen E w d = (Inr db, w') \<Longrightarrow> fvNodes v w d = None \<Longrightarrow> contents (pbReader P db) = []"
  unfolding engine_laws_def by (elim conjE) metis

lemma engine_ingestD:
  "engine_laws E S P v \<Longrightarrow> enIngest E w db files = (Inr db', w') \<Longrightarrow> contents (pbReader P db) = [] \<Longrightarrow>
   list_all2 (\<lambda>f kvs. fvNodes v w f = Some (FFile (ssFile S kvs))) files kvss \<Longrightarrow> sorted_keys (concat kvss) \<Longrightarrow>
   contents (pbReader P db') = concat kvss"
  unfolding engine_laws_def by (elim conjE) metis

section \<open>The stream of a snapshot\<close>

definition lenframe :: "bytes \<Rightarrow> bytes" where
  "lenframe b = PutUint64 (of_nat (length b)) @ b"

lemma length_lenframe [simp]: "length (lenframe b) = 8 + length b"
  by (simp add: lenframe_def)

lemma closeWriter_frame:
  assumes "closeWriter S (\<lambda>out b. Inr (out @ b)) kvs out = Inr out'"
  shows "out' = out @ lenframe (ssFile S kvs)"
  using assms by (auto simp: closeWriter_def writeLenDelimited_def lenframe_def split: option.splits if_splits)

lemma save_loop_frames:
  assumes "save_loop S (\<lambda>out b. Inr (out @ b)) es stopped held out = Inr (held', out')"
  shows "\<exists>kvss. out' = out @ concat (map (\<lambda>kvs. lenframe (ssFile S kvs)) kvss) \<and> concat kvss @ held' = held @ es"
  using assms
proof (induction es arbitrary: stopped held out)
  case Nil
  then show ?case by (intro exI [of _ "[]"]) simp
next
  case (Cons e es)
  obtain k v where e: "e = (k, v)" by (cases e)
  have go: "\<not> (stopped \<noteq> [] \<and> hd stopped)" "ssSetError S held k v = None"
    using Cons.prems unfolding e by (auto split: if_splits option.splits)
  show ?case
  proof (cases "ssEstimatedSize S (held @ [(k, v)]) \<ge> maxBatchSize")
    case True
    then obtain out1 where c: "closeWriter S (\<lambda>out b. Inr (out @ b)) (held @ [(k, v)]) out = Inr out1"
      and l: "save_loop S (\<lambda>out b. Inr (out @ b)) es (tl stopped) [] out1 = Inr (held', out')"
      using Cons.prems go unfolding e by (auto simp: result_simps)
    obtain kvss where "out' = out1 @ concat (map (\<lambda>kvs. lenframe (ssFile S kvs)) kvss)" "concat kvss @ held' = es"
      using Cons.IH [OF l] by auto
    then show ?thesis using closeWriter_frame [OF c] e by (intro exI [of _ "(held @ [(k, v)]) # kvss"]) simp
  next
    case False
    then have l: "save_loop S (\<lambda>out b. Inr (out @ b)) es (tl stopped) (held @ [(k, v)]) out = Inr (held', out')"
      using Cons.prems go unfolding e by auto
    show ?thesis using Cons.IH [OF l] e by auto
  qed
qed

lemma snapshot_save_frames:
  assumes "snapshot_save S (\<lambda>out b. Inr (out @ b)) r stopped out = Inr out'"
  shows "\<exists>kvss. out' = out @ concat (map (\<lambda>kvs. lenframe (ssFile S kvs)) kvss) \<and> concat kvss = contents r"
proof -
  obtain held o1 where l: "save_loop S (\<lambda>out b. Inr (out @ b)) (contents r) stopped [] out = Inr (held, o1)"
    and c: "closeWriter S (\<lambda>out b. Inr (out @ b)) held o1 = Inr out'"
    using assms by (auto simp: snapshot_save_def contents_def result_simps)
  obtain kvss where "o1 = out @ concat (map (\<lambda>kvs. lenframe (ssFile S kvs)) kvss)" "concat kvss @ held = contents r"
    using save_loop_frames [OF l] by auto
  then show ?thesis using closeWriter_frame [OF c] by (intro exI [of _ "kvss @ [held]"]) simp
qed

section \<open>Reading it back\<close>

declare decimal.simps [simp del]

lemma decimal_value: "foldl (\<lambda>a c. 10 * a + (of_char c - 48)) 0 (decimal n) = (n :: nat)"
  by (induction n rule: decimal.induct) (subst decimal.simps, simp)

lemma decimal_inject: "decimal n = decimal m \<longleftrightarrow> n = m"
  by (metis decimal_value)

lemma decimal_no_slash: "CHR ''/'' \<notin> set (decimal n)"
proof (induction n rule: decimal.induct)
  case (1 n)
  have d: "char_of (48 + k) \<noteq> CHR ''/''" if "k < 10" for k :: nat
  proof
    assume "char_of (48 + k) = CHR ''/''"
    then have "of_char (char_of (48 + k) :: char) = (47 :: nat)" by simp
    then show False using that by simp
  qed
  show ?case using 1 d [of "n mod 10"] d [of n] by (subst decimal.simps) auto
qed

lemma ingestName_inject: "ingestName d n = ingestName d m \<longleftrightarrow> n = m"
proof -
  have p: "plain (''ingest-'' @ decimal k @ ''.sst'')" for k using decimal_no_slash by (auto simp: plain_def)
  show ?thesis unfolding ingestName_def Join_inject [OF p p] by (simp add: decimal_inject)
qed

lemma writeFile_els:
  assumes L: "fs_laws F v" and W: "writeFile F name b w = (r, w')"
  shows "els v {name} w w'" and "r = Inr () \<Longrightarrow> fvNodes v w name = Some (FFile []) \<Longrightarrow> fvNodes v w' name = Some (FFile b)"
proof -
  obtain r1 w1 where w1: "(if b = [] then (Inr (), w) else vfWrite F w name b) = (r1, w1)" by fastforce
  obtain r2 w2 where w2: "vfSync F w1 name = (r2, w2)" by fastforce
  obtain r3 w3 where w3: "vfClose F w2 name = (r3, w3)" by fastforce
  have res: "(r, w') = (case r1 of Inl e \<Rightarrow> (Inl e, w1) | Inr _ \<Rightarrow> (case r2 of Inl e \<Rightarrow> (Inl e, w2) | Inr _ \<Rightarrow> (r3, w3)))"
    using W unfolding writeFile_def w1 by (cases r1; cases r2) (auto simp: w2 w3)
  have e1: "els v {name} w w1"
  proof (cases "b = []")
    case True
    then show ?thesis using w1 els_refl by simp
  next
    case False
    then have "vfWrite F w name b = (r1, w1)" using w1 by simp
    then show ?thesis by (rule fs_writeD(1) [OF L])
  qed
  have e2: "els v {name} w w2" using els_trans [OF e1 fs_syncD(1) [OF L w2]] by simp
  have e3: "els v {name} w w3" using els_trans [OF e2 fs_closeD(1) [OF L w3]] by simp
  show "els v {name} w w'" using e1 e2 e3 res by (cases r1; cases r2) simp_all
  assume ok: "r = Inr ()" and nil: "fvNodes v w name = Some (FFile [])"
  have "r1 = Inr () \<and> w' = w3"
  proof (cases r1)
    case (Inl e)
    then show ?thesis using ok res by simp
  next
    case (Inr u)
    then show ?thesis using ok res by (cases r2) simp_all
  qed
  then have rs: "r1 = Inr ()" "w' = w3" by simp_all
  have "fvNodes v w1 name = Some (FFile b)"
  proof (cases "b = []")
    case True
    then show ?thesis using w1 nil by simp
  next
    case False
    then have "vfWrite F w name b = (r1, w1)" using w1 by simp
    from fs_writeD(2) [OF L this rs(1) nil] show ?thesis by simp
  qed
  then have "fvNodes v w2 name = Some (FFile b)" using fs_syncD(2) [OF L w2] by simp
  then show "fvNodes v w' name = Some (FFile b)" using els_node [OF fs_closeD(1) [OF L w3], of name] rs(2) by simp
qed

lemma Uint64_PutUint64_append: "Uint64 (take 8 (PutUint64 x @ r)) = Some x"
  by (simp add: Uint64_PutUint64)

lemma limited_frame:
  assumes "length b < 2 ^ 63"
  shows "limited (of_nat (length b)) (b @ r) = b"
proof -
  have "sint (of_nat (length b) :: u64) = int (length b)" 
    using assms signed_take_bit_int_eq_self [of 63 "int (length b)"] by (simp add: sint_uint unsigned_of_nat take_bit_nat_eq_self)
  then show ?thesis by (simp add: limited_def)
qed

declare recover_read.simps [simp del]

lemma recover_read_step:
  assumes L: "fs_laws F v" and b: "length b < 2 ^ 63"
    and R: "recover_read F d c files stopped (lenframe b @ r) w = (Inr files', w')"
  shows "\<exists>w1 stopped'. recover_read F d (Suc c) (files @ [ingestName d c]) stopped' r w1 = (Inr files', w') \<and>
    els v {ingestName d c} w w1 \<and> fvNodes v w1 (ingestName d c) = Some (FFile b)"
proof -
  let ?n = "ingestName d c"
  have r: "the (Uint64 (take 8 (lenframe b @ r))) = of_nat (length b)" "drop 8 (lenframe b @ r) = b @ r"
    by (simp_all add: lenframe_def)
  have lim: "limited (of_nat (length b)) (b @ r) = b" by (rule limited_frame [OF b])
  obtain r1 w1 where c: "vfCreate F w ?n = (r1, w1)" by fastforce
  obtain r2 w2 where wf: "writeFile F ?n b w1 = (r2, w2)" by fastforce
  have "r1 = Inr () \<and> r2 = Inr () \<and> recover_read F d (Suc c) (files @ [?n]) (tl stopped) r w2 = (Inr files', w')"
    using R unfolding recover_read.simps [of F d c files stopped "lenframe b @ r"] Let_def r lim
    by (auto simp: c wf split: if_splits sum.splits)
  then have o: "r1 = Inr ()" "r2 = Inr ()" "recover_read F d (Suc c) (files @ [?n]) (tl stopped) r w2 = (Inr files', w')" by simp_all
  have "els v {?n} w w2" using els_trans [OF fs_createD(1) [OF L c] writeFile_els(1) [OF L wf]] by simp
  moreover have "fvNodes v w2 ?n = Some (FFile b)" by (rule writeFile_els(2) [OF L wf o(2) fs_createD(2) [OF L c o(1)]])
  ultimately show ?thesis using o(3) by (intro exI conjI)
qed

lemma recover_read_frames:
  assumes L: "fs_laws F v" and "\<forall>b\<in>set bs. length b < 2 ^ 63"
    and "recover_read F d c files stopped (concat (map lenframe bs)) w = (Inr files', w')"
  shows "files' = files @ map (ingestName d) [c..<c + length bs] \<and> els v (ingestName d ` {c..<c + length bs}) w w' \<and>
    (\<forall>i<length bs. fvNodes v w' (ingestName d (c + i)) = Some (FFile (bs ! i)))"
  using assms(2,3)
proof (induction bs arbitrary: c files stopped w)
  case Nil
  then show ?case using els_refl [of v "{}" w] by (simp add: recover_read.simps [of F d c files stopped "[]"] split: if_splits)
next
  case (Cons b bs)
  obtain w1 st where s: "recover_read F d (Suc c) (files @ [ingestName d c]) st (concat (map lenframe bs)) w1 = (Inr files', w')"
    and e: "els v {ingestName d c} w w1" and n: "fvNodes v w1 (ingestName d c) = Some (FFile b)"
    using recover_read_step [OF L, of b d c files stopped "concat (map lenframe bs)" w files' w'] Cons.prems by auto
  have IH: "files' = (files @ [ingestName d c]) @ map (ingestName d) [Suc c..<Suc c + length bs]"
    "els v (ingestName d ` {Suc c..<Suc c + length bs}) w1 w'"
    "\<forall>i<length bs. fvNodes v w' (ingestName d (Suc c + i)) = Some (FFile (bs ! i))"
    using Cons.IH [OF _ s] Cons.prems(1) by auto
  have st: "{c..<c + length (b # bs)} = insert c {Suc c..<Suc c + length bs}" by auto
  have "els v (ingestName d ` {c..<c + length (b # bs)}) w w'" unfolding st using els_trans [OF e IH(2)] by simp
  moreover have "files' = files @ map (ingestName d) [c..<c + length (b # bs)]" using IH(1) by (simp add: upt_rec)
  moreover have "fvNodes v w' (ingestName d (c + i)) = Some (FFile ((b # bs) ! i))" if "i < length (b # bs)" for i
  proof (cases i)
    case 0
    have "ingestName d c \<notin> ingestName d ` {Suc c..<Suc c + length bs}" by (auto simp: ingestName_inject)
    from els_node [OF IH(2) this] n show ?thesis by (simp add: 0)
  next
    case (Suc j)
    then show ?thesis using IH(3) that by simp
  qed
  ultimately show ?case by blast
qed

text \<open>What a snapshot stream makes of a replica: nothing, or the state of its source.\<close>

lemma finishRecovery_result:
  assumes "finishRecovery E F P dir db p w = (r, p', w')"
  shows "r \<noteq> Inr () \<and> p' = p \<or> (\<exists>idx. readLocalIndex (pbReader P db) sysLocalIndex = Inr idx \<and> p' = p\<lparr>fsmPebble := Some db, fsmApplied := idx\<rparr>)"
  using assms by (auto simp: finishRecovery_def Let_def split: sum.splits prod.splits)

lemma snapshot_recover_result:
  assumes L: "fs_laws F v" and EL: "engine_laws E S P v" and sorted: "sorted_keys (concat kvss)"
    and short: "length (concat (map (\<lambda>kvs. lenframe (ssFile S kvs)) kvss)) < 2 ^ 63"
    and fresh: "fvNodes v w (Join [fsmDirname p, dir]) = None"
    and R: "snapshot_recover E F P dir stopped (concat (map (\<lambda>kvs. lenframe (ssFile S kvs)) kvss)) p w = (r, p', w')"
  shows "r \<noteq> Inr () \<and> p' = p \<or> (\<exists>db idx. contents (pbReader P db) = concat kvss \<and> readLocalIndex (pbReader P db) sysLocalIndex = Inr idx
    \<and> p' = p\<lparr>fsmPebble := Some db, fsmApplied := idx\<rparr>)"
proof -
  define bs where "bs = map (ssFile S) kvss"
  have bs: "concat (map (\<lambda>kvs. lenframe (ssFile S kvs)) kvss) = concat (map lenframe bs)" by (simp add: bs_def comp_def)
  have len: "\<forall>b\<in>set bs. length b < 2 ^ 63"
  proof
    fix b assume "b \<in> set bs"
    then have "length b \<le> length (concat (map lenframe bs))" by (induction bs) auto
    then show "length b < 2 ^ 63" using short unfolding bs by simp
  qed
  obtain ro w1 where op: "enOpen E w (Join [fsmDirname p, dir]) = (ro, w1)" by fastforce
  obtain rr w2 where rd: "recover_read F (fsmDirname p) 0 [] stopped (concat (map lenframe bs)) w1 = (rr, w2)" by fastforce
  show ?thesis
  proof (cases "checkRecover p = None \<and> (\<exists>db. ro = Inr db) \<and> (\<exists>files. rr = Inr files)")
    case False
    then show ?thesis using R unfolding snapshot_recover_def bs op
      by (cases "checkRecover p"; cases ro; cases rr) (auto simp: rd)
  next
    case True
    then obtain db files where t: "checkRecover p = None" "ro = Inr db" "rr = Inr files" by blast
    obtain ri w3 where ing: "enIngest E w2 db files = (ri, w3)" by fastforce
    have f: "files = map (ingestName (fsmDirname p)) [0..<length bs]"
      "\<forall>i<length bs. fvNodes v w2 (ingestName (fsmDirname p) i) = Some (FFile (bs ! i))"
      using recover_read_frames [OF L len rd [unfolded t(3)]] by simp_all
    have la: "list_all2 (\<lambda>f kvs. fvNodes v w2 f = Some (FFile (ssFile S kvs))) files kvss"
      using f by (simp add: list_all2_conv_all_nth bs_def)
    have empty: "contents (pbReader P db) = []" by (rule engine_openD [OF EL op [unfolded t(2)] fresh])
    show ?thesis
    proof (cases ri)
      case (Inl e)
      then show ?thesis using R unfolding snapshot_recover_def bs op by (auto simp: t rd ing)
    next
      case (Inr db')
      have c: "contents (pbReader P db') = concat kvss" by (rule engine_ingestD [OF EL ing [unfolded Inr] empty la sorted])
      have "finishRecovery E F P dir db' p w3 = (r, p', w')"
        using R unfolding snapshot_recover_def bs op by (simp add: t rd ing Inr)
      from finishRecovery_result [OF this] c show ?thesis by blast
    qed
  qed
qed

end
