(* ===== verification/Lifecycle_Properties.thy ===== *)
theory Lifecycle_Properties
  imports FSM_Lifecycle
begin

text \<open>
  What the life cycle of a state machine guarantees: a snapshot moves its state to another replica or
  leaves that one alone; and what opening it does when the file that names the database is damaged.
\<close>

section \<open>A directory with a damaged file\<close>












section \<open>An engine in memory\<close>














section \<open>Steps that succeed in memory\<close>






section \<open>Properties\<close>














end
