(* ===== verification/Cluster_View.thy ===== *)
theory Cluster_View
  imports Regatta_Prelude "HOL-Library.Sublist"
begin

text \<open>
  The gossip layer (\<^verbatim>\<open>storage/cluster/view.go\<close> and \<^verbatim>\<open>storage/cluster/cluster.go\<close>): the view every
  node keeps of the shards, the state nodes exchange and their messages. Shards are
  identified by numbers, a Go map is a list of pairs in the order of its keys, and a JSON text is the
  value it denotes. The order \<^verbatim>\<open>rand.Shuffle\<close> leaves is a parameter.
\<close>

section \<open>The view of the shards\<close>

record ShardView =
  svShardID :: nat
  svNodes :: "(nat \<times> string) list"
  svConfigChangeIndex :: u64
  svLeaderID :: nat
  svTerm :: u64

record ShardInfo = ShardView +
  siReplicaID :: nat

definition emptyShardView :: ShardView where
  "emptyShardView = \<lparr>svShardID = 0, svNodes = [], svConfigChangeIndex = 0, svLeaderID = 0, svTerm = 0\<rparr>"

definition noLeader :: nat where
  "noLeader = 0"

type_synonym shardView = "(nat \<times> ShardView) list"

definition newView :: shardView where
  "newView = []"

definition mergeShardInfo :: "ShardView \<Rightarrow> ShardView \<Rightarrow> ShardView" where
  "mergeShardInfo current upd =
     (let current = (if svConfigChangeIndex current < svConfigChangeIndex upd
            then current\<lparr>svNodes := svNodes upd, svConfigChangeIndex := svConfigChangeIndex upd\<rparr> else current) in
      if svLeaderID upd \<noteq> noLeader \<and> (svLeaderID current = noLeader \<or> svTerm current < svTerm upd)
      then current\<lparr>svLeaderID := svLeaderID upd, svTerm := svTerm upd\<rparr> else current)"

definition toShardViewList :: "ShardInfo list \<Rightarrow> ShardView list" where
  "toShardViewList input = map (\<lambda>ci. \<lparr>svShardID = svShardID ci, svNodes = svNodes ci,
     svConfigChangeIndex = svConfigChangeIndex ci, svLeaderID = svLeaderID ci, svTerm = svTerm ci\<rparr>) input"

fun view_update :: "shardView \<Rightarrow> ShardView list \<Rightarrow> shardView" where
  "view_update v [] = v"
| "view_update v (u # us) =
     (let current = (case map_of v (svShardID u) of Some c \<Rightarrow> c | None \<Rightarrow> emptyShardView\<lparr>svShardID := svShardID u\<rparr>) in
      view_update (alist_put (svShardID u) (mergeShardInfo current u) v) us)"

text \<open>\<open>shuffle\<close> is the permutation \<^verbatim>\<open>rand.Shuffle\<close> applies.\<close>

definition view_copy :: "(ShardView list \<Rightarrow> ShardView list) \<Rightarrow> shardView \<Rightarrow> ShardView list" where
  "view_copy shuffle v = shuffle (map snd v)"

definition shardInfo :: "shardView \<Rightarrow> nat \<Rightarrow> ShardView" where
  "shardInfo v i = (case map_of v i of Some s \<Rightarrow> s | None \<Rightarrow> emptyShardView)"

section \<open>The exchange of state\<close>

definition Notify :: "ShardInfo list \<Rightarrow> shardView \<Rightarrow> shardView" where
  "Notify infos v = view_update v (toShardViewList infos)"

definition LocalState :: "(ShardView list \<Rightarrow> ShardView list) \<Rightarrow> ShardInfo list \<Rightarrow> shardView \<Rightarrow> ShardView list \<times> shardView" where
  "LocalState shuffle infos v = (let v = view_update v (toShardViewList infos) in (view_copy shuffle v, v))"

definition MergeRemoteState :: "ShardView list \<Rightarrow> shardView \<Rightarrow> shardView" where
  "MergeRemoteState remote v = view_update v remote"

section \<open>Messages\<close>

record Message =
  msKey :: string
  msPayload :: bytes

definition Message_Name :: "Message \<Rightarrow> string" where
  "Message_Name m = msKey m"

text \<open>A queued broadcast has a name if it is a named one.\<close>

definition Message_Invalidates :: "Message \<Rightarrow> string option \<Rightarrow> bool" where
  "Message_Invalidates m b = (case b of Some name \<Rightarrow> Message_Name m = name | None \<Rightarrow> False)"

section \<open>What a view knows\<close>

text \<open>
  A shard view speaks for a set of reports if it is at least as new as each of them and what it says
  comes from one of them; it sums them up if it says nothing else.
\<close>

definition speaks :: "ShardView set \<Rightarrow> ShardView \<Rightarrow> bool" where
  "speaks H u \<longleftrightarrow>
     (\<forall>r\<in>H. svConfigChangeIndex r \<le> svConfigChangeIndex u) \<and>
     (0 < svConfigChangeIndex u \<longrightarrow> (\<exists>r\<in>H. svConfigChangeIndex r = svConfigChangeIndex u \<and> svNodes r = svNodes u)) \<and>
     (\<forall>r\<in>H. svLeaderID r \<noteq> noLeader \<longrightarrow> svLeaderID u \<noteq> noLeader \<and> svTerm r \<le> svTerm u) \<and>
     (svLeaderID u \<noteq> noLeader \<longrightarrow> (\<exists>r\<in>H. svLeaderID r = svLeaderID u \<and> svTerm r = svTerm u))"

definition sums_up :: "ShardView set \<Rightarrow> ShardView \<Rightarrow> bool" where
  "sums_up H c \<longleftrightarrow> speaks H c \<and> (svConfigChangeIndex c = 0 \<longrightarrow> svNodes c = []) \<and> (svLeaderID c = noLeader \<longrightarrow> svTerm c = 0)"

lemma speaks_self: "speaks {u} u"
  by (simp add: speaks_def)

lemma sums_up_empty: "sums_up {} (emptyShardView\<lparr>svShardID := i\<rparr>)"
  by (simp add: sums_up_def speaks_def emptyShardView_def noLeader_def)

lemma mergeShardInfo_id [simp]: "svShardID (mergeShardInfo c u) = svShardID c"
  by (simp add: mergeShardInfo_def Let_def)

lemma mergeShardInfo_config:
  "svConfigChangeIndex (mergeShardInfo c u) = max (svConfigChangeIndex c) (svConfigChangeIndex u)"
  "svNodes (mergeShardInfo c u) = (if svConfigChangeIndex c < svConfigChangeIndex u then svNodes u else svNodes c)"
  by (auto simp: mergeShardInfo_def Let_def)

lemma mergeShardInfo_leader:
  "svLeaderID (mergeShardInfo c u) = (if svLeaderID u \<noteq> noLeader \<and> (svLeaderID c = noLeader \<or> svTerm c < svTerm u) then svLeaderID u else svLeaderID c)"
  "svTerm (mergeShardInfo c u) = (if svLeaderID u \<noteq> noLeader \<and> (svLeaderID c = noLeader \<or> svTerm c < svTerm u) then svTerm u else svTerm c)"
  by (auto simp: mergeShardInfo_def Let_def)

lemma speaksD:
  assumes "speaks H u"
  shows "r \<in> H \<Longrightarrow> svConfigChangeIndex r \<le> svConfigChangeIndex u"
    and "0 < svConfigChangeIndex u \<Longrightarrow> \<exists>r\<in>H. svConfigChangeIndex r = svConfigChangeIndex u \<and> svNodes r = svNodes u"
    and "r \<in> H \<Longrightarrow> svLeaderID r \<noteq> noLeader \<Longrightarrow> svLeaderID u \<noteq> noLeader \<and> svTerm r \<le> svTerm u"
    and "svLeaderID u \<noteq> noLeader \<Longrightarrow> \<exists>r\<in>H. svLeaderID r = svLeaderID u \<and> svTerm r = svTerm u"
  using assms by (simp_all add: speaks_def)

lemma merge_speaks:
  assumes c: "speaks H c" and u: "speaks H' u"
  shows "speaks (H \<union> H') (mergeShardInfo c u)"
  unfolding speaks_def
proof (intro conjI ballI impI)
  let ?m = "mergeShardInfo c u"
  fix r assume "r \<in> H \<union> H'"
  then consider "r \<in> H" | "r \<in> H'" by blast
  note r = this
  from r show "svConfigChangeIndex r \<le> svConfigChangeIndex ?m"
    by cases (simp_all add: mergeShardInfo_config le_max_iff_disj speaksD(1) [OF c] speaksD(1) [OF u])
  assume l: "svLeaderID r \<noteq> noLeader"
  have "svLeaderID ?m \<noteq> noLeader \<and> svTerm r \<le> svTerm ?m"
    using r
  proof cases
    case 1
    with speaksD(3) [OF c _ l] have "svLeaderID c \<noteq> noLeader" "svTerm r \<le> svTerm c" by simp_all
    then show ?thesis by (cases "svTerm c < svTerm u") (simp_all add: mergeShardInfo_leader order.strict_implies_order order_trans)
  next
    case 2
    with speaksD(3) [OF u _ l] have "svLeaderID u \<noteq> noLeader" "svTerm r \<le> svTerm u" by simp_all
    then show ?thesis by (cases "svTerm c < svTerm u"; cases "svLeaderID c = noLeader") (auto simp: mergeShardInfo_leader)
  qed
  then show "svLeaderID ?m \<noteq> noLeader" and "svTerm r \<le> svTerm ?m" by simp_all
next
  let ?m = "mergeShardInfo c u"
  assume p: "0 < svConfigChangeIndex ?m"
  show "\<exists>r\<in>H \<union> H'. svConfigChangeIndex r = svConfigChangeIndex ?m \<and> svNodes r = svNodes ?m"
  proof (cases "svConfigChangeIndex c < svConfigChangeIndex u")
    case True
    then have m: "svConfigChangeIndex ?m = svConfigChangeIndex u" "svNodes ?m = svNodes u" by (simp_all add: mergeShardInfo_config)
    then show ?thesis using speaksD(2) [OF u] p unfolding m by blast
  next
    case False
    then have m: "svConfigChangeIndex ?m = svConfigChangeIndex c" "svNodes ?m = svNodes c" by (simp_all add: mergeShardInfo_config)
    then show ?thesis using speaksD(2) [OF c] p unfolding m by blast
  qed
next
  let ?m = "mergeShardInfo c u"
  assume p: "svLeaderID ?m \<noteq> noLeader"
  show "\<exists>r\<in>H \<union> H'. svLeaderID r = svLeaderID ?m \<and> svTerm r = svTerm ?m"
  proof (cases "svLeaderID u \<noteq> noLeader \<and> (svLeaderID c = noLeader \<or> svTerm c < svTerm u)")
    case True
    then have m: "svLeaderID ?m = svLeaderID u" "svTerm ?m = svTerm u" by (simp_all add: mergeShardInfo_leader)
    then show ?thesis using speaksD(4) [OF u] p unfolding m by blast
  next
    case False
    then have m: "svLeaderID ?m = svLeaderID c" "svTerm ?m = svTerm c" unfolding mergeShardInfo_leader by meson+
    then show ?thesis using speaksD(4) [OF c] p unfolding m by blast
  qed
qed

lemma merge_sums_up:
  assumes c: "sums_up H c" and u: "speaks H' u"
  shows "sums_up (H \<union> H') (mergeShardInfo c u)"
proof -
  have "svNodes (mergeShardInfo c u) = []" if "svConfigChangeIndex (mergeShardInfo c u) = 0"
    using that c by (auto simp: mergeShardInfo_config sums_up_def max_def split: if_splits)
  moreover have "svTerm (mergeShardInfo c u) = 0" if "svLeaderID (mergeShardInfo c u) = noLeader"
    using that c by (auto simp: mergeShardInfo_leader sums_up_def split: if_splits)
  ultimately show ?thesis using merge_speaks [OF _ u, of H c] c by (simp add: sums_up_def)
qed

section \<open>Views that sum up what was heard\<close>

definition of_shard :: "ShardView set \<Rightarrow> nat \<Rightarrow> ShardView set" where
  "of_shard H i = {r \<in> H. svShardID r = i}"

lemma in_of_shard: "r \<in> of_shard H i \<longleftrightarrow> r \<in> H \<and> svShardID r = i"
  by (simp add: of_shard_def)

definition knows :: "ShardView set \<Rightarrow> shardView \<Rightarrow> bool" where
  "knows H v \<longleftrightarrow> sorted_keys v \<and> (\<forall>i. case map_of v i of
     None \<Rightarrow> of_shard H i = {}
   | Some c \<Rightarrow> svShardID c = i \<and> of_shard H i \<noteq> {} \<and> sums_up (of_shard H i) c)"

lemma knows_newView: "knows {} newView"
  by (simp add: knows_def newView_def of_shard_def)

lemma knowsD:
  assumes "knows H v"
  shows "case map_of v i of None \<Rightarrow> of_shard H i = {} | Some c \<Rightarrow> svShardID c = i \<and> of_shard H i \<noteq> {} \<and> sums_up (of_shard H i) c"
  using assms unfolding knows_def by (elim conjE) (rule spec)

lemma knowsD_None: assumes "knows H v" "map_of v i = None" shows "of_shard H i = {}"
  using knowsD [OF assms(1), of i] unfolding assms(2) option.simps .

lemma knowsD_Some: assumes "knows H v" "map_of v i = Some c" shows "svShardID c = i \<and> of_shard H i \<noteq> {} \<and> sums_up (of_shard H i) c"
  using knowsD [OF assms(1), of i] unfolding assms(2) option.simps .

text \<open>One update that speaks for reports of its shard.\<close>

lemma knows_put:
  assumes k: "knows H v" and s: "speaks H' u" and H': "H' \<noteq> {}" "\<forall>r\<in>H'. svShardID r = svShardID u"
  shows "knows (H \<union> H') (view_update v [u])"
proof -
  let ?i = "svShardID u"
  let ?c = "case map_of v ?i of Some c \<Rightarrow> c | None \<Rightarrow> emptyShardView\<lparr>svShardID := ?i\<rparr>"
  have "sums_up (of_shard H ?i) ?c \<and> svShardID ?c = ?i"
  proof (cases "map_of v ?i")
    case None
    then show ?thesis using knowsD_None [OF k None] sums_up_empty [of ?i] by simp
  next
    case (Some c)
    from knowsD_Some [OF k Some] show ?thesis unfolding Some option.simps by blast
  qed
  then have c: "sums_up (of_shard H ?i \<union> H') (mergeShardInfo ?c u)" "svShardID (mergeShardInfo ?c u) = ?i"
    using merge_sums_up [OF _ s] by simp_all
  have oi: "of_shard (H \<union> H') ?i = of_shard H ?i \<union> H'" using H'(2) by (auto simp: in_of_shard)
  have oj: "of_shard (H \<union> H') j = of_shard H j" if "j \<noteq> ?i" for j using H'(2) that by (auto simp: in_of_shard)
  have st: "sorted_keys (alist_put ?i (mergeShardInfo ?c u) v)"
    using k unfolding knows_def by (intro sorted_keys_alist_put) simp
  have "case map_of (alist_put ?i (mergeShardInfo ?c u) v) j of
      None \<Rightarrow> of_shard (H \<union> H') j = {}
    | Some c \<Rightarrow> svShardID c = j \<and> of_shard (H \<union> H') j \<noteq> {} \<and> sums_up (of_shard (H \<union> H') j) c" for j
  proof (cases "j = ?i")
    case True
    then show ?thesis using c oi H'(1) by (simp add: map_of_alist_put)
  next
    case False
    then show ?thesis using knowsD [OF k, of j] unfolding oj [OF False] by (simp add: map_of_alist_put)
  qed
  then show ?thesis using st by (simp add: knows_def Let_def)
qed

lemma view_update_append: "view_update v (us @ us') = view_update (view_update v us) us'"
  by (induction us arbitrary: v) (simp_all add: Let_def)

lemma knows_update:
  assumes "knows H v" and "\<forall>u\<in>set us. speaks (G u) u \<and> G u \<noteq> {} \<and> (\<forall>r\<in>G u. svShardID r = svShardID u)"
  shows "knows (H \<union> (\<Union>u\<in>set us. G u)) (view_update v us)"
  using assms
proof (induction us arbitrary: H v)
  case Nil
  then show ?case by simp
next
  case (Cons u us)
  have "knows (H \<union> G u) (view_update v [u])" 
    by (rule knows_put [OF Cons.prems(1)]) (use Cons.prems(2) in simp_all)
  then have "knows (H \<union> G u \<union> (\<Union>u\<in>set us. G u)) (view_update (view_update v [u]) us)"
    by (rule Cons.IH) (use Cons.prems(2) in simp)
  then show ?case using view_update_append [of v "[u]" us] by (simp add: Un_assoc)
qed

text \<open>Reports of the local host, and the state of another node.\<close>

lemma knows_Notify: "knows H v \<Longrightarrow> knows (H \<union> set (toShardViewList infos)) (Notify infos v)"
  using knows_update [of H v "toShardViewList infos" "\<lambda>u. {u}"] by (simp add: Notify_def speaks_self)

lemma knows_merge:
  assumes k: "knows H v" and k': "knows H' v'" and sh: "set (shuffle (map snd v')) = set (map snd v')"
  shows "knows (H \<union> H') (MergeRemoteState (view_copy shuffle v') v)"
proof -
  have some: "map_of v' (svShardID u) = Some u" if u: "u \<in> set (map snd v')" for u
  proof -
    obtain i where "(i, u) \<in> set v'" using u by auto
    then have "map_of v' i = Some u" using k' sorted_keys_distinct [of v'] unfolding knows_def by (intro map_of_is_SomeI) auto
    then show ?thesis using knowsD_Some [OF k'] by blast
  qed
  have "H' = (\<Union>u\<in>set (map snd v'). of_shard H' (svShardID u))"
  proof
    show "H' \<subseteq> (\<Union>u\<in>set (map snd v'). of_shard H' (svShardID u))"
    proof
      fix r assume r: "r \<in> H'"
      then obtain c where c: "map_of v' (svShardID r) = Some c" using knowsD_None [OF k', of "svShardID r"] in_of_shard [of r H' "svShardID r"] by (cases "map_of v' (svShardID r)") simp_all
      then have "c \<in> set (map snd v')" by (force dest: map_of_SomeD)
      moreover have "r \<in> of_shard H' (svShardID c)" using r knowsD_Some [OF k' c] by (simp add: in_of_shard)
      ultimately show "r \<in> (\<Union>u\<in>set (map snd v'). of_shard H' (svShardID u))" by (rule UN_I)
    qed
  qed (auto simp: in_of_shard)
  moreover have "knows (H \<union> (\<Union>u\<in>set (shuffle (map snd v')). of_shard H' (svShardID u))) (view_update v (shuffle (map snd v')))"
  proof (rule knows_update [OF k], rule ballI)
    fix u assume "u \<in> set (shuffle (map snd v'))"
    then have "map_of v' (svShardID u) = Some u" using sh by (intro some) simp
    from knowsD_Some [OF k' this]
    show "speaks (of_shard H' (svShardID u)) u \<and> of_shard H' (svShardID u) \<noteq> {} \<and> (\<forall>r\<in>of_shard H' (svShardID u). svShardID r = svShardID u)"
      by (simp add: sums_up_def in_of_shard)
  qed
  ultimately show ?thesis using sh by (simp add: MergeRemoteState_def view_copy_def)
qed

text \<open>
  Reports that agree as Raft makes them agree: one membership per configuration change, one leader
  per term. Then the reports heard determine the view.
\<close>

definition consistent :: "ShardView set \<Rightarrow> bool" where
  "consistent H \<longleftrightarrow> (\<forall>a\<in>H. \<forall>b\<in>H. svShardID a = svShardID b \<longrightarrow>
     (svConfigChangeIndex a = svConfigChangeIndex b \<longrightarrow> svNodes a = svNodes b) \<and>
     (svTerm a = svTerm b \<and> svLeaderID a \<noteq> noLeader \<and> svLeaderID b \<noteq> noLeader \<longrightarrow> svLeaderID a = svLeaderID b))"

lemma consistentD:
  assumes "consistent H" "a \<in> H" "b \<in> H" "svShardID a = svShardID b"
  shows "svConfigChangeIndex a = svConfigChangeIndex b \<Longrightarrow> svNodes a = svNodes b"
    and "svTerm a = svTerm b \<Longrightarrow> svLeaderID a \<noteq> noLeader \<Longrightarrow> svLeaderID b \<noteq> noLeader \<Longrightarrow> svLeaderID a = svLeaderID b"
  using assms(1) [unfolded consistent_def, rule_format, OF assms(2,3,4)] by blast+

lemma sums_up_speaks: "sums_up H c \<Longrightarrow> speaks H c"
  by (simp add: sums_up_def)

lemma sums_up_config:
  assumes "consistent H" "\<forall>r\<in>H. svShardID r = i" and a: "sums_up H a" and b: "sums_up H b"
  shows "svConfigChangeIndex a = svConfigChangeIndex b \<and> svNodes a = svNodes b"
proof -
  have le: "svConfigChangeIndex x \<le> svConfigChangeIndex y" if x: "sums_up H x" and y: "sums_up H y" for x y
  proof (cases "0 < svConfigChangeIndex x")
    case True
    then obtain r where r: "r \<in> H" "svConfigChangeIndex r = svConfigChangeIndex x"
      using speaksD(2) [OF sums_up_speaks [OF x]] by blast
    show ?thesis using speaksD(1) [OF sums_up_speaks [OF y] r(1)] unfolding r(2) .
  next
    case False
    then have "svConfigChangeIndex x = 0" by (simp add: word_gt_0)
    then show ?thesis by simp
  qed
  have cci: "svConfigChangeIndex a = svConfigChangeIndex b" by (rule antisym [OF le [OF a b] le [OF b a]])
  show ?thesis
  proof (cases "0 < svConfigChangeIndex a")
    case True
    obtain r where r: "r \<in> H" "svConfigChangeIndex r = svConfigChangeIndex a" "svNodes r = svNodes a"
      using speaksD(2) [OF sums_up_speaks [OF a] True] by blast
    obtain s where s: "s \<in> H" "svConfigChangeIndex s = svConfigChangeIndex b" "svNodes s = svNodes b"
      using speaksD(2) [OF sums_up_speaks [OF b] True [unfolded cci]] by blast
    have "svShardID r = svShardID s" using assms(2) r(1) s(1) by simp
    then have "svNodes r = svNodes s" by (rule consistentD(1) [OF assms(1) r(1) s(1)]) (simp add: r(2) s(2) cci)
    then show ?thesis using cci r(3) s(3) by simp
  next
    case False
    then have "svConfigChangeIndex a = 0" by (simp add: word_gt_0)
    then show ?thesis using a b cci by (simp add: sums_up_def)
  qed
qed

lemma sums_up_leader:
  assumes "consistent H" "\<forall>r\<in>H. svShardID r = i" and a: "sums_up H a" and b: "sums_up H b"
  shows "svLeaderID a = svLeaderID b \<and> svTerm a = svTerm b"
proof -
  have le: "svLeaderID y \<noteq> noLeader \<and> svTerm x \<le> svTerm y"
    if x: "sums_up H x" and y: "sums_up H y" and l: "svLeaderID x \<noteq> noLeader" for x y
  proof -
    obtain r where "r \<in> H" "svLeaderID r = svLeaderID x" "svTerm r = svTerm x" using speaksD(4) [OF sums_up_speaks [OF x] l] by blast
    then show ?thesis using speaksD(3) [OF sums_up_speaks [OF y], of r] l by simp
  qed
  show ?thesis
  proof (cases "svLeaderID a = noLeader")
    case True
    then have "svLeaderID b = noLeader" using le [OF b a] by blast
    then show ?thesis using True a b by (simp add: sums_up_def)
  next
    case False
    have lb: "svLeaderID b \<noteq> noLeader" using le [OF a b False] by simp
    have t: "svTerm a = svTerm b" using le [OF a b False] le [OF b a lb] by (intro antisym) simp_all
    obtain r where r: "r \<in> H" "svLeaderID r = svLeaderID a" "svTerm r = svTerm a" using speaksD(4) [OF sums_up_speaks [OF a] False] by blast
    obtain s where s: "s \<in> H" "svLeaderID s = svLeaderID b" "svTerm s = svTerm b" using speaksD(4) [OF sums_up_speaks [OF b] lb] by blast
    have "svShardID r = svShardID s" using assms(2) r(1) s(1) by simp
    then have "svLeaderID r = svLeaderID s" by (rule consistentD(2) [OF assms(1) r(1) s(1)]) (simp_all add: r(2,3) s(2,3) False lb t)
    then show ?thesis using r(2) s(2) t by simp
  qed
qed

lemma sums_up_unique:
  assumes "consistent H" "\<forall>r\<in>H. svShardID r = i" and "sums_up H a" "svShardID a = i" and "sums_up H b" "svShardID b = i"
  shows "a = (b :: ShardView)"
  using sums_up_config [OF assms(1,2,3,5)] sums_up_leader [OF assms(1,2,3,5)] assms(4,6) by (cases a; cases b) simp

lemma knows_unique:
  assumes "consistent H" and "knows H v" and "knows H v'"
  shows "v = v'"
proof (rule sorted_keys_map_of_inject)
  show "sorted_keys v" "sorted_keys v'" using assms by (simp_all add: knows_def)
  show "map_of v = map_of v'"
  proof
    fix i
    have c: "consistent (of_shard H i)" "\<forall>r\<in>of_shard H i. svShardID r = i" using assms(1) by (simp_all add: consistent_def in_of_shard)
    show "map_of v i = map_of v' i"
    proof (cases "map_of v i")
      case None
      then show ?thesis using knowsD_None [OF assms(2) None] knowsD_Some [OF assms(3)] by (cases "map_of v' i") auto
    next
      case (Some a)
      then obtain b where b: "map_of v' i = Some b"
        using knowsD_Some [OF assms(2) Some] knowsD_None [OF assms(3), of i] by (cases "map_of v' i") auto
      have "a = b" using sums_up_unique [OF c] knowsD_Some [OF assms(2) Some] knowsD_Some [OF assms(3) b] by simp
      with Some b show ?thesis by simp
    qed
  qed
qed

section \<open>A cluster that gossips\<close>

text \<open>
  Nodes that report their own shards and merge the state of other nodes, in any order; \<open>goHeard\<close> is a
  ghost that records the reports that have reached a node.
\<close>

record gossip =
  goView :: "nat \<Rightarrow> shardView"
  goHeard :: "nat \<Rightarrow> ShardView set"

inductive gossip_step :: "gossip \<Rightarrow> gossip \<Rightarrow> bool" where
  report: "gossip_step g \<lparr>goView = (goView g)(n := Notify infos (goView g n)),
     goHeard = (goHeard g)(n := goHeard g n \<union> set (toShardViewList infos))\<rparr>"
| exchange: "LocalState shuffle infos (goView g n) = (state, v) \<Longrightarrow> set (shuffle (map snd v)) = set (map snd v) \<Longrightarrow> m \<noteq> n \<Longrightarrow>
   gossip_step g \<lparr>goView = (goView g)(n := v, m := MergeRemoteState state (goView g m)),
     goHeard = (goHeard g)(n := goHeard g n \<union> set (toShardViewList infos),
       m := goHeard g m \<union> goHeard g n \<union> set (toShardViewList infos))\<rparr>"

inductive gossip_reach :: "gossip \<Rightarrow> bool" where
  start: "gossip_reach \<lparr>goView = \<lambda>_. newView, goHeard = \<lambda>_. {}\<rparr>"
| step: "gossip_reach g \<Longrightarrow> gossip_step g g' \<Longrightarrow> gossip_reach g'"

lemma gossip_knows: "gossip_reach g \<Longrightarrow> knows (goHeard g n) (goView g n)"
proof (induction arbitrary: n rule: gossip_reach.induct)
  case start
  show ?case by (simp add: knows_newView)
next
  case (step g g')
  from step.hyps(2) step.IH show ?case
  proof (cases rule: gossip_step.cases)
    case (report k infos)
    then show ?thesis using step.IH knows_Notify [of "goHeard g k" "goView g k" infos] by simp
  next
    case (exchange shuffle infos k state v m)
    have v: "v = Notify infos (goView g k)" "state = view_copy shuffle v"
      using exchange(2) by (auto simp: LocalState_def Notify_def Let_def)
    have k: "knows (goHeard g k \<union> set (toShardViewList infos)) v" using knows_Notify [OF step.IH [of k], of infos] v(1) by simp
    then have "knows (goHeard g m \<union> (goHeard g k \<union> set (toShardViewList infos))) (MergeRemoteState state (goView g m))"
      unfolding v(2) 
      using knows_merge [OF step.IH [of m] k, where shuffle = shuffle] exchange(3) by simp
    then show ?thesis using exchange(1,4) k step.IH by (simp add: Un_assoc)
  qed
qed

section \<open>Properties\<close>

text \<open>
  C24: the views of the cluster converge. However the nodes report and exchange their states, with
  whatever repetitions and orders, two nodes that the same reports have reached hold the same view of
  every shard, provided the reports are those of a Raft group: one membership per configuration
  change and one leader per term.
\<close>

theorem gossip_converges:
  assumes "gossip_reach g" and "goHeard g n = goHeard g m" and "consistent (goHeard g n)"
  shows "shardInfo (goView g n) i = shardInfo (goView g m) i"
  using knows_unique [OF assms(3) gossip_knows [OF assms(1), of n]] gossip_knows [OF assms(1), of m] assms(2) by simp

definition exInfo :: "nat \<Rightarrow> u64 \<Rightarrow> ShardInfo" where
  "exInfo leader term = \<lparr>svShardID = 10001, svNodes = [(1, ''a'')], svConfigChangeIndex = 1, svLeaderID = leader, svTerm = term, siReplicaID = 1\<rparr>"

definition exGossip :: gossip where
  "exGossip = \<lparr>goView = (\<lambda>_. newView), goHeard = (\<lambda>_. {})\<rparr>"

definition exExchange :: "nat \<Rightarrow> nat \<Rightarrow> ShardInfo list \<Rightarrow> gossip \<Rightarrow> gossip" where
  "exExchange n m infos g =
     (let (state, v) = LocalState id infos (goView g n) in
      \<lparr>goView = (goView g)(n := v, m := MergeRemoteState state (goView g m)),
       goHeard = (goHeard g)(n := goHeard g n \<union> set (toShardViewList infos),
         m := goHeard g m \<union> goHeard g n \<union> set (toShardViewList infos))\<rparr>)"

lemma exExchange_reach: "gossip_reach g \<Longrightarrow> n \<noteq> m \<Longrightarrow> gossip_reach (exExchange n m infos g)"
  unfolding exExchange_def
  by (cases "LocalState id infos (goView g n)") (simp add: gossip_reach.step [OF _ gossip_step.exchange [where shuffle = id]])

theorem gossip_converges_witness:
  "let g = exExchange 2 1 [exInfo 3 7] (exExchange 1 2 [exInfo 2 5] exGossip) in
   shardInfo (goView g 1) 10001 = shardInfo (goView g 2) 10001 \<and> svLeaderID (shardInfo (goView g 1) 10001) = 3"
proof -
  let ?g = "exExchange 2 1 [exInfo 3 7] (exExchange 1 2 [exInfo 2 5] exGossip)"
  have r: "gossip_reach ?g" by (intro exExchange_reach) (simp_all add: exGossip_def gossip_reach.start)
  have h: "goHeard ?g 1 = goHeard ?g 2" "consistent (goHeard ?g 1)"
    by (auto simp: exExchange_def LocalState_def Let_def exGossip_def toShardViewList_def exInfo_def consistent_def)
  have "svLeaderID (shardInfo (goView ?g 1) 10001) = 3"
    by (simp add: exExchange_def LocalState_def Let_def exGossip_def toShardViewList_def exInfo_def newView_def view_copy_def
        MergeRemoteState_def mergeShardInfo_def emptyShardView_def noLeader_def shardInfo_def)
  with gossip_converges [OF r h, of 10001] show ?thesis by (simp add: Let_def)
qed

end
