(* ===== verification/KV_Server.thy ===== *)
theory KV_Server
  imports Table_Properties Manager_Refinement Cluster_View FSM_Directory
begin

text \<open>
  The storage engine and the API over it (\<^verbatim>\<open>storage/engine.go\<close>, \<^verbatim>\<open>regattaserver/kv.go\<close>, the reset and
  metadata services): a request is checked, its table found by the table manager, carried out by the
  active table, and answered with a header that the cluster view fills in. Contexts and their deadlines
  are left out.
\<close>

section \<open>The engine\<close>

record Engine =
  egNodeID :: nat
  egManager :: Manager
  egView :: shardView

datatype engine_error = EMgr mgr_error | ETable table_error

definition getHeader :: "Engine \<Rightarrow> ResponseHeader option \<Rightarrow> nat \<Rightarrow> ResponseHeader" where
  "getHeader e header shardID =
     (let header = (case header of None \<Rightarrow> emptyHeader | Some h \<Rightarrow> h);
          header = header\<lparr>hdReplicaId := egNodeID e, hdShardId := shardID\<rparr>;
          info = shardInfo (egView e) shardID in
      header\<lparr>hdRaftTerm := svTerm info, hdRaftLeaderId := of_nat (svLeaderID info)\<rparr>)"

definition findTable :: "'w store \<Rightarrow> Engine \<Rightarrow> 'w \<Rightarrow> bytes \<Rightarrow> engine_error + Table" where
  "findTable S e w name = (case GetTable S (egManager e) w (bytesString name) of Inl err \<Rightarrow> Inl (EMgr err) | Inr t \<Rightarrow> Inr t)"

definition Engine_Range :: "'w store \<Rightarrow> ('n, 'o) raftHandler \<Rightarrow> Engine \<Rightarrow> 'w \<Rightarrow> 'n \<Rightarrow> RangeRequest \<Rightarrow> 'o \<Rightarrow> engine_error + RangeResponse" where
  "Engine_Range S H e w n req out =
     rbind (findTable S e w (rgTable req)) (\<lambda>t.
       case ActiveTable_Range H t n req out of
         Inl err \<Rightarrow> Inl (ETable err)
       | Inr rng \<Rightarrow> Inr (rng\<lparr>rgHeader := Some (getHeader e None (tbClusterID t))\<rparr>))"

definition Engine_Put :: "'w store \<Rightarrow> ('n, 'o) raftHandler \<Rightarrow> Engine \<Rightarrow> 'w \<Rightarrow> 'n \<Rightarrow> PutRequest \<Rightarrow> (engine_error + PutResponse) \<times> 'n" where
  "Engine_Put S H e w n req =
     (case findTable S e w (puTable req) of
        Inl err \<Rightarrow> (Inl err, n)
      | Inr t \<Rightarrow>
          (case ActiveTable_Put H t n req of
             (Inl err, n) \<Rightarrow> (Inl (ETable err), n)
           | (Inr resp, n) \<Rightarrow> (Inr (resp\<lparr>puHeader := Some (getHeader e (puHeader resp) (tbClusterID t))\<rparr>), n)))"

definition Engine_Delete :: "'w store \<Rightarrow> ('n, 'o) raftHandler \<Rightarrow> Engine \<Rightarrow> 'w \<Rightarrow> 'n \<Rightarrow> DeleteRangeRequest \<Rightarrow> (engine_error + DeleteRangeResponse) \<times> 'n" where
  "Engine_Delete S H e w n req =
     (case findTable S e w (deTable req) of
        Inl err \<Rightarrow> (Inl err, n)
      | Inr t \<Rightarrow>
          (case ActiveTable_Delete H t n req of
             (Inl err, n) \<Rightarrow> (Inl (ETable err), n)
           | (Inr del, n) \<Rightarrow> (Inr (del\<lparr>deHeader := Some (getHeader e (deHeader del) (tbClusterID t))\<rparr>), n)))"

definition Engine_Txn :: "'w store \<Rightarrow> ('n, 'o) raftHandler \<Rightarrow> Engine \<Rightarrow> 'w \<Rightarrow> 'n \<Rightarrow> TxnRequest \<Rightarrow> 'o \<Rightarrow> (engine_error + TxnAnswer) \<times> 'n" where
  "Engine_Txn S H e w n req out =
     (case findTable S e w (trTable req) of
        Inl err \<Rightarrow> (Inl err, n)
      | Inr t \<Rightarrow>
          (case ActiveTable_Txn H t n req out of
             (Inl err, n) \<Rightarrow> (Inl (ETable err), n)
           | (Inr tx, n) \<Rightarrow> (Inr (tx\<lparr>taHeader := Some (getHeader e (taHeader tx) (tbClusterID t))\<rparr>), n)))"

text \<open>Events of the Raft library reach the log reader if they are about this node's replica.\<close>

record NodeInfo =
  niShardID :: nat
  niReplicaID :: nat

definition Engine_NodeDeleted :: "Engine \<Rightarrow> NodeInfo \<Rightarrow> Cached \<Rightarrow> Cached" where
  "Engine_NodeDeleted e info l = (if niReplicaID info = egNodeID e then NodeDeleted l (niShardID info) else l)"

definition Engine_NodeReady :: "Engine \<Rightarrow> NodeInfo \<Rightarrow> Cached \<Rightarrow> Cached" where
  "Engine_NodeReady e info l = (if niReplicaID info = egNodeID e then NodeReady l (niShardID info) else l)"

definition Engine_LogCompacted :: "Engine \<Rightarrow> NodeInfo \<Rightarrow> Cached \<Rightarrow> Cached" where
  "Engine_LogCompacted e info l = (if niReplicaID info = egNodeID e then LogCompacted l (niShardID info) else l)"

section \<open>The key-value service\<close>

datatype status =
    InvalidArgument string
  | Unimplemented string
  | NotFound string
  | Unavailable mgr_error
  | Internal engine_error

definition liftStatus :: "engine_error \<Rightarrow> status" where
  "liftStatus err = (if err = EMgr ErrTableNotFound then NotFound ''table not found'' else Internal err)"

definition positive :: "u64 \<Rightarrow> bool" where
  "positive x = (0 < sint x)"

definition checkRange :: "RangeRequest \<Rightarrow> status option" where
  "checkRange req =
     (if sint (rgLimit req) < 0 then Some (InvalidArgument ''limit must be a positive number'')
      else if rgKeysOnly req \<and> rgCountOnly req then Some (InvalidArgument ''keys_only and count_only must not be set at the same time'')
      else if positive (rgMinModRevision req) then Some (Unimplemented ''min_mod_revision not implemented'')
      else if positive (rgMaxModRevision req) then Some (Unimplemented ''max_mod_revision not implemented'')
      else if positive (rgMinCreateRevision req) then Some (Unimplemented ''min_create_revision not implemented'')
      else if positive (rgMaxCreateRevision req) then Some (Unimplemented ''max_create_revision not implemented'')
      else if length (rgTable req) = 0 then Some (InvalidArgument ''table must be set'')
      else if length (rgKey req) = 0 then Some (InvalidArgument ''key must be set'')
      else None)"

definition KVServer_Range :: "'w store \<Rightarrow> ('n, 'o) raftHandler \<Rightarrow> Engine \<Rightarrow> 'w \<Rightarrow> 'n \<Rightarrow> RangeRequest \<Rightarrow> 'o \<Rightarrow> status + RangeResponse" where
  "KVServer_Range S H e w n req out =
     (case checkRange req of
        Some st \<Rightarrow> Inl st
      | None \<Rightarrow> (case Engine_Range S H e w n req out of Inl err \<Rightarrow> Inl (liftStatus err) | Inr val \<Rightarrow> Inr val))"

definition KVServer_Put :: "'w store \<Rightarrow> ('n, 'o) raftHandler \<Rightarrow> Engine \<Rightarrow> 'w \<Rightarrow> 'n \<Rightarrow> PutRequest \<Rightarrow> (status + PutResponse) \<times> 'n" where
  "KVServer_Put S H e w n req =
     (if length (puTable req) = 0 then (Inl (InvalidArgument ''table must be set''), n)
      else if length (puKey req) = 0 then (Inl (InvalidArgument ''key must be set''), n)
      else case Engine_Put S H e w n req of (Inl err, n) \<Rightarrow> (Inl (liftStatus err), n) | (Inr r, n) \<Rightarrow> (Inr r, n))"

definition KVServer_DeleteRange :: "'w store \<Rightarrow> ('n, 'o) raftHandler \<Rightarrow> Engine \<Rightarrow> 'w \<Rightarrow> 'n \<Rightarrow> DeleteRangeRequest \<Rightarrow> (status + DeleteRangeResponse) \<times> 'n" where
  "KVServer_DeleteRange S H e w n req =
     (if length (deTable req) = 0 then (Inl (InvalidArgument ''table must be set''), n)
      else if length (deKey req) = 0 then (Inl (InvalidArgument ''key must be set''), n)
      else case Engine_Delete S H e w n req of (Inl err, n) \<Rightarrow> (Inl (liftStatus err), n) | (Inr r, n) \<Rightarrow> (Inr r, n))"

definition KVServer_Txn :: "'w store \<Rightarrow> ('n, 'o) raftHandler \<Rightarrow> Engine \<Rightarrow> 'w \<Rightarrow> 'n \<Rightarrow> TxnRequest \<Rightarrow> 'o \<Rightarrow> (status + TxnAnswer) \<times> 'n" where
  "KVServer_Txn S H e w n req out =
     (if length (trTable req) = 0 then (Inl (InvalidArgument ''table must be set''), n)
      else case Engine_Txn S H e w n req out of (Inl err, n) \<Rightarrow> (Inl (liftStatus err), n) | (Inr r, n) \<Rightarrow> (Inr r, n))"

text \<open>The service of a follower cluster.\<close>

definition ReadonlyKVServer_Put :: "'n \<Rightarrow> PutRequest \<Rightarrow> (status + PutResponse) \<times> 'n" where
  "ReadonlyKVServer_Put n req = (Inl (Unimplemented ''method Put not implemented for follower''), n)"

definition ReadonlyKVServer_DeleteRange :: "'n \<Rightarrow> DeleteRangeRequest \<Rightarrow> (status + DeleteRangeResponse) \<times> 'n" where
  "ReadonlyKVServer_DeleteRange n req = (Inl (Unimplemented ''method DeleteRange not implemented for follower''), n)"

definition server_isReadonlyTransaction :: "TxnRequest \<Rightarrow> bool" where
  "server_isReadonlyTransaction req = (list_all isRange (trSuccess req) \<and> list_all isRange (trFailure req))"

definition ReadonlyKVServer_Txn :: "'w store \<Rightarrow> ('n, 'o) raftHandler \<Rightarrow> Engine \<Rightarrow> 'w \<Rightarrow> 'n \<Rightarrow> TxnRequest \<Rightarrow> 'o \<Rightarrow> (status + TxnAnswer) \<times> 'n" where
  "ReadonlyKVServer_Txn S H e w n req out =
     (if server_isReadonlyTransaction req then KVServer_Txn S H e w n req out
      else (Inl (Unimplemented ''writable Txn not implemented for follower''), n))"

section \<open>Reset and metadata\<close>

record ResetRequest =
  rzTable :: bytes
  rzResetAll :: bool

datatype reset_error = RStatus status | REngine engine_error

definition resetTable :: "'w store \<Rightarrow> ('n, 'o) raftHandler \<Rightarrow> Engine \<Rightarrow> 'w \<Rightarrow> string \<Rightarrow> 'n \<Rightarrow> (reset_error + unit) \<times> 'n" where
  "resetTable S H e w name n =
     (case GetTable S (egManager e) w name of
        Inl err \<Rightarrow> (Inl (REngine (EMgr err)), n)
      | Inr t \<Rightarrow> (case ActiveTable_Reset H t n of (Inl err, n) \<Rightarrow> (Inl (REngine (ETable err)), n) | (Inr _, n) \<Rightarrow> (Inr (), n)))"

fun resetTables :: "'w store \<Rightarrow> ('n, 'o) raftHandler \<Rightarrow> Engine \<Rightarrow> 'w \<Rightarrow> Table list \<Rightarrow> 'n \<Rightarrow> (reset_error + unit) \<times> 'n" where
  "resetTables S H e w [] n = (Inr (), n)"
| "resetTables S H e w (t # ts) n = wbind (resetTable S H e w (tbName t) n) (\<lambda>_ n. resetTables S H e w ts n)"

definition ResetServer_Reset :: "'w store \<Rightarrow> ('n, 'o) raftHandler \<Rightarrow> Engine \<Rightarrow> 'w \<Rightarrow> ResetRequest \<Rightarrow> 'n \<Rightarrow> (reset_error + unit) \<times> 'n" where
  "ResetServer_Reset S H e w req n =
     (if rzResetAll req then
        (case GetTables S w of
           Inl err \<Rightarrow> (Inl (REngine (EMgr err)), n)
         | Inr tables \<Rightarrow> resetTables S H e w tables n)
      else if length (rzTable req) = 0 then (Inl (RStatus (InvalidArgument ''table must be set'')), n)
      else resetTable S H e w (bytesString (rzTable req)) n)"

datatype Table_Type = REPLICATED | LOCAL

definition MetadataServer_Get :: "'w store \<Rightarrow> 'w \<Rightarrow> status + (string \<times> Table_Type) list" where
  "MetadataServer_Get S w =
     (case GetTables S w of
        Inl err \<Rightarrow> Inl (Unavailable err)
      | Inr tabs \<Rightarrow> Inr (map (\<lambda>tab. (tbName tab, REPLICATED)) tabs))"

definition DefaultMaxGRPCSize :: u64 where
  "DefaultMaxGRPCSize = 4 * 1024 * 1024"

text \<open>The message size of a new log server.\<close>

definition NewLogServer :: "u64 \<Rightarrow> u64" where
  "NewLogServer maxMessageSize = (if maxMessageSize = 0 then DefaultMaxGRPCSize else maxMessageSize)"

section \<open>Followers do not write\<close>

lemma readonly_Txn_keeps: "isReadonlyTransaction req \<Longrightarrow> snd (ActiveTable_Txn H t n req out) = n"
  by (simp add: ActiveTable_Txn_def)

lemma ReadonlyKVServer_keeps:
  "snd (ReadonlyKVServer_Put n preq) = n" "snd (ReadonlyKVServer_DeleteRange n dreq) = n" "snd (ReadonlyKVServer_Txn S H e w n treq out) = n"
proof -
  have "snd (KVServer_Txn S H e w n treq out) = n" if "isReadonlyTransaction treq"
  proof (cases "findTable S e w (trTable treq)")
    case (Inr t)
    obtain r n' where tx: "ActiveTable_Txn H t n treq out = (r, n')" by fastforce
    with readonly_Txn_keeps [OF that, of H t n out] have "n' = n" by simp
    with tx Inr show ?thesis by (cases r) (simp_all add: KVServer_Txn_def Engine_Txn_def)
  qed (simp add: KVServer_Txn_def Engine_Txn_def)
  then show "snd (ReadonlyKVServer_Txn S H e w n treq out) = n"
    by (auto simp: ReadonlyKVServer_Txn_def server_isReadonlyTransaction_def isReadonlyTransaction_def)
qed (simp_all add: ReadonlyKVServer_Put_def ReadonlyKVServer_DeleteRange_def)

section \<open>Properties\<close>

lemma KVServer_Put_Inr:
  assumes "KVServer_Put S H e w n req = (Inr resp, n')" and "findTable S e w (puTable req) = Inr t"
  shows "\<exists>r. ActiveTable_Put H t n req = (Inr r, n') \<and> resp = r\<lparr>puHeader := Some (getHeader e (puHeader r) (tbClusterID t))\<rparr> \<and>
    puTable req \<noteq> [] \<and> puKey req \<noteq> []"
proof -
  obtain r n1 where p: "ActiveTable_Put H t n req = (r, n1)" by fastforce
  have "puTable req \<noteq> [] \<and> puKey req \<noteq> []" using assms(1) by (auto simp: KVServer_Put_def split: if_splits)
  then show ?thesis using assms by (cases r) (auto simp: KVServer_Put_def Engine_Put_def p)
qed

lemma KVServer_Range_eq:
  assumes "findTable S e w (rgTable req) = Inr t" and "checkRange req = None"
  shows "KVServer_Range S H e w n req out = (case ActiveTable_Range H t n req out of
    Inl err \<Rightarrow> Inl (Internal (ETable err)) | Inr rng \<Rightarrow> Inr (rng\<lparr>rgHeader := Some (getHeader e None (tbClusterID t))\<rparr>))"
  using assms by (simp add: KVServer_Range_def Engine_Range_def liftStatus_def split: sum.splits)

text \<open>
  C4: a client of the API reads its own writes. If the service answers a put, its header names the
  table's shard and this node, and its revision is the index of the table that holds the value; a
  linearizable read of the key through the service then returns exactly the value put, with the header
  of the same shard, or fails in the Raft library.
\<close>

theorem KV_put_then_range:
  assumes "raft_table H table ok" and "findTable S e w (puTable req) = Inr t" and "ok (tbClusterID t) n" and "length (puTable req) < 2 ^ 62"
    and "\<forall>v. map_of (tsKvs (table (tbClusterID t) n)) (puKey req) = Some v \<longrightarrow> length v < 2 ^ 61"
    and "KVServer_Put S H e w n req = (Inr resp, n')"
  shows "puHeader resp = Some (getHeader e (revisionHeader (tsIndex (table (tbClusterID t) n'))) (tbClusterID t)) \<and>
    KVServer_Range S H e w n' (getRequest (puTable req) (puKey req)) out
      \<in> {Inr \<lparr>rgHeader = Some (getHeader e None (tbClusterID t)), rgKvs = [emptyKeyValue\<lparr>kvKey := puKey req, kvValue := puValue req\<rparr>],
            rgMore = False, rgCount = 1, rgrUnknown = []\<rparr>} \<union> range (\<lambda>x. Inl (Internal (ETable (TRaft x))))"
proof -
  obtain r where p: "ActiveTable_Put H t n req = (Inr r, n')" "resp = r\<lparr>puHeader := Some (getHeader e (puHeader r) (tbClusterID t))\<rparr>"
    and ne: "puTable req \<noteq> []" "puKey req \<noteq> []" using KVServer_Put_Inr [OF assms(6,2)] by blast
  note R = raft_table.Put_Range [OF assms(1,3,4,5) p(1), of out]
  have "checkRange (getRequest (puTable req) (puKey req)) = None"
    using ne by (simp add: checkRange_def getRequest_def positive_def)
  moreover have "findTable S e w (rgTable (getRequest (puTable req) (puKey req))) = Inr t" using assms(2) by (simp add: getRequest_def)
  ultimately show ?thesis using R p(2) by (auto simp: KVServer_Range_eq)
qed

definition exEngine :: Engine where
  "exEngine = \<lparr>egNodeID = 1, egManager = \<lparr>mgNodeID = 1, mgGracePeriod = 0, mgCache = [(''t'', emptyTable\<lparr>tbName := ''t''\<rparr>)]\<rparr>,
     egView = view_update newView [\<lparr>svShardID = 0, svNodes = [], svConfigChangeIndex = 1, svLeaderID = 3, svTerm = 9\<rparr>]\<rparr>"

definition exMeta :: "(nat \<times> json MapStore) store" where
  "exMeta = raft_store (local_raft (\<lambda>_. []))"

definition exRequest :: PutRequest where
  "exRequest = \<lparr>puTable = [116], puKey = [97], puValue = [1], puPrevKv = False, puqUnknown = []\<rparr>"

lemma exEngine_table: "findTable S exEngine w [116] = Inr (emptyTable\<lparr>tbName := ''t''\<rparr>)"
proof -
  have "bytesString [116] = ''t''" using bytesString_nameBytes [of "''t''"] by (simp add: nameBytes_def of_char_def)
  then show ?thesis by (simp add: findTable_def GetTable_def exEngine_def)
qed

lemma exRequest_update: "\<exists>out p'. Update mem_pebble (exFSM []) [exEntry 1 (putCommand exRequest)] = Inr (out, p')"
proof -
  have "Command_UnmarshalVT (Command_MarshalVT (putCommand exRequest)) emptyCommand = Inr (putCommand exRequest)"
    by (rule putCommand_decode) (simp_all add: exRequest_def V1KeyLen_def MaxValueLen_def)
  then obtain out st where "spec_update [exEntry 1 (putCommand exRequest)] (db_state mem_pebble (exFSM [])) = Inr (out, st)"
    by (simp add: spec_update_def exEntry_def spec_result_def) (simp add: putCommand_eq spec_command.simps exRequest_def spec_put_def putRequest_def)
  from Update_total [OF mem_pebble_laws mem_pebble_total exFSM_ok this] show ?thesis by blast
qed

lemma exRequest_propose:
  "\<exists>v n'. rhSyncPropose exHandler exNode 0 (Command_MarshalVT (putCommand exRequest)) = (Inr v, n')"
proof -
  obtain out p' where "Update mem_pebble (exFSM []) [exEntry 1 (putCommand exRequest)] = Inr (out, p')" using exRequest_update by blast
  then have "rhSyncPropose exHandler exNode 0 (Command_MarshalVT (putCommand exRequest)) = (Inr (entValue (hd out), entData (hd out)), exNode(0 := p'))"
    unfolding exHandler_def fsm_handler_simps by (simp add: exNode_def exEntry_def) (simp add: exFSM_def exNode_def)
  then show ?thesis by blast
qed

lemma exRequest_succeeds: "\<exists>resp n'. KVServer_Put S exHandler exEngine w exNode exRequest = (Inr resp, n')"
proof -
  let ?t = "emptyTable\<lparr>tbName := ''t''\<rparr>"
  obtain v n1 where p: "rhSyncPropose exHandler exNode 0 (Command_MarshalVT (putCommand exRequest)) = (Inr v, n1)"
    using exRequest_propose by blast
  obtain res n' where r: "ActiveTable_Put exHandler ?t exNode exRequest = (res, n')" by fastforce
  have c: "length (puKey exRequest) = 1" "length (puValue exRequest) = 1" "puTable exRequest = [116]" by (simp_all add: exRequest_def)
  have "res \<noteq> Inl (TRaft e)" for e
    using r p by (auto simp: ActiveTable_Put_def proposeTable_def emptyTable_def split: if_splits sum.splits prod.splits list.splits option.splits)
  moreover have "res \<noteq> Inl e" if "e \<in> {ErrEmptyKey, ErrKeyLengthExceeded, ErrValueLengthExceeded}" for e
    using r that c by (auto simp: ActiveTable_Put_def proposeTable_def V1KeyLen_def MaxValueLen_def
        split: sum.splits prod.splits list.splits option.splits)
  ultimately obtain resp where "res = Inr resp"
    using raft_table.Put_result [OF exHandler_table exNode_ok _ _ r] c by (auto simp: exNode_kvs)
  moreover have "puKey exRequest \<noteq> []" by (simp add: exRequest_def)
  ultimately show ?thesis using r by (simp add: KVServer_Put_def Engine_Put_def exEngine_table c)
qed

theorem KV_put_then_range_witness:
  "\<exists>resp n'. KVServer_Put exMeta exHandler exEngine (0, []) exNode exRequest = (Inr resp, n') \<and>
    map_option hdRaftTerm (puHeader resp) = Some 9 \<and>
    KVServer_Range exMeta exHandler exEngine (0, []) n' (getRequest [116] [97]) ()
      \<in> {Inr \<lparr>rgHeader = Some (getHeader exEngine None 0), rgKvs = [emptyKeyValue\<lparr>kvKey := [97], kvValue := [1]\<rparr>], rgMore = False, rgCount = 1, rgrUnknown = []\<rparr>}
        \<union> range (\<lambda>x. Inl (Internal (ETable (TRaft x))))"
proof -
  obtain resp n' where r: "KVServer_Put exMeta exHandler exEngine (0, []) exNode exRequest = (Inr resp, n')" using exRequest_succeeds [of exMeta "(0, [])"] by (elim exE)
  have i: "tbClusterID (emptyTable\<lparr>tbName := ''t''\<rparr>) = 0" by (simp add: emptyTable_def)
  have q: "puTable exRequest = [116]" "puKey exRequest = [97]" "puValue exRequest = [1]" by (simp_all add: exRequest_def)
  have "findTable exMeta exEngine (0, []) (puTable exRequest) = Inr (emptyTable\<lparr>tbName := ''t''\<rparr>)" by (simp add: q exEngine_table)
  from KV_put_then_range [OF exHandler_table this exNode_ok _ _ r, of "()"] r show ?thesis
    by (simp add: q i exNode_kvs) (simp add: getHeader_def exEngine_def Let_def newView_def shardInfo_def mergeShardInfo_def emptyShardView_def noLeader_def)
qed

end
