(* ===== verification/Replication_Manager.thy ===== *)
theory Replication_Manager
  imports Table_Restore Table_Properties Manager_Properties Replication_Properties
begin

text \<open>
  The replication manager of a follower cluster and the routines of its workers
  (\<^verbatim>\<open>replication/replication.go\<close>, \<^verbatim>\<open>replication/worker.go\<close>): one worker per table, each with a
  routine that keeps the lease of its table and one that follows the leader's log while the lease is
  held. Timers and log output are left out; what one tick of a routine does is a function.
\<close>

section \<open>Calls that may not return\<close>

datatype 'a run = Returned 'a | Blocked | Panicked

fun and_then :: "'a run \<Rightarrow> ('a \<Rightarrow> 'b run) \<Rightarrow> 'b run" where
  "and_then (Returned x) f = f x"
| "and_then Blocked f = Blocked"
| "and_then Panicked f = Panicked"

text \<open>
  \<^verbatim>\<open>sync.RWMutex\<close>, which is not reentrant: a lock waits for the readers and the writer to leave. The
  manager's routine is the only one that holds the lock for long, so that a call that waits for the
  routine's own lock waits forever.
\<close>

record RWMutex =
  rwReaders :: nat
  rwWriter :: bool

definition RLock :: "RWMutex \<Rightarrow> RWMutex run" where
  "RLock x = (if rwWriter x then Blocked else Returned (x\<lparr>rwReaders := rwReaders x + 1\<rparr>))"

definition RUnlock :: "RWMutex \<Rightarrow> RWMutex" where
  "RUnlock x = x\<lparr>rwReaders := rwReaders x - 1\<rparr>"

definition Lock :: "RWMutex \<Rightarrow> RWMutex run" where
  "Lock x = (if rwWriter x \<or> rwReaders x > 0 then Blocked else Returned (x\<lparr>rwWriter := True\<rparr>))"

definition Unlock :: "RWMutex \<Rightarrow> RWMutex" where
  "Unlock x = x\<lparr>rwWriter := False\<rparr>"

definition unlocked :: RWMutex where
  "unlocked = \<lparr>rwReaders = 0, rwWriter = False\<rparr>"

section \<open>Workers\<close>

record worker =
  wkTable :: string
  wkClosed :: bool
  wkLeased :: bool
  wkLeasedMetric :: nat
  wkFollowerIndex :: u64

definition worker_create :: "string \<Rightarrow> worker" where
  "worker_create tbl = \<lparr>wkTable = tbl, wkClosed = False, wkLeased = False, wkLeasedMetric = 0, wkFollowerIndex = 0\<rparr>"

text \<open>The start of the routines, after a sleep of up to the poll interval: \<^verbatim>\<open>rand.Intn\<close> panics for zero.\<close>

definition worker_Start :: "nat \<Rightarrow> worker \<Rightarrow> worker run" where
  "worker_Start pollMillis wk = (if pollMillis = 0 then Panicked else Returned wk)"

text \<open>One tick of the routine that keeps the lease.\<close>

definition lease_tick :: "'w store \<Rightarrow> nat \<Rightarrow> nat \<Rightarrow> nat \<Rightarrow> nat \<Rightarrow> worker \<Rightarrow> 'w \<Rightarrow> worker \<times> 'w" where
  "lease_tick S nodeID now now' leaseInterval wk w =
     (case LeaseTable S nodeID now now' (wkTable wk) (leaseInterval * 4) w of
        (Inr _, w) \<Rightarrow> (wk\<lparr>wkLeased := True, wkLeasedMetric := 1\<rparr>, w)
      | (Inl _, w) \<Rightarrow> (wk\<lparr>wkLeased := False, wkLeasedMetric := 0\<rparr>, w))"

datatype state_error = StMgr mgr_error | StIndex table_error

text \<open>The session of a table is named by its shard.\<close>

definition tableState :: "'w store \<Rightarrow> ('n, unit) raftHandler \<Rightarrow> Manager \<Rightarrow> string \<Rightarrow> 'w \<Rightarrow> 'n \<Rightarrow> state_error + (u64 \<times> nat)" where
  "tableState S H m name w n =
     (case GetTable S m w name of
        Inl e \<Rightarrow> Inl (StMgr e)
      | Inr t \<Rightarrow>
          (case ActiveTable_LeaderIndex H t n False () of
             Inl e \<Rightarrow> Inl (StIndex e)
           | Inr idx \<Rightarrow> Inr (idx, tbClusterID t)))"

definition session_propose :: "('n, 'o) raftHandler \<Rightarrow> nat \<Rightarrow> 'n \<Rightarrow> bytes \<Rightarrow> string option \<times> 'n" where
  "session_propose H sess n b = (case rhSyncPropose H n sess b of (Inl e, n) \<Rightarrow> (Some e, n) | (Inr _, n) \<Rightarrow> (None, n))"

text \<open>What the worker calls: the leader's services and the restore of a table by the manager.\<close>

record ('w, 'n) leader =
  ldLog :: "ReplicateRequest \<Rightarrow> string + (string + ReplicateResponse) list"
  ldSnapshot :: "bytes \<Rightarrow> string + (io_error + SnapshotChunk) list"
  ldRestore :: "bytes \<Rightarrow> (io_error + bytes) list \<Rightarrow> 'w \<times> 'n \<Rightarrow> ((mgr_error + unit) \<times> ('w \<times> 'n)) option"

datatype pause = PollInterval | Millis50

text \<open>
  One tick of the routine that follows the leader. \<open>free\<close> are the recoveries that may still start;
  \<open>None\<close> when a recovery never ends.
\<close>

definition replication_tick :: "'w store \<Rightarrow> ('n, unit) raftHandler \<Rightarrow> disk \<Rightarrow> ('w, 'n) leader \<Rightarrow> Manager \<Rightarrow> nat \<Rightarrow> worker \<Rightarrow> 'w \<Rightarrow> 'n
  \<Rightarrow> (worker \<times> pause \<times> 'w \<times> 'n) option"
where
  "replication_tick S H D Ld m free wk w n =
     (case tableState S H m (wkTable wk) w n of
        Inl e \<Rightarrow> Some (wk, PollInterval, w, n)
      | Inr (idx, sess) \<Rightarrow>
          let wk = wk\<lparr>wkFollowerIndex := idx\<rparr> in
          if \<not> wkLeased wk then Some (wk, PollInterval, w, n)
          else case worker_do (ldLog Ld) (session_propose H sess) (nameBytes (wkTable wk)) idx n of
            (Inl e, n) \<Rightarrow> Some (wk, PollInterval, w, n)
          | (Inr result, n) \<Rightarrow>
              (case result of
                 resultLeaderBehind \<Rightarrow> Some (wk, PollInterval, w, n)
               | resultLeaderAhead \<Rightarrow>
                   if 0 < free then
                     map_option (\<lambda>(r, w, n). (wk, PollInterval, w, n))
                       (worker_recover D (ldSnapshot Ld) (ldRestore Ld) (nameBytes (wkTable wk)) (w, n))
                   else (case ReturnTable S (mgNodeID m) (wkTable wk) w of (_, w) \<Rightarrow> Some (wk, PollInterval, w, n))
               | resultFollowerLagging \<Rightarrow> Some (wk, Millis50, w, n)
               | _ \<Rightarrow> Some (wk, PollInterval, w, n)))"

text \<open>The routines end when the channel is closed; closing it twice panics.\<close>

definition worker_Close :: "'w store \<Rightarrow> nat \<Rightarrow> worker \<Rightarrow> 'w \<Rightarrow> (worker \<times> 'w) run" where
  "worker_Close S nodeID wk w =
     (if wkClosed wk then Panicked
      else case ReturnTable S nodeID (wkTable wk) w of (_, w) \<Rightarrow> Returned (wk\<lparr>wkClosed := True\<rparr>, w))"

section \<open>The manager of the workers\<close>

text \<open>The registry is a map by table name, as a sorted list; \<open>rmCount\<close> is the counter of the wait group.\<close>

record RepManager =
  rmRegistry :: "(string \<times> worker) list"
  rmMtx :: RWMutex
  rmCount :: nat

definition NewManager :: RepManager where
  "NewManager = \<lparr>rmRegistry = [], rmMtx = unlocked, rmCount = 0\<rparr>"

definition hasWorker :: "string \<Rightarrow> RepManager \<Rightarrow> (bool \<times> RepManager) run" where
  "hasWorker name rm =
     and_then (RLock (rmMtx rm)) (\<lambda>mtx. Returned (map_of (rmRegistry rm) name \<noteq> None, rm\<lparr>rmMtx := RUnlock mtx\<rparr>))"

definition startWorker :: "nat \<Rightarrow> worker \<Rightarrow> RepManager \<Rightarrow> RepManager run" where
  "startWorker pollMillis wk rm =
     and_then (Lock (rmMtx rm)) (\<lambda>mtx.
     and_then (worker_Start pollMillis wk) (\<lambda>wk.
       Returned (rm\<lparr>rmRegistry := alist_put (wkTable wk) wk (rmRegistry rm), rmCount := rmCount rm + 1, rmMtx := Unlock mtx\<rparr>)))"

definition stopWorker :: "'w store \<Rightarrow> nat \<Rightarrow> worker \<Rightarrow> RepManager \<Rightarrow> 'w \<Rightarrow> (RepManager \<times> 'w) run" where
  "stopWorker S nodeID wk rm w =
     and_then (Lock (rmMtx rm)) (\<lambda>mtx.
     and_then (worker_Close S nodeID wk w) (\<lambda>(wk, w).
       if rmCount rm = 0 then Panicked
       else Returned (rm\<lparr>rmRegistry := filter (\<lambda>(name, _). name \<noteq> wkTable wk) (rmRegistry rm), rmCount := rmCount rm - 1, rmMtx := Unlock mtx\<rparr>, w)))"

text \<open>\<open>names\<close> is what the leader's metadata service answered.\<close>

fun createAll :: "'w store \<Rightarrow> 'w nodehost \<Rightarrow> string list \<Rightarrow> 'w \<Rightarrow> (mgr_error + unit) \<times> 'w" where
  "createAll S N [] w = (Inr (), w)"
| "createAll S N (name # names) w =
     (case CreateTable S N w name of
        (Inl e, w) \<Rightarrow> if e = ErrTableExists then createAll S N names w else (Inl e, w)
      | (Inr _, w) \<Rightarrow> createAll S N names w)"

definition reconcileTables :: "'w store \<Rightarrow> 'w nodehost \<Rightarrow> string + string list \<Rightarrow> 'w \<Rightarrow> ((string + mgr_error) + unit) \<times> 'w" where
  "reconcileTables S N response w =
     (case response of
        Inl e \<Rightarrow> (Inl (Inl e), w)
      | Inr names \<Rightarrow> (case createAll S N names w of (Inl e, w) \<Rightarrow> (Inl (Inr e), w) | (Inr _, w) \<Rightarrow> (Inr (), w)))"

fun startMissing :: "nat \<Rightarrow> Table list \<Rightarrow> RepManager \<Rightarrow> RepManager run" where
  "startMissing pollMillis [] rm = Returned rm"
| "startMissing pollMillis (tbl # tbs) rm =
     and_then (hasWorker (tbName tbl) rm) (\<lambda>(has, rm).
     and_then (if has then Returned rm else startWorker pollMillis (worker_create (tbName tbl)) rm) (\<lambda>rm.
       startMissing pollMillis tbs rm))"

fun stopOrphans :: "'w store \<Rightarrow> nat \<Rightarrow> Table list \<Rightarrow> (string \<times> worker) list \<Rightarrow> RepManager \<Rightarrow> 'w \<Rightarrow> (RepManager \<times> 'w) run" where
  "stopOrphans S nodeID tbs [] rm w = Returned (rm, w)"
| "stopOrphans S nodeID tbs ((name, wk) # reg) rm w =
     (if list_ex (\<lambda>tbl. tbName tbl = name) tbs then stopOrphans S nodeID tbs reg rm w
      else and_then (stopWorker S nodeID wk rm w) (\<lambda>(rm, w). stopOrphans S nodeID tbs reg rm w))"

definition reconcileWorkers :: "'w store \<Rightarrow> nat \<Rightarrow> nat \<Rightarrow> RepManager \<Rightarrow> 'w \<Rightarrow> ((mgr_error + unit) \<times> RepManager \<times> 'w) run" where
  "reconcileWorkers S nodeID pollMillis rm w =
     (case GetTables S w of
        Inl e \<Rightarrow> Returned (Inl e, rm, w)
      | Inr tbs \<Rightarrow>
          and_then (startMissing pollMillis tbs rm) (\<lambda>rm.
          and_then (RLock (rmMtx rm)) (\<lambda>mtx.
          and_then (stopOrphans S nodeID tbs (rmRegistry rm) (rm\<lparr>rmMtx := mtx\<rparr>) w) (\<lambda>(rm, w).
            Returned (Inr (), rm\<lparr>rmMtx := RUnlock (rmMtx rm)\<rparr>, w)))))"

text \<open>Closing, once the routine has ended: all workers are stopped and the wait group is waited for.\<close>

fun stopAll :: "'w store \<Rightarrow> nat \<Rightarrow> (string \<times> worker) list \<Rightarrow> RepManager \<Rightarrow> 'w \<Rightarrow> (RepManager \<times> 'w) run" where
  "stopAll S nodeID [] rm w = Returned (rm, w)"
| "stopAll S nodeID ((name, wk) # reg) rm w =
     and_then (stopWorker S nodeID wk rm w) (\<lambda>(rm, w). stopAll S nodeID reg rm w)"

definition RepManager_Close :: "'w store \<Rightarrow> nat \<Rightarrow> RepManager \<Rightarrow> 'w \<Rightarrow> (RepManager \<times> 'w) run" where
  "RepManager_Close S nodeID rm w =
     and_then (stopAll S nodeID (rmRegistry rm) rm w) (\<lambda>(rm, w). if rmCount rm = 0 then Returned (rm, w) else Blocked)"

section \<open>The invariant of the registry\<close>

text \<open>Every worker is registered once, under its table's name, and is open; the counter counts them.\<close>

definition registry_ok :: "RepManager \<Rightarrow> bool" where
  "registry_ok rm \<longleftrightarrow> sorted_keys (rmRegistry rm) \<and> (\<forall>(name, wk) \<in> set (rmRegistry rm). wkTable wk = name \<and> \<not> wkClosed wk)
     \<and> rmCount rm = length (rmRegistry rm) \<and> rmMtx rm = unlocked"

lemma registry_NewManager: "registry_ok NewManager"
  by (simp add: registry_ok_def NewManager_def)

text \<open>The mutex held by one reader, and by the writer.\<close>

definition reading :: RWMutex where
  "reading = \<lparr>rwReaders = 1, rwWriter = False\<rparr>"

definition writing :: RWMutex where
  "writing = \<lparr>rwReaders = 0, rwWriter = True\<rparr>"

lemma mutex_simps [simp]:
  "RLock unlocked = Returned reading" "RUnlock reading = unlocked" "Lock unlocked = Returned writing" "Unlock writing = unlocked"
  "Lock reading = Blocked"
  by (simp_all add: RLock_def RUnlock_def Lock_def Unlock_def unlocked_def reading_def writing_def)

lemma mtx_update [simp]: "rmMtx rm = x \<Longrightarrow> rm\<lparr>rmMtx := x\<rparr> = rm"
  by simp

lemma hasWorker_ok: "registry_ok rm \<Longrightarrow> hasWorker name rm = Returned (map_of (rmRegistry rm) name \<noteq> None, rm)"
  by (simp add: hasWorker_def registry_ok_def)

lemma alist_put_length: "map_of kvs k = None \<Longrightarrow> length (alist_put k v kvs) = Suc (length kvs)"
  by (induction kvs) (auto split: if_splits)

lemma set_alist_put: "x \<in> set (alist_put k v kvs) \<Longrightarrow> x = (k, v) \<or> x \<in> set kvs"
  by (induction kvs) (auto split: if_splits)

lemma startWorker_ok:
  assumes "registry_ok rm" and "0 < pollMillis" and "map_of (rmRegistry rm) name = None"
  shows "\<exists>rm'. startWorker pollMillis (worker_create name) rm = Returned rm' \<and> registry_ok rm'
    \<and> map_of (rmRegistry rm') = (map_of (rmRegistry rm))(name \<mapsto> worker_create name)"
  using assms set_alist_put [of _ name "worker_create name" "rmRegistry rm"]
  by (fastforce simp: startWorker_def registry_ok_def worker_Start_def worker_create_def map_of_alist_put sorted_keys_alist_put alist_put_length)

lemma startMissing_ok:
  assumes "0 < pollMillis"
  shows "registry_ok rm \<Longrightarrow> \<exists>rm'. startMissing pollMillis tbs rm = Returned rm' \<and> registry_ok rm'
    \<and> map_of (rmRegistry rm) \<subseteq>\<^sub>m map_of (rmRegistry rm')
    \<and> dom (map_of (rmRegistry rm')) = dom (map_of (rmRegistry rm)) \<union> tbName ` set tbs"
proof (induction tbs arbitrary: rm)
  case (Cons tbl tbs)
  show ?case
  proof (cases "map_of (rmRegistry rm) (tbName tbl)")
    case None
    then obtain rm1 where r: "startWorker pollMillis (worker_create (tbName tbl)) rm = Returned rm1" "registry_ok rm1"
      "map_of (rmRegistry rm1) = (map_of (rmRegistry rm))(tbName tbl \<mapsto> worker_create (tbName tbl))"
      using startWorker_ok [OF Cons.prems assms] by blast
    have sub: "map_of (rmRegistry rm) \<subseteq>\<^sub>m map_of (rmRegistry rm1)" using r(3) None by (auto simp: map_le_def)
    from Cons.IH [OF r(2)] obtain rm' where "startMissing pollMillis tbs rm1 = Returned rm'" "registry_ok rm'"
      "map_of (rmRegistry rm1) \<subseteq>\<^sub>m map_of (rmRegistry rm')"
      "dom (map_of (rmRegistry rm')) = dom (map_of (rmRegistry rm1)) \<union> tbName ` set tbs" by blast
    then show ?thesis using hasWorker_ok [OF Cons.prems] r None map_le_trans [OF sub] by auto
  next
    case (Some wk)
    then have "insert (tbName tbl) (dom (map_of (rmRegistry rm))) = dom (map_of (rmRegistry rm))" by auto
    then show ?thesis using Cons.IH [OF Cons.prems] hasWorker_ok [OF Cons.prems] Some by (simp flip: Un_insert_left)
  qed
qed simp

lemma stopOrphans_reading:
  assumes "rmMtx rm = reading"
  shows "stopOrphans S nodeID tbs reg rm w = (if fst ` set reg \<subseteq> tbName ` set tbs then Returned (rm, w) else Blocked)"
proof (induction reg)
  case (Cons x reg)
  then show ?case using assms by (cases x) (auto simp: list_ex_iff stopWorker_def)
qed simp

section \<open>Properties of the manager\<close>

text \<open>
  C35: the reconciliation of the workers returns if and only if every worker's table still exists. It then
  has started a worker for every table without one and kept the others, so that the registry holds exactly
  one worker for each table. If the table of a worker is gone, the call never returns: it waits for the write
  lock while holding the read lock, and the manager can neither start workers nor be closed from then on.
\<close>

theorem reconcileWorkers_blocks:
  assumes "registry_ok rm" and "0 < pollMillis" and "GetTables S w = Inr tbs"
  shows "if fst ` set (rmRegistry rm) \<subseteq> tbName ` set tbs
    then \<exists>rm'. reconcileWorkers S nodeID pollMillis rm w = Returned (Inr (), rm', w) \<and> registry_ok rm'
      \<and> fst ` set (rmRegistry rm') = tbName ` set tbs \<and> map_of (rmRegistry rm) \<subseteq>\<^sub>m map_of (rmRegistry rm')
    else reconcileWorkers S nodeID pollMillis rm w = Blocked"
proof -
  obtain rm' where r: "startMissing pollMillis tbs rm = Returned rm'" "registry_ok rm'" "map_of (rmRegistry rm) \<subseteq>\<^sub>m map_of (rmRegistry rm')"
    and d: "dom (map_of (rmRegistry rm')) = dom (map_of (rmRegistry rm)) \<union> tbName ` set tbs"
    using startMissing_ok [OF assms(2,1)] by blast
  then have keys: "fst ` set (rmRegistry rm') = fst ` set (rmRegistry rm) \<union> tbName ` set tbs" by (simp add: dom_map_of_conv_image_fst)
  have "reconcileWorkers S nodeID pollMillis rm w =
      (if fst ` set (rmRegistry rm) \<subseteq> tbName ` set tbs then Returned (Inr (), rm', w) else Blocked)"
    using r(1,2) assms(3) keys by (auto simp: reconcileWorkers_def registry_ok_def stopOrphans_reading)
  then show ?thesis using r(2,3) keys by auto
qed

definition exRegistry :: "string list \<Rightarrow> RepManager" where
  "exRegistry names = \<lparr>rmRegistry = map (\<lambda>name. (name, worker_create name)) names, rmMtx = unlocked, rmCount = length names\<rparr>"

lemma exRegistry_ok: "sorted_wrt (<) names \<Longrightarrow> registry_ok (exRegistry names)"
  by (auto simp: registry_ok_def exRegistry_def comp_def worker_create_def)

definition exTables :: "((nat \<times> json MapStore) \<times> nat list) store" where
  "exTables = raft_store (beside (local_raft (\<lambda>_. [])))"

theorem reconcileWorkers_blocks_witness:
  "(\<exists>rm'. reconcileWorkers exTables 1 10 NewManager ((2, exStore), []) = Returned (Inr (), rm', ((2, exStore), []))
      \<and> fst ` set (rmRegistry rm') = {''t''})
   \<and> reconcileWorkers exTables 1 10 (exRegistry [''u'']) ((2, exStore), []) = Blocked"
proof -
  have t: "GetTables exTables ((2, exStore), []) = Inr [exTable]" unfolding GetTables_def exTables_def exStore_getTables by simp
  have n: "tbName exTable = ''t''" by (simp add: exTable_def)
  have "fst ` set (rmRegistry NewManager) \<subseteq> tbName ` set [exTable]" by (simp add: NewManager_def)
  with reconcileWorkers_blocks [OF registry_NewManager _ t, of 10 1]
  have "\<exists>rm'. reconcileWorkers exTables 1 10 NewManager ((2, exStore), []) = Returned (Inr (), rm', ((2, exStore), []))
      \<and> fst ` set (rmRegistry rm') = {''t''}" by (simp add: n) blast
  moreover have "registry_ok (exRegistry [''u''])" by (simp add: exRegistry_ok)
  with reconcileWorkers_blocks [OF _ _ t, of "exRegistry [''u'']" 10 1]
  have "reconcileWorkers exTables 1 10 (exRegistry [''u'']) ((2, exStore), []) = Blocked" by (simp add: n exRegistry_def)
  ultimately show ?thesis by blast
qed

lemma stopWorker_ok:
  assumes "registry_ok rm" and "rmRegistry rm = (name, wk) # reg"
  shows "stopWorker S nodeID wk rm w = Returned (rm\<lparr>rmRegistry := reg, rmCount := length reg\<rparr>, snd (ReturnTable S nodeID name w))"
    and "registry_ok (rm\<lparr>rmRegistry := reg, rmCount := length reg\<rparr>)"
proof -
  have "name \<notin> fst ` set reg" using assms by (force simp: registry_ok_def)
  then have "filter (\<lambda>(n, _). n \<noteq> name) reg = reg" by (force simp: filter_id_conv)
  then show "stopWorker S nodeID wk rm w = Returned (rm\<lparr>rmRegistry := reg, rmCount := length reg\<rparr>, snd (ReturnTable S nodeID name w))"
    using assms by (cases rm) (auto simp: stopWorker_def worker_Close_def registry_ok_def split: prod.splits)
  show "registry_ok (rm\<lparr>rmRegistry := reg, rmCount := length reg\<rparr>)" using assms by (simp add: registry_ok_def)
qed

text \<open>Closing a manager stops every worker, returns every lease and ends.\<close>

theorem RepManager_Close_returns:
  assumes "registry_ok rm"
  shows "\<exists>rm'. RepManager_Close S nodeID rm w = Returned (rm', fold (\<lambda>(name, wk) w. snd (ReturnTable S nodeID name w)) (rmRegistry rm) w)
    \<and> rmRegistry rm' = [] \<and> registry_ok rm'"
proof -
  have "registry_ok rm \<Longrightarrow> \<exists>rm'. stopAll S nodeID (rmRegistry rm) rm w
      = Returned (rm', fold (\<lambda>(name, wk) w. snd (ReturnTable S nodeID name w)) (rmRegistry rm) w) \<and> rmRegistry rm' = [] \<and> registry_ok rm'" for rm w
  proof (induction "rmRegistry rm" arbitrary: rm w)
    case (Cons x reg)
    obtain name wk where x: "x = (name, wk)" by fastforce
    note st = stopWorker_ok [OF Cons.prems, of name wk reg]
    have reg: "rmRegistry rm = (name, wk) # reg" using Cons.hyps(2) x by simp
    obtain rm' where "stopAll S nodeID reg (rm\<lparr>rmRegistry := reg, rmCount := length reg\<rparr>) (snd (ReturnTable S nodeID name w))
        = Returned (rm', fold (\<lambda>(name, wk) w. snd (ReturnTable S nodeID name w)) reg (snd (ReturnTable S nodeID name w)))"
      "rmRegistry rm' = []" "registry_ok rm'"
      using Cons.hyps(1) [of "rm\<lparr>rmRegistry := reg, rmCount := length reg\<rparr>" "snd (ReturnTable S nodeID name w)"] st(2) reg by auto
    then show ?case using st(1) [OF reg, of S nodeID w] by (simp add: reg)
  qed simp
  from this [OF assms, of w] obtain rm' where "stopAll S nodeID (rmRegistry rm) rm w
      = Returned (rm', fold (\<lambda>(name, wk) w. snd (ReturnTable S nodeID name w)) (rmRegistry rm) w)" "rmRegistry rm' = []" "registry_ok rm'" by blast
  then show ?thesis by (simp add: RepManager_Close_def) (simp add: registry_ok_def)
qed

section \<open>Workers follow the leader\<close>

lemma session_group:
  assumes "raft_table H table ok"
  shows "table_group (session_propose H i) (table i) (ok i)"
proof
  fix n b err n'
  assume n: "ok i n" and pr: "session_propose H i n b = (err, n')"
  obtain r n1 where p: "rhSyncPropose H n i b = (r, n1)" by fastforce
  have n1: "n1 = n'" using pr p by (cases r) (simp_all add: session_propose_def)
  show "ok i n'" using raft_table.propose_ok [OF assms n p] n1 by simp
  show "(\<exists>e out. entCmd e = b \<and> spec_update [e] (table i n) = Inr (out, table i n')) \<or> err \<noteq> None \<and> table i n' = table i n"
  proof (cases r)
    case (Inl e)
    then show ?thesis using raft_table.propose_Inl [OF assms n, of b e n'] p pr n1 by (auto simp: session_propose_def)
  next
    case (Inr x)
    then show ?thesis using raft_table.propose_Inr [OF assms n, of b "fst x" "snd x" n'] p n1 by (simp add: session_propose_def) blast
  qed
qed

end
