(* ===== verification/Worker_Properties.thy ===== *)
theory Worker_Properties
  imports Replication_Manager KV_Server Transfer_Properties
begin

text \<open>
  What a replication worker does to its table in one tick: nothing without the lease, and with it a step
  along the leader's log, provided that the leader index it starts from is the table's own. The index is
  read from the local replica, which may lag behind; then commands are applied twice.
\<close>

section \<open>A tick\<close>

definition asksSnapshot :: "(string + ReplicateResponse) list \<Rightarrow> bool" where
  "asksSnapshot stream \<longleftrightarrow> (\<exists>r. Inr r \<in> set stream \<and> rsResponse r = Some (ErrorResponse USE_SNAPSHOT))"

lemma do_loop_ahead: "do_loop propose n a stream = (Inr resultLeaderAhead, n') \<Longrightarrow> asksSnapshot stream"
proof (induction propose n a stream rule: do_loop.induct)
  case (3 propose n applied r stream)
  then show ?case unfolding asksSnapshot_def
    by (fastforce split: option.splits replicate_payload.splits ReplicateError.splits if_splits prod.splits)
qed simp_all

lemma worker_do_ahead:
  "worker_do open_stream propose tbl idx n = (Inr resultLeaderAhead, n') \<Longrightarrow>
   \<exists>stream. open_stream \<lparr>rqLeaderIndex = idx + 1, rqTable = tbl\<rparr> = Inr stream \<and> asksSnapshot stream"
  by (auto simp: worker_do_def do_loop_ahead split: sum.splits)

lemma tableState_Inr:
  assumes "GetTable S m w name = Inr t" and "rhStaleRead H n (tbClusterID t) LeaderIndexRequest () = Inr (IndexResponse idx, ())"
  shows "tableState S H m name w n = Inr (idx, tbClusterID t)"
  using assms by (simp add: tableState_def ActiveTable_LeaderIndex_def readTable_def)

text \<open>A tick that does not start a recovery ends with the replication of the log.\<close>

lemma replication_tick_do:
  assumes "tableState S H m (wkTable wk) w n = Inr (idx, sess)" and "wkLeased wk"
    and "worker_do (ldLog Ld) (session_propose H sess) (nameBytes (wkTable wk)) idx n = (r, n')" and "r \<noteq> Inr resultLeaderAhead"
  shows "\<exists>pz. replication_tick S H D Ld m free wk w n = Some (wk\<lparr>wkFollowerIndex := idx\<rparr>, pz, w, n')"
proof (cases r)
  case (Inr res)
  then show ?thesis using assms by (cases res) (simp_all add: replication_tick_def Let_def)
qed (use assms in \<open>simp add: replication_tick_def Let_def\<close>)

text \<open>
  C14: a tick of a worker keeps the table on the leader's log. If the local replica reports the table's
  own leader index, the stream continues the leader's log from there and the leader does not ask for a
  snapshot, then the tick returns, the table holds the leader's pairs at the same or a later index of the log
  with that index recorded, whatever fails on the way, the metadata is not touched and the metric shows the
  index before; without the lease, nothing is proposed at all.
\<close>

theorem replication_tick_follows:
  assumes "raft_table H table ok" and "GetTable S m w (wkTable wk) = Inr t" and "ok (tbClusterID t) n"
    and "rhStaleRead H n (tbClusterID t) LeaderIndexRequest () = Inr (IndexResponse (tsLeader (table (tbClusterID t) n)), ())"
    and "is_log L" and "log_wf L" and "follower_at L k (table (tbClusterID t) n)"
    and "\<And>stream. ldLog Ld \<lparr>rqLeaderIndex = of_nat k + 1, rqTable = nameBytes (wkTable wk)\<rparr> = Inr stream \<Longrightarrow> stream_ok L k stream \<and> \<not> asksSnapshot stream"
  shows "\<exists>pz n'. replication_tick S H D Ld m free wk w n = Some (wk\<lparr>wkFollowerIndex := of_nat k\<rparr>, pz, w, n')
    \<and> ok (tbClusterID t) n' \<and> (\<exists>j \<ge> k. follower_at L j (table (tbClusterID t) n')) \<and> (wkLeased wk \<or> n' = n)"
proof -
  have k: "tsLeader (table (tbClusterID t) n) = of_nat k" using assms(7) by (simp add: follower_at_def)
  have st: "tableState S H m (wkTable wk) w n = Inr (of_nat k, tbClusterID t)" using tableState_Inr [OF assms(2,4)] k by simp
  show ?thesis
  proof (cases "wkLeased wk")
    case False
    then show ?thesis using st assms(3,7) by (auto simp: replication_tick_def)
  next
    case True
    obtain r n' where d: "worker_do (ldLog Ld) (session_propose H (tbClusterID t)) (nameBytes (wkTable wk)) (of_nat k) n = (r, n')" by fastforce
    then have "r \<noteq> Inr resultLeaderAhead" using worker_do_ahead [of "ldLog Ld" _ "nameBytes (wkTable wk)" "of_nat k" n n'] assms(8) by auto
    moreover have "ok (tbClusterID t) n' \<and> (\<exists>j \<ge> k. follower_at L j (table (tbClusterID t) n'))"
      by (rule table_group.worker_do_ok [OF session_group [OF assms(1)] assms(5,6,3,7), of "ldLog Ld" "nameBytes (wkTable wk)" r])
        (use d assms(8) k in auto)
    ultimately show ?thesis using replication_tick_do [OF st True d] True by blast
  qed
qed

text \<open>A leader that answers with the rest of its log, and a manager that knows the table \<open>t\<close>.\<close>

definition exLeader :: "raftEntry list \<Rightarrow> (nat \<times> json MapStore, nat \<Rightarrow> batch_op list FSM) leader" where
  "exLeader L = \<lparr>ldLog = \<lambda>req. case entriesToCommands (drop (unat (rqLeaderIndex req) - 1) L) of
       Inl e \<Rightarrow> Inl ''read failed''
     | Inr cs \<Rightarrow> Inr [Inr \<lparr>rsLeaderIndex = 0, rsResponse = Some (CommandsResponse cs)\<rparr>],
     ldSnapshot = \<lambda>_. Inl ''unavailable'', ldRestore = \<lambda>_ _ w. Some (Inl (MHost ''unavailable''), w)\<rparr>"

definition exWorker :: worker where
  "exWorker = (worker_create ''t'')\<lparr>wkLeased := True\<rparr>"

lemma exWorker_table: "GetTable S (egManager exEngine) w (wkTable exWorker) = Inr (emptyTable\<lparr>tbName := ''t''\<rparr>)"
  by (simp add: GetTable_def exEngine_def exWorker_def worker_create_def)

lemma exLeader_stream:
  assumes "k < 2 ^ 64 - 1" and "k \<le> length L" and "ldLog (exLeader L) \<lparr>rqLeaderIndex = of_nat k + 1, rqTable = tbl\<rparr> = Inr stream"
  shows "stream_ok L k stream \<and> \<not> asksSnapshot stream"
proof -
  have "unat (of_nat (k + 1) :: u64) = k + 1" using assms(1) by (simp only: unsigned_of_nat len_num0 len_bit0 len_num1) (simp add: take_bit_nat_eq_self)
  then have "unat (of_nat k + 1 :: u64) = k + 1" by (simp add: add.commute)
  then obtain cs where cs: "entriesToCommands (drop k L) = Inr cs" "stream = [Inr \<lparr>rsLeaderIndex = 0, rsResponse = Some (CommandsResponse cs)\<rparr>]"
    using assms(3) by (auto simp: exLeader_def split: sum.splits)
  with entriesToCommands_length [OF cs(1)] assms(2) show ?thesis by (simp add: asksSnapshot_def)
qed

lemma fsm_stale_index:
  assumes "pebble_laws P W" and "fsm_ok P (n i)"
  shows "rhStaleRead (fsm_handler P wr) n i LeaderIndexRequest w = Inr (IndexResponse (tsLeader (db_state P (n i))), w)"
proof -
  obtain db where "fsmPebble (n i) = Some db" "reader_ok (pbReader P db)" "table_ok (contents (pbReader P db))"
    using fsm_ok_reader assms by blast
  then show ?thesis
    using readLocalIndex_user [of "pbReader P db" sysLeaderIndex] by (auto simp: fsm_handler_simps Lookup_def table_ok_def abs_state_def)
qed

theorem replication_tick_follows_witness:
  "\<exists>pz n'. replication_tick exMeta exHandler exDisk (exLeader exLog) (egManager exEngine) 1 exWorker (0, []) exNode
      = Some (exWorker\<lparr>wkFollowerIndex := 0\<rparr>, pz, (0, []), n')
    \<and> (\<exists>j \<ge> 0. follower_at exLog j (db_state mem_pebble (n' 0)))"
proof -
  have i: "tbClusterID (emptyTable\<lparr>tbName := ''t''\<rparr>) = 0" by (simp add: emptyTable_def)
  have f: "follower_at exLog 0 (db_state mem_pebble (exNode 0))" using exFollower by (simp add: exNode_def)
  have s: "rhStaleRead exHandler exNode 0 LeaderIndexRequest () = Inr (IndexResponse (tsLeader (db_state mem_pebble (exNode 0))), ())"
    unfolding exHandler_def using fsm_stale_index [OF mem_pebble_laws] exFSM_ok by (simp add: exNode_def)
  have l: "is_log exLog" using exLog_ok by (simp add: logs_ok_def)
  have "stream_ok exLog 0 stream \<and> \<not> asksSnapshot stream"
    if "ldLog (exLeader exLog) \<lparr>rqLeaderIndex = of_nat 0 + 1, rqTable = nameBytes (wkTable exWorker)\<rparr> = Inr stream" for stream
    using exLeader_stream [OF _ _ that] by simp
  then show ?thesis
    using replication_tick_follows [OF exHandler_table exWorker_table, where n = exNode and S = exMeta and w = "(0, [])" and L = exLog and k = 0
        and Ld = "exLeader exLog" and D = exDisk and free = 1]
      f s l exLog_wf exNode_ok by (simp add: i) blast
qed

section \<open>A lagging replica\<close>

text \<open>
  A log with one transaction: if the key \<open>a\<close> is stored then it stores \<open>b\<close>, else it stores \<open>a\<close>.
\<close>

definition exPutOp :: "bytes \<Rightarrow> RequestOp" where
  "exPutOp k = emptyRequestOp\<lparr>roRequest := Some (RequestOp_RequestPut (emptyRequestOp_Put\<lparr>rpKey := k, rpValue := [1]\<rparr>))\<rparr>"

definition exGuard :: "u64 option \<Rightarrow> Command" where
  "exGuard l = Command [] Command_TXN None l []
     (Some \<lparr>txCompare = [emptyCompare\<lparr>cmpKey := [97]\<rparr>], txSuccess = [exPutOp [98]], txFailure = [exPutOp [97]], txUnknown = []\<rparr>)
     None False [] False []"

definition exTxnLog :: "raftEntry list" where
  "exTxnLog = [exLogEntry 1 (exGuard None)]"

lemma exGuard_ok: "Command_wf (exGuard l)" "Command_SizeVT (exGuard None) < 100" "Command_SizeVT (exGuard (Some 1)) < 100"
proof -
  show "Command_wf (exGuard l)" by (simp add: exGuard_def exPutOp_def Txn_wf_def Compare_wf_def RequestOp_wf_def RequestOp_Put_wf_def
        emptyCompare_def emptyRequestOp_def emptyRequestOp_Put_def)
  show "Command_SizeVT (exGuard None) < 100" "Command_SizeVT (exGuard (Some 1)) < 100" by code_simp+
qed

lemma exTxnLog_commands: "entriesToCommands exTxnLog = Inr [\<lparr>rcLeaderIndex = 1, rcCommand = exGuard (Some 1)\<rparr>]"
proof -
  have "Command_UnmarshalVT (Command_MarshalVT (exGuard None)) emptyCommand = Inr (exGuard None)"
    by (rule Command_UnmarshalVT_MarshalVT) (use exGuard_ok(1,2) in auto)
  then show ?thesis by (simp add: exTxnLog_def exLogEntry_def entryToCommand_def) (simp add: exGuard_def)
qed

lemma exGuard_first: "spec_commands [exGuard l] [] = Inr ([wrapPut emptyResponseOp_Put], [([97], [1])])"
  by (simp add: spec_command.simps exGuard_def Command_types spec_txn_def spec_compare_def emptyCompare_def exPutOp_def spec_op_def spec_put_def
      emptyRequestOp_Put_def emptyRequestOp_def)

lemma exGuard_again: "spec_commands [exGuard l] [([97], [1])] = Inr ([wrapPut emptyResponseOp_Put], [([97], [1]), ([98], [1])])"
  by (simp add: spec_command.simps exGuard_def Command_types spec_txn_def spec_compare_def emptyCompare_def exPutOp_def spec_op_def spec_put_def
      emptyRequestOp_Put_def emptyRequestOp_def txnCompareSingle_def)

text \<open>A host whose local replica of every shard is still in the initial state, behind the group.\<close>

definition laggingHandler :: "(nat \<Rightarrow> batch_op list FSM, unit) raftHandler" where
  "laggingHandler = exHandler\<lparr>rhStaleRead := \<lambda>_ i req w. rhStaleRead exHandler exNode i req w\<rparr>"

lemma lagging_table: "raft_table laggingHandler (\<lambda>i n. db_state mem_pebble (n i)) (\<lambda>i n. pebble_laws mem_pebble snd \<and> fsm_ok mem_pebble (n i))"
  using exHandler_table by (simp add: raft_table_def laggingHandler_def)

lemma lagging_propose:
  assumes "fsm_ok mem_pebble (n 0)" and "Command_UnmarshalVT b emptyCommand = Inr (seqCommand cs (Some l))"
    and "spec_commands cs (tsKvs (db_state mem_pebble (n 0))) = Inr (rs, m)"
  shows "\<exists>n'. session_propose laggingHandler 0 n b = (None, n') \<and> fsm_ok mem_pebble (n' 0)
    \<and> tsKvs (db_state mem_pebble (n' 0)) = m \<and> tsLeader (db_state mem_pebble (n' 0)) = l"
proof -
  let ?e = "\<lparr>entIndex = fsmApplied (n 0) + 1, entCmd = b, entValue = 0, entData = []\<rparr>"
  obtain out st where u: "spec_update [?e] (db_state mem_pebble (n 0)) = Inr (out, st)" "tsKvs st = m" "tsLeader st = l"
    using assms(2,3) by (simp add: spec_update_def spec_result_def spec_command.simps seqCommand_eq Command_types)
  obtain p' where "Update mem_pebble (n 0) [?e] = Inr (out, p')" "db_state mem_pebble p' = st" "fsm_ok mem_pebble p'"
    using Update_total [OF mem_pebble_laws mem_pebble_total assms(1) u(1)] by blast
  with u(2,3) show ?thesis by (simp add: session_propose_def laggingHandler_def exHandler_def fsm_handler_simps)
qed

text \<open>A tick on the lagging replica applies the whole log, whatever the table already holds.\<close>

lemma lagging_tick:
  assumes "fsm_ok mem_pebble (n 0)" and "spec_commands [exGuard (Some 1)] (tsKvs (db_state mem_pebble (n 0))) = Inr (rs, m)"
  shows "\<exists>wk pz n'. replication_tick exMeta laggingHandler exDisk (exLeader exTxnLog) (egManager exEngine) 1 exWorker (0, []) n = Some (wk, pz, (0, []), n')
    \<and> fsm_ok mem_pebble (n' 0) \<and> tsKvs (db_state mem_pebble (n' 0)) = m \<and> tsLeader (db_state mem_pebble (n' 0)) = 1"
proof -
  have "Command_UnmarshalVT (Command_MarshalVT (seqCommand [exGuard (Some 1)] (Some 1))) emptyCommand = Inr (seqCommand [exGuard (Some 1)] (Some 1))"
    using seqCommand_decode [of "[]" "\<lparr>rcLeaderIndex = 1, rcCommand = exGuard (Some 1)\<rparr>" 1] exGuard_ok
    by (simp add: sizeRepeated_def desiredProposalSize_def)
  with lagging_propose [where n = n and b = "Command_MarshalVT (seqCommand [exGuard (Some 1)] (Some 1))" and cs = "[exGuard (Some 1)]" and l = 1] assms
  obtain n' where
    pr: "session_propose laggingHandler 0 n (Command_MarshalVT (seqCommand [exGuard (Some 1)] (Some 1))) = (None, n')"
    and n': "fsm_ok mem_pebble (n' 0)" "tsKvs (db_state mem_pebble (n' 0)) = m" "tsLeader (db_state mem_pebble (n' 0)) = 1" by blast
  have "worker_do (ldLog (exLeader exTxnLog)) (session_propose laggingHandler 0) (nameBytes (wkTable exWorker)) 0 n = (Inr resultUnknown, n')"
    using exTxnLog_commands pr by (simp add: worker_do_def exLeader_def proposeBatch_def Let_def)
  moreover have "rhStaleRead laggingHandler n 0 LeaderIndexRequest () = Inr (IndexResponse 0, ())"
    using fsm_stale_index [OF mem_pebble_laws, where n = exNode and i = 0] exFSM_ok
    by (simp add: laggingHandler_def exHandler_def exNode_def exFSM_state)
  then have "tableState exMeta laggingHandler (egManager exEngine) (wkTable exWorker) (0, []) n = Inr (0, 0)"
    using tableState_Inr [OF exWorker_table] by (simp add: emptyTable_def)
  ultimately show ?thesis using replication_tick_do [where r = "Inr resultUnknown" and n' = n'] n' by (fastforce simp: exWorker_def)
qed

text \<open>
  C36: the leader index that a worker starts from is read from the local replica, which may be behind the
  table's Raft group, for example after the lease moved from another node. A tick then applies entries of the
  log a second time. With a transaction among them, a table that holds the leader's pairs at the end of the
  log is left with pairs that the leader never had, and with a leader index that says otherwise.
\<close>

theorem stale_index_diverges:
  "\<exists>n n' wk pz. follower_at exTxnLog 1 (db_state mem_pebble (n 0))
    \<and> replication_tick exMeta laggingHandler exDisk (exLeader exTxnLog) (egManager exEngine) 1 exWorker (0, []) n = Some (wk, pz, (0, []), n')
    \<and> tsLeader (db_state mem_pebble (n' 0)) = 1 \<and> \<not> (\<exists>j. follower_at exTxnLog j (db_state mem_pebble (n' 0)))"
proof -
  have "tsKvs (db_state mem_pebble (exNode 0)) = []" by (rule exNode_kvs)
  then obtain n1 :: "nat \<Rightarrow> batch_op list FSM" where n1: "fsm_ok mem_pebble (n1 0)" "tsKvs (db_state mem_pebble (n1 0)) = [([97], [1])]" "tsLeader (db_state mem_pebble (n1 0)) = 1"
    using lagging_tick [of exNode] exNode_ok [of 0] exGuard_first by fastforce
  obtain n2 wk pz where n2: "replication_tick exMeta laggingHandler exDisk (exLeader exTxnLog) (egManager exEngine) 1 exWorker (0, []) n1 = Some (wk, pz, (0, []), n2)"
    "tsKvs (db_state mem_pebble (n2 0)) = [([97], [1]), ([98], [1])]" "tsLeader (db_state mem_pebble (n2 0)) = 1"
    using lagging_tick [of n1] n1(1,2) exGuard_again by fastforce
  have len: "length exTxnLog = 1" by (simp add: exTxnLog_def)
  have "follower_at exTxnLog 1 (db_state mem_pebble (n1 0))"
    using n1(2,3) exGuard_first exTxnLog_commands len by (simp add: follower_at_def)
  moreover have "\<not> follower_at exTxnLog j (db_state mem_pebble (n2 0))" for j
  proof (cases j)
    case 0
    then show ?thesis using n2(2) by (simp add: follower_at_def)
  next
    case (Suc i)
    then have "take j exTxnLog = exTxnLog" using len by simp
    then show ?thesis using n2(2) exGuard_first exTxnLog_commands by (simp add: follower_at_def)
  qed
  ultimately show ?thesis using n2(1,3) by blast
qed

end
