(* ===== verification/Backup_Client.thy ===== *)
theory Backup_Client
  imports Transfer_Properties FSM_Directory
begin

text \<open>
  The backup client (\<^verbatim>\<open>replication/backup/backup.go\<close>): all tables of a cluster are streamed to files
  with a manifest of their checksums, and restored from them. The operating system's files are the calls
  of a file system as in the directory of a state machine; the log output and the deadlines are left out.
\<close>

section \<open>The manifest\<close>

text \<open>
  As for the records of the table manager, a JSON text is represented by its document; \<open>jsText\<close> and
  \<open>jsParse\<close> are the encoder's and the decoder's way between documents and bytes. A time is its number.
\<close>

datatype doc = DNull | DStr string | DTime nat | DArr "doc list" | DObj "(string \<times> doc) list"

record codec =
  jsText :: "doc \<Rightarrow> bytes"
  jsParse :: "bytes \<Rightarrow> string + doc"

record ManifestTable =
  mtName :: string
  mtType :: string
  mtFileName :: string
  mtMD5 :: string

record Manifest =
  mfStarted :: nat
  mfFinished :: nat
  mfTables :: "ManifestTable list"

definition ManifestTable_Marshal :: "ManifestTable \<Rightarrow> doc" where
  "ManifestTable_Marshal t =
     DObj [(''name'', DStr (mtName t)), (''type'', DStr (mtType t)), (''file_name'', DStr (mtFileName t)), (''md5'', DStr (mtMD5 t))]"

text \<open>The slice of tables is nil until the first one is appended, and nil is encoded as null.\<close>

definition Manifest_Marshal :: "Manifest \<Rightarrow> doc" where
  "Manifest_Marshal m =
     DObj [(''started'', DTime (mfStarted m)), (''finished'', DTime (mfFinished m)),
       (''tables'', if mfTables m = [] then DNull else DArr (map ManifestTable_Marshal (mfTables m)))]"

definition typeError :: string where
  "typeError = ''json: cannot unmarshal''"

definition docStr :: "(string \<times> doc) list \<Rightarrow> string \<Rightarrow> string + string" where
  "docStr fs n = (case map_of fs n of None \<Rightarrow> Inr [] | Some DNull \<Rightarrow> Inr [] | Some (DStr s) \<Rightarrow> Inr s | Some _ \<Rightarrow> Inl typeError)"

definition docTime :: "(string \<times> doc) list \<Rightarrow> string \<Rightarrow> string + nat" where
  "docTime fs n = (case map_of fs n of None \<Rightarrow> Inr 0 | Some DNull \<Rightarrow> Inr 0 | Some (DTime t) \<Rightarrow> Inr t | Some _ \<Rightarrow> Inl typeError)"

definition ManifestTable_Unmarshal :: "doc \<Rightarrow> string + ManifestTable" where
  "ManifestTable_Unmarshal d =
     (case d of
        DObj fs \<Rightarrow>
          rbind (docStr fs ''name'') (\<lambda>n. rbind (docStr fs ''type'') (\<lambda>ty.
          rbind (docStr fs ''file_name'') (\<lambda>f. rbind (docStr fs ''md5'') (\<lambda>h.
            Inr \<lparr>mtName = n, mtType = ty, mtFileName = f, mtMD5 = h\<rparr>))))
      | DNull \<Rightarrow> Inr \<lparr>mtName = [], mtType = [], mtFileName = [], mtMD5 = []\<rparr>
      | _ \<Rightarrow> Inl typeError)"

fun docTables :: "doc list \<Rightarrow> string + ManifestTable list" where
  "docTables [] = Inr []"
| "docTables (d # ds) = rbind (ManifestTable_Unmarshal d) (\<lambda>t. rbind (docTables ds) (\<lambda>ts. Inr (t # ts)))"

definition Manifest_Unmarshal :: "doc \<Rightarrow> string + Manifest" where
  "Manifest_Unmarshal d =
     (case d of
        DObj fs \<Rightarrow>
          rbind (docTime fs ''started'') (\<lambda>s. rbind (docTime fs ''finished'') (\<lambda>f.
          rbind (case map_of fs ''tables'' of None \<Rightarrow> Inr [] | Some DNull \<Rightarrow> Inr [] | Some (DArr ds) \<Rightarrow> docTables ds | Some _ \<Rightarrow> Inl typeError) (\<lambda>ts.
            Inr \<lparr>mfStarted = s, mfFinished = f, mfTables = ts\<rparr>)))
      | DNull \<Rightarrow> Inr \<lparr>mfStarted = 0, mfFinished = 0, mfTables = []\<rparr>
      | _ \<Rightarrow> Inl typeError)"

text \<open>\<^verbatim>\<open>hex.EncodeToString\<close>.\<close>

definition hexDigit :: "nat \<Rightarrow> char" where
  "hexDigit n = ''0123456789abcdef'' ! (n mod 16)"

definition EncodeToString :: "bytes \<Rightarrow> string" where
  "EncodeToString b = concat (map (\<lambda>x. [hexDigit (unat x div 16), hexDigit (unat x mod 16)]) b)"

section \<open>The backup\<close>

definition manifestFileName :: string where
  "manifestFileName = ''manifest.json''"

definition defaultSnapshotChunkSize :: nat where
  "defaultSnapshotChunkSize = 2 * 1024 * 1024"

datatype bk_error =
    BkOs string
  | BkIo io_error
  | BkRpc string
  | BkDoc string
  | BkCorrupted string string

definition liftOs :: "(string + 'a) \<times> 'w \<Rightarrow> (bk_error + 'a) \<times> 'w" where
  "liftOs r = (case r of (Inl e, w) \<Rightarrow> (Inl (BkOs e), w) | (Inr x, w) \<Rightarrow> (Inr x, w))"

definition checkDir :: "'w vfs \<Rightarrow> 'w \<Rightarrow> string \<Rightarrow> bk_error option" where
  "checkDir F w dir =
     (if dir \<noteq> [] then
        (case vfStat F w dir of
           Inl e \<Rightarrow> Some (BkOs e)
         | Inr isDir \<Rightarrow> if \<not> isDir then Some (BkOs ''is not a directory'') else None)
      else None)"

text \<open>
  The writer of both the hash and the file; the hash is the bytes written to it. What a failed write
  leaves in the file is not followed.
\<close>

definition multiWrite :: "'w vfs \<Rightarrow> string \<Rightarrow> bytes \<times> 'w \<Rightarrow> bytes \<Rightarrow> io_error + bytes \<times> 'w" where
  "multiWrite F p s b =
     (case s of (h, w) \<Rightarrow> (case vfWrite F w p b of (Inl e, w) \<Rightarrow> Inl (IoError e) | (Inr _, w) \<Rightarrow> Inr (h @ b, w)))"

definition fileName :: "string \<Rightarrow> string" where
  "fileName name = name @ ''.bak''"

text \<open>\<open>open_stream\<close> is \<^verbatim>\<open>sc.Backup\<close>: an error or what the stream of a table delivers.\<close>

definition backupTable :: "'w vfs \<Rightarrow> string \<Rightarrow> (bytes \<Rightarrow> string + (io_error + SnapshotChunk) list) \<Rightarrow> string \<times> string \<Rightarrow> 'w
  \<Rightarrow> (bk_error + ManifestTable) \<times> 'w"
where
  "backupTable F dir open_stream t w =
     (case t of (name, type) \<Rightarrow>
        (case open_stream (nameBytes name) of
           Inl e \<Rightarrow> (Inl (BkRpc e), w)
         | Inr stream \<Rightarrow>
             let p = Join [dir, fileName name] in
             wbind (liftOs (vfCreate F w p)) (\<lambda>_ w.
               case Reader_WriteTo (multiWrite F p) stream 0 ([], w) of
                 ((_, Some e), (_, w)) \<Rightarrow> (Inl (BkIo e), w)
               | ((_, None), (h, w)) \<Rightarrow>
                   wbind (liftOs (vfSync F w p)) (\<lambda>_ w.
                     (Inr \<lparr>mtName = name, mtType = type, mtFileName = fileName name, mtMD5 = EncodeToString (md5 h)\<rparr>, w)))))"

fun backupTables :: "'w vfs \<Rightarrow> string \<Rightarrow> (bytes \<Rightarrow> string + (io_error + SnapshotChunk) list) \<Rightarrow> (string \<times> string) list \<Rightarrow> 'w
  \<Rightarrow> (bk_error + ManifestTable list) \<times> 'w"
where
  "backupTables F dir open_stream [] w = (Inr [], w)"
| "backupTables F dir open_stream (t # ts) w =
     wbind (backupTable F dir open_stream t w) (\<lambda>m w. wbind (backupTables F dir open_stream ts w) (\<lambda>ms w. (Inr (m # ms), w)))"

text \<open>\<open>meta\<close> is the answer of the metadata service: the names and types of the tables.\<close>

definition Backup_Backup :: "'w vfs \<Rightarrow> codec \<Rightarrow> string \<Rightarrow> nat \<Rightarrow> nat \<Rightarrow> string + (string \<times> string) list
  \<Rightarrow> (bytes \<Rightarrow> string + (io_error + SnapshotChunk) list) \<Rightarrow> 'w \<Rightarrow> (bk_error + Manifest) \<times> 'w"
where
  "Backup_Backup F J dir started finished meta open_stream w =
     (case checkDir F w dir of
        Some e \<Rightarrow> (Inl e, w)
      | None \<Rightarrow>
          (case meta of
             Inl e \<Rightarrow> (Inl (BkRpc e), w)
           | Inr tables \<Rightarrow>
               wbind (backupTables F dir open_stream tables w) (\<lambda>ms w.
                 let manifest = \<lparr>mfStarted = started, mfFinished = finished, mfTables = sort_key mtName ms\<rparr>;
                     p = Join [dir, manifestFileName] in
                 wbind (liftOs (vfCreate F w p)) (\<lambda>_ w.
                 wbind (liftOs (vfWrite F w p (jsText J (Manifest_Marshal manifest)))) (\<lambda>_ w.
                 wbind (liftOs (vfSync F w p)) (\<lambda>_ w. (Inr manifest, snd (vfClose F w p))))))))"

section \<open>The restoration\<close>

text \<open>
  The file is sent in the pieces \<^verbatim>\<open>bufio\<close> reads. \<open>call\<close> is the server's handler with the messages of a
  finished stream, \<open>None\<close> when it never answers; a stream that breaks off is not answered.
\<close>

fun sendPieces :: "RestoreMessage send \<Rightarrow> bytes list \<Rightarrow> RestoreMessage list \<Rightarrow> (io_error + unit) \<times> RestoreMessage list" where
  "sendPieces sendTo [] sent = (Inr (), sent)"
| "sendPieces sendTo (p # ps) sent =
     (case backup_Writer_Write sendTo sent p of (Inl e, sent) \<Rightarrow> (Inl e, sent) | (Inr _, sent) \<Rightarrow> sendPieces sendTo ps sent)"

definition restoreTable :: "'w vfs \<Rightarrow> disk \<Rightarrow> string \<Rightarrow> RestoreMessage send \<Rightarrow> (RestoreMessage list \<Rightarrow> 's \<Rightarrow> ((string + unit) \<times> 's) option)
  \<Rightarrow> 'w \<Rightarrow> ManifestTable \<Rightarrow> 's \<Rightarrow> ((bk_error + unit) \<times> 's) option"
where
  "restoreTable F D dir sendTo call w t s =
     (case vfReadAll F w (Join [dir, mtFileName t]) of
        Inl e \<Rightarrow> Some (Inl (BkOs e), s)
      | Inr dat \<Rightarrow>
          if EncodeToString (md5 dat) \<noteq> mtMD5 t then Some (Inl (BkCorrupted (mtName t) (mtFileName t)), s)
          else case send_msg sendTo [] (RestoreInfo (nameBytes (mtName t))) of
            (Inl e, _) \<Rightarrow> Some (Inl (BkIo e), s)
          | (Inr _, sent) \<Rightarrow>
              (case sendPieces sendTo (dkReads D defaultSnapshotChunkSize dat) sent of
                 (Inl e, _) \<Rightarrow> Some (Inl (BkIo e), s)
               | (Inr _, sent) \<Rightarrow>
                   map_option (\<lambda>(r, s). (case r of Inl e \<Rightarrow> Inl (BkRpc e) | Inr _ \<Rightarrow> Inr (), s)) (call sent s)))"

fun restoreTables :: "'w vfs \<Rightarrow> disk \<Rightarrow> string \<Rightarrow> RestoreMessage send \<Rightarrow> (RestoreMessage list \<Rightarrow> 's \<Rightarrow> ((string + unit) \<times> 's) option)
  \<Rightarrow> 'w \<Rightarrow> ManifestTable list \<Rightarrow> 's \<Rightarrow> ((bk_error + unit) \<times> 's) option"
where
  "restoreTables F D dir sendTo call w [] s = Some (Inr (), s)"
| "restoreTables F D dir sendTo call w (t # ts) s =
     (case restoreTable F D dir sendTo call w t s of
        None \<Rightarrow> None
      | Some (Inl e, s) \<Rightarrow> Some (Inl e, s)
      | Some (Inr _, s) \<Rightarrow> restoreTables F D dir sendTo call w ts s)"

definition Backup_Restore :: "'w vfs \<Rightarrow> codec \<Rightarrow> disk \<Rightarrow> string \<Rightarrow> RestoreMessage send
  \<Rightarrow> (RestoreMessage list \<Rightarrow> 's \<Rightarrow> ((string + unit) \<times> 's) option) \<Rightarrow> 'w \<Rightarrow> 's \<Rightarrow> ((bk_error + unit) \<times> 's) option"
where
  "Backup_Restore F J D dir sendTo call w s =
     (case checkDir F w dir of
        Some e \<Rightarrow> Some (Inl e, s)
      | None \<Rightarrow>
          (case vfReadAll F w (Join [dir, manifestFileName]) of
             Inl e \<Rightarrow> Some (Inl (BkOs e), s)
           | Inr b \<Rightarrow>
               (case rbind (jsParse J b) Manifest_Unmarshal of
                  Inl e \<Rightarrow> Some (Inl (BkDoc e), s)
                | Inr manifest \<Rightarrow> restoreTables F D dir sendTo call w (mfTables manifest) s)))"

section \<open>The manifest survives\<close>

lemma docTables_Marshal: "docTables (map ManifestTable_Marshal ts) = Inr ts"
  by (induction ts) (simp_all add: ManifestTable_Marshal_def ManifestTable_Unmarshal_def docStr_def)

lemma Manifest_roundtrip: "Manifest_Unmarshal (Manifest_Marshal m) = Inr m"
  by (cases m) (simp add: Manifest_Marshal_def Manifest_Unmarshal_def docTime_def docTables_Marshal)

section \<open>The files of a backup\<close>

text \<open>The data a stream delivers before it ends.\<close>

fun streamData :: "(io_error + SnapshotChunk) list \<Rightarrow> bytes" where
  "streamData [] = []"
| "streamData (Inl e # stream) = []"
| "streamData (Inr chunk # stream) = scData chunk @ streamData stream"

definition delivered :: "(bytes \<Rightarrow> string + (io_error + SnapshotChunk) list) \<Rightarrow> string \<Rightarrow> bytes" where
  "delivered open_stream name = (case open_stream (nameBytes name) of Inl e \<Rightarrow> [] | Inr stream \<Rightarrow> streamData stream)"

text \<open>\<open>others\<close>: every path but one holds what it held.\<close>

abbreviation others :: "'w fs_view \<Rightarrow> string \<Rightarrow> 'w \<Rightarrow> 'w \<Rightarrow> bool" where
  "others v p w w' \<equiv> \<forall>q. q \<noteq> p \<longrightarrow> fvNodes v w' q = fvNodes v w q"

lemma elsewhere_others: "elsewhere (fvNodes v) (fvCrash v) {p} w w' \<Longrightarrow> others v p w w'"
  by (simp add: elsewhere_def)

lemma multiWrite_pair: "multiWrite F p (h, w) b = (case vfWrite F w p b of (Inl e, w) \<Rightarrow> Inl (IoError e) | (Inr _, w) \<Rightarrow> Inr (h @ b, w))"
  by (simp add: multiWrite_def)

lemma Reader_WriteTo_file:
  assumes "fs_laws F v"
  shows "Reader_WriteTo (multiWrite F p) stream n (h, w) = ((k, None), (h', w')) \<Longrightarrow> fvNodes v w p = Some (FFile a) \<Longrightarrow>
    h' = h @ streamData stream \<and> fvNodes v w' p = Some (FFile (a @ streamData stream)) \<and> others v p w w'"
proof (induction stream arbitrary: n h w a)
  case (Cons x stream)
  show ?case
  proof (cases x)
    case (Inl e)
    then show ?thesis using Cons.prems by simp
  next
    case (Inr chunk)
    obtain r w1 where wr: "vfWrite F w p (scData chunk) = (r, w1)" by fastforce
    then obtain u where r: "r = Inr u" using Cons.prems(1) Inr by (cases r) (simp_all add: multiWrite_pair)
    then have f: "fvNodes v w1 p = Some (FFile (a @ scData chunk))" using fs_writeD(2) [OF assms wr _ Cons.prems(2)] by simp
    have "Reader_WriteTo (multiWrite F p) stream (n + length (scData chunk)) (h @ scData chunk, w1) = ((k, None), (h', w'))"
      using Cons.prems(1) Inr wr r by (simp add: multiWrite_pair)
    from Cons.IH [OF this f] elsewhere_others [OF fs_writeD(1) [OF assms wr]] show ?thesis using Inr by simp
  qed
qed simp

lemma liftOs_Inr: "liftOs r = (Inr x, w) \<longleftrightarrow> r = (Inr x, w)"
  by (cases r; cases "fst r") (auto simp: liftOs_def split: sum.splits)

lemma wbind_Inr: "wbind r f = (Inr y, w') \<longleftrightarrow> (\<exists>x w. r = (Inr x, w) \<and> f x w = (Inr y, w'))"
  by (cases r; cases "fst r") auto

lemma backupTable_file:
  assumes "fs_laws F v" and "backupTable F dir open_stream (name, type) w = (Inr t, w')"
  shows "t = \<lparr>mtName = name, mtType = type, mtFileName = fileName name, mtMD5 = EncodeToString (md5 (delivered open_stream name))\<rparr>
    \<and> fvNodes v w' (Join [dir, fileName name]) = Some (FFile (delivered open_stream name)) \<and> others v (Join [dir, fileName name]) w w'"
proof -
  let ?p = "Join [dir, fileName name]"
  obtain stream where st: "open_stream (nameBytes name) = Inr stream" using assms(2) by (auto simp: backupTable_def split: sum.splits)
  obtain w1 where c: "vfCreate F w ?p = (Inr (), w1)"
    using assms(2) st by (auto simp: backupTable_def Let_def wbind_Inr liftOs_Inr)
  obtain k err h w2 where r: "Reader_WriteTo (multiWrite F ?p) stream 0 ([], w1) = ((k, err), (h, w2))" by (metis surj_pair)
  have "err = None" using assms(2) st c r by (cases err) (auto simp: backupTable_def Let_def wbind_Inr liftOs_Inr)
  with r have r: "Reader_WriteTo (multiWrite F ?p) stream 0 ([], w1) = ((k, None), (h, w2))" by simp
  then have sy: "vfSync F w2 ?p = (Inr (), w')" "t = \<lparr>mtName = name, mtType = type, mtFileName = fileName name, mtMD5 = EncodeToString (md5 h)\<rparr>"
    using assms(2) st c by (auto simp: backupTable_def Let_def wbind_Inr liftOs_Inr)
  have f: "h = streamData stream \<and> fvNodes v w2 ?p = Some (FFile (streamData stream)) \<and> others v ?p w1 w2"
    using Reader_WriteTo_file [OF assms(1) r fs_createD(2) [OF assms(1) c refl]] by simp
  moreover note fs_syncD(2) [OF assms(1) sy(1)] elsewhere_others [OF fs_syncD(1) [OF assms(1) sy(1)]] elsewhere_others [OF fs_createD(1) [OF assms(1) c]]
  ultimately show ?thesis using sy(2) st by (simp add: delivered_def)
qed

lemma fileName_plain: "CHR ''/'' \<notin> set name \<Longrightarrow> plain (fileName name)"
  by (cases name rule: rev_cases) (auto simp: plain_def fileName_def append_eq_Cons_conv)

lemma fileName_path: "CHR ''/'' \<notin> set a \<Longrightarrow> CHR ''/'' \<notin> set b \<Longrightarrow> Join [d, fileName a] = Join [d, fileName b] \<longleftrightarrow> a = b"
  using Join_inject [OF fileName_plain fileName_plain, of a b d] by (simp add: fileName_def)

lemma manifest_path:
  assumes "CHR ''/'' \<notin> set a"
  shows "Join [d, fileName a] \<noteq> Join [d, manifestFileName]"
proof -
  have "fileName a \<noteq> manifestFileName" using arg_cong [of "fileName a" manifestFileName last] by (auto simp: fileName_def manifestFileName_def)
  moreover have "plain manifestFileName" by (simp add: plain_def manifestFileName_def)
  ultimately show ?thesis using Join_inject [OF fileName_plain [OF assms]] by simp
qed

text \<open>The manifest's entry of a table, and a directory that holds its file.\<close>

definition entry_ok :: "'w fs_view \<Rightarrow> string \<Rightarrow> (bytes \<Rightarrow> string + (io_error + SnapshotChunk) list) \<Rightarrow> 'w \<Rightarrow> ManifestTable \<Rightarrow> bool" where
  "entry_ok v dir open_stream w t \<longleftrightarrow> mtFileName t = fileName (mtName t) \<and> mtMD5 t = EncodeToString (md5 (delivered open_stream (mtName t)))
     \<and> fvNodes v w (Join [dir, mtFileName t]) = Some (FFile (delivered open_stream (mtName t)))"

lemma backupTables_files:
  assumes "fs_laws F v"
  shows "backupTables F dir open_stream ts w = (Inr ms, w') \<Longrightarrow> distinct (map fst ts) \<Longrightarrow> (\<forall>name \<in> fst ` set ts. CHR ''/'' \<notin> set name) \<Longrightarrow>
    map mtName ms = map fst ts \<and> (\<forall>t \<in> set ms. entry_ok v dir open_stream w' t)
    \<and> (\<forall>q. q \<notin> (\<lambda>t. Join [dir, fileName (fst t)]) ` set ts \<longrightarrow> fvNodes v w' q = fvNodes v w q)"
proof (induction ts arbitrary: w ms)
  case (Cons x ts)
  obtain name type where x: "x = (name, type)" by fastforce
  obtain t w1 ms1 where b: "backupTable F dir open_stream (name, type) w = (Inr t, w1)" "backupTables F dir open_stream ts w1 = (Inr ms1, w')" "ms = t # ms1"
    using Cons.prems(1) x by (auto simp: wbind_Inr)
  note t = backupTable_file [OF assms b(1)]
  have IH: "map mtName ms1 = map fst ts" "\<forall>t \<in> set ms1. entry_ok v dir open_stream w' t"
    "\<forall>q. q \<notin> (\<lambda>t. Join [dir, fileName (fst t)]) ` set ts \<longrightarrow> fvNodes v w' q = fvNodes v w1 q"
    using Cons.IH [OF b(2)] Cons.prems(2,3) x by auto
  have "Join [dir, fileName name] \<notin> (\<lambda>t. Join [dir, fileName (fst t)]) ` set ts"
    using Cons.prems(2,3) x fileName_path [of name _ dir] by force
  then have "entry_ok v dir open_stream w' t" using t IH(3) by (simp add: entry_ok_def)
  then show ?case using b(3) t IH x by auto
qed simp

section \<open>The messages of a restoration\<close>

definition restoreMessages :: "disk \<Rightarrow> string \<Rightarrow> bytes \<Rightarrow> RestoreMessage list" where
  "restoreMessages D name dat = RestoreInfo (nameBytes name)
     # map (\<lambda>p. RestoreChunk \<lparr>scData = p, scLen = of_nat (length p)\<rparr>) (dkReads D defaultSnapshotChunkSize dat)"

text \<open>The server called once for each table, until a call fails.\<close>

fun callAll :: "('m \<Rightarrow> 's \<Rightarrow> ((string + unit) \<times> 's) option) \<Rightarrow> 'm list \<Rightarrow> 's \<Rightarrow> ((bk_error + unit) \<times> 's) option" where
  "callAll call [] s = Some (Inr (), s)"
| "callAll call (m # ms) s =
     (case call m s of None \<Rightarrow> None | Some (Inl e, s) \<Rightarrow> Some (Inl (BkRpc e), s) | Some (Inr _, s) \<Rightarrow> callAll call ms s)"

lemma sendPieces_sends:
  "sendPieces (\<lambda>_ _. None) ps sent = (Inr (), sent @ map (\<lambda>p. RestoreChunk \<lparr>scData = p, scLen = of_nat (length p)\<rparr>) ps)"
  by (induction ps arbitrary: sent) (simp_all add: backup_Writer_Write_def send_msg_def)

lemma restoreTable_calls:
  assumes "vfReadAll F w (Join [dir, mtFileName t]) = Inr dat" and "mtMD5 t = EncodeToString (md5 dat)"
  shows "restoreTable F D dir (\<lambda>_ _. None) call w t s
    = map_option (\<lambda>(r, s). (case r of Inl e \<Rightarrow> Inl (BkRpc e) | Inr _ \<Rightarrow> Inr (), s)) (call (restoreMessages D (mtName t) dat) s)"
  using assms by (simp add: restoreTable_def sendPieces_sends send_msg_def restoreMessages_def)

lemma restoreTables_calls:
  assumes "\<forall>t \<in> set ts. vfReadAll F w (Join [dir, mtFileName t]) = Inr (dat t) \<and> mtMD5 t = EncodeToString (md5 (dat t))"
  shows "restoreTables F D dir (\<lambda>_ _. None) call w ts s = callAll call (map (\<lambda>t. restoreMessages D (mtName t) (dat t)) ts) s"
  using assms
proof (induction ts arbitrary: s)
  case (Cons t ts)
  have "restoreTable F D dir (\<lambda>_ _. None) call w t s
      = map_option (\<lambda>(r, s). (case r of Inl e \<Rightarrow> Inl (BkRpc e) | Inr _ \<Rightarrow> Inr (), s)) (call (restoreMessages D (mtName t) (dat t)) s)"
    using Cons.prems by (intro restoreTable_calls) simp_all
  then show ?case using Cons by (auto split: option.splits sum.splits)
qed simp

text \<open>A file that is not what was backed up is noticed before anything of it is sent.\<close>

lemma restoreTable_corrupted:
  assumes "vfReadAll F w (Join [dir, mtFileName t]) = Inr dat" and "mtMD5 t \<noteq> EncodeToString (md5 dat)"
  shows "restoreTable F D dir sendTo call w t s = Some (Inl (BkCorrupted (mtName t) (mtFileName t)), s)"
  using assms by (simp add: restoreTable_def)

section \<open>Properties\<close>

text \<open>
  C17: a backup restores the cluster. If a backup of the tables succeeds and the manifest's text reads back,
  a restoration from its directory, over files that can be read and a stream that accepts every message, calls the server once for each table,
  in the order of their names, with the table's name and pieces of exactly the data that the table's stream
  delivered; a call that fails ends it with its error. No checksum fails.
\<close>

theorem Backup_then_Restore:
  assumes "fs_laws F v" and "jsParse J (jsText J (Manifest_Marshal m)) = Inr (Manifest_Marshal m)" and "distinct (map fst tables)" and "\<forall>name \<in> fst ` set tables. CHR ''/'' \<notin> set name"
    and "Backup_Backup F J dir started finished (Inr tables) open_stream w = (Inr m, w')"
    and "checkDir F w' dir = None" and "\<forall>p b. fvNodes v w' p = Some (FFile b) \<longrightarrow> vfReadAll F w' p = Inr b"
  shows "map mtName (mfTables m) = sort (map fst tables) \<and>
    Backup_Restore F J D dir (\<lambda>_ _. None) call w' s
      = callAll call (map (\<lambda>name. restoreMessages D name (delivered open_stream name)) (sort (map fst tables))) s"
proof -
  let ?p = "Join [dir, manifestFileName]"
  obtain ms w1 w2 w3 w4 where b: "backupTables F dir open_stream tables w = (Inr ms, w1)"
    and m: "m = \<lparr>mfStarted = started, mfFinished = finished, mfTables = sort_key mtName ms\<rparr>"
    and c: "vfCreate F w1 ?p = (Inr (), w2)" and wr: "vfWrite F w2 ?p (jsText J (Manifest_Marshal m)) = (Inr (), w3)"
    and sy: "vfSync F w3 ?p = (Inr (), w4)" and cl: "w' = snd (vfClose F w4 ?p)"
    using assms(5) by (auto simp: Backup_Backup_def Let_def wbind_Inr liftOs_Inr split: option.splits)
  note files = backupTables_files [OF assms(1) b assms(3,4)]
  have same: "fvNodes v w' q = fvNodes v w4 q" for q
    using fs_closeD(1) [OF assms(1), of w4 ?p "fst (vfClose F w4 ?p)" w'] cl by (simp add: elsewhere_def)
  have "fvNodes v w' ?p = Some (FFile (jsText J (Manifest_Marshal m)))"
    using same fs_syncD(2) [OF assms(1) sy] fs_writeD(2) [OF assms(1) wr refl fs_createD(2) [OF assms(1) c refl]] by simp
  then have man: "vfReadAll F w' ?p = Inr (jsText J (Manifest_Marshal m))" using assms(7) by blast
  have oth: "fvNodes v w' q = fvNodes v w1 q" if "q \<noteq> ?p" for q
    using that same elsewhere_others [OF fs_createD(1) [OF assms(1) c]] elsewhere_others [OF fs_writeD(1) [OF assms(1) wr]]
      elsewhere_others [OF fs_syncD(1) [OF assms(1) sy]] by simp
  have rd: "vfReadAll F w' (Join [dir, mtFileName t]) = Inr (delivered open_stream (mtName t)) \<and> mtMD5 t = EncodeToString (md5 (delivered open_stream (mtName t)))"
    if "t \<in> set ms" for t
  proof -
    have e: "entry_ok v dir open_stream w1 t" using files that by blast
    have "mtName t \<in> fst ` set tables" using files that by (metis image_eqI list.set_map)
    then have "Join [dir, mtFileName t] \<noteq> ?p" using manifest_path [of "mtName t" dir] assms(4) e by (simp add: entry_ok_def)
    from oth [OF this] have "fvNodes v w' (Join [dir, mtFileName t]) = Some (FFile (delivered open_stream (mtName t)))"
      using e unfolding entry_ok_def by metis
    then show ?thesis using e assms(7) unfolding entry_ok_def by metis
  qed
  have names: "map mtName (sort_key mtName ms) = sort (map fst tables)"
  proof (rule sorted_distinct_set_unique)
    have "distinct (map mtName ms)" "set (map mtName ms) = set (map fst tables)" using files assms(3) by (simp_all del: set_map)
    then show "distinct (map mtName (sort_key mtName ms))" "set (map mtName (sort_key mtName ms)) = set (sort (map fst tables))"
      by (simp_all add: distinct_map)
  qed (use assms(3) in simp_all)
  have "Backup_Restore F J D dir (\<lambda>_ _. None) call w' s = restoreTables F D dir (\<lambda>_ _. None) call w' (sort_key mtName ms) s"
    using assms(2,6) man m by (simp add: Backup_Restore_def Manifest_roundtrip)
  also have "\<dots> = callAll call (map (\<lambda>t. restoreMessages D (mtName t) (delivered open_stream (mtName t))) (sort_key mtName ms)) s"
    by (rule restoreTables_calls) (simp add: rd)
  also have "map (\<lambda>t. restoreMessages D (mtName t) (delivered open_stream (mtName t))) (sort_key mtName ms)
      = map (\<lambda>name. restoreMessages D name (delivered open_stream name)) (sort (map fst tables))"
    by (simp flip: names add: o_def)
  finally show ?thesis using names m by simp
qed

definition exManifest :: Manifest where
  "exManifest = \<lparr>mfStarted = 1, mfFinished = 2,
     mfTables = [\<lparr>mtName = ''t'', mtType = ''REPLICATED'', mtFileName = fileName ''t'', mtMD5 = EncodeToString (md5 [1, 2])\<rparr>]\<rparr>"

definition exCodec :: codec where
  "exCodec = \<lparr>jsText = \<lambda>d. [123, 125], jsParse = \<lambda>b. if b = [123, 125] then Inr (Manifest_Marshal exManifest) else Inl ''syntax error''\<rparr>"

definition exDirectory :: "(string \<times> fnode) list" where
  "exDirectory = [(Join [''d'', manifestFileName], FFile [123, 125]), (Join [''d'', manifestFileName], FFile []),
     (Join [''d'', fileName ''t''], FFile [1, 2]), (Join [''d'', fileName ''t''], FFile [1]), (Join [''d'', fileName ''t''], FFile []), (''d'', FDir)]"

definition exStream :: "(io_error + SnapshotChunk) list" where
  "exStream = [Inr \<lparr>scData = [1], scLen = 1\<rparr>, Inr \<lparr>scData = [2], scLen = 1\<rparr>]"

lemma exBackup:
  "Backup_Backup mem_fs exCodec ''d'' 1 2 (Inr [(''t'', ''REPLICATED'')]) (\<lambda>_. Inr exStream) [(''d'', FDir)] = (Inr exManifest, exDirectory)"
  by (simp add: Backup_Backup_def checkDir_def mem_fs_def backupTable_def liftOs_def exStream_def multiWrite_pair Let_def exManifest_def exCodec_def
      exDirectory_def)

theorem Backup_then_Restore_witness:
  "Backup_Backup mem_fs exCodec ''d'' 1 2 (Inr [(''t'', ''REPLICATED'')]) (\<lambda>_. Inr exStream) [(''d'', FDir)] = (Inr exManifest, exDirectory)
    \<and> Backup_Restore mem_fs exCodec exDisk ''d'' (\<lambda>_ _. None) (\<lambda>ms s. Some (Inr (), ms # s)) exDirectory []
      = Some (Inr (), [[RestoreInfo (nameBytes ''t''), RestoreChunk \<lparr>scData = [1, 2], scLen = 2\<rparr>]])"
proof -
  have d: "checkDir mem_fs exDirectory ''d'' = None"
  proof -
    have "Join [''d'', manifestFileName] \<noteq> ''d''" "Join [''d'', fileName ''t''] \<noteq> ''d''" by code_simp+
    then show ?thesis by (simp add: checkDir_def mem_fs_def exDirectory_def)
  qed
  have r: "\<forall>p b. fvNodes mem_view exDirectory p = Some (FFile b) \<longrightarrow> vfReadAll mem_fs exDirectory p = Inr b"
    by (simp add: mem_view_def mem_fs_def)
  have j: "jsParse exCodec (jsText exCodec (Manifest_Marshal exManifest)) = Inr (Manifest_Marshal exManifest)" by (simp add: exCodec_def)
  have "delivered (\<lambda>_. Inr exStream) ''t'' = [1, 2]" by (simp add: delivered_def exStream_def)
  with Backup_then_Restore [OF mem_fs_laws j _ _ exBackup d r, of exDisk "\<lambda>ms s. Some (Inr (), ms # s)" "[]"] exBackup
  show ?thesis by (simp add: restoreMessages_def exDisk_def)
qed

end
