(* ===== verification/Proto_Api.thy ===== *)
theory Proto_Api
  imports Active_Table
begin

text \<open>
  The messages of the key-value service (\<^verbatim>\<open>regattapb/regatta_vtproto.pb.go\<close>) on the wire: size,
  encoding and decoding, with their round trips. A field number that the decoder does not
  know goes to the message's unknown fields, as in the generated code.
\<close>

lemma api_tags [simp]: "is_tag [0x30] 6 0" "is_tag [0x38] 7 0" "is_tag [0x40] 8 0" "is_tag [0x50] 10 0"
  by (rule is_tag_single; simp add: wireFieldNum_def)+

lemma unat_of_nat_u64: "n < 2 ^ 64 \<Longrightarrow> unat (of_nat n :: u64) = n"
  by (simp add: unsigned_of_nat take_bit_nat_eq_self)

section \<open>ResponseHeader\<close>

definition ResponseHeader_SizeVT :: "ResponseHeader \<Rightarrow> nat" where
  "ResponseHeader_SizeVT m =
     sizeVarint (of_nat (hdShardId m))
     + sizeVarint (of_nat (hdReplicaId m))
     + sizeVarint (hdRevision m)
     + sizeVarint (hdRaftTerm m)
     + sizeVarint (hdRaftLeaderId m)
     + length (hdUnknown m)"

definition ResponseHeader_MarshalVT :: "ResponseHeader \<Rightarrow> bytes" where
  "ResponseHeader_MarshalVT m =
     (let d = hdUnknown m;
          d = optVarint [0x28] (hdRaftLeaderId m) d;
          d = optVarint [0x20] (hdRaftTerm m) d;
          d = optVarint [0x18] (hdRevision m) d;
          d = optVarint [0x10] (of_nat (hdReplicaId m)) d
      in optVarint [0x08] (of_nat (hdShardId m)) d)"

definition ResponseHeader_fields :: "int \<Rightarrow> ResponseHeader field option" where
  "ResponseHeader_fields fieldNum =
     (if fieldNum = 1 then Some (VarintField (\<lambda>v m. m\<lparr>hdShardId := unat v\<rparr>))
      else if fieldNum = 2 then Some (VarintField (\<lambda>v m. m\<lparr>hdReplicaId := unat v\<rparr>))
      else if fieldNum = 3 then Some (VarintField (\<lambda>v m. m\<lparr>hdRevision := v\<rparr>))
      else if fieldNum = 4 then Some (VarintField (\<lambda>v m. m\<lparr>hdRaftTerm := v\<rparr>))
      else if fieldNum = 5 then Some (VarintField (\<lambda>v m. m\<lparr>hdRaftLeaderId := v\<rparr>))
      else None)"

definition ResponseHeader_UnmarshalVT :: "bytes \<Rightarrow> ResponseHeader \<Rightarrow> proto_error + ResponseHeader" where
  "ResponseHeader_UnmarshalVT dAtA m =
     unmarshal_loop ResponseHeader_fields (\<lambda>b m. m\<lparr>hdUnknown := hdUnknown m @ b\<rparr>) (length dAtA) dAtA m"

lemma ResponseHeader_MarshalVT_length: "length (ResponseHeader_MarshalVT m) = ResponseHeader_SizeVT m"
  by (simp add: ResponseHeader_MarshalVT_def ResponseHeader_SizeVT_def length_opt Let_def)

definition ResponseHeader_wf :: "ResponseHeader \<Rightarrow> bool" where
  "ResponseHeader_wf m \<longleftrightarrow> hdUnknown m = []
     \<and> hdShardId m < 2 ^ 64
     \<and> hdReplicaId m < 2 ^ 64"

lemmas ResponseHeader_loop =
  loop_optVarint [where fields = ResponseHeader_fields and fn = 1 and f = "\<lambda>v m. m\<lparr>hdShardId := unat v\<rparr>"]
  loop_optVarint [where fields = ResponseHeader_fields and fn = 2 and f = "\<lambda>v m. m\<lparr>hdReplicaId := unat v\<rparr>"]
  loop_optVarint [where fields = ResponseHeader_fields and fn = 3 and f = "\<lambda>v m. m\<lparr>hdRevision := v\<rparr>"]
  loop_optVarint [where fields = ResponseHeader_fields and fn = 4 and f = "\<lambda>v m. m\<lparr>hdRaftTerm := v\<rparr>"]
  loop_optVarint [where fields = ResponseHeader_fields and fn = 5 and f = "\<lambda>v m. m\<lparr>hdRaftLeaderId := v\<rparr>"]

lemma ResponseHeader_UnmarshalVT_MarshalVT:
  assumes "ResponseHeader_wf m" and "ResponseHeader_SizeVT m < 2 ^ 63"
  shows "ResponseHeader_UnmarshalVT (ResponseHeader_MarshalVT m) emptyHeader = Inr m"
proof -
  have "length (ResponseHeader_MarshalVT m) < 2 ^ 63"
    using assms(2) by (simp add: ResponseHeader_MarshalVT_length)
  then show ?thesis
    using assms(1)
    by (simp add: ResponseHeader_UnmarshalVT_def ResponseHeader_MarshalVT_def Let_def ResponseHeader_loop
        ResponseHeader_fields_def emptyHeader_def ResponseHeader_wf_def unat_of_nat_u64)
qed

interpretation hdr: message_codec ResponseHeader_SizeVT ResponseHeader_MarshalVT ResponseHeader_UnmarshalVT
  emptyHeader ResponseHeader_wf
  by unfold_locales (simp_all add: ResponseHeader_MarshalVT_length ResponseHeader_UnmarshalVT_MarshalVT)

section \<open>Range\<close>

definition emptyRangeRequest :: RangeRequest where
  "emptyRangeRequest = \<lparr>rgTable = [], rgKey = [], rgRangeEnd = None, rgLimit = 0, rgLinearizable = False, rgKeysOnly = False, rgCountOnly = False,
     rgMinModRevision = 0, rgMaxModRevision = 0, rgMinCreateRevision = 0, rgMaxCreateRevision = 0, rgqUnknown = []\<rparr>"

definition RangeRequest_SizeVT :: "RangeRequest \<Rightarrow> nat" where
  "RangeRequest_SizeVT m =
     sizeBytes (rgTable m)
     + sizeBytes (rgKey m)
     + sizeBytes (slice (rgRangeEnd m))
     + sizeVarint (rgLimit m)
     + sizeBool (rgLinearizable m)
     + sizeBool (rgKeysOnly m)
     + sizeBool (rgCountOnly m)
     + sizeVarint (rgMinModRevision m)
     + sizeVarint (rgMaxModRevision m)
     + sizeVarint (rgMinCreateRevision m)
     + sizeVarint (rgMaxCreateRevision m)
     + length (rgqUnknown m)"

definition RangeRequest_MarshalVT :: "RangeRequest \<Rightarrow> bytes" where
  "RangeRequest_MarshalVT m =
     (let d = rgqUnknown m;
          d = optVarint [0x58] (rgMaxCreateRevision m) d;
          d = optVarint [0x50] (rgMinCreateRevision m) d;
          d = optVarint [0x48] (rgMaxModRevision m) d;
          d = optVarint [0x40] (rgMinModRevision m) d;
          d = optBool [0x38] (rgCountOnly m) d;
          d = optBool [0x30] (rgKeysOnly m) d;
          d = optBool [0x28] (rgLinearizable m) d;
          d = optVarint [0x20] (rgLimit m) d;
          d = optBytes [0x1a] (slice (rgRangeEnd m)) d;
          d = optBytes [0x12] (rgKey m) d
      in optBytes [0x0a] (rgTable m) d)"

definition RangeRequest_fields :: "int \<Rightarrow> RangeRequest field option" where
  "RangeRequest_fields fieldNum =
     (if fieldNum = 1 then Some (BytesField (\<lambda>b m. Inr (m\<lparr>rgTable := b\<rparr>)))
      else if fieldNum = 2 then Some (BytesField (\<lambda>b m. Inr (m\<lparr>rgKey := b\<rparr>)))
      else if fieldNum = 3 then Some (BytesField (\<lambda>b m. Inr (m\<lparr>rgRangeEnd := Some b\<rparr>)))
      else if fieldNum = 4 then Some (VarintField (\<lambda>v m. m\<lparr>rgLimit := v\<rparr>))
      else if fieldNum = 5 then Some (VarintField (\<lambda>v m. m\<lparr>rgLinearizable := v \<noteq> 0\<rparr>))
      else if fieldNum = 6 then Some (VarintField (\<lambda>v m. m\<lparr>rgKeysOnly := v \<noteq> 0\<rparr>))
      else if fieldNum = 7 then Some (VarintField (\<lambda>v m. m\<lparr>rgCountOnly := v \<noteq> 0\<rparr>))
      else if fieldNum = 8 then Some (VarintField (\<lambda>v m. m\<lparr>rgMinModRevision := v\<rparr>))
      else if fieldNum = 9 then Some (VarintField (\<lambda>v m. m\<lparr>rgMaxModRevision := v\<rparr>))
      else if fieldNum = 10 then Some (VarintField (\<lambda>v m. m\<lparr>rgMinCreateRevision := v\<rparr>))
      else if fieldNum = 11 then Some (VarintField (\<lambda>v m. m\<lparr>rgMaxCreateRevision := v\<rparr>))
      else None)"

definition RangeRequest_UnmarshalVT :: "bytes \<Rightarrow> RangeRequest \<Rightarrow> proto_error + RangeRequest" where
  "RangeRequest_UnmarshalVT dAtA m =
     unmarshal_loop RangeRequest_fields (\<lambda>b m. m\<lparr>rgqUnknown := rgqUnknown m @ b\<rparr>) (length dAtA) dAtA m"

lemma RangeRequest_MarshalVT_length: "length (RangeRequest_MarshalVT m) = RangeRequest_SizeVT m"
  by (simp add: RangeRequest_MarshalVT_def RangeRequest_SizeVT_def length_opt Let_def)

definition RangeRequest_wf :: "RangeRequest \<Rightarrow> bool" where
  "RangeRequest_wf m \<longleftrightarrow> rgqUnknown m = []
     \<and> rgRangeEnd m \<noteq> Some []"

lemmas RangeRequest_loop =
  loop_optBytes [where fields = RangeRequest_fields and fn = 1 and f = "\<lambda>b m. m\<lparr>rgTable := b\<rparr>"]
  loop_optBytes [where fields = RangeRequest_fields and fn = 2 and f = "\<lambda>b m. m\<lparr>rgKey := b\<rparr>"]
  loop_optSlice [where fields = RangeRequest_fields and fn = 3 and f = "\<lambda>b m. m\<lparr>rgRangeEnd := b\<rparr>"]
  loop_optVarint [where fields = RangeRequest_fields and fn = 4 and f = "\<lambda>v m. m\<lparr>rgLimit := v\<rparr>"]
  loop_optBool [where fields = RangeRequest_fields and fn = 5 and f = "\<lambda>v m. m\<lparr>rgLinearizable := v \<noteq> 0\<rparr>"]
  loop_optBool [where fields = RangeRequest_fields and fn = 6 and f = "\<lambda>v m. m\<lparr>rgKeysOnly := v \<noteq> 0\<rparr>"]
  loop_optBool [where fields = RangeRequest_fields and fn = 7 and f = "\<lambda>v m. m\<lparr>rgCountOnly := v \<noteq> 0\<rparr>"]
  loop_optVarint [where fields = RangeRequest_fields and fn = 8 and f = "\<lambda>v m. m\<lparr>rgMinModRevision := v\<rparr>"]
  loop_optVarint [where fields = RangeRequest_fields and fn = 9 and f = "\<lambda>v m. m\<lparr>rgMaxModRevision := v\<rparr>"]
  loop_optVarint [where fields = RangeRequest_fields and fn = 10 and f = "\<lambda>v m. m\<lparr>rgMinCreateRevision := v\<rparr>"]
  loop_optVarint [where fields = RangeRequest_fields and fn = 11 and f = "\<lambda>v m. m\<lparr>rgMaxCreateRevision := v\<rparr>"]

lemma RangeRequest_UnmarshalVT_MarshalVT:
  assumes "RangeRequest_wf m" and "RangeRequest_SizeVT m < 2 ^ 63"
  shows "RangeRequest_UnmarshalVT (RangeRequest_MarshalVT m) emptyRangeRequest = Inr m"
proof -
  have "length (RangeRequest_MarshalVT m) < 2 ^ 63"
    using assms(2) by (simp add: RangeRequest_MarshalVT_length)
  moreover have "sizeBytes (rgTable m) < 2 ^ 63"
    "sizeBytes (rgKey m) < 2 ^ 63"
    "sizeBytes (slice (rgRangeEnd m)) < 2 ^ 63"
    using assms(2) by (simp_all add: RangeRequest_SizeVT_def)
  ultimately show ?thesis
    using assms(1)
    by (simp add: RangeRequest_UnmarshalVT_def RangeRequest_MarshalVT_def Let_def RangeRequest_loop
        RangeRequest_fields_def emptyRangeRequest_def RangeRequest_wf_def)
qed

interpretation rgq: message_codec RangeRequest_SizeVT RangeRequest_MarshalVT RangeRequest_UnmarshalVT
  emptyRangeRequest RangeRequest_wf
  by unfold_locales (simp_all add: RangeRequest_MarshalVT_length RangeRequest_UnmarshalVT_MarshalVT)

definition emptyRangeResponse :: RangeResponse where
  "emptyRangeResponse = \<lparr>rgHeader = None, rgKvs = [], rgMore = False, rgCount = 0, rgrUnknown = []\<rparr>"

definition RangeResponse_SizeVT :: "RangeResponse \<Rightarrow> nat" where
  "RangeResponse_SizeVT m =
     sizePresentBytes (map_option ResponseHeader_SizeVT (rgHeader m))
     + sizeRepeated 1 KeyValue_SizeVT (rgKvs m)
     + sizeBool (rgMore m)
     + sizeVarint (rgCount m)
     + length (rgrUnknown m)"

definition RangeResponse_MarshalVT :: "RangeResponse \<Rightarrow> bytes" where
  "RangeResponse_MarshalVT m =
     (let d = rgrUnknown m;
          d = optVarint [0x28] (rgCount m) d;
          d = optBool [0x20] (rgMore m) d;
          d = putRepeated [0x1a] KeyValue_MarshalVT (rgKvs m) d
      in presentMessage [0x0a] ResponseHeader_MarshalVT (rgHeader m) d)"

definition RangeResponse_fields :: "int \<Rightarrow> RangeResponse field option" where
  "RangeResponse_fields fieldNum =
     (if fieldNum = 1 then Some (BytesField (\<lambda>b m.
          rbind (ResponseHeader_UnmarshalVT b (case rgHeader m of None \<Rightarrow> emptyHeader | Some x \<Rightarrow> x)) (\<lambda>v. Inr (m\<lparr>rgHeader := Some v\<rparr>))))
      else if fieldNum = 3 then Some (BytesField (\<lambda>b m.
          rbind (KeyValue_UnmarshalVT b emptyKeyValue) (\<lambda>v. Inr (m\<lparr>rgKvs := rgKvs m @ [v]\<rparr>))))
      else if fieldNum = 4 then Some (VarintField (\<lambda>v m. m\<lparr>rgMore := v \<noteq> 0\<rparr>))
      else if fieldNum = 5 then Some (VarintField (\<lambda>v m. m\<lparr>rgCount := v\<rparr>))
      else None)"

definition RangeResponse_UnmarshalVT :: "bytes \<Rightarrow> RangeResponse \<Rightarrow> proto_error + RangeResponse" where
  "RangeResponse_UnmarshalVT dAtA m =
     unmarshal_loop RangeResponse_fields (\<lambda>b m. m\<lparr>rgrUnknown := rgrUnknown m @ b\<rparr>) (length dAtA) dAtA m"

lemma RangeResponse_MarshalVT_length: "length (RangeResponse_MarshalVT m) = RangeResponse_SizeVT m"
  by (simp add: RangeResponse_MarshalVT_def RangeResponse_SizeVT_def length_opt Let_def hdr.size_message kv.size_repeated)

definition RangeResponse_wf :: "RangeResponse \<Rightarrow> bool" where
  "RangeResponse_wf m \<longleftrightarrow> rgrUnknown m = []
     \<and> pred_option ResponseHeader_wf (rgHeader m)
     \<and> list_all KeyValue_wf (rgKvs m)"

lemmas RangeResponse_loop =
  hdr.loop_message [where fields = RangeResponse_fields and fn = 1 and store = "\<lambda>x m. m\<lparr>rgHeader := x\<rparr>"]
  kv.loop_repeated [where fields = RangeResponse_fields and fn = 3 and n = 1 and add = "\<lambda>x m. m\<lparr>rgKvs := rgKvs m @ [x]\<rparr>"]
  loop_optBool [where fields = RangeResponse_fields and fn = 4 and f = "\<lambda>v m. m\<lparr>rgMore := v \<noteq> 0\<rparr>"]
  loop_optVarint [where fields = RangeResponse_fields and fn = 5 and f = "\<lambda>v m. m\<lparr>rgCount := v\<rparr>"]

lemma RangeResponse_fold_rgKvs [simp]:
  "fold (\<lambda>x m. m\<lparr>rgKvs := rgKvs m @ [x]\<rparr>) xs m = m\<lparr>rgKvs := rgKvs m @ xs\<rparr>"
  by (induction xs arbitrary: m) simp_all

lemma RangeResponse_UnmarshalVT_MarshalVT:
  assumes "RangeResponse_wf m" and "RangeResponse_SizeVT m < 2 ^ 63"
  shows "RangeResponse_UnmarshalVT (RangeResponse_MarshalVT m) emptyRangeResponse = Inr m"
proof -
  have "length (RangeResponse_MarshalVT m) < 2 ^ 63"
    using assms(2) by (simp add: RangeResponse_MarshalVT_length)
  moreover have "sizePresentBytes (map_option ResponseHeader_SizeVT (rgHeader m)) < 2 ^ 63"
    "sizeRepeated 1 KeyValue_SizeVT (rgKvs m) < 2 ^ 63"
    using assms(2) by (simp_all add: RangeResponse_SizeVT_def)
  ultimately show ?thesis
    using assms(1)
    by (simp add: RangeResponse_UnmarshalVT_def RangeResponse_MarshalVT_def Let_def RangeResponse_loop
        RangeResponse_fields_def emptyRangeResponse_def RangeResponse_wf_def)
qed

interpretation rgp: message_codec RangeResponse_SizeVT RangeResponse_MarshalVT RangeResponse_UnmarshalVT
  emptyRangeResponse RangeResponse_wf
  by unfold_locales (simp_all add: RangeResponse_MarshalVT_length RangeResponse_UnmarshalVT_MarshalVT)

section \<open>Put\<close>

definition emptyPutRequest :: PutRequest where
  "emptyPutRequest = \<lparr>puTable = [], puKey = [], puValue = [], puPrevKv = False, puqUnknown = []\<rparr>"

definition PutRequest_SizeVT :: "PutRequest \<Rightarrow> nat" where
  "PutRequest_SizeVT m =
     sizeBytes (puTable m)
     + sizeBytes (puKey m)
     + sizeBytes (puValue m)
     + sizeBool (puPrevKv m)
     + length (puqUnknown m)"

definition PutRequest_MarshalVT :: "PutRequest \<Rightarrow> bytes" where
  "PutRequest_MarshalVT m =
     (let d = puqUnknown m;
          d = optBool [0x20] (puPrevKv m) d;
          d = optBytes [0x1a] (puValue m) d;
          d = optBytes [0x12] (puKey m) d
      in optBytes [0x0a] (puTable m) d)"

definition PutRequest_fields :: "int \<Rightarrow> PutRequest field option" where
  "PutRequest_fields fieldNum =
     (if fieldNum = 1 then Some (BytesField (\<lambda>b m. Inr (m\<lparr>puTable := b\<rparr>)))
      else if fieldNum = 2 then Some (BytesField (\<lambda>b m. Inr (m\<lparr>puKey := b\<rparr>)))
      else if fieldNum = 3 then Some (BytesField (\<lambda>b m. Inr (m\<lparr>puValue := b\<rparr>)))
      else if fieldNum = 4 then Some (VarintField (\<lambda>v m. m\<lparr>puPrevKv := v \<noteq> 0\<rparr>))
      else None)"

definition PutRequest_UnmarshalVT :: "bytes \<Rightarrow> PutRequest \<Rightarrow> proto_error + PutRequest" where
  "PutRequest_UnmarshalVT dAtA m =
     unmarshal_loop PutRequest_fields (\<lambda>b m. m\<lparr>puqUnknown := puqUnknown m @ b\<rparr>) (length dAtA) dAtA m"

lemma PutRequest_MarshalVT_length: "length (PutRequest_MarshalVT m) = PutRequest_SizeVT m"
  by (simp add: PutRequest_MarshalVT_def PutRequest_SizeVT_def length_opt Let_def)

definition PutRequest_wf :: "PutRequest \<Rightarrow> bool" where
  "PutRequest_wf m \<longleftrightarrow> puqUnknown m = []"

lemmas PutRequest_loop =
  loop_optBytes [where fields = PutRequest_fields and fn = 1 and f = "\<lambda>b m. m\<lparr>puTable := b\<rparr>"]
  loop_optBytes [where fields = PutRequest_fields and fn = 2 and f = "\<lambda>b m. m\<lparr>puKey := b\<rparr>"]
  loop_optBytes [where fields = PutRequest_fields and fn = 3 and f = "\<lambda>b m. m\<lparr>puValue := b\<rparr>"]
  loop_optBool [where fields = PutRequest_fields and fn = 4 and f = "\<lambda>v m. m\<lparr>puPrevKv := v \<noteq> 0\<rparr>"]

lemma PutRequest_UnmarshalVT_MarshalVT:
  assumes "PutRequest_wf m" and "PutRequest_SizeVT m < 2 ^ 63"
  shows "PutRequest_UnmarshalVT (PutRequest_MarshalVT m) emptyPutRequest = Inr m"
proof -
  have "length (PutRequest_MarshalVT m) < 2 ^ 63"
    using assms(2) by (simp add: PutRequest_MarshalVT_length)
  moreover have "sizeBytes (puTable m) < 2 ^ 63"
    "sizeBytes (puKey m) < 2 ^ 63"
    "sizeBytes (puValue m) < 2 ^ 63"
    using assms(2) by (simp_all add: PutRequest_SizeVT_def)
  ultimately show ?thesis
    using assms(1)
    by (simp add: PutRequest_UnmarshalVT_def PutRequest_MarshalVT_def Let_def PutRequest_loop
        PutRequest_fields_def emptyPutRequest_def PutRequest_wf_def)
qed

interpretation puq: message_codec PutRequest_SizeVT PutRequest_MarshalVT PutRequest_UnmarshalVT
  emptyPutRequest PutRequest_wf
  by unfold_locales (simp_all add: PutRequest_MarshalVT_length PutRequest_UnmarshalVT_MarshalVT)

definition emptyPutResponse :: PutResponse where
  "emptyPutResponse = \<lparr>puHeader = None, puPrev = None, pupUnknown = []\<rparr>"

definition PutResponse_SizeVT :: "PutResponse \<Rightarrow> nat" where
  "PutResponse_SizeVT m =
     sizePresentBytes (map_option ResponseHeader_SizeVT (puHeader m))
     + sizePresentBytes (map_option KeyValue_SizeVT (puPrev m))
     + length (pupUnknown m)"

definition PutResponse_MarshalVT :: "PutResponse \<Rightarrow> bytes" where
  "PutResponse_MarshalVT m =
     (let d = pupUnknown m;
          d = presentMessage [0x12] KeyValue_MarshalVT (puPrev m) d
      in presentMessage [0x0a] ResponseHeader_MarshalVT (puHeader m) d)"

definition PutResponse_fields :: "int \<Rightarrow> PutResponse field option" where
  "PutResponse_fields fieldNum =
     (if fieldNum = 1 then Some (BytesField (\<lambda>b m.
          rbind (ResponseHeader_UnmarshalVT b (case puHeader m of None \<Rightarrow> emptyHeader | Some x \<Rightarrow> x)) (\<lambda>v. Inr (m\<lparr>puHeader := Some v\<rparr>))))
      else if fieldNum = 2 then Some (BytesField (\<lambda>b m.
          rbind (KeyValue_UnmarshalVT b (case puPrev m of None \<Rightarrow> emptyKeyValue | Some x \<Rightarrow> x)) (\<lambda>v. Inr (m\<lparr>puPrev := Some v\<rparr>))))
      else None)"

definition PutResponse_UnmarshalVT :: "bytes \<Rightarrow> PutResponse \<Rightarrow> proto_error + PutResponse" where
  "PutResponse_UnmarshalVT dAtA m =
     unmarshal_loop PutResponse_fields (\<lambda>b m. m\<lparr>pupUnknown := pupUnknown m @ b\<rparr>) (length dAtA) dAtA m"

lemma PutResponse_MarshalVT_length: "length (PutResponse_MarshalVT m) = PutResponse_SizeVT m"
  by (simp add: PutResponse_MarshalVT_def PutResponse_SizeVT_def length_opt Let_def hdr.size_message kv.size_message)

definition PutResponse_wf :: "PutResponse \<Rightarrow> bool" where
  "PutResponse_wf m \<longleftrightarrow> pupUnknown m = []
     \<and> pred_option ResponseHeader_wf (puHeader m)
     \<and> pred_option KeyValue_wf (puPrev m)"

lemmas PutResponse_loop =
  hdr.loop_message [where fields = PutResponse_fields and fn = 1 and store = "\<lambda>x m. m\<lparr>puHeader := x\<rparr>"]
  kv.loop_message [where fields = PutResponse_fields and fn = 2 and store = "\<lambda>x m. m\<lparr>puPrev := x\<rparr>"]

lemma PutResponse_UnmarshalVT_MarshalVT:
  assumes "PutResponse_wf m" and "PutResponse_SizeVT m < 2 ^ 63"
  shows "PutResponse_UnmarshalVT (PutResponse_MarshalVT m) emptyPutResponse = Inr m"
proof -
  have "length (PutResponse_MarshalVT m) < 2 ^ 63"
    using assms(2) by (simp add: PutResponse_MarshalVT_length)
  moreover have "sizePresentBytes (map_option ResponseHeader_SizeVT (puHeader m)) < 2 ^ 63"
    "sizePresentBytes (map_option KeyValue_SizeVT (puPrev m)) < 2 ^ 63"
    using assms(2) by (simp_all add: PutResponse_SizeVT_def)
  ultimately show ?thesis
    using assms(1)
    by (simp add: PutResponse_UnmarshalVT_def PutResponse_MarshalVT_def Let_def PutResponse_loop
        PutResponse_fields_def emptyPutResponse_def PutResponse_wf_def)
qed

interpretation pup: message_codec PutResponse_SizeVT PutResponse_MarshalVT PutResponse_UnmarshalVT
  emptyPutResponse PutResponse_wf
  by unfold_locales (simp_all add: PutResponse_MarshalVT_length PutResponse_UnmarshalVT_MarshalVT)

section \<open>DeleteRange\<close>

definition emptyDeleteRangeRequest :: DeleteRangeRequest where
  "emptyDeleteRangeRequest = \<lparr>deTable = [], deKey = [], deRangeEnd = None, dePrevKv = False, deCount = False, deqUnknown = []\<rparr>"

definition DeleteRangeRequest_SizeVT :: "DeleteRangeRequest \<Rightarrow> nat" where
  "DeleteRangeRequest_SizeVT m =
     sizeBytes (deTable m)
     + sizeBytes (deKey m)
     + sizeBytes (slice (deRangeEnd m))
     + sizeBool (dePrevKv m)
     + sizeBool (deCount m)
     + length (deqUnknown m)"

definition DeleteRangeRequest_MarshalVT :: "DeleteRangeRequest \<Rightarrow> bytes" where
  "DeleteRangeRequest_MarshalVT m =
     (let d = deqUnknown m;
          d = optBool [0x28] (deCount m) d;
          d = optBool [0x20] (dePrevKv m) d;
          d = optBytes [0x1a] (slice (deRangeEnd m)) d;
          d = optBytes [0x12] (deKey m) d
      in optBytes [0x0a] (deTable m) d)"

definition DeleteRangeRequest_fields :: "int \<Rightarrow> DeleteRangeRequest field option" where
  "DeleteRangeRequest_fields fieldNum =
     (if fieldNum = 1 then Some (BytesField (\<lambda>b m. Inr (m\<lparr>deTable := b\<rparr>)))
      else if fieldNum = 2 then Some (BytesField (\<lambda>b m. Inr (m\<lparr>deKey := b\<rparr>)))
      else if fieldNum = 3 then Some (BytesField (\<lambda>b m. Inr (m\<lparr>deRangeEnd := Some b\<rparr>)))
      else if fieldNum = 4 then Some (VarintField (\<lambda>v m. m\<lparr>dePrevKv := v \<noteq> 0\<rparr>))
      else if fieldNum = 5 then Some (VarintField (\<lambda>v m. m\<lparr>deCount := v \<noteq> 0\<rparr>))
      else None)"

definition DeleteRangeRequest_UnmarshalVT :: "bytes \<Rightarrow> DeleteRangeRequest \<Rightarrow> proto_error + DeleteRangeRequest" where
  "DeleteRangeRequest_UnmarshalVT dAtA m =
     unmarshal_loop DeleteRangeRequest_fields (\<lambda>b m. m\<lparr>deqUnknown := deqUnknown m @ b\<rparr>) (length dAtA) dAtA m"

lemma DeleteRangeRequest_MarshalVT_length: "length (DeleteRangeRequest_MarshalVT m) = DeleteRangeRequest_SizeVT m"
  by (simp add: DeleteRangeRequest_MarshalVT_def DeleteRangeRequest_SizeVT_def length_opt Let_def)

definition DeleteRangeRequest_wf :: "DeleteRangeRequest \<Rightarrow> bool" where
  "DeleteRangeRequest_wf m \<longleftrightarrow> deqUnknown m = []
     \<and> deRangeEnd m \<noteq> Some []"

lemmas DeleteRangeRequest_loop =
  loop_optBytes [where fields = DeleteRangeRequest_fields and fn = 1 and f = "\<lambda>b m. m\<lparr>deTable := b\<rparr>"]
  loop_optBytes [where fields = DeleteRangeRequest_fields and fn = 2 and f = "\<lambda>b m. m\<lparr>deKey := b\<rparr>"]
  loop_optSlice [where fields = DeleteRangeRequest_fields and fn = 3 and f = "\<lambda>b m. m\<lparr>deRangeEnd := b\<rparr>"]
  loop_optBool [where fields = DeleteRangeRequest_fields and fn = 4 and f = "\<lambda>v m. m\<lparr>dePrevKv := v \<noteq> 0\<rparr>"]
  loop_optBool [where fields = DeleteRangeRequest_fields and fn = 5 and f = "\<lambda>v m. m\<lparr>deCount := v \<noteq> 0\<rparr>"]

lemma DeleteRangeRequest_UnmarshalVT_MarshalVT:
  assumes "DeleteRangeRequest_wf m" and "DeleteRangeRequest_SizeVT m < 2 ^ 63"
  shows "DeleteRangeRequest_UnmarshalVT (DeleteRangeRequest_MarshalVT m) emptyDeleteRangeRequest = Inr m"
proof -
  have "length (DeleteRangeRequest_MarshalVT m) < 2 ^ 63"
    using assms(2) by (simp add: DeleteRangeRequest_MarshalVT_length)
  moreover have "sizeBytes (deTable m) < 2 ^ 63"
    "sizeBytes (deKey m) < 2 ^ 63"
    "sizeBytes (slice (deRangeEnd m)) < 2 ^ 63"
    using assms(2) by (simp_all add: DeleteRangeRequest_SizeVT_def)
  ultimately show ?thesis
    using assms(1)
    by (simp add: DeleteRangeRequest_UnmarshalVT_def DeleteRangeRequest_MarshalVT_def Let_def DeleteRangeRequest_loop
        DeleteRangeRequest_fields_def emptyDeleteRangeRequest_def DeleteRangeRequest_wf_def)
qed

interpretation deq: message_codec DeleteRangeRequest_SizeVT DeleteRangeRequest_MarshalVT DeleteRangeRequest_UnmarshalVT
  emptyDeleteRangeRequest DeleteRangeRequest_wf
  by unfold_locales (simp_all add: DeleteRangeRequest_MarshalVT_length DeleteRangeRequest_UnmarshalVT_MarshalVT)

definition emptyDeleteRangeResponse :: DeleteRangeResponse where
  "emptyDeleteRangeResponse = \<lparr>deHeader = None, deDeleted = 0, dePrevKvs = [], depUnknown = []\<rparr>"

definition DeleteRangeResponse_SizeVT :: "DeleteRangeResponse \<Rightarrow> nat" where
  "DeleteRangeResponse_SizeVT m =
     sizePresentBytes (map_option ResponseHeader_SizeVT (deHeader m))
     + sizeVarint (deDeleted m)
     + sizeRepeated 1 KeyValue_SizeVT (dePrevKvs m)
     + length (depUnknown m)"

definition DeleteRangeResponse_MarshalVT :: "DeleteRangeResponse \<Rightarrow> bytes" where
  "DeleteRangeResponse_MarshalVT m =
     (let d = depUnknown m;
          d = putRepeated [0x1a] KeyValue_MarshalVT (dePrevKvs m) d;
          d = optVarint [0x10] (deDeleted m) d
      in presentMessage [0x0a] ResponseHeader_MarshalVT (deHeader m) d)"

definition DeleteRangeResponse_fields :: "int \<Rightarrow> DeleteRangeResponse field option" where
  "DeleteRangeResponse_fields fieldNum =
     (if fieldNum = 1 then Some (BytesField (\<lambda>b m.
          rbind (ResponseHeader_UnmarshalVT b (case deHeader m of None \<Rightarrow> emptyHeader | Some x \<Rightarrow> x)) (\<lambda>v. Inr (m\<lparr>deHeader := Some v\<rparr>))))
      else if fieldNum = 2 then Some (VarintField (\<lambda>v m. m\<lparr>deDeleted := v\<rparr>))
      else if fieldNum = 3 then Some (BytesField (\<lambda>b m.
          rbind (KeyValue_UnmarshalVT b emptyKeyValue) (\<lambda>v. Inr (m\<lparr>dePrevKvs := dePrevKvs m @ [v]\<rparr>))))
      else None)"

definition DeleteRangeResponse_UnmarshalVT :: "bytes \<Rightarrow> DeleteRangeResponse \<Rightarrow> proto_error + DeleteRangeResponse" where
  "DeleteRangeResponse_UnmarshalVT dAtA m =
     unmarshal_loop DeleteRangeResponse_fields (\<lambda>b m. m\<lparr>depUnknown := depUnknown m @ b\<rparr>) (length dAtA) dAtA m"

lemma DeleteRangeResponse_MarshalVT_length: "length (DeleteRangeResponse_MarshalVT m) = DeleteRangeResponse_SizeVT m"
  by (simp add: DeleteRangeResponse_MarshalVT_def DeleteRangeResponse_SizeVT_def length_opt Let_def hdr.size_message kv.size_repeated)

definition DeleteRangeResponse_wf :: "DeleteRangeResponse \<Rightarrow> bool" where
  "DeleteRangeResponse_wf m \<longleftrightarrow> depUnknown m = []
     \<and> pred_option ResponseHeader_wf (deHeader m)
     \<and> list_all KeyValue_wf (dePrevKvs m)"

lemmas DeleteRangeResponse_loop =
  hdr.loop_message [where fields = DeleteRangeResponse_fields and fn = 1 and store = "\<lambda>x m. m\<lparr>deHeader := x\<rparr>"]
  loop_optVarint [where fields = DeleteRangeResponse_fields and fn = 2 and f = "\<lambda>v m. m\<lparr>deDeleted := v\<rparr>"]
  kv.loop_repeated [where fields = DeleteRangeResponse_fields and fn = 3 and n = 1 and add = "\<lambda>x m. m\<lparr>dePrevKvs := dePrevKvs m @ [x]\<rparr>"]

lemma DeleteRangeResponse_fold_dePrevKvs [simp]:
  "fold (\<lambda>x m. m\<lparr>dePrevKvs := dePrevKvs m @ [x]\<rparr>) xs m = m\<lparr>dePrevKvs := dePrevKvs m @ xs\<rparr>"
  by (induction xs arbitrary: m) simp_all

lemma DeleteRangeResponse_UnmarshalVT_MarshalVT:
  assumes "DeleteRangeResponse_wf m" and "DeleteRangeResponse_SizeVT m < 2 ^ 63"
  shows "DeleteRangeResponse_UnmarshalVT (DeleteRangeResponse_MarshalVT m) emptyDeleteRangeResponse = Inr m"
proof -
  have "length (DeleteRangeResponse_MarshalVT m) < 2 ^ 63"
    using assms(2) by (simp add: DeleteRangeResponse_MarshalVT_length)
  moreover have "sizePresentBytes (map_option ResponseHeader_SizeVT (deHeader m)) < 2 ^ 63"
    "sizeRepeated 1 KeyValue_SizeVT (dePrevKvs m) < 2 ^ 63"
    using assms(2) by (simp_all add: DeleteRangeResponse_SizeVT_def)
  ultimately show ?thesis
    using assms(1)
    by (simp add: DeleteRangeResponse_UnmarshalVT_def DeleteRangeResponse_MarshalVT_def Let_def DeleteRangeResponse_loop
        DeleteRangeResponse_fields_def emptyDeleteRangeResponse_def DeleteRangeResponse_wf_def)
qed

interpretation dep: message_codec DeleteRangeResponse_SizeVT DeleteRangeResponse_MarshalVT DeleteRangeResponse_UnmarshalVT
  emptyDeleteRangeResponse DeleteRangeResponse_wf
  by unfold_locales (simp_all add: DeleteRangeResponse_MarshalVT_length DeleteRangeResponse_UnmarshalVT_MarshalVT)

section \<open>Txn\<close>

definition emptyTxnRequest :: TxnRequest where
  "emptyTxnRequest = \<lparr>trTable = [], trCompare = [], trSuccess = [], trFailure = [], trUnknown = []\<rparr>"

definition TxnRequest_SizeVT :: "TxnRequest \<Rightarrow> nat" where
  "TxnRequest_SizeVT m =
     sizeBytes (trTable m)
     + sizeRepeated 1 Compare_SizeVT (trCompare m)
     + sizeRepeated 1 RequestOp_SizeVT (trSuccess m)
     + sizeRepeated 1 RequestOp_SizeVT (trFailure m)
     + length (trUnknown m)"

definition TxnRequest_MarshalVT :: "TxnRequest \<Rightarrow> bytes" where
  "TxnRequest_MarshalVT m =
     (let d = trUnknown m;
          d = putRepeated [0x22] RequestOp_MarshalVT (trFailure m) d;
          d = putRepeated [0x1a] RequestOp_MarshalVT (trSuccess m) d;
          d = putRepeated [0x12] Compare_MarshalVT (trCompare m) d
      in optBytes [0x0a] (trTable m) d)"

definition TxnRequest_fields :: "int \<Rightarrow> TxnRequest field option" where
  "TxnRequest_fields fieldNum =
     (if fieldNum = 1 then Some (BytesField (\<lambda>b m. Inr (m\<lparr>trTable := b\<rparr>)))
      else if fieldNum = 2 then Some (BytesField (\<lambda>b m.
          rbind (Compare_UnmarshalVT b emptyCompare) (\<lambda>v. Inr (m\<lparr>trCompare := trCompare m @ [v]\<rparr>))))
      else if fieldNum = 3 then Some (BytesField (\<lambda>b m.
          rbind (RequestOp_UnmarshalVT b emptyRequestOp) (\<lambda>v. Inr (m\<lparr>trSuccess := trSuccess m @ [v]\<rparr>))))
      else if fieldNum = 4 then Some (BytesField (\<lambda>b m.
          rbind (RequestOp_UnmarshalVT b emptyRequestOp) (\<lambda>v. Inr (m\<lparr>trFailure := trFailure m @ [v]\<rparr>))))
      else None)"

definition TxnRequest_UnmarshalVT :: "bytes \<Rightarrow> TxnRequest \<Rightarrow> proto_error + TxnRequest" where
  "TxnRequest_UnmarshalVT dAtA m =
     unmarshal_loop TxnRequest_fields (\<lambda>b m. m\<lparr>trUnknown := trUnknown m @ b\<rparr>) (length dAtA) dAtA m"

lemma TxnRequest_MarshalVT_length: "length (TxnRequest_MarshalVT m) = TxnRequest_SizeVT m"
  by (simp add: TxnRequest_MarshalVT_def TxnRequest_SizeVT_def length_opt Let_def cm.size_repeated ro.size_repeated)

definition TxnRequest_wf :: "TxnRequest \<Rightarrow> bool" where
  "TxnRequest_wf m \<longleftrightarrow> trUnknown m = []
     \<and> list_all Compare_wf (trCompare m)
     \<and> list_all RequestOp_wf (trSuccess m)
     \<and> list_all RequestOp_wf (trFailure m)"

lemmas TxnRequest_loop =
  loop_optBytes [where fields = TxnRequest_fields and fn = 1 and f = "\<lambda>b m. m\<lparr>trTable := b\<rparr>"]
  cm.loop_repeated [where fields = TxnRequest_fields and fn = 2 and n = 1 and add = "\<lambda>x m. m\<lparr>trCompare := trCompare m @ [x]\<rparr>"]
  ro.loop_repeated [where fields = TxnRequest_fields and fn = 3 and n = 1 and add = "\<lambda>x m. m\<lparr>trSuccess := trSuccess m @ [x]\<rparr>"]
  ro.loop_repeated [where fields = TxnRequest_fields and fn = 4 and n = 1 and add = "\<lambda>x m. m\<lparr>trFailure := trFailure m @ [x]\<rparr>"]

lemma TxnRequest_fold_trCompare [simp]:
  "fold (\<lambda>x m. m\<lparr>trCompare := trCompare m @ [x]\<rparr>) xs m = m\<lparr>trCompare := trCompare m @ xs\<rparr>"
  by (induction xs arbitrary: m) simp_all

lemma TxnRequest_fold_trSuccess [simp]:
  "fold (\<lambda>x m. m\<lparr>trSuccess := trSuccess m @ [x]\<rparr>) xs m = m\<lparr>trSuccess := trSuccess m @ xs\<rparr>"
  by (induction xs arbitrary: m) simp_all

lemma TxnRequest_fold_trFailure [simp]:
  "fold (\<lambda>x m. m\<lparr>trFailure := trFailure m @ [x]\<rparr>) xs m = m\<lparr>trFailure := trFailure m @ xs\<rparr>"
  by (induction xs arbitrary: m) simp_all

lemma TxnRequest_UnmarshalVT_MarshalVT:
  assumes "TxnRequest_wf m" and "TxnRequest_SizeVT m < 2 ^ 63"
  shows "TxnRequest_UnmarshalVT (TxnRequest_MarshalVT m) emptyTxnRequest = Inr m"
proof -
  have "length (TxnRequest_MarshalVT m) < 2 ^ 63"
    using assms(2) by (simp add: TxnRequest_MarshalVT_length)
  moreover have "sizeBytes (trTable m) < 2 ^ 63"
    "sizeRepeated 1 Compare_SizeVT (trCompare m) < 2 ^ 63"
    "sizeRepeated 1 RequestOp_SizeVT (trSuccess m) < 2 ^ 63"
    "sizeRepeated 1 RequestOp_SizeVT (trFailure m) < 2 ^ 63"
    using assms(2) by (simp_all add: TxnRequest_SizeVT_def)
  ultimately show ?thesis
    using assms(1)
    by (simp add: TxnRequest_UnmarshalVT_def TxnRequest_MarshalVT_def Let_def TxnRequest_loop
        TxnRequest_fields_def emptyTxnRequest_def TxnRequest_wf_def)
qed

interpretation trq: message_codec TxnRequest_SizeVT TxnRequest_MarshalVT TxnRequest_UnmarshalVT
  emptyTxnRequest TxnRequest_wf
  by unfold_locales (simp_all add: TxnRequest_MarshalVT_length TxnRequest_UnmarshalVT_MarshalVT)

definition emptyTxnAnswer :: TxnAnswer where
  "emptyTxnAnswer = \<lparr>taHeader = None, taSucceeded = False, taResponses = [], taUnknown = []\<rparr>"

definition TxnAnswer_SizeVT :: "TxnAnswer \<Rightarrow> nat" where
  "TxnAnswer_SizeVT m =
     sizePresentBytes (map_option ResponseHeader_SizeVT (taHeader m))
     + sizeBool (taSucceeded m)
     + sizeRepeated 1 ResponseOp_SizeVT (taResponses m)
     + length (taUnknown m)"

definition TxnAnswer_MarshalVT :: "TxnAnswer \<Rightarrow> bytes" where
  "TxnAnswer_MarshalVT m =
     (let d = taUnknown m;
          d = putRepeated [0x1a] ResponseOp_MarshalVT (taResponses m) d;
          d = optBool [0x10] (taSucceeded m) d
      in presentMessage [0x0a] ResponseHeader_MarshalVT (taHeader m) d)"

definition TxnAnswer_fields :: "int \<Rightarrow> TxnAnswer field option" where
  "TxnAnswer_fields fieldNum =
     (if fieldNum = 1 then Some (BytesField (\<lambda>b m.
          rbind (ResponseHeader_UnmarshalVT b (case taHeader m of None \<Rightarrow> emptyHeader | Some x \<Rightarrow> x)) (\<lambda>v. Inr (m\<lparr>taHeader := Some v\<rparr>))))
      else if fieldNum = 2 then Some (VarintField (\<lambda>v m. m\<lparr>taSucceeded := v \<noteq> 0\<rparr>))
      else if fieldNum = 3 then Some (BytesField (\<lambda>b m.
          rbind (ResponseOp_UnmarshalVT b emptyResponseOp) (\<lambda>v. Inr (m\<lparr>taResponses := taResponses m @ [v]\<rparr>))))
      else None)"

definition TxnAnswer_UnmarshalVT :: "bytes \<Rightarrow> TxnAnswer \<Rightarrow> proto_error + TxnAnswer" where
  "TxnAnswer_UnmarshalVT dAtA m =
     unmarshal_loop TxnAnswer_fields (\<lambda>b m. m\<lparr>taUnknown := taUnknown m @ b\<rparr>) (length dAtA) dAtA m"

lemma TxnAnswer_MarshalVT_length: "length (TxnAnswer_MarshalVT m) = TxnAnswer_SizeVT m"
  by (simp add: TxnAnswer_MarshalVT_def TxnAnswer_SizeVT_def length_opt Let_def hdr.size_message re.size_repeated)

definition TxnAnswer_wf :: "TxnAnswer \<Rightarrow> bool" where
  "TxnAnswer_wf m \<longleftrightarrow> taUnknown m = []
     \<and> pred_option ResponseHeader_wf (taHeader m)
     \<and> list_all ResponseOp_wf (taResponses m)"

lemmas TxnAnswer_loop =
  hdr.loop_message [where fields = TxnAnswer_fields and fn = 1 and store = "\<lambda>x m. m\<lparr>taHeader := x\<rparr>"]
  loop_optBool [where fields = TxnAnswer_fields and fn = 2 and f = "\<lambda>v m. m\<lparr>taSucceeded := v \<noteq> 0\<rparr>"]
  re.loop_repeated [where fields = TxnAnswer_fields and fn = 3 and n = 1 and add = "\<lambda>x m. m\<lparr>taResponses := taResponses m @ [x]\<rparr>"]

lemma TxnAnswer_fold_taResponses [simp]:
  "fold (\<lambda>x m. m\<lparr>taResponses := taResponses m @ [x]\<rparr>) xs m = m\<lparr>taResponses := taResponses m @ xs\<rparr>"
  by (induction xs arbitrary: m) simp_all

lemma TxnAnswer_UnmarshalVT_MarshalVT:
  assumes "TxnAnswer_wf m" and "TxnAnswer_SizeVT m < 2 ^ 63"
  shows "TxnAnswer_UnmarshalVT (TxnAnswer_MarshalVT m) emptyTxnAnswer = Inr m"
proof -
  have "length (TxnAnswer_MarshalVT m) < 2 ^ 63"
    using assms(2) by (simp add: TxnAnswer_MarshalVT_length)
  moreover have "sizePresentBytes (map_option ResponseHeader_SizeVT (taHeader m)) < 2 ^ 63"
    "sizeRepeated 1 ResponseOp_SizeVT (taResponses m) < 2 ^ 63"
    using assms(2) by (simp_all add: TxnAnswer_SizeVT_def)
  ultimately show ?thesis
    using assms(1)
    by (simp add: TxnAnswer_UnmarshalVT_def TxnAnswer_MarshalVT_def Let_def TxnAnswer_loop
        TxnAnswer_fields_def emptyTxnAnswer_def TxnAnswer_wf_def)
qed

interpretation trp: message_codec TxnAnswer_SizeVT TxnAnswer_MarshalVT TxnAnswer_UnmarshalVT
  emptyTxnAnswer TxnAnswer_wf
  by unfold_locales (simp_all add: TxnAnswer_MarshalVT_length TxnAnswer_UnmarshalVT_MarshalVT)

end
