(* ===== verification/Proto_Services.thy ===== *)
theory Proto_Services
  imports Proto_Api Replication KV_Server
begin

text \<open>
  The messages of the replication services (\<^verbatim>\<open>regattapb/replication_vtproto.pb.go\<close>) and of the maintenance
  services (\<^verbatim>\<open>regattapb/maintenance_vtproto.pb.go\<close>) on the wire. The records with the prefix \<^verbatim>\<open>pb\<close> have every
  field of the generated Go structs; oneof wrappers and the elements of repeated fields are taken as non-nil,
  as the program makes them.
\<close>

lemma bytesString_Nil [simp]: "bytesString [] = []"
  by (simp add: bytesString_def)

section \<open>Metadata\<close>

record pbMetadataRequest =
  pmqUnknown :: bytes

definition empty_pbMetadataRequest :: pbMetadataRequest where
  "empty_pbMetadataRequest = \<lparr>pmqUnknown = []\<rparr>"

definition pbMetadataRequest_SizeVT :: "pbMetadataRequest \<Rightarrow> nat" where
  "pbMetadataRequest_SizeVT m =
     length (pmqUnknown m)"

definition pbMetadataRequest_MarshalVT :: "pbMetadataRequest \<Rightarrow> bytes" where
  "pbMetadataRequest_MarshalVT m =
     pmqUnknown m"

definition pbMetadataRequest_fields :: "int \<Rightarrow> pbMetadataRequest field option" where
  "pbMetadataRequest_fields fieldNum =
     None"

definition pbMetadataRequest_UnmarshalVT :: "bytes \<Rightarrow> pbMetadataRequest \<Rightarrow> proto_error + pbMetadataRequest" where
  "pbMetadataRequest_UnmarshalVT dAtA m =
     unmarshal_loop pbMetadataRequest_fields (\<lambda>b m. m\<lparr>pmqUnknown := pmqUnknown m @ b\<rparr>) (length dAtA) dAtA m"

lemma pbMetadataRequest_MarshalVT_length: "length (pbMetadataRequest_MarshalVT m) = pbMetadataRequest_SizeVT m"
  by (simp add: pbMetadataRequest_MarshalVT_def pbMetadataRequest_SizeVT_def length_opt Let_def)

definition pbMetadataRequest_wf :: "pbMetadataRequest \<Rightarrow> bool" where
  "pbMetadataRequest_wf m \<longleftrightarrow> pmqUnknown m = []"

lemma pbMetadataRequest_UnmarshalVT_MarshalVT:
  assumes "pbMetadataRequest_wf m" and "pbMetadataRequest_SizeVT m < 2 ^ 63"
  shows "pbMetadataRequest_UnmarshalVT (pbMetadataRequest_MarshalVT m) empty_pbMetadataRequest = Inr m"
  using assms
  by (simp add: pbMetadataRequest_UnmarshalVT_def pbMetadataRequest_MarshalVT_def Let_def
        pbMetadataRequest_fields_def empty_pbMetadataRequest_def pbMetadataRequest_wf_def)

interpretation pmq: message_codec pbMetadataRequest_SizeVT pbMetadataRequest_MarshalVT pbMetadataRequest_UnmarshalVT
  empty_pbMetadataRequest pbMetadataRequest_wf
  by unfold_locales (simp_all add: pbMetadataRequest_MarshalVT_length pbMetadataRequest_UnmarshalVT_MarshalVT)

record pbTable =
  ptName :: string
  ptType :: u32
  ptUnknown :: bytes

definition empty_pbTable :: pbTable where
  "empty_pbTable = \<lparr>ptName = [], ptType = 0, ptUnknown = []\<rparr>"

definition pbTable_SizeVT :: "pbTable \<Rightarrow> nat" where
  "pbTable_SizeVT m =
     sizeBytes (nameBytes (ptName m))
     + sizeVarint (scast (ptType m))
     + length (ptUnknown m)"

definition pbTable_MarshalVT :: "pbTable \<Rightarrow> bytes" where
  "pbTable_MarshalVT m =
     (let d = ptUnknown m;
          d = optVarint [0x10] (scast (ptType m)) d
      in optBytes [0x0a] (nameBytes (ptName m)) d)"

definition pbTable_fields :: "int \<Rightarrow> pbTable field option" where
  "pbTable_fields fieldNum =
     (if fieldNum = 1 then Some (BytesField (\<lambda>b m. Inr (m\<lparr>ptName := bytesString b\<rparr>)))
      else if fieldNum = 2 then Some (VarintField (\<lambda>v m. m\<lparr>ptType := ucast v\<rparr>))
      else None)"

definition pbTable_UnmarshalVT :: "bytes \<Rightarrow> pbTable \<Rightarrow> proto_error + pbTable" where
  "pbTable_UnmarshalVT dAtA m =
     unmarshal_loop pbTable_fields (\<lambda>b m. m\<lparr>ptUnknown := ptUnknown m @ b\<rparr>) (length dAtA) dAtA m"

lemma pbTable_MarshalVT_length: "length (pbTable_MarshalVT m) = pbTable_SizeVT m"
  by (simp add: pbTable_MarshalVT_def pbTable_SizeVT_def length_opt Let_def)

definition pbTable_wf :: "pbTable \<Rightarrow> bool" where
  "pbTable_wf m \<longleftrightarrow> ptUnknown m = []"

lemmas pbTable_loop =
  loop_optBytes [where fields = pbTable_fields and fn = 1 and f = "\<lambda>b m. m\<lparr>ptName := bytesString b\<rparr>"]
  loop_optVarint [where fields = pbTable_fields and fn = 2 and f = "\<lambda>v m. m\<lparr>ptType := ucast v\<rparr>"]

lemma pbTable_UnmarshalVT_MarshalVT:
  assumes "pbTable_wf m" and "pbTable_SizeVT m < 2 ^ 63"
  shows "pbTable_UnmarshalVT (pbTable_MarshalVT m) empty_pbTable = Inr m"
proof -
  have "length (pbTable_MarshalVT m) < 2 ^ 63"
    using assms(2) by (simp add: pbTable_MarshalVT_length)
  moreover have "sizeBytes (nameBytes (ptName m)) < 2 ^ 63"
    using assms(2) by (simp_all add: pbTable_SizeVT_def)
  ultimately show ?thesis
    using assms(1)
    by (simp add: pbTable_UnmarshalVT_def pbTable_MarshalVT_def Let_def pbTable_loop
        pbTable_fields_def empty_pbTable_def pbTable_wf_def)
qed

interpretation ptb: message_codec pbTable_SizeVT pbTable_MarshalVT pbTable_UnmarshalVT
  empty_pbTable pbTable_wf
  by unfold_locales (simp_all add: pbTable_MarshalVT_length pbTable_UnmarshalVT_MarshalVT)

record pbMetadataResponse =
  pmTables :: "pbTable list"
  pmpUnknown :: bytes

definition empty_pbMetadataResponse :: pbMetadataResponse where
  "empty_pbMetadataResponse = \<lparr>pmTables = [], pmpUnknown = []\<rparr>"

definition pbMetadataResponse_SizeVT :: "pbMetadataResponse \<Rightarrow> nat" where
  "pbMetadataResponse_SizeVT m =
     sizeRepeated 1 pbTable_SizeVT (pmTables m)
     + length (pmpUnknown m)"

definition pbMetadataResponse_MarshalVT :: "pbMetadataResponse \<Rightarrow> bytes" where
  "pbMetadataResponse_MarshalVT m =
     (let d = pmpUnknown m
      in putRepeated [0x0a] pbTable_MarshalVT (pmTables m) d)"

definition pbMetadataResponse_fields :: "int \<Rightarrow> pbMetadataResponse field option" where
  "pbMetadataResponse_fields fieldNum =
     (if fieldNum = 1 then Some (BytesField (\<lambda>b m.
          rbind (pbTable_UnmarshalVT b empty_pbTable) (\<lambda>v. Inr (m\<lparr>pmTables := pmTables m @ [v]\<rparr>))))
      else None)"

definition pbMetadataResponse_UnmarshalVT :: "bytes \<Rightarrow> pbMetadataResponse \<Rightarrow> proto_error + pbMetadataResponse" where
  "pbMetadataResponse_UnmarshalVT dAtA m =
     unmarshal_loop pbMetadataResponse_fields (\<lambda>b m. m\<lparr>pmpUnknown := pmpUnknown m @ b\<rparr>) (length dAtA) dAtA m"

lemma pbMetadataResponse_MarshalVT_length: "length (pbMetadataResponse_MarshalVT m) = pbMetadataResponse_SizeVT m"
  by (simp add: pbMetadataResponse_MarshalVT_def pbMetadataResponse_SizeVT_def length_opt Let_def ptb.size_repeated)

definition pbMetadataResponse_wf :: "pbMetadataResponse \<Rightarrow> bool" where
  "pbMetadataResponse_wf m \<longleftrightarrow> pmpUnknown m = []
     \<and> list_all pbTable_wf (pmTables m)"

lemmas pbMetadataResponse_loop =
  ptb.loop_repeated [where fields = pbMetadataResponse_fields and fn = 1 and n = 1 and add = "\<lambda>x m. m\<lparr>pmTables := pmTables m @ [x]\<rparr>"]

lemma pbMetadataResponse_fold_pmTables [simp]:
  "fold (\<lambda>x m. m\<lparr>pmTables := pmTables m @ [x]\<rparr>) xs m = m\<lparr>pmTables := pmTables m @ xs\<rparr>"
  by (induction xs arbitrary: m) simp_all

lemma pbMetadataResponse_UnmarshalVT_MarshalVT:
  assumes "pbMetadataResponse_wf m" and "pbMetadataResponse_SizeVT m < 2 ^ 63"
  shows "pbMetadataResponse_UnmarshalVT (pbMetadataResponse_MarshalVT m) empty_pbMetadataResponse = Inr m"
proof -
  have "length (pbMetadataResponse_MarshalVT m) < 2 ^ 63"
    using assms(2) by (simp add: pbMetadataResponse_MarshalVT_length)
  moreover have "sizeRepeated 1 pbTable_SizeVT (pmTables m) < 2 ^ 63"
    using assms(2) by (simp_all add: pbMetadataResponse_SizeVT_def)
  ultimately show ?thesis
    using assms(1)
    by (simp add: pbMetadataResponse_UnmarshalVT_def pbMetadataResponse_MarshalVT_def Let_def pbMetadataResponse_loop
        pbMetadataResponse_fields_def empty_pbMetadataResponse_def pbMetadataResponse_wf_def)
qed

interpretation pmp: message_codec pbMetadataResponse_SizeVT pbMetadataResponse_MarshalVT pbMetadataResponse_UnmarshalVT
  empty_pbMetadataResponse pbMetadataResponse_wf
  by unfold_locales (simp_all add: pbMetadataResponse_MarshalVT_length pbMetadataResponse_UnmarshalVT_MarshalVT)

section \<open>Snapshots\<close>

record pbSnapshotRequest =
  psTable :: bytes
  psUnknown :: bytes

definition empty_pbSnapshotRequest :: pbSnapshotRequest where
  "empty_pbSnapshotRequest = \<lparr>psTable = [], psUnknown = []\<rparr>"

definition pbSnapshotRequest_SizeVT :: "pbSnapshotRequest \<Rightarrow> nat" where
  "pbSnapshotRequest_SizeVT m =
     sizeBytes (psTable m)
     + length (psUnknown m)"

definition pbSnapshotRequest_MarshalVT :: "pbSnapshotRequest \<Rightarrow> bytes" where
  "pbSnapshotRequest_MarshalVT m =
     (let d = psUnknown m
      in optBytes [0x0a] (psTable m) d)"

definition pbSnapshotRequest_fields :: "int \<Rightarrow> pbSnapshotRequest field option" where
  "pbSnapshotRequest_fields fieldNum =
     (if fieldNum = 1 then Some (BytesField (\<lambda>b m. Inr (m\<lparr>psTable := b\<rparr>)))
      else None)"

definition pbSnapshotRequest_UnmarshalVT :: "bytes \<Rightarrow> pbSnapshotRequest \<Rightarrow> proto_error + pbSnapshotRequest" where
  "pbSnapshotRequest_UnmarshalVT dAtA m =
     unmarshal_loop pbSnapshotRequest_fields (\<lambda>b m. m\<lparr>psUnknown := psUnknown m @ b\<rparr>) (length dAtA) dAtA m"

lemma pbSnapshotRequest_MarshalVT_length: "length (pbSnapshotRequest_MarshalVT m) = pbSnapshotRequest_SizeVT m"
  by (simp add: pbSnapshotRequest_MarshalVT_def pbSnapshotRequest_SizeVT_def length_opt Let_def)

definition pbSnapshotRequest_wf :: "pbSnapshotRequest \<Rightarrow> bool" where
  "pbSnapshotRequest_wf m \<longleftrightarrow> psUnknown m = []"

lemmas pbSnapshotRequest_loop =
  loop_optBytes [where fields = pbSnapshotRequest_fields and fn = 1 and f = "\<lambda>b m. m\<lparr>psTable := b\<rparr>"]

lemma pbSnapshotRequest_UnmarshalVT_MarshalVT:
  assumes "pbSnapshotRequest_wf m" and "pbSnapshotRequest_SizeVT m < 2 ^ 63"
  shows "pbSnapshotRequest_UnmarshalVT (pbSnapshotRequest_MarshalVT m) empty_pbSnapshotRequest = Inr m"
proof -
  have "length (pbSnapshotRequest_MarshalVT m) < 2 ^ 63"
    using assms(2) by (simp add: pbSnapshotRequest_MarshalVT_length)
  moreover have "sizeBytes (psTable m) < 2 ^ 63"
    using assms(2) by (simp_all add: pbSnapshotRequest_SizeVT_def)
  ultimately show ?thesis
    using assms(1)
    by (simp add: pbSnapshotRequest_UnmarshalVT_def pbSnapshotRequest_MarshalVT_def Let_def pbSnapshotRequest_loop
        pbSnapshotRequest_fields_def empty_pbSnapshotRequest_def pbSnapshotRequest_wf_def)
qed

interpretation psq: message_codec pbSnapshotRequest_SizeVT pbSnapshotRequest_MarshalVT pbSnapshotRequest_UnmarshalVT
  empty_pbSnapshotRequest pbSnapshotRequest_wf
  by unfold_locales (simp_all add: pbSnapshotRequest_MarshalVT_length pbSnapshotRequest_UnmarshalVT_MarshalVT)

record pbSnapshotChunk =
  pcData :: bytes
  pcLen :: u64
  pcIndex :: u64
  pcUnknown :: bytes

definition empty_pbSnapshotChunk :: pbSnapshotChunk where
  "empty_pbSnapshotChunk = \<lparr>pcData = [], pcLen = 0, pcIndex = 0, pcUnknown = []\<rparr>"

definition pbSnapshotChunk_SizeVT :: "pbSnapshotChunk \<Rightarrow> nat" where
  "pbSnapshotChunk_SizeVT m =
     sizeBytes (pcData m)
     + sizeVarint (pcLen m)
     + sizeVarint (pcIndex m)
     + length (pcUnknown m)"

definition pbSnapshotChunk_MarshalVT :: "pbSnapshotChunk \<Rightarrow> bytes" where
  "pbSnapshotChunk_MarshalVT m =
     (let d = pcUnknown m;
          d = optVarint [0x18] (pcIndex m) d;
          d = optVarint [0x10] (pcLen m) d
      in optBytes [0x0a] (pcData m) d)"

definition pbSnapshotChunk_fields :: "int \<Rightarrow> pbSnapshotChunk field option" where
  "pbSnapshotChunk_fields fieldNum =
     (if fieldNum = 1 then Some (BytesField (\<lambda>b m. Inr (m\<lparr>pcData := b\<rparr>)))
      else if fieldNum = 2 then Some (VarintField (\<lambda>v m. m\<lparr>pcLen := v\<rparr>))
      else if fieldNum = 3 then Some (VarintField (\<lambda>v m. m\<lparr>pcIndex := v\<rparr>))
      else None)"

definition pbSnapshotChunk_UnmarshalVT :: "bytes \<Rightarrow> pbSnapshotChunk \<Rightarrow> proto_error + pbSnapshotChunk" where
  "pbSnapshotChunk_UnmarshalVT dAtA m =
     unmarshal_loop pbSnapshotChunk_fields (\<lambda>b m. m\<lparr>pcUnknown := pcUnknown m @ b\<rparr>) (length dAtA) dAtA m"

lemma pbSnapshotChunk_MarshalVT_length: "length (pbSnapshotChunk_MarshalVT m) = pbSnapshotChunk_SizeVT m"
  by (simp add: pbSnapshotChunk_MarshalVT_def pbSnapshotChunk_SizeVT_def length_opt Let_def)

definition pbSnapshotChunk_wf :: "pbSnapshotChunk \<Rightarrow> bool" where
  "pbSnapshotChunk_wf m \<longleftrightarrow> pcUnknown m = []"

lemmas pbSnapshotChunk_loop =
  loop_optBytes [where fields = pbSnapshotChunk_fields and fn = 1 and f = "\<lambda>b m. m\<lparr>pcData := b\<rparr>"]
  loop_optVarint [where fields = pbSnapshotChunk_fields and fn = 2 and f = "\<lambda>v m. m\<lparr>pcLen := v\<rparr>"]
  loop_optVarint [where fields = pbSnapshotChunk_fields and fn = 3 and f = "\<lambda>v m. m\<lparr>pcIndex := v\<rparr>"]

lemma pbSnapshotChunk_UnmarshalVT_MarshalVT:
  assumes "pbSnapshotChunk_wf m" and "pbSnapshotChunk_SizeVT m < 2 ^ 63"
  shows "pbSnapshotChunk_UnmarshalVT (pbSnapshotChunk_MarshalVT m) empty_pbSnapshotChunk = Inr m"
proof -
  have "length (pbSnapshotChunk_MarshalVT m) < 2 ^ 63"
    using assms(2) by (simp add: pbSnapshotChunk_MarshalVT_length)
  moreover have "sizeBytes (pcData m) < 2 ^ 63"
    using assms(2) by (simp_all add: pbSnapshotChunk_SizeVT_def)
  ultimately show ?thesis
    using assms(1)
    by (simp add: pbSnapshotChunk_UnmarshalVT_def pbSnapshotChunk_MarshalVT_def Let_def pbSnapshotChunk_loop
        pbSnapshotChunk_fields_def empty_pbSnapshotChunk_def pbSnapshotChunk_wf_def)
qed

interpretation pch: message_codec pbSnapshotChunk_SizeVT pbSnapshotChunk_MarshalVT pbSnapshotChunk_UnmarshalVT
  empty_pbSnapshotChunk pbSnapshotChunk_wf
  by unfold_locales (simp_all add: pbSnapshotChunk_MarshalVT_length pbSnapshotChunk_UnmarshalVT_MarshalVT)

section \<open>Replicate\<close>

record pbReplicateRequest =
  pqTable :: bytes
  pqLeaderIndex :: u64
  pqUnknown :: bytes

definition empty_pbReplicateRequest :: pbReplicateRequest where
  "empty_pbReplicateRequest = \<lparr>pqTable = [], pqLeaderIndex = 0, pqUnknown = []\<rparr>"

definition pbReplicateRequest_SizeVT :: "pbReplicateRequest \<Rightarrow> nat" where
  "pbReplicateRequest_SizeVT m =
     sizeBytes (pqTable m)
     + sizeVarint (pqLeaderIndex m)
     + length (pqUnknown m)"

definition pbReplicateRequest_MarshalVT :: "pbReplicateRequest \<Rightarrow> bytes" where
  "pbReplicateRequest_MarshalVT m =
     (let d = pqUnknown m;
          d = optVarint [0x10] (pqLeaderIndex m) d
      in optBytes [0x0a] (pqTable m) d)"

definition pbReplicateRequest_fields :: "int \<Rightarrow> pbReplicateRequest field option" where
  "pbReplicateRequest_fields fieldNum =
     (if fieldNum = 1 then Some (BytesField (\<lambda>b m. Inr (m\<lparr>pqTable := b\<rparr>)))
      else if fieldNum = 2 then Some (VarintField (\<lambda>v m. m\<lparr>pqLeaderIndex := v\<rparr>))
      else None)"

definition pbReplicateRequest_UnmarshalVT :: "bytes \<Rightarrow> pbReplicateRequest \<Rightarrow> proto_error + pbReplicateRequest" where
  "pbReplicateRequest_UnmarshalVT dAtA m =
     unmarshal_loop pbReplicateRequest_fields (\<lambda>b m. m\<lparr>pqUnknown := pqUnknown m @ b\<rparr>) (length dAtA) dAtA m"

lemma pbReplicateRequest_MarshalVT_length: "length (pbReplicateRequest_MarshalVT m) = pbReplicateRequest_SizeVT m"
  by (simp add: pbReplicateRequest_MarshalVT_def pbReplicateRequest_SizeVT_def length_opt Let_def)

definition pbReplicateRequest_wf :: "pbReplicateRequest \<Rightarrow> bool" where
  "pbReplicateRequest_wf m \<longleftrightarrow> pqUnknown m = []"

lemmas pbReplicateRequest_loop =
  loop_optBytes [where fields = pbReplicateRequest_fields and fn = 1 and f = "\<lambda>b m. m\<lparr>pqTable := b\<rparr>"]
  loop_optVarint [where fields = pbReplicateRequest_fields and fn = 2 and f = "\<lambda>v m. m\<lparr>pqLeaderIndex := v\<rparr>"]

lemma pbReplicateRequest_UnmarshalVT_MarshalVT:
  assumes "pbReplicateRequest_wf m" and "pbReplicateRequest_SizeVT m < 2 ^ 63"
  shows "pbReplicateRequest_UnmarshalVT (pbReplicateRequest_MarshalVT m) empty_pbReplicateRequest = Inr m"
proof -
  have "length (pbReplicateRequest_MarshalVT m) < 2 ^ 63"
    using assms(2) by (simp add: pbReplicateRequest_MarshalVT_length)
  moreover have "sizeBytes (pqTable m) < 2 ^ 63"
    using assms(2) by (simp_all add: pbReplicateRequest_SizeVT_def)
  ultimately show ?thesis
    using assms(1)
    by (simp add: pbReplicateRequest_UnmarshalVT_def pbReplicateRequest_MarshalVT_def Let_def pbReplicateRequest_loop
        pbReplicateRequest_fields_def empty_pbReplicateRequest_def pbReplicateRequest_wf_def)
qed

interpretation prq: message_codec pbReplicateRequest_SizeVT pbReplicateRequest_MarshalVT pbReplicateRequest_UnmarshalVT
  empty_pbReplicateRequest pbReplicateRequest_wf
  by unfold_locales (simp_all add: pbReplicateRequest_MarshalVT_length pbReplicateRequest_UnmarshalVT_MarshalVT)

record pbReplicateErrResponse =
  peError :: u32
  peUnknown :: bytes

definition empty_pbReplicateErrResponse :: pbReplicateErrResponse where
  "empty_pbReplicateErrResponse = \<lparr>peError = 0, peUnknown = []\<rparr>"

definition pbReplicateErrResponse_SizeVT :: "pbReplicateErrResponse \<Rightarrow> nat" where
  "pbReplicateErrResponse_SizeVT m =
     sizeVarint (scast (peError m))
     + length (peUnknown m)"

definition pbReplicateErrResponse_MarshalVT :: "pbReplicateErrResponse \<Rightarrow> bytes" where
  "pbReplicateErrResponse_MarshalVT m =
     (let d = peUnknown m
      in optVarint [0x08] (scast (peError m)) d)"

definition pbReplicateErrResponse_fields :: "int \<Rightarrow> pbReplicateErrResponse field option" where
  "pbReplicateErrResponse_fields fieldNum =
     (if fieldNum = 1 then Some (VarintField (\<lambda>v m. m\<lparr>peError := ucast v\<rparr>))
      else None)"

definition pbReplicateErrResponse_UnmarshalVT :: "bytes \<Rightarrow> pbReplicateErrResponse \<Rightarrow> proto_error + pbReplicateErrResponse" where
  "pbReplicateErrResponse_UnmarshalVT dAtA m =
     unmarshal_loop pbReplicateErrResponse_fields (\<lambda>b m. m\<lparr>peUnknown := peUnknown m @ b\<rparr>) (length dAtA) dAtA m"

lemma pbReplicateErrResponse_MarshalVT_length: "length (pbReplicateErrResponse_MarshalVT m) = pbReplicateErrResponse_SizeVT m"
  by (simp add: pbReplicateErrResponse_MarshalVT_def pbReplicateErrResponse_SizeVT_def length_opt Let_def)

definition pbReplicateErrResponse_wf :: "pbReplicateErrResponse \<Rightarrow> bool" where
  "pbReplicateErrResponse_wf m \<longleftrightarrow> peUnknown m = []"

lemmas pbReplicateErrResponse_loop =
  loop_optVarint [where fields = pbReplicateErrResponse_fields and fn = 1 and f = "\<lambda>v m. m\<lparr>peError := ucast v\<rparr>"]

lemma pbReplicateErrResponse_UnmarshalVT_MarshalVT:
  assumes "pbReplicateErrResponse_wf m" and "pbReplicateErrResponse_SizeVT m < 2 ^ 63"
  shows "pbReplicateErrResponse_UnmarshalVT (pbReplicateErrResponse_MarshalVT m) empty_pbReplicateErrResponse = Inr m"
proof -
  have "length (pbReplicateErrResponse_MarshalVT m) < 2 ^ 63"
    using assms(2) by (simp add: pbReplicateErrResponse_MarshalVT_length)
  then show ?thesis
    using assms(1)
    by (simp add: pbReplicateErrResponse_UnmarshalVT_def pbReplicateErrResponse_MarshalVT_def Let_def pbReplicateErrResponse_loop
        pbReplicateErrResponse_fields_def empty_pbReplicateErrResponse_def pbReplicateErrResponse_wf_def)
qed

interpretation per: message_codec pbReplicateErrResponse_SizeVT pbReplicateErrResponse_MarshalVT pbReplicateErrResponse_UnmarshalVT
  empty_pbReplicateErrResponse pbReplicateErrResponse_wf
  by unfold_locales (simp_all add: pbReplicateErrResponse_MarshalVT_length pbReplicateErrResponse_UnmarshalVT_MarshalVT)

record pbReplicateCommand =
  pdLeaderIndex :: u64
  pdCommand :: "Command option"
  pdUnknown :: bytes

definition empty_pbReplicateCommand :: pbReplicateCommand where
  "empty_pbReplicateCommand = \<lparr>pdLeaderIndex = 0, pdCommand = None, pdUnknown = []\<rparr>"

definition pbReplicateCommand_SizeVT :: "pbReplicateCommand \<Rightarrow> nat" where
  "pbReplicateCommand_SizeVT m =
     sizeVarint (pdLeaderIndex m)
     + sizePresentBytes (map_option Command_SizeVT (pdCommand m))
     + length (pdUnknown m)"

definition pbReplicateCommand_MarshalVT :: "pbReplicateCommand \<Rightarrow> bytes" where
  "pbReplicateCommand_MarshalVT m =
     (let d = pdUnknown m;
          d = presentMessage [0x12] Command_MarshalVT (pdCommand m) d
      in optVarint [0x08] (pdLeaderIndex m) d)"

definition pbReplicateCommand_fields :: "int \<Rightarrow> pbReplicateCommand field option" where
  "pbReplicateCommand_fields fieldNum =
     (if fieldNum = 1 then Some (VarintField (\<lambda>v m. m\<lparr>pdLeaderIndex := v\<rparr>))
      else if fieldNum = 2 then Some (BytesField (\<lambda>b m.
          rbind (Command_UnmarshalVT b (case pdCommand m of None \<Rightarrow> emptyCommand | Some x \<Rightarrow> x)) (\<lambda>v. Inr (m\<lparr>pdCommand := Some v\<rparr>))))
      else None)"

definition pbReplicateCommand_UnmarshalVT :: "bytes \<Rightarrow> pbReplicateCommand \<Rightarrow> proto_error + pbReplicateCommand" where
  "pbReplicateCommand_UnmarshalVT dAtA m =
     unmarshal_loop pbReplicateCommand_fields (\<lambda>b m. m\<lparr>pdUnknown := pdUnknown m @ b\<rparr>) (length dAtA) dAtA m"

lemma pbReplicateCommand_MarshalVT_length: "length (pbReplicateCommand_MarshalVT m) = pbReplicateCommand_SizeVT m"
  by (simp add: pbReplicateCommand_MarshalVT_def pbReplicateCommand_SizeVT_def length_opt Let_def cmd.size_message)

definition pbReplicateCommand_wf :: "pbReplicateCommand \<Rightarrow> bool" where
  "pbReplicateCommand_wf m \<longleftrightarrow> pdUnknown m = []
     \<and> pred_option Command_wf (pdCommand m)"

lemmas pbReplicateCommand_loop =
  loop_optVarint [where fields = pbReplicateCommand_fields and fn = 1 and f = "\<lambda>v m. m\<lparr>pdLeaderIndex := v\<rparr>"]
  cmd.loop_message [where fields = pbReplicateCommand_fields and fn = 2 and store = "\<lambda>x m. m\<lparr>pdCommand := x\<rparr>"]

lemma pbReplicateCommand_UnmarshalVT_MarshalVT:
  assumes "pbReplicateCommand_wf m" and "pbReplicateCommand_SizeVT m < 2 ^ 63"
  shows "pbReplicateCommand_UnmarshalVT (pbReplicateCommand_MarshalVT m) empty_pbReplicateCommand = Inr m"
proof -
  have "length (pbReplicateCommand_MarshalVT m) < 2 ^ 63"
    using assms(2) by (simp add: pbReplicateCommand_MarshalVT_length)
  moreover have "sizePresentBytes (map_option Command_SizeVT (pdCommand m)) < 2 ^ 63"
    using assms(2) by (simp_all add: pbReplicateCommand_SizeVT_def)
  ultimately show ?thesis
    using assms(1)
    by (simp add: pbReplicateCommand_UnmarshalVT_def pbReplicateCommand_MarshalVT_def Let_def pbReplicateCommand_loop
        pbReplicateCommand_fields_def empty_pbReplicateCommand_def pbReplicateCommand_wf_def)
qed

interpretation prc: message_codec pbReplicateCommand_SizeVT pbReplicateCommand_MarshalVT pbReplicateCommand_UnmarshalVT
  empty_pbReplicateCommand pbReplicateCommand_wf
  by unfold_locales (simp_all add: pbReplicateCommand_MarshalVT_length pbReplicateCommand_UnmarshalVT_MarshalVT)

record pbReplicateCommandsResponse =
  plCommands :: "pbReplicateCommand list"
  plUnknown :: bytes

definition empty_pbReplicateCommandsResponse :: pbReplicateCommandsResponse where
  "empty_pbReplicateCommandsResponse = \<lparr>plCommands = [], plUnknown = []\<rparr>"

definition pbReplicateCommandsResponse_SizeVT :: "pbReplicateCommandsResponse \<Rightarrow> nat" where
  "pbReplicateCommandsResponse_SizeVT m =
     sizeRepeated 1 pbReplicateCommand_SizeVT (plCommands m)
     + length (plUnknown m)"

definition pbReplicateCommandsResponse_MarshalVT :: "pbReplicateCommandsResponse \<Rightarrow> bytes" where
  "pbReplicateCommandsResponse_MarshalVT m =
     (let d = plUnknown m
      in putRepeated [0x0a] pbReplicateCommand_MarshalVT (plCommands m) d)"

definition pbReplicateCommandsResponse_fields :: "int \<Rightarrow> pbReplicateCommandsResponse field option" where
  "pbReplicateCommandsResponse_fields fieldNum =
     (if fieldNum = 1 then Some (BytesField (\<lambda>b m.
          rbind (pbReplicateCommand_UnmarshalVT b empty_pbReplicateCommand) (\<lambda>v. Inr (m\<lparr>plCommands := plCommands m @ [v]\<rparr>))))
      else None)"

definition pbReplicateCommandsResponse_UnmarshalVT :: "bytes \<Rightarrow> pbReplicateCommandsResponse \<Rightarrow> proto_error + pbReplicateCommandsResponse" where
  "pbReplicateCommandsResponse_UnmarshalVT dAtA m =
     unmarshal_loop pbReplicateCommandsResponse_fields (\<lambda>b m. m\<lparr>plUnknown := plUnknown m @ b\<rparr>) (length dAtA) dAtA m"

lemma pbReplicateCommandsResponse_MarshalVT_length: "length (pbReplicateCommandsResponse_MarshalVT m) = pbReplicateCommandsResponse_SizeVT m"
  by (simp add: pbReplicateCommandsResponse_MarshalVT_def pbReplicateCommandsResponse_SizeVT_def length_opt Let_def prc.size_repeated)

definition pbReplicateCommandsResponse_wf :: "pbReplicateCommandsResponse \<Rightarrow> bool" where
  "pbReplicateCommandsResponse_wf m \<longleftrightarrow> plUnknown m = []
     \<and> list_all pbReplicateCommand_wf (plCommands m)"

lemmas pbReplicateCommandsResponse_loop =
  prc.loop_repeated [where fields = pbReplicateCommandsResponse_fields and fn = 1 and n = 1 and add = "\<lambda>x m. m\<lparr>plCommands := plCommands m @ [x]\<rparr>"]

lemma pbReplicateCommandsResponse_fold_plCommands [simp]:
  "fold (\<lambda>x m. m\<lparr>plCommands := plCommands m @ [x]\<rparr>) xs m = m\<lparr>plCommands := plCommands m @ xs\<rparr>"
  by (induction xs arbitrary: m) simp_all

lemma pbReplicateCommandsResponse_UnmarshalVT_MarshalVT:
  assumes "pbReplicateCommandsResponse_wf m" and "pbReplicateCommandsResponse_SizeVT m < 2 ^ 63"
  shows "pbReplicateCommandsResponse_UnmarshalVT (pbReplicateCommandsResponse_MarshalVT m) empty_pbReplicateCommandsResponse = Inr m"
proof -
  have "length (pbReplicateCommandsResponse_MarshalVT m) < 2 ^ 63"
    using assms(2) by (simp add: pbReplicateCommandsResponse_MarshalVT_length)
  moreover have "sizeRepeated 1 pbReplicateCommand_SizeVT (plCommands m) < 2 ^ 63"
    using assms(2) by (simp_all add: pbReplicateCommandsResponse_SizeVT_def)
  ultimately show ?thesis
    using assms(1)
    by (simp add: pbReplicateCommandsResponse_UnmarshalVT_def pbReplicateCommandsResponse_MarshalVT_def Let_def pbReplicateCommandsResponse_loop
        pbReplicateCommandsResponse_fields_def empty_pbReplicateCommandsResponse_def pbReplicateCommandsResponse_wf_def)
qed

interpretation prl: message_codec pbReplicateCommandsResponse_SizeVT pbReplicateCommandsResponse_MarshalVT pbReplicateCommandsResponse_UnmarshalVT
  empty_pbReplicateCommandsResponse pbReplicateCommandsResponse_wf
  by unfold_locales (simp_all add: pbReplicateCommandsResponse_MarshalVT_length pbReplicateCommandsResponse_UnmarshalVT_MarshalVT)

datatype isReplicateResponse_Response =
    ReplicateResponse_CommandsResponse pbReplicateCommandsResponse
  | ReplicateResponse_ErrorResponse pbReplicateErrResponse

record pbReplicateResponse =
  prLeaderIndex :: u64
  prResponse :: "isReplicateResponse_Response option"
  prUnknown :: bytes

definition empty_pbReplicateResponse :: pbReplicateResponse where
  "empty_pbReplicateResponse = \<lparr>prLeaderIndex = 0, prResponse = None, prUnknown = []\<rparr>"

fun isReplicateResponse_Response_SizeVT :: "isReplicateResponse_Response \<Rightarrow> nat" where
  "isReplicateResponse_Response_SizeVT (ReplicateResponse_CommandsResponse x) = sizeMessage (pbReplicateCommandsResponse_SizeVT x)"
| "isReplicateResponse_Response_SizeVT (ReplicateResponse_ErrorResponse x) = sizeMessage (pbReplicateErrResponse_SizeVT x)"

fun isReplicateResponse_Response_MarshalVT :: "isReplicateResponse_Response \<Rightarrow> bytes \<Rightarrow> bytes" where
  "isReplicateResponse_Response_MarshalVT (ReplicateResponse_CommandsResponse x) d = putBytes [0x0a] (pbReplicateCommandsResponse_MarshalVT x) d"
| "isReplicateResponse_Response_MarshalVT (ReplicateResponse_ErrorResponse x) d = putBytes [0x12] (pbReplicateErrResponse_MarshalVT x) d"

fun isReplicateResponse_Response_wf :: "isReplicateResponse_Response \<Rightarrow> bool" where
  "isReplicateResponse_Response_wf (ReplicateResponse_CommandsResponse x) = pbReplicateCommandsResponse_wf x"
| "isReplicateResponse_Response_wf (ReplicateResponse_ErrorResponse x) = pbReplicateErrResponse_wf x"

definition pbReplicateResponse_SizeVT :: "pbReplicateResponse \<Rightarrow> nat" where
  "pbReplicateResponse_SizeVT m =
     sizeVarint (prLeaderIndex m)
     + (case prResponse m of None \<Rightarrow> 0 | Some vtmsg \<Rightarrow> isReplicateResponse_Response_SizeVT vtmsg)
     + length (prUnknown m)"

definition pbReplicateResponse_MarshalVT :: "pbReplicateResponse \<Rightarrow> bytes" where
  "pbReplicateResponse_MarshalVT m =
     (let d = prUnknown m;
          d = (case prResponse m of None \<Rightarrow> d | Some vtmsg \<Rightarrow> isReplicateResponse_Response_MarshalVT vtmsg d)
      in optVarint [0x40] (prLeaderIndex m) d)"

definition pbReplicateResponse_fields :: "int \<Rightarrow> pbReplicateResponse field option" where
  "pbReplicateResponse_fields fieldNum =
     (if fieldNum = 1 then Some (BytesField (\<lambda>b m.
          rbind (pbReplicateCommandsResponse_UnmarshalVT b (case prResponse m of Some (ReplicateResponse_CommandsResponse x) \<Rightarrow> x | _ \<Rightarrow> empty_pbReplicateCommandsResponse))
            (\<lambda>v. Inr (m\<lparr>prResponse := Some (ReplicateResponse_CommandsResponse v)\<rparr>))))
      else if fieldNum = 2 then Some (BytesField (\<lambda>b m.
          rbind (pbReplicateErrResponse_UnmarshalVT b (case prResponse m of Some (ReplicateResponse_ErrorResponse x) \<Rightarrow> x | _ \<Rightarrow> empty_pbReplicateErrResponse))
            (\<lambda>v. Inr (m\<lparr>prResponse := Some (ReplicateResponse_ErrorResponse v)\<rparr>))))
      else if fieldNum = 8 then Some (VarintField (\<lambda>v m. m\<lparr>prLeaderIndex := v\<rparr>))
      else None)"

definition pbReplicateResponse_UnmarshalVT :: "bytes \<Rightarrow> pbReplicateResponse \<Rightarrow> proto_error + pbReplicateResponse" where
  "pbReplicateResponse_UnmarshalVT dAtA m =
     unmarshal_loop pbReplicateResponse_fields (\<lambda>b m. m\<lparr>prUnknown := prUnknown m @ b\<rparr>) (length dAtA) dAtA m"

lemma pbReplicateResponse_MarshalVT_length: "length (pbReplicateResponse_MarshalVT m) = pbReplicateResponse_SizeVT m"
  by (cases "prResponse m"; (cases "the (prResponse m)")?)
    (auto simp: pbReplicateResponse_MarshalVT_def pbReplicateResponse_SizeVT_def length_opt length_putBytes sizeMessage_def Let_def per.marshal_size prl.marshal_size)

definition pbReplicateResponse_wf :: "pbReplicateResponse \<Rightarrow> bool" where
  "pbReplicateResponse_wf m \<longleftrightarrow> prUnknown m = []
     \<and> pred_option isReplicateResponse_Response_wf (prResponse m)"

lemmas pbReplicateResponse_loop =
  loop_optVarint [where fields = pbReplicateResponse_fields and fn = 8 and f = "\<lambda>v m. m\<lparr>prLeaderIndex := v\<rparr>"]
  prl.loop_message [where fields = pbReplicateResponse_fields and fn = 1 and x = "Some y" for y,
    where store = "\<lambda>x m. case x of None \<Rightarrow> m | Some v \<Rightarrow> m\<lparr>prResponse := Some (ReplicateResponse_CommandsResponse v)\<rparr>", simplified]
  per.loop_message [where fields = pbReplicateResponse_fields and fn = 2 and x = "Some y" for y,
    where store = "\<lambda>x m. case x of None \<Rightarrow> m | Some v \<Rightarrow> m\<lparr>prResponse := Some (ReplicateResponse_ErrorResponse v)\<rparr>", simplified]

lemma pbReplicateResponse_UnmarshalVT_MarshalVT:
  assumes "pbReplicateResponse_wf m" and "pbReplicateResponse_SizeVT m < 2 ^ 63"
  shows "pbReplicateResponse_UnmarshalVT (pbReplicateResponse_MarshalVT m) empty_pbReplicateResponse = Inr m"
proof -
  have len: "length (pbReplicateResponse_MarshalVT m) < 2 ^ 63"
    using assms(2) by (simp add: pbReplicateResponse_MarshalVT_length)
  show ?thesis
    by (cases "prResponse m"; (cases "the (prResponse m)")?; use assms len in \<open>auto simp: pbReplicateResponse_UnmarshalVT_def pbReplicateResponse_MarshalVT_def Let_def pbReplicateResponse_loop
        pbReplicateResponse_fields_def empty_pbReplicateResponse_def pbReplicateResponse_wf_def
        pbReplicateResponse_SizeVT_def sizeMessage_def\<close>)
qed

interpretation prr: message_codec pbReplicateResponse_SizeVT pbReplicateResponse_MarshalVT pbReplicateResponse_UnmarshalVT
  empty_pbReplicateResponse pbReplicateResponse_wf
  by unfold_locales (simp_all add: pbReplicateResponse_MarshalVT_length pbReplicateResponse_UnmarshalVT_MarshalVT)

section \<open>Maintenance\<close>

record pbBackupRequest =
  pbuTable :: bytes
  pbuUnknown :: bytes

definition empty_pbBackupRequest :: pbBackupRequest where
  "empty_pbBackupRequest = \<lparr>pbuTable = [], pbuUnknown = []\<rparr>"

definition pbBackupRequest_SizeVT :: "pbBackupRequest \<Rightarrow> nat" where
  "pbBackupRequest_SizeVT m =
     sizeBytes (pbuTable m)
     + length (pbuUnknown m)"

definition pbBackupRequest_MarshalVT :: "pbBackupRequest \<Rightarrow> bytes" where
  "pbBackupRequest_MarshalVT m =
     (let d = pbuUnknown m
      in optBytes [0x0a] (pbuTable m) d)"

definition pbBackupRequest_fields :: "int \<Rightarrow> pbBackupRequest field option" where
  "pbBackupRequest_fields fieldNum =
     (if fieldNum = 1 then Some (BytesField (\<lambda>b m. Inr (m\<lparr>pbuTable := b\<rparr>)))
      else None)"

definition pbBackupRequest_UnmarshalVT :: "bytes \<Rightarrow> pbBackupRequest \<Rightarrow> proto_error + pbBackupRequest" where
  "pbBackupRequest_UnmarshalVT dAtA m =
     unmarshal_loop pbBackupRequest_fields (\<lambda>b m. m\<lparr>pbuUnknown := pbuUnknown m @ b\<rparr>) (length dAtA) dAtA m"

lemma pbBackupRequest_MarshalVT_length: "length (pbBackupRequest_MarshalVT m) = pbBackupRequest_SizeVT m"
  by (simp add: pbBackupRequest_MarshalVT_def pbBackupRequest_SizeVT_def length_opt Let_def)

definition pbBackupRequest_wf :: "pbBackupRequest \<Rightarrow> bool" where
  "pbBackupRequest_wf m \<longleftrightarrow> pbuUnknown m = []"

lemmas pbBackupRequest_loop =
  loop_optBytes [where fields = pbBackupRequest_fields and fn = 1 and f = "\<lambda>b m. m\<lparr>pbuTable := b\<rparr>"]

lemma pbBackupRequest_UnmarshalVT_MarshalVT:
  assumes "pbBackupRequest_wf m" and "pbBackupRequest_SizeVT m < 2 ^ 63"
  shows "pbBackupRequest_UnmarshalVT (pbBackupRequest_MarshalVT m) empty_pbBackupRequest = Inr m"
proof -
  have "length (pbBackupRequest_MarshalVT m) < 2 ^ 63"
    using assms(2) by (simp add: pbBackupRequest_MarshalVT_length)
  moreover have "sizeBytes (pbuTable m) < 2 ^ 63"
    using assms(2) by (simp_all add: pbBackupRequest_SizeVT_def)
  ultimately show ?thesis
    using assms(1)
    by (simp add: pbBackupRequest_UnmarshalVT_def pbBackupRequest_MarshalVT_def Let_def pbBackupRequest_loop
        pbBackupRequest_fields_def empty_pbBackupRequest_def pbBackupRequest_wf_def)
qed

interpretation pbq: message_codec pbBackupRequest_SizeVT pbBackupRequest_MarshalVT pbBackupRequest_UnmarshalVT
  empty_pbBackupRequest pbBackupRequest_wf
  by unfold_locales (simp_all add: pbBackupRequest_MarshalVT_length pbBackupRequest_UnmarshalVT_MarshalVT)

record pbRestoreInfo =
  pinTable :: bytes
  pinUnknown :: bytes

definition empty_pbRestoreInfo :: pbRestoreInfo where
  "empty_pbRestoreInfo = \<lparr>pinTable = [], pinUnknown = []\<rparr>"

definition pbRestoreInfo_SizeVT :: "pbRestoreInfo \<Rightarrow> nat" where
  "pbRestoreInfo_SizeVT m =
     sizeBytes (pinTable m)
     + length (pinUnknown m)"

definition pbRestoreInfo_MarshalVT :: "pbRestoreInfo \<Rightarrow> bytes" where
  "pbRestoreInfo_MarshalVT m =
     (let d = pinUnknown m
      in optBytes [0x0a] (pinTable m) d)"

definition pbRestoreInfo_fields :: "int \<Rightarrow> pbRestoreInfo field option" where
  "pbRestoreInfo_fields fieldNum =
     (if fieldNum = 1 then Some (BytesField (\<lambda>b m. Inr (m\<lparr>pinTable := b\<rparr>)))
      else None)"

definition pbRestoreInfo_UnmarshalVT :: "bytes \<Rightarrow> pbRestoreInfo \<Rightarrow> proto_error + pbRestoreInfo" where
  "pbRestoreInfo_UnmarshalVT dAtA m =
     unmarshal_loop pbRestoreInfo_fields (\<lambda>b m. m\<lparr>pinUnknown := pinUnknown m @ b\<rparr>) (length dAtA) dAtA m"

lemma pbRestoreInfo_MarshalVT_length: "length (pbRestoreInfo_MarshalVT m) = pbRestoreInfo_SizeVT m"
  by (simp add: pbRestoreInfo_MarshalVT_def pbRestoreInfo_SizeVT_def length_opt Let_def)

definition pbRestoreInfo_wf :: "pbRestoreInfo \<Rightarrow> bool" where
  "pbRestoreInfo_wf m \<longleftrightarrow> pinUnknown m = []"

lemmas pbRestoreInfo_loop =
  loop_optBytes [where fields = pbRestoreInfo_fields and fn = 1 and f = "\<lambda>b m. m\<lparr>pinTable := b\<rparr>"]

lemma pbRestoreInfo_UnmarshalVT_MarshalVT:
  assumes "pbRestoreInfo_wf m" and "pbRestoreInfo_SizeVT m < 2 ^ 63"
  shows "pbRestoreInfo_UnmarshalVT (pbRestoreInfo_MarshalVT m) empty_pbRestoreInfo = Inr m"
proof -
  have "length (pbRestoreInfo_MarshalVT m) < 2 ^ 63"
    using assms(2) by (simp add: pbRestoreInfo_MarshalVT_length)
  moreover have "sizeBytes (pinTable m) < 2 ^ 63"
    using assms(2) by (simp_all add: pbRestoreInfo_SizeVT_def)
  ultimately show ?thesis
    using assms(1)
    by (simp add: pbRestoreInfo_UnmarshalVT_def pbRestoreInfo_MarshalVT_def Let_def pbRestoreInfo_loop
        pbRestoreInfo_fields_def empty_pbRestoreInfo_def pbRestoreInfo_wf_def)
qed

interpretation pin: message_codec pbRestoreInfo_SizeVT pbRestoreInfo_MarshalVT pbRestoreInfo_UnmarshalVT
  empty_pbRestoreInfo pbRestoreInfo_wf
  by unfold_locales (simp_all add: pbRestoreInfo_MarshalVT_length pbRestoreInfo_UnmarshalVT_MarshalVT)

datatype isRestoreMessage_Data =
    RestoreMessage_Info pbRestoreInfo
  | RestoreMessage_Chunk pbSnapshotChunk

record pbRestoreMessage =
  pmData :: "isRestoreMessage_Data option"
  pmUnknown :: bytes

definition empty_pbRestoreMessage :: pbRestoreMessage where
  "empty_pbRestoreMessage = \<lparr>pmData = None, pmUnknown = []\<rparr>"

fun isRestoreMessage_Data_SizeVT :: "isRestoreMessage_Data \<Rightarrow> nat" where
  "isRestoreMessage_Data_SizeVT (RestoreMessage_Info x) = sizeMessage (pbRestoreInfo_SizeVT x)"
| "isRestoreMessage_Data_SizeVT (RestoreMessage_Chunk x) = sizeMessage (pbSnapshotChunk_SizeVT x)"

fun isRestoreMessage_Data_MarshalVT :: "isRestoreMessage_Data \<Rightarrow> bytes \<Rightarrow> bytes" where
  "isRestoreMessage_Data_MarshalVT (RestoreMessage_Info x) d = putBytes [0x0a] (pbRestoreInfo_MarshalVT x) d"
| "isRestoreMessage_Data_MarshalVT (RestoreMessage_Chunk x) d = putBytes [0x12] (pbSnapshotChunk_MarshalVT x) d"

fun isRestoreMessage_Data_wf :: "isRestoreMessage_Data \<Rightarrow> bool" where
  "isRestoreMessage_Data_wf (RestoreMessage_Info x) = pbRestoreInfo_wf x"
| "isRestoreMessage_Data_wf (RestoreMessage_Chunk x) = pbSnapshotChunk_wf x"

definition pbRestoreMessage_SizeVT :: "pbRestoreMessage \<Rightarrow> nat" where
  "pbRestoreMessage_SizeVT m =
     (case pmData m of None \<Rightarrow> 0 | Some vtmsg \<Rightarrow> isRestoreMessage_Data_SizeVT vtmsg)
     + length (pmUnknown m)"

definition pbRestoreMessage_MarshalVT :: "pbRestoreMessage \<Rightarrow> bytes" where
  "pbRestoreMessage_MarshalVT m =
     (let d = pmUnknown m
      in (case pmData m of None \<Rightarrow> d | Some vtmsg \<Rightarrow> isRestoreMessage_Data_MarshalVT vtmsg d))"

definition pbRestoreMessage_fields :: "int \<Rightarrow> pbRestoreMessage field option" where
  "pbRestoreMessage_fields fieldNum =
     (if fieldNum = 1 then Some (BytesField (\<lambda>b m.
          rbind (pbRestoreInfo_UnmarshalVT b (case pmData m of Some (RestoreMessage_Info x) \<Rightarrow> x | _ \<Rightarrow> empty_pbRestoreInfo))
            (\<lambda>v. Inr (m\<lparr>pmData := Some (RestoreMessage_Info v)\<rparr>))))
      else if fieldNum = 2 then Some (BytesField (\<lambda>b m.
          rbind (pbSnapshotChunk_UnmarshalVT b (case pmData m of Some (RestoreMessage_Chunk x) \<Rightarrow> x | _ \<Rightarrow> empty_pbSnapshotChunk))
            (\<lambda>v. Inr (m\<lparr>pmData := Some (RestoreMessage_Chunk v)\<rparr>))))
      else None)"

definition pbRestoreMessage_UnmarshalVT :: "bytes \<Rightarrow> pbRestoreMessage \<Rightarrow> proto_error + pbRestoreMessage" where
  "pbRestoreMessage_UnmarshalVT dAtA m =
     unmarshal_loop pbRestoreMessage_fields (\<lambda>b m. m\<lparr>pmUnknown := pmUnknown m @ b\<rparr>) (length dAtA) dAtA m"

lemma pbRestoreMessage_MarshalVT_length: "length (pbRestoreMessage_MarshalVT m) = pbRestoreMessage_SizeVT m"
  by (cases "pmData m"; (cases "the (pmData m)")?)
    (auto simp: pbRestoreMessage_MarshalVT_def pbRestoreMessage_SizeVT_def length_opt length_putBytes sizeMessage_def Let_def pch.marshal_size pin.marshal_size)

definition pbRestoreMessage_wf :: "pbRestoreMessage \<Rightarrow> bool" where
  "pbRestoreMessage_wf m \<longleftrightarrow> pmUnknown m = []
     \<and> pred_option isRestoreMessage_Data_wf (pmData m)"

lemmas pbRestoreMessage_loop =
  pin.loop_message [where fields = pbRestoreMessage_fields and fn = 1 and x = "Some y" for y,
    where store = "\<lambda>x m. case x of None \<Rightarrow> m | Some v \<Rightarrow> m\<lparr>pmData := Some (RestoreMessage_Info v)\<rparr>", simplified]
  pch.loop_message [where fields = pbRestoreMessage_fields and fn = 2 and x = "Some y" for y,
    where store = "\<lambda>x m. case x of None \<Rightarrow> m | Some v \<Rightarrow> m\<lparr>pmData := Some (RestoreMessage_Chunk v)\<rparr>", simplified]

lemma pbRestoreMessage_UnmarshalVT_MarshalVT:
  assumes "pbRestoreMessage_wf m" and "pbRestoreMessage_SizeVT m < 2 ^ 63"
  shows "pbRestoreMessage_UnmarshalVT (pbRestoreMessage_MarshalVT m) empty_pbRestoreMessage = Inr m"
proof -
  have len: "length (pbRestoreMessage_MarshalVT m) < 2 ^ 63"
    using assms(2) by (simp add: pbRestoreMessage_MarshalVT_length)
  show ?thesis
    by (cases "pmData m"; (cases "the (pmData m)")?; use assms len in \<open>auto simp: pbRestoreMessage_UnmarshalVT_def pbRestoreMessage_MarshalVT_def Let_def pbRestoreMessage_loop
        pbRestoreMessage_fields_def empty_pbRestoreMessage_def pbRestoreMessage_wf_def
        pbRestoreMessage_SizeVT_def sizeMessage_def\<close>)
qed

interpretation prm: message_codec pbRestoreMessage_SizeVT pbRestoreMessage_MarshalVT pbRestoreMessage_UnmarshalVT
  empty_pbRestoreMessage pbRestoreMessage_wf
  by unfold_locales (simp_all add: pbRestoreMessage_MarshalVT_length pbRestoreMessage_UnmarshalVT_MarshalVT)

record pbRestoreResponse =
  prpUnknown :: bytes

definition empty_pbRestoreResponse :: pbRestoreResponse where
  "empty_pbRestoreResponse = \<lparr>prpUnknown = []\<rparr>"

definition pbRestoreResponse_SizeVT :: "pbRestoreResponse \<Rightarrow> nat" where
  "pbRestoreResponse_SizeVT m =
     length (prpUnknown m)"

definition pbRestoreResponse_MarshalVT :: "pbRestoreResponse \<Rightarrow> bytes" where
  "pbRestoreResponse_MarshalVT m =
     prpUnknown m"

definition pbRestoreResponse_fields :: "int \<Rightarrow> pbRestoreResponse field option" where
  "pbRestoreResponse_fields fieldNum =
     None"

definition pbRestoreResponse_UnmarshalVT :: "bytes \<Rightarrow> pbRestoreResponse \<Rightarrow> proto_error + pbRestoreResponse" where
  "pbRestoreResponse_UnmarshalVT dAtA m =
     unmarshal_loop pbRestoreResponse_fields (\<lambda>b m. m\<lparr>prpUnknown := prpUnknown m @ b\<rparr>) (length dAtA) dAtA m"

lemma pbRestoreResponse_MarshalVT_length: "length (pbRestoreResponse_MarshalVT m) = pbRestoreResponse_SizeVT m"
  by (simp add: pbRestoreResponse_MarshalVT_def pbRestoreResponse_SizeVT_def length_opt Let_def)

definition pbRestoreResponse_wf :: "pbRestoreResponse \<Rightarrow> bool" where
  "pbRestoreResponse_wf m \<longleftrightarrow> prpUnknown m = []"

lemma pbRestoreResponse_UnmarshalVT_MarshalVT:
  assumes "pbRestoreResponse_wf m" and "pbRestoreResponse_SizeVT m < 2 ^ 63"
  shows "pbRestoreResponse_UnmarshalVT (pbRestoreResponse_MarshalVT m) empty_pbRestoreResponse = Inr m"
  using assms
  by (simp add: pbRestoreResponse_UnmarshalVT_def pbRestoreResponse_MarshalVT_def Let_def
        pbRestoreResponse_fields_def empty_pbRestoreResponse_def pbRestoreResponse_wf_def)

interpretation prp: message_codec pbRestoreResponse_SizeVT pbRestoreResponse_MarshalVT pbRestoreResponse_UnmarshalVT
  empty_pbRestoreResponse pbRestoreResponse_wf
  by unfold_locales (simp_all add: pbRestoreResponse_MarshalVT_length pbRestoreResponse_UnmarshalVT_MarshalVT)

record pbResetRequest =
  pzTable :: bytes
  pzResetAll :: bool
  pzUnknown :: bytes

definition empty_pbResetRequest :: pbResetRequest where
  "empty_pbResetRequest = \<lparr>pzTable = [], pzResetAll = False, pzUnknown = []\<rparr>"

definition pbResetRequest_SizeVT :: "pbResetRequest \<Rightarrow> nat" where
  "pbResetRequest_SizeVT m =
     sizeBytes (pzTable m)
     + sizeBool (pzResetAll m)
     + length (pzUnknown m)"

definition pbResetRequest_MarshalVT :: "pbResetRequest \<Rightarrow> bytes" where
  "pbResetRequest_MarshalVT m =
     (let d = pzUnknown m;
          d = optBool [0x10] (pzResetAll m) d
      in optBytes [0x0a] (pzTable m) d)"

definition pbResetRequest_fields :: "int \<Rightarrow> pbResetRequest field option" where
  "pbResetRequest_fields fieldNum =
     (if fieldNum = 1 then Some (BytesField (\<lambda>b m. Inr (m\<lparr>pzTable := b\<rparr>)))
      else if fieldNum = 2 then Some (VarintField (\<lambda>v m. m\<lparr>pzResetAll := v \<noteq> 0\<rparr>))
      else None)"

definition pbResetRequest_UnmarshalVT :: "bytes \<Rightarrow> pbResetRequest \<Rightarrow> proto_error + pbResetRequest" where
  "pbResetRequest_UnmarshalVT dAtA m =
     unmarshal_loop pbResetRequest_fields (\<lambda>b m. m\<lparr>pzUnknown := pzUnknown m @ b\<rparr>) (length dAtA) dAtA m"

lemma pbResetRequest_MarshalVT_length: "length (pbResetRequest_MarshalVT m) = pbResetRequest_SizeVT m"
  by (simp add: pbResetRequest_MarshalVT_def pbResetRequest_SizeVT_def length_opt Let_def)

definition pbResetRequest_wf :: "pbResetRequest \<Rightarrow> bool" where
  "pbResetRequest_wf m \<longleftrightarrow> pzUnknown m = []"

lemmas pbResetRequest_loop =
  loop_optBytes [where fields = pbResetRequest_fields and fn = 1 and f = "\<lambda>b m. m\<lparr>pzTable := b\<rparr>"]
  loop_optBool [where fields = pbResetRequest_fields and fn = 2 and f = "\<lambda>v m. m\<lparr>pzResetAll := v \<noteq> 0\<rparr>"]

lemma pbResetRequest_UnmarshalVT_MarshalVT:
  assumes "pbResetRequest_wf m" and "pbResetRequest_SizeVT m < 2 ^ 63"
  shows "pbResetRequest_UnmarshalVT (pbResetRequest_MarshalVT m) empty_pbResetRequest = Inr m"
proof -
  have "length (pbResetRequest_MarshalVT m) < 2 ^ 63"
    using assms(2) by (simp add: pbResetRequest_MarshalVT_length)
  moreover have "sizeBytes (pzTable m) < 2 ^ 63"
    using assms(2) by (simp_all add: pbResetRequest_SizeVT_def)
  ultimately show ?thesis
    using assms(1)
    by (simp add: pbResetRequest_UnmarshalVT_def pbResetRequest_MarshalVT_def Let_def pbResetRequest_loop
        pbResetRequest_fields_def empty_pbResetRequest_def pbResetRequest_wf_def)
qed

interpretation pzq: message_codec pbResetRequest_SizeVT pbResetRequest_MarshalVT pbResetRequest_UnmarshalVT
  empty_pbResetRequest pbResetRequest_wf
  by unfold_locales (simp_all add: pbResetRequest_MarshalVT_length pbResetRequest_UnmarshalVT_MarshalVT)

record pbResetResponse =
  pzpUnknown :: bytes

definition empty_pbResetResponse :: pbResetResponse where
  "empty_pbResetResponse = \<lparr>pzpUnknown = []\<rparr>"

definition pbResetResponse_SizeVT :: "pbResetResponse \<Rightarrow> nat" where
  "pbResetResponse_SizeVT m =
     length (pzpUnknown m)"

definition pbResetResponse_MarshalVT :: "pbResetResponse \<Rightarrow> bytes" where
  "pbResetResponse_MarshalVT m =
     pzpUnknown m"

definition pbResetResponse_fields :: "int \<Rightarrow> pbResetResponse field option" where
  "pbResetResponse_fields fieldNum =
     None"

definition pbResetResponse_UnmarshalVT :: "bytes \<Rightarrow> pbResetResponse \<Rightarrow> proto_error + pbResetResponse" where
  "pbResetResponse_UnmarshalVT dAtA m =
     unmarshal_loop pbResetResponse_fields (\<lambda>b m. m\<lparr>pzpUnknown := pzpUnknown m @ b\<rparr>) (length dAtA) dAtA m"

lemma pbResetResponse_MarshalVT_length: "length (pbResetResponse_MarshalVT m) = pbResetResponse_SizeVT m"
  by (simp add: pbResetResponse_MarshalVT_def pbResetResponse_SizeVT_def length_opt Let_def)

definition pbResetResponse_wf :: "pbResetResponse \<Rightarrow> bool" where
  "pbResetResponse_wf m \<longleftrightarrow> pzpUnknown m = []"

lemma pbResetResponse_UnmarshalVT_MarshalVT:
  assumes "pbResetResponse_wf m" and "pbResetResponse_SizeVT m < 2 ^ 63"
  shows "pbResetResponse_UnmarshalVT (pbResetResponse_MarshalVT m) empty_pbResetResponse = Inr m"
  using assms
  by (simp add: pbResetResponse_UnmarshalVT_def pbResetResponse_MarshalVT_def Let_def
        pbResetResponse_fields_def empty_pbResetResponse_def pbResetResponse_wf_def)

interpretation pzp: message_codec pbResetResponse_SizeVT pbResetResponse_MarshalVT pbResetResponse_UnmarshalVT
  empty_pbResetResponse pbResetResponse_wf
  by unfold_locales (simp_all add: pbResetResponse_MarshalVT_length pbResetResponse_UnmarshalVT_MarshalVT)

end
