(* ===== verification/Wire_Encoding.thy ===== *)
theory Wire_Encoding
  imports Proto_Services Replication_Properties Backup_Client
begin

text \<open>
  How the messages of the model travel: their generated Go structs, the pools the program takes commands and
  chunks from, the codec it registers with gRPC (\<^verbatim>\<open>regattaserver/encoding/proto/codec.go\<close>), and the proof that
  a follower receives the messages that the leader sent.
\<close>

section \<open>Messages of the log and their structs\<close>

fun errorCode :: "ReplicateError \<Rightarrow> u32" where
  "errorCode USE_SNAPSHOT = 0"
| "errorCode LEADER_BEHIND = 1"
| "errorCode (UnknownReplicateError n) = of_nat n"

definition codeError :: "u32 \<Rightarrow> ReplicateError" where
  "codeError c = (if c = 0 then USE_SNAPSHOT else if c = 1 then LEADER_BEHIND else UnknownReplicateError (unat c))"

definition pbCommand :: "ReplicateCommand \<Rightarrow> pbReplicateCommand" where
  "pbCommand c = \<lparr>pdLeaderIndex = rcLeaderIndex c, pdCommand = Some (rcCommand c), pdUnknown = []\<rparr>"

definition commandOf :: "pbReplicateCommand \<Rightarrow> ReplicateCommand" where
  "commandOf p = \<lparr>rcLeaderIndex = pdLeaderIndex p, rcCommand = (case pdCommand p of None \<Rightarrow> emptyCommand | Some c \<Rightarrow> c)\<rparr>"

fun pbPayload :: "replicate_payload \<Rightarrow> isReplicateResponse_Response" where
  "pbPayload (CommandsResponse cs) = ReplicateResponse_CommandsResponse \<lparr>plCommands = map pbCommand cs, plUnknown = []\<rparr>"
| "pbPayload (ErrorResponse e) = ReplicateResponse_ErrorResponse \<lparr>peError = errorCode e, peUnknown = []\<rparr>"

fun payloadOf :: "isReplicateResponse_Response \<Rightarrow> replicate_payload" where
  "payloadOf (ReplicateResponse_CommandsResponse p) = CommandsResponse (map commandOf (plCommands p))"
| "payloadOf (ReplicateResponse_ErrorResponse p) = ErrorResponse (codeError (peError p))"

definition pbResponse :: "ReplicateResponse \<Rightarrow> pbReplicateResponse" where
  "pbResponse m = \<lparr>prLeaderIndex = rsLeaderIndex m, prResponse = map_option pbPayload (rsResponse m), prUnknown = []\<rparr>"

definition responseOf :: "pbReplicateResponse \<Rightarrow> ReplicateResponse" where
  "responseOf p = \<lparr>rsLeaderIndex = prLeaderIndex p, rsResponse = map_option payloadOf (prResponse p)\<rparr>"

definition pbRequest :: "ReplicateRequest \<Rightarrow> pbReplicateRequest" where
  "pbRequest m = \<lparr>pqTable = rqTable m, pqLeaderIndex = rqLeaderIndex m, pqUnknown = []\<rparr>"

definition requestOf :: "pbReplicateRequest \<Rightarrow> ReplicateRequest" where
  "requestOf p = \<lparr>rqLeaderIndex = pqLeaderIndex p, rqTable = pqTable p\<rparr>"

definition pbChunk :: "SnapshotChunk \<Rightarrow> pbSnapshotChunk" where
  "pbChunk c = \<lparr>pcData = scData c, pcLen = scLen c, pcIndex = 0, pcUnknown = []\<rparr>"

definition chunkOf :: "pbSnapshotChunk \<Rightarrow> SnapshotChunk" where
  "chunkOf p = \<lparr>scData = pcData p, scLen = pcLen p\<rparr>"

fun pbRestore :: "RestoreMessage \<Rightarrow> pbRestoreMessage" where
  "pbRestore (RestoreInfo t) = \<lparr>pmData = Some (RestoreMessage_Info \<lparr>pinTable = t, pinUnknown = []\<rparr>), pmUnknown = []\<rparr>"
| "pbRestore (RestoreChunk c) = \<lparr>pmData = Some (RestoreMessage_Chunk (pbChunk c)), pmUnknown = []\<rparr>"
| "pbRestore RestoreEmpty = \<lparr>pmData = None, pmUnknown = []\<rparr>"

definition restoreOf :: "pbRestoreMessage \<Rightarrow> RestoreMessage" where
  "restoreOf p = (case pmData p of
     None \<Rightarrow> RestoreEmpty
   | Some (RestoreMessage_Info i) \<Rightarrow> RestoreInfo (pinTable i)
   | Some (RestoreMessage_Chunk c) \<Rightarrow> RestoreChunk (chunkOf c))"

fun known_error :: "ReplicateError \<Rightarrow> bool" where
  "known_error (UnknownReplicateError n) \<longleftrightarrow> 1 < n \<and> n < 2 ^ 32"
| "known_error _ \<longleftrightarrow> True"

fun payload_wf :: "replicate_payload \<Rightarrow> bool" where
  "payload_wf (CommandsResponse cs) \<longleftrightarrow> (\<forall>c \<in> set cs. Command_wf (rcCommand c))"
| "payload_wf (ErrorResponse e) \<longleftrightarrow> known_error e"

definition response_wf :: "ReplicateResponse \<Rightarrow> bool" where
  "response_wf m \<longleftrightarrow> pred_option payload_wf (rsResponse m)"

lemma codeError_errorCode: "known_error e \<Longrightarrow> codeError (errorCode e) = e"
proof (cases e)
  case (UnknownReplicateError n)
  assume "known_error e"
  with UnknownReplicateError have n: "1 < n" "n < 2 ^ 32" by simp_all
  then have "unat (of_nat n :: u32) = n" by (simp add: unsigned_of_nat take_bit_nat_eq_self)
  moreover from this n(1) have "(of_nat n :: u32) \<noteq> 0" "(of_nat n :: u32) \<noteq> 1" by auto
  ultimately show ?thesis using UnknownReplicateError by (simp add: codeError_def)
qed (simp_all add: codeError_def)

lemma commandOf_pbCommand [simp]: "commandOf (pbCommand c) = c"
  by (simp add: commandOf_def pbCommand_def)

lemma responseOf_pbResponse: "response_wf m \<Longrightarrow> responseOf (pbResponse m) = m"
proof (cases "rsResponse m")
  case (Some x)
  assume "response_wf m"
  then have "payloadOf (pbPayload x) = x" using Some
    by (cases x) (auto simp: response_wf_def codeError_errorCode comp_def)
  then show ?thesis using Some by (simp add: responseOf_def pbResponse_def)
qed (simp add: responseOf_def pbResponse_def)

lemma pbResponse_wf: "response_wf m \<Longrightarrow> pbReplicateResponse_wf (pbResponse m)"
proof (cases "rsResponse m")
  case (Some x)
  assume "response_wf m"
  then show ?thesis using Some
    by (cases x) (auto simp: response_wf_def pbResponse_def pbReplicateResponse_wf_def pbReplicateCommandsResponse_wf_def
        pbReplicateErrResponse_wf_def pbReplicateCommand_wf_def pbCommand_def list_all_iff)
qed (simp add: pbResponse_def pbReplicateResponse_wf_def)

lemma restoreOf_pbRestore: "restoreOf (pbRestore m) = m"
  by (cases m) (simp_all add: restoreOf_def chunkOf_def pbChunk_def)

lemma pbRestore_wf: "pbRestoreMessage_wf (pbRestore m)"
  by (cases m) (simp_all add: pbRestoreMessage_wf_def pbRestoreInfo_wf_def pbSnapshotChunk_wf_def pbChunk_def)

section \<open>Pools\<close>

text \<open>
  \<^verbatim>\<open>ResetVT\<close> of the pooled messages: every field is cleared, but a range end that was present stays present,
  as the empty slice. The commands of a sequence are reset too; both users of the pool return a command
  without a sequence.
\<close>

definition Command_ResetVT :: "Command \<Rightarrow> Command" where
  "Command_ResetVT m = set_cmdRangeEnd (map_option (\<lambda>_. []) (cmdRangeEnd m)) emptyCommand"

definition SnapshotChunk_ResetVT :: "pbSnapshotChunk \<Rightarrow> pbSnapshotChunk" where
  "SnapshotChunk_ResetVT m = empty_pbSnapshotChunk"

lemma ResetVT_fresh: "cmdRangeEnd m = None \<Longrightarrow> Command_ResetVT m = emptyCommand"
  by (simp add: Command_ResetVT_def emptyCommand_def)

lemma ResetVT_pooled: "Command_ResetVT (Command_ResetVT m) = Command_ResetVT m"
  by (cases "cmdRangeEnd m") (simp_all add: Command_ResetVT_def emptyCommand_def)

text \<open>What \<^verbatim>\<open>writeCommand\<close> and \<^verbatim>\<open>proposeBatch\<close> put back is a fresh command for the next user.\<close>

lemma writeCommand_returns_fresh:
  "Command_ResetVT (set_cmdKv kv (set_cmdType Command_PUT (set_cmdTable tableName emptyCommand))) = emptyCommand"
  by (rule ResetVT_fresh) (simp add: emptyCommand_def)

lemma proposeBatch_returns_fresh: "Command_ResetVT (seqCommand [] li) = emptyCommand"
  by (rule ResetVT_fresh) (simp add: seqCommand_eq)

section \<open>The codec of gRPC\<close>

text \<open>
  \<^verbatim>\<open>Codec.Marshal\<close> and \<^verbatim>\<open>Codec.Unmarshal\<close> choose by the dynamic type of the value: a message with generated
  methods, another protobuf message, which the protobuf library encodes, or neither, of which the type's name
  is reported.
\<close>

datatype ('m, 'p) grpc_value = VtprotoMessage 'm | ProtoMessage 'p | OtherValue string

datatype codec_error = CdProto proto_error | CdLibrary string | CdType string

definition Codec_Marshal :: "('m \<Rightarrow> bytes) \<Rightarrow> ('p \<Rightarrow> string + bytes) \<Rightarrow> ('m, 'p) grpc_value \<Rightarrow> codec_error + bytes" where
  "Codec_Marshal marshalVT protoMarshal v =
     (case v of
        VtprotoMessage vt \<Rightarrow> Inr (marshalVT vt)
      | ProtoMessage vv \<Rightarrow> (case protoMarshal vv of Inl e \<Rightarrow> Inl (CdLibrary e) | Inr b \<Rightarrow> Inr b)
      | OtherValue T \<Rightarrow> Inl (CdType (''failed to marshal, message is '' @ T @ '', want proto.Message|vtprotoMessage'')))"

definition Codec_Unmarshal :: "(bytes \<Rightarrow> 'm \<Rightarrow> proto_error + 'm) \<Rightarrow> (bytes \<Rightarrow> 'p \<Rightarrow> string + 'p) \<Rightarrow> bytes
  \<Rightarrow> ('m, 'p) grpc_value \<Rightarrow> codec_error + ('m, 'p) grpc_value" where
  "Codec_Unmarshal unmarshalVT protoUnmarshal dat v =
     (case v of
        VtprotoMessage vt \<Rightarrow> (case unmarshalVT dat vt of Inl e \<Rightarrow> Inl (CdProto e) | Inr x \<Rightarrow> Inr (VtprotoMessage x))
      | ProtoMessage vv \<Rightarrow> (case protoUnmarshal dat vv of Inl e \<Rightarrow> Inl (CdLibrary e) | Inr x \<Rightarrow> Inr (ProtoMessage x))
      | OtherValue T \<Rightarrow> Inl (CdType (''failed to unmarshal, message is '' @ T @ '', want proto.Message|vtprotoMessage'')))"

text \<open>A message handed to gRPC on one side and received into a fresh message on the other.\<close>

definition transmit :: "('m \<Rightarrow> bytes) \<Rightarrow> (bytes \<Rightarrow> 'm \<Rightarrow> proto_error + 'm) \<Rightarrow> 'm \<Rightarrow> 'm \<Rightarrow> codec_error + ('m, unit) grpc_value" where
  "transmit marshalVT unmarshalVT fresh m =
     rbind (Codec_Marshal marshalVT (\<lambda>_ :: unit. Inl []) (VtprotoMessage m))
       (\<lambda>b. Codec_Unmarshal unmarshalVT (\<lambda>_ _. Inl []) b (VtprotoMessage fresh))"

context message_codec
begin

lemma transmit_exact: "wf m \<Longrightarrow> msize m < 2 ^ 63 \<Longrightarrow> transmit marshal unmarshal empty m = Inr (VtprotoMessage m)"
  by (simp add: transmit_def Codec_Marshal_def Codec_Unmarshal_def unmarshal_marshal)

end

text \<open>Receiving a response of the log, as the follower reads it.\<close>

definition received :: "ReplicateResponse \<Rightarrow> codec_error + ReplicateResponse" where
  "received m =
     rbind (transmit pbReplicateResponse_MarshalVT pbReplicateResponse_UnmarshalVT empty_pbReplicateResponse (pbResponse m))
       (\<lambda>v. case v of VtprotoMessage p \<Rightarrow> Inr (responseOf p) | _ \<Rightarrow> Inl (CdType []))"

lemma received_exact:
  assumes "response_wf m" and "pbReplicateResponse_SizeVT (pbResponse m) < 2 ^ 63"
  shows "received m = Inr m"
  using prr.transmit_exact [OF pbResponse_wf [OF assms(1)] assms(2)] responseOf_pbResponse [OF assms(1)]
  by (simp add: received_def)

section \<open>What the leader sends\<close>

text \<open>A message made of the commands of a piece of the log, or an error the follower knows.\<close>

fun payload_of_log :: "raftEntry list \<Rightarrow> replicate_payload \<Rightarrow> bool" where
  "payload_of_log L (CommandsResponse cs) \<longleftrightarrow> (\<exists>a b. entriesToCommands (piece L a b) = Inr cs)"
| "payload_of_log L (ErrorResponse e) \<longleftrightarrow> e \<in> {USE_SNAPSHOT, LEADER_BEHIND}"

definition of_log :: "raftEntry list \<Rightarrow> ReplicateResponse \<Rightarrow> bool" where
  "of_log L m \<longleftrightarrow> pred_option (payload_of_log L) (rsResponse m)"

lemma of_log_wf: "of_log L m \<Longrightarrow> log_wf L \<Longrightarrow> response_wf m"
proof (cases "rsResponse m")
  case (Some x)
  assume m: "of_log L m" and wf: "log_wf L"
  have sub: "set (piece L a b) \<subseteq> set L" for a b by (meson set_drop_subset set_take_subset subset_trans)
  show ?thesis using m Some
    by (cases x) (auto simp: of_log_def response_wf_def dest: entriesToCommands_wf [OF _ sub wf])
qed (simp add: response_wf_def)

lemma of_log_simps [simp]:
  "of_log L (errorResponseFactory LEADER_BEHIND)" "of_log L (errorResponseFactory USE_SNAPSHOT)"
  "of_log L \<lparr>rsLeaderIndex = i, rsResponse = None\<rparr>"
  by (simp_all add: of_log_def errorResponseFactory_def)

definition sends_log :: "raftEntry list \<Rightarrow> ((rep_error + unit) \<times> ReplicateResponse list \<times> 's) option \<Rightarrow> bool" where
  "sends_log L res \<longleftrightarrow> (\<forall>x sent s. res = Some (x, sent, s) \<longrightarrow> (\<forall>m \<in> set sent. of_log L m))"

lemma sends_log_stop: "\<forall>m \<in> set sent. of_log L m \<Longrightarrow> sends_log L (Some (x, sent, s))"
  by (simp add: sends_log_def)

lemma sends_log_send:
  "\<forall>m \<in> set sent. of_log L m \<Longrightarrow> of_log L m \<Longrightarrow> sends_log L (case Send ok sent m of (r, sent) \<Rightarrow> Some (r, sent, s))"
  by (simp add: sends_log_def Send_def)

context log_reader
begin

lemma Replicate_loop_sends:
  assumes "reader_ok LL s" and "0 < FirstIndex r" and "FirstIndex r \<le> LastIndex r" and "\<forall>m \<in> set sent. of_log (LL sid) m"
  shows "sends_log (LL sid) (Replicate_loop query sendOk expired idx maxSize sid applied i r sent s)"
  using assms
proof (induction "LastIndex r - FirstIndex r" arbitrary: r sent s i rule: less_induct)
  case less
  note stop = sends_log_stop [OF less.prems(4)] and send = sends_log_send [OF less.prems(4)]
  have il: "is_log (LL sid)" using ok_logs [OF less.prems(1)] by (simp add: logs_ok_def)
  show ?case
  proof (cases "expired i")
    case True
    then show ?thesis by (subst Replicate_loop.simps) (simp add: stop)
  next
    case run: False
    from less.prems(1-3) show ?thesis
    proof (cases rule: answerE [where sid = sid and maxSize = maxSize])
      case (1 e s')
      then show ?thesis using run by (subst Replicate_loop.simps) (simp add: stop send)
    next
      case (2 es s')
      let ?a = "FirstIndex r" and ?n = "length es"
      show ?thesis
      proof (cases "es = [] \<or> (\<exists>e. entriesToCommands es = Inl e)")
        case True
        then show ?thesis using run 2(1,2) by (subst Replicate_loop.simps) (auto simp: stop send split: sum.splits)
      next
        case False
        then obtain cs where cs: "es \<noteq> []" "entriesToCommands es = Inr cs" by (cases "entriesToCommands es") auto
        let ?m = "\<lparr>rsLeaderIndex = of_nat applied, rsResponse = Some (CommandsResponse cs)\<rparr>"
        let ?r = "\<lparr>FirstIndex = ?a + ?n, LastIndex = LastIndex r\<rparr>"
        have "es = piece (LL sid) (?a - 1) (?a + ?n - 1)"
          using 2(4) log_slice_piece [OF il less.prems(2), of "?a + ?n"] by simp
        then have "\<exists>a b. entriesToCommands (piece (LL sid) a b) = Inr cs" using cs(2) by metis
        then have m: "of_log (LL sid) ?m" by (simp add: of_log_def)
        have "lgIndex (es ! (?n - 1)) = ?a + (?n - 1)"
          using seg_nth [OF log_slice_seg [OF il less.prems(2)], of "?n - 1" "?a + ?n"] 2(4) cs(1)
          by (metis diff_less length_greater_0_conv zero_less_one)
        then have lst: "min (lgIndex (es ! (?n - 1)) + 1) (LastIndex r) = ?a + ?n"
          using cs(1) 2(5) by (cases es) auto
        have "0 < ?n" using cs(1) by simp
        then have dec: "LastIndex ?r - FirstIndex ?r < LastIndex r - FirstIndex r"
          using 2(5) by (simp del: length_greater_0_conv)
        have "sends_log (LL sid) (Replicate_loop query sendOk expired idx maxSize sid applied (i + 1) ?r (sent @ [?m]) s')"
          using less.prems m dec 2(2,5) by (intro less.hyps) auto
        moreover have "Replicate_loop query sendOk expired idx maxSize sid applied i r sent s =
            (if sendOk sent ?m then Replicate_loop query sendOk expired idx maxSize sid applied (i + 1) ?r (sent @ [?m]) s'
             else Some (Inl RepSend, sent, s'))"
          using run 2(1) cs lst by (subst Replicate_loop.simps) (simp add: Send_def)
        ultimately show ?thesis by (simp add: stop)
      qed
    qed
  qed
qed

lemma Replicate_sends:
  assumes "reader_ok LL s" and "getTable (rqTable req) = Inr sid"
  shows "sends_log (LL sid) (Replicate query getTable localIndex sendOk expired maxSize req s)"
proof (cases "localIndex True")
  case (Inl e)
  then show ?thesis using assms by (simp add: Replicate_def sends_log_stop)
next
  case (Inr a)
  show ?thesis
  proof (cases "rqLeaderIndex req = 0 \<or> a + 1 < unat (rqLeaderIndex req)")
    case True
    then show ?thesis using assms Inr by (auto simp: Replicate_def sends_log_stop sends_log_send)
  next
    case False
    then have "0 < unat (rqLeaderIndex req)" by (simp add: unat_gt_0)
    then show ?thesis using Replicate_loop_sends [OF assms(1)] assms(2) Inr False by (simp add: Replicate_def)
  qed
qed

end

section \<open>Sizes\<close>

lemma entriesToCommands_take: "entriesToCommands es = Inr cs \<Longrightarrow> entriesToCommands (take n es) = Inr (take n cs)"
  by (induction es arbitrary: cs n) (auto simp: result_simps take_Cons split: nat.splits)

lemma entriesToCommands_drop: "entriesToCommands es = Inr cs \<Longrightarrow> entriesToCommands (drop n es) = Inr (drop n cs)"
  by (induction es arbitrary: cs n) (auto simp: result_simps drop_Cons split: nat.splits)

text \<open>The length on the wire of a list of commands.\<close>

definition commandsSize :: "ReplicateCommand list \<Rightarrow> nat" where
  "commandsSize cs = sizeRepeated 1 pbReplicateCommand_SizeVT (map pbCommand cs)"

lemma commandsSize_append: "commandsSize (xs @ ys) = commandsSize xs + commandsSize ys"
  by (simp add: commandsSize_def sizeRepeated_def)

lemma commandsSize_piece: "commandsSize (drop a (take b cs)) \<le> commandsSize cs"
proof -
  have "commandsSize cs = commandsSize (take a (take b cs)) + commandsSize (drop a (take b cs)) + commandsSize (drop b cs)"
    by (simp only: append_take_drop_id flip: commandsSize_append)
  then show ?thesis by linarith
qed

lemma sizeVarint_le: "sizeVarint v \<le> 11"
  using sov_le_10 [of v] by (simp add: sizeVarint_def)

lemma response_size:
  assumes "of_log L m" and "entriesToCommands L = Inr cs"
  shows "pbReplicateResponse_SizeVT (pbResponse m) \<le> commandsSize cs + 40"
proof (cases "rsResponse m")
  case None
  then show ?thesis using sizeVarint_le [of "rsLeaderIndex m"] by (simp add: pbReplicateResponse_SizeVT_def pbResponse_def)
next
  case (Some x)
  show ?thesis
  proof (cases x)
    case (CommandsResponse ds)
    then obtain a b where "entriesToCommands (piece L a b) = Inr ds" using assms(1) Some by (auto simp: of_log_def)
    then have "ds = drop a (take b cs)" using entriesToCommands_drop [OF entriesToCommands_take [OF assms(2)], of a b] by simp
    then have "commandsSize ds \<le> commandsSize cs" by (simp add: commandsSize_piece)
    then show ?thesis using Some CommandsResponse sizeVarint_le [of "rsLeaderIndex m"] sov_le_10 [of "of_nat (commandsSize ds)"]
      by (simp add: pbReplicateResponse_SizeVT_def pbResponse_def pbReplicateCommandsResponse_SizeVT_def sizeMessage_def
          del: One_nat_def flip: commandsSize_def)
  next
    case (ErrorResponse e)
    let ?p = "\<lparr>peError = errorCode e, peUnknown = []\<rparr>"
    have "pbReplicateErrResponse_SizeVT ?p \<le> 11" by (simp add: pbReplicateErrResponse_SizeVT_def sizeVarint_le)
    then show ?thesis using Some ErrorResponse sizeVarint_le [of "rsLeaderIndex m"]
        sov_le_10 [of "of_nat (pbReplicateErrResponse_SizeVT ?p)"]
      by (simp add: pbReplicateResponse_SizeVT_def pbResponse_def sizeMessage_def)
  qed
qed

section \<open>Properties\<close>

text \<open>
  C13: replication is unchanged by its encoding. Over the cached log reader in any state it can reach, every
  message that \<^verbatim>\<open>LogServer.Replicate\<close> sends for a log of decodable commands is received by the follower exactly as
  it was sent, after the generated \<^verbatim>\<open>MarshalVT\<close>, the gRPC codec and the generated \<^verbatim>\<open>UnmarshalVT\<close> into a fresh
  message, provided the commands of the whole log fit in \<open>2 ^ 62\<close> bytes.
\<close>

theorem Replicate_over_the_wire:
  assumes "reader_reach sz LL l" and "querier_ok q LL" and "log_wf (LL sid)" and "getTable (rqTable req) = Inr sid"
    and "entriesToCommands (LL sid) = Inr cs" and "commandsSize cs < 2 ^ 62"
  shows "\<exists>x sent l'. Replicate (Cached_QueryRaftLog sz q) getTable localIndex sendOk expired maxSize req l = Some (x, sent, l')
    \<and> map received sent = map Inr sent"
proof -
  have ok: "logs_ok LL" "Cached_ok LL l" using reader_reach_ok [OF assms(1)] by auto
  obtain x sent l' where run: "Replicate (Cached_QueryRaftLog sz q) getTable localIndex sendOk expired maxSize req l = Some (x, sent, l')"
    using cached.Replicate_ok [of LL q l getTable req sid sz localIndex sendOk expired maxSize] ok assms(2,4) by auto
  have "of_log (LL sid) m" if "m \<in> set sent" for m
    using cached.Replicate_sends [of LL q l getTable req sid sz localIndex sendOk expired maxSize] ok assms(2,4) run that
    by (auto simp: sends_log_def)
  then have "received m = Inr m" if "m \<in> set sent" for m
    using that response_size [OF _ assms(5), of m] assms(6) by (intro received_exact of_log_wf [OF _ assms(3)]) fastforce+
  then show ?thesis using run by auto
qed

lemma exLog_allCommands: "entriesToCommands exLog = Inr
    [\<lparr>rcLeaderIndex = 1, rcCommand = Command [] Command_DUMMY None (Some 1) [] None None False [] False []\<rparr>,
     \<lparr>rcLeaderIndex = 2, rcCommand = exPut [97] [1] (Some 2)\<rparr>, \<lparr>rcLeaderIndex = 3, rcCommand = exPut [98] [2] (Some 3)\<rparr>]"
  using exLog_commands [of 2 97 1] exLog_commands [of 3 98 2]
  by (simp add: exLog_def exLogEntry_def entryToCommand_def emptyCommand_def)

theorem Replicate_over_the_wire_witness:
  "\<exists>x sent l'. Replicate (Cached_QueryRaftLog (\<lambda>_. 10) (mem_querier (\<lambda>_. exLog))) (\<lambda>_. Inr 1) (\<lambda>_. Inr 3) (\<lambda>_ _. True) (\<lambda>_. False) 100
      \<lparr>rqLeaderIndex = 1, rqTable = []\<rparr> exReader = Some (x, sent, l')
    \<and> map received sent = map Inr sent"
proof -
  have "commandsSize [\<lparr>rcLeaderIndex = 1, rcCommand = Command [] Command_DUMMY None (Some 1) [] None None False [] False []\<rparr>,
     \<lparr>rcLeaderIndex = 2, rcCommand = exPut [97] [1] (Some 2)\<rparr>, \<lparr>rcLeaderIndex = 3, rcCommand = exPut [98] [2] (Some 3)\<rparr>] \<le> 100"
    by code_simp
  then show ?thesis
    using exLog_allCommands
    by (intro Replicate_over_the_wire [OF exReader_reach mem_querier_ok [OF exLog_ok], where sid = 1] exLog_wf) auto
qed

text \<open>
  C18: the key-value API is unchanged by its encoding. Every request and every response of the service, of a range
  query, a put, a deletion or a transaction, arrives as it was sent: encoded by \<^verbatim>\<open>Codec.Marshal\<close> and decoded by
  \<^verbatim>\<open>Codec.Unmarshal\<close> into a fresh message it is the same message, provided it carries no unknown fields and no
  present but empty range end (the encoding has no place for the difference) and is shorter than \<open>2 ^ 63\<close> bytes.
\<close>

theorem api_over_the_wire:
  assumes "RangeRequest_wf a" and "RangeRequest_SizeVT a < 2 ^ 63"
    and "RangeResponse_wf b" and "RangeResponse_SizeVT b < 2 ^ 63"
    and "PutRequest_wf c" and "PutRequest_SizeVT c < 2 ^ 63"
    and "PutResponse_wf d" and "PutResponse_SizeVT d < 2 ^ 63"
    and "DeleteRangeRequest_wf e" and "DeleteRangeRequest_SizeVT e < 2 ^ 63"
    and "DeleteRangeResponse_wf f" and "DeleteRangeResponse_SizeVT f < 2 ^ 63"
    and "TxnRequest_wf g" and "TxnRequest_SizeVT g < 2 ^ 63"
    and "TxnAnswer_wf h" and "TxnAnswer_SizeVT h < 2 ^ 63"
  shows "transmit RangeRequest_MarshalVT RangeRequest_UnmarshalVT emptyRangeRequest a = Inr (VtprotoMessage a)
    \<and> transmit RangeResponse_MarshalVT RangeResponse_UnmarshalVT emptyRangeResponse b = Inr (VtprotoMessage b)
    \<and> transmit PutRequest_MarshalVT PutRequest_UnmarshalVT emptyPutRequest c = Inr (VtprotoMessage c)
    \<and> transmit PutResponse_MarshalVT PutResponse_UnmarshalVT emptyPutResponse d = Inr (VtprotoMessage d)
    \<and> transmit DeleteRangeRequest_MarshalVT DeleteRangeRequest_UnmarshalVT emptyDeleteRangeRequest e = Inr (VtprotoMessage e)
    \<and> transmit DeleteRangeResponse_MarshalVT DeleteRangeResponse_UnmarshalVT emptyDeleteRangeResponse f = Inr (VtprotoMessage f)
    \<and> transmit TxnRequest_MarshalVT TxnRequest_UnmarshalVT emptyTxnRequest g = Inr (VtprotoMessage g)
    \<and> transmit TxnAnswer_MarshalVT TxnAnswer_UnmarshalVT emptyTxnAnswer h = Inr (VtprotoMessage h)"
  using assms by (simp only: rgq.transmit_exact rgp.transmit_exact puq.transmit_exact pup.transmit_exact deq.transmit_exact dep.transmit_exact trq.transmit_exact trp.transmit_exact simp_thms)

definition exRangeRequest :: RangeRequest where
  "exRangeRequest = emptyRangeRequest\<lparr>rgTable := [116], rgKey := [97], rgRangeEnd := Some [98], rgLimit := 300, rgLinearizable := True\<rparr>"

definition exPair :: KeyValue where
  "exPair = emptyKeyValue\<lparr>kvKey := [97], kvValue := [1]\<rparr>"

definition exHeader :: ResponseHeader where
  "exHeader = emptyHeader\<lparr>hdShardId := 3, hdReplicaId := 1, hdRevision := 7\<rparr>"

lemmas exApi_defs = exRangeRequest_def exPair_def exHeader_def

theorem api_over_the_wire_witness:
  "transmit RangeRequest_MarshalVT RangeRequest_UnmarshalVT emptyRangeRequest exRangeRequest = Inr (VtprotoMessage exRangeRequest)
    \<and> transmit RangeResponse_MarshalVT RangeResponse_UnmarshalVT emptyRangeResponse
        (emptyRangeResponse\<lparr>rgHeader := Some exHeader, rgKvs := [exPair], rgCount := 1\<rparr>)
      = Inr (VtprotoMessage (emptyRangeResponse\<lparr>rgHeader := Some exHeader, rgKvs := [exPair], rgCount := 1\<rparr>))"
proof -
  let ?b = "emptyRangeResponse\<lparr>rgHeader := Some exHeader, rgKvs := [exPair], rgCount := 1\<rparr>"
  have h: "ResponseHeader_wf exHeader" "KeyValue_wf exPair"
    by (simp_all add: exApi_defs ResponseHeader_wf_def emptyHeader_def KeyValue_wf_def emptyKeyValue_def)
  have "RangeRequest_wf exRangeRequest" "RangeResponse_wf ?b"
    using h by (simp_all add: RangeRequest_wf_def RangeResponse_wf_def exRangeRequest_def emptyRangeRequest_def emptyRangeResponse_def)
  moreover have "RangeRequest_SizeVT exRangeRequest \<le> 100" "RangeResponse_SizeVT ?b \<le> 100" by code_simp+
  moreover have "PutRequest_wf emptyPutRequest" "PutResponse_wf emptyPutResponse" "DeleteRangeRequest_wf emptyDeleteRangeRequest"
    "DeleteRangeResponse_wf emptyDeleteRangeResponse" "TxnRequest_wf emptyTxnRequest" "TxnAnswer_wf emptyTxnAnswer"
    by (simp_all add: PutRequest_wf_def PutResponse_wf_def DeleteRangeRequest_wf_def DeleteRangeResponse_wf_def TxnRequest_wf_def
        TxnAnswer_wf_def emptyPutRequest_def emptyPutResponse_def emptyDeleteRangeRequest_def emptyDeleteRangeResponse_def
        emptyTxnRequest_def emptyTxnAnswer_def)
  moreover have "PutRequest_SizeVT emptyPutRequest = 0" "PutResponse_SizeVT emptyPutResponse = 0"
    "DeleteRangeRequest_SizeVT emptyDeleteRangeRequest = 0" "DeleteRangeResponse_SizeVT emptyDeleteRangeResponse = 0"
    "TxnRequest_SizeVT emptyTxnRequest = 0" "TxnAnswer_SizeVT emptyTxnAnswer = 0"
    by code_simp+
  ultimately show ?thesis
    using api_over_the_wire [of exRangeRequest ?b emptyPutRequest emptyPutResponse emptyDeleteRangeRequest
        emptyDeleteRangeResponse emptyTxnRequest emptyTxnAnswer] by simp
qed

end
