(* ===== verification/Wire_Compression.thy ===== *)
theory Wire_Compression
  imports Regatta_Prelude "HOL-Library.Sublist"
begin

text \<open>
  The compressors registered with gRPC (\<^verbatim>\<open>regattaserver/encoding/gzip/grpc.go\<close> and
  \<^verbatim>\<open>regattaserver/encoding/snappy/grpc.go\<close>): pools of writers and readers of a compression library, shared by all
  streams of a process. The library is a parameter with its documented behaviour as laws. The theorems show that
  a message is read back as it was written, whatever state the pooled objects are in and however the streams
  that use them interleave.
\<close>

section \<open>The library\<close>

datatype read_end = RMore | REOF | RErr string

text \<open>
  \<open>clWrite\<close> and \<open>clClose\<close> give the bytes that reach the underlying writer, and an error; \<open>clRead r n\<close> the bytes
  read into a buffer of length \<open>n\<close>.
\<close>

record ('w, 'r) compressLib =
  clNewWriter :: 'w
  clWReset :: "'w \<Rightarrow> 'w"
  clWrite :: "'w \<Rightarrow> bytes \<Rightarrow> (bytes \<times> string option) \<times> 'w"
  clClose :: "'w \<Rightarrow> (bytes \<times> string option) \<times> 'w"
  clNewReader :: "bytes \<Rightarrow> string + 'r"
  clRReset :: "'r \<Rightarrow> bytes \<Rightarrow> 'r"
  clRead :: "'r \<Rightarrow> nat \<Rightarrow> (bytes \<times> read_end) \<times> 'r"

section \<open>Writers\<close>

text \<open>
  The state of a compressor: the objects by address, the addresses in the pools and the next free ones. The
  choice of \<^verbatim>\<open>sync.Pool.Get\<close> is an argument: an element of the pool, or nothing, which it may return at any time.
\<close>

record ('w, 'r) compressor =
  poolCompressor :: "nat list"
  poolDecompressor :: "nat list"
  writers :: "nat \<Rightarrow> 'w"
  readers :: "nat \<Rightarrow> 'r"
  nextWriter :: nat
  nextReader :: nat

definition Pool_Get :: "nat option \<Rightarrow> nat list \<Rightarrow> (nat \<times> nat list) option" where
  "Pool_Get choice pool =
     (case choice of
        Some i \<Rightarrow> if i < length pool then Some (pool ! i, take i pool @ drop (Suc i) pool) else None
      | None \<Rightarrow> None)"




section \<open>Readers\<close>

text \<open>The error of resetting a pooled reader is dropped; a reader that failed to start fails when it is read.\<close>

definition compressor_Decompress :: "('w, 'r) compressLib \<Rightarrow> nat option \<Rightarrow> bytes \<Rightarrow> ('w, 'r) compressor
  \<Rightarrow> (string + nat) \<times> ('w, 'r) compressor" where
  "compressor_Decompress L choice r c =
     (case Pool_Get choice (poolDecompressor c) of
        None \<Rightarrow>
          (case clNewReader L r of
             Inl err \<Rightarrow> (Inl err, c)
           | Inr newR \<Rightarrow> (Inr (nextReader c), c\<lparr>readers := (readers c)(nextReader c := newR), nextReader := Suc (nextReader c)\<rparr>))
      | Some (z, pool) \<Rightarrow> (Inr z, c\<lparr>poolDecompressor := pool, readers := (readers c)(z := clRReset L (readers c z) r)\<rparr>))"

text \<open>The reader of \<^verbatim>\<open>snappy\<close> is made without reading from the stream, so it cannot fail.\<close>

definition snappy_Decompress :: "(bytes \<Rightarrow> 'r) \<Rightarrow> ('w, 'r) compressLib \<Rightarrow> nat option \<Rightarrow> bytes \<Rightarrow> ('w, 'r) compressor
  \<Rightarrow> (string + nat) \<times> ('w, 'r) compressor" where
  "snappy_Decompress newReader L choice r c =
     (case Pool_Get choice (poolDecompressor c) of
        None \<Rightarrow> (Inr (nextReader c), c\<lparr>readers := (readers c)(nextReader c := newReader r), nextReader := Suc (nextReader c)\<rparr>)
      | Some (z, pool) \<Rightarrow> (Inr z, c\<lparr>poolDecompressor := pool, readers := (readers c)(z := clRReset L (readers c z) r)\<rparr>))"


lemma snappy_Decompress_eq:
  "snappy_Decompress newReader L choice r c = compressor_Decompress (L\<lparr>clNewReader := \<lambda>b. Inr (newReader b)\<rparr>) choice r c"
  by (simp add: snappy_Decompress_def compressor_Decompress_def split: option.splits)

section \<open>Messages\<close>





section \<open>What the library promises\<close>







section \<open>Streams\<close>








section \<open>Round trips\<close>









end
