(* ===== verification/Discovery.thy ===== *)
theory Discovery
  imports Table_Manager
begin

text \<open>
  Discovery of the members of the gossip cluster (\<^verbatim>\<open>storage/cluster/dns\<close> and \<^verbatim>\<open>discoverMembers\<close> of
  \<^verbatim>\<open>storage/cluster/cluster.go\<close>): addresses given as such or by a DNS name, the lookups, and the
  cache of their results. The answers of the DNS are a parameter.
\<close>

section \<open>Host names and ports\<close>

text \<open>\<^verbatim>\<open>strings.SplitN(s, "+", 2)\<close> and \<^verbatim>\<open>strings.Split(s, "//")\<close>.\<close>

definition SplitPlus :: "string \<Rightarrow> string list" where
  "SplitPlus s = (case dropWhile (\<lambda>c. c \<noteq> CHR ''+'') s of [] \<Rightarrow> [s] | _ # rest \<Rightarrow> [takeWhile (\<lambda>c. c \<noteq> CHR ''+'') s, rest])"

fun SplitScheme :: "string \<Rightarrow> string list" where
  "SplitScheme [] = [[]]"
| "SplitScheme [a] = [[a]]"
| "SplitScheme (a # b # s) =
     (if a = CHR ''/'' \<and> b = CHR ''/'' then [] # SplitScheme s
      else case SplitScheme (b # s) of h # t \<Rightarrow> (a # h) # t | [] \<Rightarrow> [[a]])"

text \<open>\<^verbatim>\<open>net.SplitHostPort\<close>: the port follows the last colon, the host may stand in brackets.\<close>

definition IndexByte :: "char \<Rightarrow> string \<Rightarrow> nat option" where
  "IndexByte c s = (if c \<in> set s then Some (length (takeWhile (\<lambda>x. x \<noteq> c) s)) else None)"

definition LastIndexByte :: "char \<Rightarrow> string \<Rightarrow> nat option" where
  "LastIndexByte c s = map_option (\<lambda>i. length s - 1 - i) (IndexByte c (rev s))"

definition SplitHostPort :: "string \<Rightarrow> string + (string \<times> string)" where
  "SplitHostPort hostport =
     (case LastIndexByte CHR '':'' hostport of
        None \<Rightarrow> Inl ''missing port in address''
      | Some i \<Rightarrow>
          rbind
            (if hd hostport = CHR ''['' then
               (case IndexByte CHR '']'' hostport of
                  None \<Rightarrow> Inl ''missing bracket in address''
                | Some e \<Rightarrow>
                    if e + 1 = length hostport then Inl ''missing port in address''
                    else if e + 1 = i then Inr (take (e - 1) (tl hostport), 1, e + 1)
                    else if hostport ! (e + 1) = CHR '':'' then Inl ''too many colons in address''
                    else Inl ''missing port in address'')
             else if CHR '':'' \<in> set (take i hostport) then Inl ''too many colons in address''
             else Inr (take i hostport, 0, 0))
            (\<lambda>(host, j, k).
               if CHR ''['' \<in> set (drop j hostport) then Inl ''unexpected [ in address''
               else if CHR '']'' \<in> set (drop k hostport) then Inl ''unexpected ] in address''
               else Inr (host, drop (i + 1) hostport)))"

definition JoinHostPort :: "string \<Rightarrow> string \<Rightarrow> string" where
  "JoinHostPort host port = (if CHR '':'' \<in> set host then ''['' @ host @ '']:'' @ port else host @ '':'' @ port)"

section \<open>Lookups\<close>

definition GetQTypeName :: "string \<Rightarrow> string \<times> string" where
  "GetQTypeName addr = (case SplitPlus addr of [qtype, name] \<Rightarrow> (qtype, name) | _ \<Rightarrow> ([], addr))"

definition IsDynamicNode :: "string \<Rightarrow> bool" where
  "IsDynamicNode addr = (fst (GetQTypeName addr) \<noteq> [])"

definition appendScheme :: "string \<Rightarrow> string \<Rightarrow> string" where
  "appendScheme scheme host = (if scheme = [] then host else scheme @ ''//'' @ host)"

text \<open>The answers of the DNS: records and possibly an error, which may say that the name is unknown.\<close>

record lookup_error =
  leNotFound :: bool
  leMessage :: string

record ipLookupResolver =
  LookupIPAddr :: "string \<Rightarrow> string list \<times> lookup_error option"
  LookupSRV :: "string \<Rightarrow> (string \<times> nat) list \<times> lookup_error option"

datatype dns_error =
    MissingPort string
  | LookupIP lookup_error string
  | LookupRecords lookup_error string
  | InvalidScheme string

definition dnsIdNotFound :: "lookup_error option \<Rightarrow> bool" where
  "dnsIdNotFound err = (case err of None \<Rightarrow> False | Some e \<Rightarrow> leNotFound e)"

text \<open>An error other than the one for an unknown name ends the lookup.\<close>

definition failed :: "'a list \<times> lookup_error option \<Rightarrow> (lookup_error \<Rightarrow> dns_error) \<Rightarrow> dns_error + 'a list" where
  "failed answer mk = (case snd answer of Some e \<Rightarrow> if dnsIdNotFound (snd answer) then Inr (fst answer) else Inl (mk e) | None \<Rightarrow> Inr (fst answer))"

fun srv_loop :: "ipLookupResolver \<Rightarrow> bool \<Rightarrow> string \<Rightarrow> string \<Rightarrow> string \<Rightarrow> (string \<times> nat) list \<Rightarrow> string list \<Rightarrow> dns_error + string list" where
  "srv_loop L noA scheme host port [] res = Inr res"
| "srv_loop L noA scheme host port ((target, recPort) # recs) res =
     (let resPort = (if port = [] then decimal recPort else port) in
      if noA then srv_loop L noA scheme host port recs (res @ [appendScheme scheme (JoinHostPort target resPort)])
      else rbind (failed (LookupIPAddr L target) (\<lambda>e. LookupIP e host)) (\<lambda>resIPs.
             srv_loop L noA scheme host port recs (res @ map (\<lambda>ip. appendScheme scheme (JoinHostPort ip resPort)) resIPs)))"

definition dnsResolver_Resolve :: "ipLookupResolver \<Rightarrow> string \<Rightarrow> string \<Rightarrow> dns_error + string list" where
  "dnsResolver_Resolve L name qtype =
     (let (scheme, name) = (case SplitScheme name of s # n # _ \<Rightarrow> (s, n) | _ \<Rightarrow> ([], name));
          (host, port) = (case SplitHostPort name of Inr hp \<Rightarrow> hp | Inl _ \<Rightarrow> (name, [])) in
      if qtype = ''dns'' then
        (if port = [] then Inl (MissingPort name)
         else rbind (failed (LookupIPAddr L host) (\<lambda>e. LookupIP e host)) (\<lambda>ips.
                Inr (map (\<lambda>ip. appendScheme scheme (JoinHostPort ip port)) ips)))
      else if qtype = ''dnssrv'' \<or> qtype = ''dnssrvnoa'' then
        rbind (failed (LookupSRV L host) (\<lambda>e. LookupRecords e host)) (\<lambda>recs.
          srv_loop L (qtype = ''dnssrvnoa'') scheme host port recs [])
      else Inl (InvalidScheme qtype))"

section \<open>The cache of lookups\<close>

type_synonym resolver_cache = "(string \<times> string list) list"

fun Resolve_loop :: "ipLookupResolver \<Rightarrow> resolver_cache \<Rightarrow> string list \<Rightarrow> resolver_cache \<Rightarrow> dns_error list \<Rightarrow> dns_error list \<times> resolver_cache" where
  "Resolve_loop L cached [] resolvedAddrs errs = (errs, resolvedAddrs)"
| "Resolve_loop L cached (addr # addrs) resolvedAddrs errs =
     (let (qtype, name) = GetQTypeName addr in
      if qtype = [] then Resolve_loop L cached addrs (alist_put name [name] resolvedAddrs) errs
      else case dnsResolver_Resolve L name qtype of
        Inl e \<Rightarrow> Resolve_loop L cached addrs
          (alist_put addr (case map_of cached addr of Some r \<Rightarrow> r | None \<Rightarrow> []) resolvedAddrs) (errs @ [e])
      | Inr resolved \<Rightarrow> Resolve_loop L cached addrs (alist_put addr resolved resolvedAddrs) errs)"

definition Resolver_Resolve :: "ipLookupResolver \<Rightarrow> string list \<Rightarrow> resolver_cache \<Rightarrow> dns_error list \<times> resolver_cache" where
  "Resolver_Resolve L addrs cached = Resolve_loop L cached addrs [] []"

definition Addresses :: "resolver_cache \<Rightarrow> string list" where
  "Addresses cached = concat (map snd cached)"

definition discoverMembers :: "ipLookupResolver \<Rightarrow> string list \<Rightarrow> resolver_cache \<Rightarrow> string list \<times> resolver_cache" where
  "discoverMembers L members cached =
     (if members = [] then ([], cached)
      else let resolve = filter IsDynamicNode members;
               ms = filter (\<lambda>m. \<not> IsDynamicNode m) members;
               (err, cached) = Resolver_Resolve L resolve cached in
           (ms @ Addresses cached, cached))"

section \<open>What the cache holds\<close>

text \<open>The result of one lookup, or else the last one.\<close>

definition lookup_or :: "ipLookupResolver \<Rightarrow> string \<Rightarrow> string list \<Rightarrow> string list" where
  "lookup_or L addr prev = (case dnsResolver_Resolve L (snd (GetQTypeName addr)) (fst (GetQTypeName addr)) of Inr r \<Rightarrow> r | Inl _ \<Rightarrow> prev)"

definition cached_or_nil :: "resolver_cache \<Rightarrow> string \<Rightarrow> string list" where
  "cached_or_nil c addr = (case map_of c addr of Some r \<Rightarrow> r | None \<Rightarrow> [])"

lemma Resolve_loop_map_of:
  assumes "\<forall>a\<in>set addrs. IsDynamicNode a" and "sorted_keys acc"
  shows "sorted_keys (snd (Resolve_loop L c addrs acc errs)) \<and>
    map_of (snd (Resolve_loop L c addrs acc errs)) a =
      (if a \<in> set addrs then Some (lookup_or L a (cached_or_nil c a)) else map_of acc a)"
  using assms
proof (induction addrs arbitrary: acc errs)
  case Nil
  then show ?case by simp
next
  case (Cons b addrs)
  obtain q n where q: "GetQTypeName b = (q, n)" "q \<noteq> []" using Cons.prems(1) by (cases "GetQTypeName b") (auto simp: IsDynamicNode_def)
  let ?r = "lookup_or L b (cached_or_nil c b)"
  have st: "sorted_keys (alist_put b ?r acc)" using Cons.prems(2) by (rule sorted_keys_alist_put)
  have d: "\<forall>a\<in>set addrs. IsDynamicNode a" using Cons.prems(1) by simp
  have "\<exists>errs'. Resolve_loop L c (b # addrs) acc errs = Resolve_loop L c addrs (alist_put b ?r acc) errs'"
  proof (cases "dnsResolver_Resolve L n q")
    case (Inl e)
    then show ?thesis using q by (intro exI [of _ "errs @ [e]"]) (simp add: lookup_or_def cached_or_nil_def)
  next
    case (Inr r)
    then show ?thesis using q by (intro exI [of _ errs]) (simp add: lookup_or_def)
  qed
  then obtain errs' where e: "Resolve_loop L c (b # addrs) acc errs = Resolve_loop L c addrs (alist_put b ?r acc) errs'" by (elim exE)
  show ?case unfolding e using Cons.IH [OF d st, of errs'] by (simp add: map_of_alist_put)
qed

lemma set_Addresses: "sorted_keys c \<Longrightarrow> set (Addresses c) = (\<Union>a\<in>dom (map_of c). set (cached_or_nil c a))"
proof -
  assume st: "sorted_keys c"
  have "set (Addresses c) = (\<Union>(a, r)\<in>set c. set r)" by (auto simp: Addresses_def)
  also have "\<dots> = (\<Union>a\<in>dom (map_of c). set (cached_or_nil c a))"
    using map_of_eq_Some_iff [OF sorted_keys_distinct [OF st]] by (force simp: cached_or_nil_def dom_def)
  finally show ?thesis .
qed

text \<open>Rounds of discovery with the answers the DNS gives in each of them.\<close>

fun discovery :: "ipLookupResolver list \<Rightarrow> string list \<Rightarrow> resolver_cache \<Rightarrow> string list \<times> resolver_cache" where
  "discovery [] members c = ([], c)"
| "discovery [L] members c = discoverMembers L members c"
| "discovery (L # L' # Ls) members c = discovery (L' # Ls) members (snd (discoverMembers L members c))"

lemma discoverMembers_result:
  assumes "members \<noteq> []"
  shows "set (fst (discoverMembers L members c)) = {m \<in> set members. \<not> IsDynamicNode m} \<union>
      (\<Union>m\<in>{m \<in> set members. IsDynamicNode m}. set (lookup_or L m (cached_or_nil c m)))"
    and "m \<in> set members \<Longrightarrow> IsDynamicNode m \<Longrightarrow>
      cached_or_nil (snd (discoverMembers L members c)) m = lookup_or L m (cached_or_nil c m)"
proof -
  let ?ds = "filter IsDynamicNode members"
  let ?c = "snd (Resolve_loop L c ?ds [] [])"
  have k: "sorted_keys ?c" and g: "map_of ?c a = (if a \<in> set ?ds then Some (lookup_or L a (cached_or_nil c a)) else None)" for a
    using Resolve_loop_map_of [of ?ds "[]" L c "[]" a] by simp_all
  have r: "discoverMembers L members c = (filter (\<lambda>m. \<not> IsDynamicNode m) members @ Addresses ?c, ?c)"
    using assms by (simp add: discoverMembers_def Resolver_Resolve_def split: prod.splits)
  have cn: "cached_or_nil ?c a = lookup_or L a (cached_or_nil c a)" if "a \<in> set ?ds" for a
    using g [of a] that by (simp add: cached_or_nil_def)
  have "dom (map_of ?c) = set ?ds" using g by (auto simp: dom_def split: if_splits)
  then have "set (Addresses ?c) = (\<Union>m\<in>set ?ds. set (lookup_or L m (cached_or_nil c m)))"
    using set_Addresses [OF k] cn by simp
  then show "set (fst (discoverMembers L members c)) = {m \<in> set members. \<not> IsDynamicNode m} \<union>
      (\<Union>m\<in>{m \<in> set members. IsDynamicNode m}. set (lookup_or L m (cached_or_nil c m)))"
    unfolding r by auto
  show "cached_or_nil (snd (discoverMembers L members c)) m = lookup_or L m (cached_or_nil c m)"
    if "m \<in> set members" "IsDynamicNode m" using that cn [of m] unfolding r by simp
qed

lemma discovery_result:
  assumes "members \<noteq> []" and "Ls \<noteq> []"
  shows "set (fst (discovery Ls members c)) = {m \<in> set members. \<not> IsDynamicNode m} \<union>
      (\<Union>m\<in>{m \<in> set members. IsDynamicNode m}. set (fold (\<lambda>L. lookup_or L m) Ls (cached_or_nil c m)))"
  using assms(2)
proof (induction Ls members c rule: discovery.induct)
  case (2 L members c)
  then show ?case using discoverMembers_result(1) [of members L c] assms(1) by (cases members) (simp_all add: discoverMembers_def)
next
  case (3 L L' Ls members c)
  show ?case
  proof (cases "members = []")
    case True
    have "fst (discovery Ls' [] c') = []" for Ls' c' by (induction Ls' "[] :: string list" c' rule: discovery.induct) (simp_all add: discoverMembers_def)
    then show ?thesis using True by simp
  next
    case False
    then show ?thesis using 3 discoverMembers_result(2) [OF False, of _ L c] by simp
  qed
qed simp

section \<open>Properties\<close>

text \<open>
  C31: discovery keeps the last good answer of every name. After any number of rounds with the same
  list of members, in which lookups succeed or fail as they may, the last round returns exactly the
  members that are given by an address and, for every member that is given by a DNS name, what its last
  successful lookup returned.
\<close>

theorem discovery_last_good:
  assumes "members \<noteq> []" and "Ls \<noteq> []"
  shows "set (fst (discovery Ls members [])) = {m \<in> set members. \<not> IsDynamicNode m} \<union>
      (\<Union>m\<in>{m \<in> set members. IsDynamicNode m}. set (fold (\<lambda>L. lookup_or L m) Ls []))"
  using discovery_result [OF assms, of "[]"] by (simp add: cached_or_nil_def)

definition exDns :: "string list \<times> lookup_error option \<Rightarrow> ipLookupResolver" where
  "exDns answer = \<lparr>LookupIPAddr = (\<lambda>_. answer), LookupSRV = (\<lambda>_. ([], None))\<rparr>"

theorem discovery_last_good_witness:
  "set (fst (discovery [exDns ([''10.0.0.1''], None), exDns ([], Some \<lparr>leNotFound = False, leMessage = ''timeout''\<rparr>)]
      [''10.0.0.9:1'', ''dns+a:7''] [])) = {''10.0.0.9:1'', ''10.0.0.1:7''}"
proof -
  have q: "GetQTypeName ''10.0.0.9:1'' = ([], ''10.0.0.9:1'')" "GetQTypeName ''dns+a:7'' = (''dns'', ''a:7'')"
    by (simp_all add: GetQTypeName_def SplitPlus_def)
  have "SplitHostPort ''a:7'' = Inr (''a'', ''7'')"
    by (simp add: SplitHostPort_def LastIndexByte_def IndexByte_def)
  then have "fold (\<lambda>L. lookup_or L ''dns+a:7'') [exDns ([''10.0.0.1''], None), exDns ([], Some \<lparr>leNotFound = False, leMessage = ''timeout''\<rparr>)] []
      = [''10.0.0.1:7'']"
    by (simp add: lookup_or_def q dnsResolver_Resolve_def exDns_def failed_def dnsIdNotFound_def appendScheme_def JoinHostPort_def)
  moreover have "{m \<in> set [''10.0.0.9:1'', ''dns+a:7'']. \<not> IsDynamicNode m} = {''10.0.0.9:1''}"
    "{m \<in> set [''10.0.0.9:1'', ''dns+a:7'']. IsDynamicNode m} = {''dns+a:7''}"
    using q by (auto simp: IsDynamicNode_def)
  ultimately show ?thesis
    using discovery_last_good [of "[''10.0.0.9:1'', ''dns+a:7'']"
        "[exDns ([''10.0.0.1''], None), exDns ([], Some \<lparr>leNotFound = False, leMessage = ''timeout''\<rparr>)]"]
    by (simp only: list.simps refl not_False_eq_True) (simp add: insert_commute)
qed

end
