(* ===== verification/Cluster_Members.thy ===== *)
theory Cluster_Members
  imports Cluster_View Discovery
begin

text \<open>
  The node in the gossip cluster (\<^verbatim>\<open>storage/cluster/cluster.go\<close>): its configuration and the metadata it
  publishes, the nodes it sees, joining and leaving, and the messages between members with their listeners. The
  memberlist library is a parameter. Channels are lists with the capacity of the code, and an operation that
  would block is \<open>None\<close>.
\<close>

declare decimal.simps [simp del]

section \<open>Configuration\<close>

record Info =
  ifNodeHostID :: string
  ifNodeID :: nat
  ifRaftAddress :: string
  ifClientAddress :: string
  ifShardInfoList :: "ShardInfo list"

text \<open>\<^verbatim>\<open>Engine.clusterInfo\<close> sets every field but the address for clients.\<close>

definition clusterInfo :: "string \<Rightarrow> nat \<Rightarrow> string \<Rightarrow> ShardInfo list \<Rightarrow> Info" where
  "clusterInfo hostID nodeID raftAddress shards =
     \<lparr>ifNodeHostID = hostID, ifNodeID = nodeID, ifRaftAddress = raftAddress, ifClientAddress = [], ifShardInfoList = shards\<rparr>"

record NodeMeta =
  nmID :: string
  nmNodeID :: nat
  nmClientAddress :: string
  nmRaftAddress :: string
  nmMemberAddress :: string

text \<open>
  The value \<^verbatim>\<open>strconv.Atoi\<close> returns, whose error the caller drops: 0 for what is not a number, the nearest
  number of 64 bits for one that is too large.
\<close>

definition Atoi :: "string \<Rightarrow> int" where
  "Atoi s =
     (let (neg, ds) = (case s of
            c # r \<Rightarrow> if c = CHR ''-'' then (True, r) else if c = CHR ''+'' then (False, r) else (False, s)
          | [] \<Rightarrow> (False, []));
          v = foldl (\<lambda>a c. 10 * a + (of_char c - 48)) 0 ds in
      if ds = [] \<or> (\<exists>c \<in> set ds. (of_char c :: nat) < 48 \<or> 57 < (of_char c :: nat)) then 0
      else if neg then max (- v) (- (2 ^ 63)) else min v (2 ^ 63 - 1))"

record mlConfig =
  mcName :: string
  mcBindAddr :: string
  mcBindPort :: int
  mcAdvertiseAddr :: string
  mcAdvertisePort :: int
  mcMeta :: NodeMeta

text \<open>\<open>lan\<close> is \<^verbatim>\<open>memberlist.DefaultLANConfig\<close>, \<open>create\<close> is \<^verbatim>\<open>memberlist.Create\<close>.\<close>

definition Cluster_New :: "mlConfig \<Rightarrow> (mlConfig \<Rightarrow> string + 'ml) \<Rightarrow> string \<Rightarrow> string \<Rightarrow> Info \<Rightarrow> string + 'ml" where
  "Cluster_New lan create bindAddr advAddr info =
     rbind (SplitHostPort bindAddr) (\<lambda>(host, port).
       let mcfg = lan\<lparr>mcName := ifNodeHostID info @ ''/'' @ decimal (ifNodeID info), mcBindAddr := host, mcBindPort := Atoi port\<rparr> in
       rbind (if advAddr \<noteq> [] then
                rbind (SplitHostPort bindAddr) (\<lambda>(aHost, aPort). Inr (mcfg\<lparr>mcAdvertiseAddr := aHost, mcAdvertisePort := Atoi aPort\<rparr>))
              else Inr mcfg)
         (\<lambda>mcfg. create (mcfg\<lparr>mcMeta := \<lparr>nmID = ifNodeHostID info, nmNodeID = ifNodeID info, nmClientAddress = ifClientAddress info,
                                  nmRaftAddress = ifRaftAddress info, nmMemberAddress = bindAddr\<rparr>\<rparr>)))"

text \<open>The advertised address that is configured has no effect: the bind address is advertised.\<close>

lemma New_advertises_bind:
  "advAddr \<noteq> [] \<Longrightarrow> advAddr' \<noteq> [] \<Longrightarrow> Cluster_New lan create bindAddr advAddr info = Cluster_New lan create bindAddr advAddr' info"
  by (simp add: Cluster_New_def)

lemma New_config:
  assumes "SplitHostPort bindAddr = Inr (host, port)" and "advAddr \<noteq> []" and "Cluster_New lan Inr bindAddr advAddr info = Inr cfg"
  shows "mcAdvertiseAddr cfg = host \<and> mcAdvertisePort cfg = mcBindPort cfg \<and> nmMemberAddress (mcMeta cfg) = bindAddr"
  using assms by (auto simp: Cluster_New_def)

section \<open>Nodes\<close>

text \<open>
  The metadata of a node travels as JSON. Decoding keeps what it can: a field that is missing or of another type
  stays empty, and a text that is no document leaves all fields empty.
\<close>

definition NodeMeta_Marshal :: "NodeMeta \<Rightarrow> json" where
  "NodeMeta_Marshal m = JObj [(''id'', JStr (nmID m)), (''node_id'', JNum (nmNodeID m)), (''client_address'', JStr (nmClientAddress m)),
     (''raft_address'', JStr (nmRaftAddress m)), (''member_address'', JStr (nmMemberAddress m))]"

definition metaStr :: "(string \<times> json) list \<Rightarrow> string \<Rightarrow> string" where
  "metaStr fs k = (case map_of fs k of Some (JStr s) \<Rightarrow> s | _ \<Rightarrow> [])"

definition metaNum :: "(string \<times> json) list \<Rightarrow> string \<Rightarrow> nat" where
  "metaNum fs k = (case map_of fs k of Some (JNum n) \<Rightarrow> if n < 2 ^ 64 then n else 0 | _ \<Rightarrow> 0)"

definition NodeMeta_Unmarshal :: "json option \<Rightarrow> NodeMeta" where
  "NodeMeta_Unmarshal j =
     (let fs = (case j of Some (JObj fs) \<Rightarrow> fs | _ \<Rightarrow> []) in
      \<lparr>nmID = metaStr fs ''id'', nmNodeID = metaNum fs ''node_id'', nmClientAddress = metaStr fs ''client_address'',
       nmRaftAddress = metaStr fs ''raft_address'', nmMemberAddress = metaStr fs ''member_address''\<rparr>)"

text \<open>A member as the library reports it: its name, address, port and metadata; its protocol versions are copied too.\<close>

record mlNode =
  mnName :: string
  mnAddr :: string
  mnPort :: nat
  mnMeta :: bytes
  mnVersions :: "nat list"

record Node = mlNode +
  ndMeta :: NodeMeta

definition toNode :: "(bytes \<Rightarrow> json option) \<Rightarrow> mlNode \<Rightarrow> Node" where
  "toNode parse node = \<lparr>mnName = mnName node, mnAddr = mnAddr node, mnPort = mnPort node, mnMeta = mnMeta node, mnVersions = mnVersions node,
     ndMeta = NodeMeta_Unmarshal (parse (mnMeta node))\<rparr>"

definition Cluster_Nodes :: "(bytes \<Rightarrow> json option) \<Rightarrow> mlNode list \<Rightarrow> Node list" where
  "Cluster_Nodes parse members = map (toNode parse) members"

definition delegate_NodeMeta :: "(json \<Rightarrow> bytes) \<Rightarrow> NodeMeta \<Rightarrow> bytes" where
  "delegate_NodeMeta text meta = text (NodeMeta_Marshal meta)"

definition Node_String :: "Node \<Rightarrow> string" where
  "Node_String n = nmID (ndMeta n) @ '': {node_id: '' @ decimal (nmNodeID (ndMeta n)) @ '', raft_address: '' @ nmRaftAddress (ndMeta n)
     @ '', member_address: '' @ nmMemberAddress (ndMeta n) @ ''}''"

lemma NodeMeta_roundtrip: "nmNodeID m < 2 ^ 64 \<Longrightarrow> NodeMeta_Unmarshal (Some (NodeMeta_Marshal m)) = m"
  by (simp add: NodeMeta_Unmarshal_def NodeMeta_Marshal_def metaStr_def metaNum_def)

text \<open>
  Every node is seen with the metadata it was configured with, so that no node has an address for clients.
\<close>

theorem Nodes_carry_meta:
  assumes "parse (text (NodeMeta_Marshal (mcMeta cfg))) = Some (NodeMeta_Marshal (mcMeta cfg))" and "nodeID < 2 ^ 64"
    and "Cluster_New lan Inr bindAddr advAddr (clusterInfo hostID nodeID raftAddr shards) = Inr cfg"
    and "node \<in> set members" and "mnMeta node = delegate_NodeMeta text (mcMeta cfg)"
  shows "\<exists>n \<in> set (Cluster_Nodes parse members). mnName n = mnName node \<and> ndMeta n = mcMeta cfg
    \<and> nmID (ndMeta n) = hostID \<and> nmRaftAddress (ndMeta n) = raftAddr \<and> nmClientAddress (ndMeta n) = []"
proof -
  have m: "mcMeta cfg = \<lparr>nmID = hostID, nmNodeID = nodeID, nmClientAddress = [], nmRaftAddress = raftAddr, nmMemberAddress = bindAddr\<rparr>"
    using assms(3) by (auto simp: Cluster_New_def clusterInfo_def result_simps Let_def split: if_splits)
  then have "ndMeta (toNode parse node) = mcMeta cfg"
    using assms(1,2,5) by (simp add: toNode_def delegate_NodeMeta_def NodeMeta_roundtrip)
  moreover have "mnName (toNode parse node) = mnName node" by (simp add: toNode_def)
  ultimately show ?thesis using m assms(4) unfolding Cluster_Nodes_def by (intro bexI [where x = "toNode parse node"]) auto
qed

section \<open>Joining and leaving\<close>

text \<open>
  \<open>join\<close> is \<^verbatim>\<open>ml.Join\<close>: the number of nodes reached or an error. The loop of \<^verbatim>\<open>discover\<close> goes on as long as its
  joins succeed; the addresses it uses are \<^verbatim>\<open>c.addrs\<close>, which nothing sets.
\<close>

definition Cluster_Start :: "(string list \<Rightarrow> string + nat) \<Rightarrow> ipLookupResolver \<Rightarrow> string list \<Rightarrow> resolver_cache
  \<Rightarrow> (string + nat) \<times> resolver_cache" where
  "Cluster_Start join L members cache =
     (case discoverMembers L members cache of (ms, cache) \<Rightarrow> (join ms, cache))"

definition discover_tick :: "(string list \<Rightarrow> string + nat) \<Rightarrow> ipLookupResolver \<Rightarrow> string list \<Rightarrow> resolver_cache \<Rightarrow> bool \<times> resolver_cache" where
  "discover_tick join L addrs cache =
     (case discoverMembers L addrs cache of (ms, cache) \<Rightarrow> ((case join ms of Inl _ \<Rightarrow> False | Inr _ \<Rightarrow> True), cache))"

text \<open>\<^verbatim>\<open>Close\<close> after it waited for the queue: \<open>stopped\<close> tells whether the channel is closed already.\<close>

datatype close_result = Closed | CloseFailed string | ClosePanic

definition Cluster_Close :: "string option \<Rightarrow> string option \<Rightarrow> bool \<Rightarrow> close_result \<times> bool" where
  "Cluster_Close leave shutdown stopped =
     (case leave of
        Some e \<Rightarrow> (CloseFailed e, stopped)
      | None \<Rightarrow>
          if stopped then (ClosePanic, stopped)
          else (case shutdown of Some e \<Rightarrow> (CloseFailed e, True) | None \<Rightarrow> (Closed, True)))"

section \<open>Messages and listeners\<close>

text \<open>
  The dispatcher's place in its loop: waiting, sending to the listener of a key with the lock of these listeners
  held, between the two parts, sending to the listeners of prefixes with their lock held, or ended.
\<close>

datatype phase = Idle | KeySend nat Message | KeysDone Message | PrefixSend "nat list" Message | Ended

text \<open>
  Listeners are numbers. \<open>buTaken\<close> records the messages the dispatcher has received and \<open>buSince\<close> how many there
  were when a listener was registered; the code does not keep them.
\<close>

record bus =
  buMsgs :: "Message list"
  buKeys :: "(string \<times> nat) list"
  buPrefixes :: "(string \<times> nat) list"
  buPhase :: phase
  buChan :: "nat \<Rightarrow> Message list"
  buHandled :: "nat \<Rightarrow> Message list"
  buNext :: nat
  buTaken :: "Message list"
  buSince :: "nat \<Rightarrow> nat"

definition newBus :: bus where
  "newBus = \<lparr>buMsgs = [], buKeys = [], buPrefixes = [], buPhase = Idle, buChan = \<lambda>_. [], buHandled = \<lambda>_. [], buNext = 0,
     buTaken = [], buSince = \<lambda>_. 0\<rparr>"

definition NotifyMsg :: "(bytes \<Rightarrow> Message option) \<Rightarrow> bytes \<Rightarrow> bus \<Rightarrow> bus option" where
  "NotifyMsg parse b c =
     (case parse b of
        None \<Rightarrow> Some c
      | Some m \<Rightarrow> if length (buMsgs c) < 1 then Some (c\<lparr>buMsgs := buMsgs c @ [m]\<rparr>) else None)"

definition WatchKey :: "string \<Rightarrow> bus \<Rightarrow> bus option" where
  "WatchKey key c =
     (case buPhase c of
        KeySend _ _ \<Rightarrow> None
      | _ \<Rightarrow> (let l = buNext c in
           Some (c\<lparr>buKeys := (key, l) # filter (\<lambda>(k, _). k \<noteq> key) (buKeys c), buChan := (buChan c)(l := []),
             buHandled := (buHandled c)(l := []), buNext := Suc l, buSince := (buSince c)(l := length (buTaken c))\<rparr>)))"

text \<open>The messages that have reached the lookup of prefixes.\<close>

fun lookedUp :: "phase \<Rightarrow> Message list \<Rightarrow> Message list" where
  "lookedUp (KeySend l m) taken = butlast taken"
| "lookedUp (KeysDone m) taken = butlast taken"
| "lookedUp _ taken = taken"

definition prefixTaken :: "bus \<Rightarrow> Message list" where
  "prefixTaken c = lookedUp (buPhase c) (buTaken c)"

definition WatchPrefix :: "string \<Rightarrow> bus \<Rightarrow> bus option" where
  "WatchPrefix key c =
     (case buPhase c of
        PrefixSend _ _ \<Rightarrow> None
      | _ \<Rightarrow> (let l = buNext c in
           Some (c\<lparr>buPrefixes := (key, l) # filter (\<lambda>(k, _). k \<noteq> key) (buPrefixes c), buChan := (buChan c)(l := []),
             buHandled := (buHandled c)(l := []), buNext := Suc l, buSince := (buSince c)(l := length (prefixTaken c))\<rparr>)))"

definition sendTo :: "nat \<Rightarrow> Message \<Rightarrow> bus \<Rightarrow> bus option" where
  "sendTo l m c = (if length (buChan c l) < 1 then Some (c\<lparr>buChan := (buChan c)(l := buChan c l @ [m])\<rparr>) else None)"

definition prefixListeners :: "bus \<Rightarrow> Message \<Rightarrow> nat list" where
  "prefixListeners c msg = map snd (filter (\<lambda>(p, l). prefix p (msKey msg)) (buPrefixes c))"

text \<open>One step of \<^verbatim>\<open>dispatch\<close>; \<open>order\<close> is the order in which the map of prefixes is iterated, \<open>stop\<close> whether the stop is taken.\<close>

definition dispatch_step :: "(nat list \<Rightarrow> nat list) \<Rightarrow> bool \<Rightarrow> bus \<Rightarrow> bus option" where
  "dispatch_step order stop c =
     (case buPhase c of
        Idle \<Rightarrow>
          if stop then Some (c\<lparr>buPhase := Ended\<rparr>)
          else (case buMsgs c of
             [] \<Rightarrow> None
           | msg # msgs \<Rightarrow> Some (c\<lparr>buMsgs := msgs, buTaken := buTaken c @ [msg],
               buPhase := (case map_of (buKeys c) (msKey msg) of Some l \<Rightarrow> KeySend l msg | None \<Rightarrow> KeysDone msg)\<rparr>))
      | KeySend l msg \<Rightarrow> map_option (\<lambda>c. c\<lparr>buPhase := KeysDone msg\<rparr>) (sendTo l msg c)
      | KeysDone msg \<Rightarrow> Some (c\<lparr>buPhase := PrefixSend (order (prefixListeners c msg)) msg\<rparr>)
      | PrefixSend [] msg \<Rightarrow> Some (c\<lparr>buPhase := Idle\<rparr>)
      | PrefixSend (l # ls) msg \<Rightarrow> map_option (\<lambda>c. c\<lparr>buPhase := PrefixSend ls msg\<rparr>) (sendTo l msg c)
      | Ended \<Rightarrow> None)"

text \<open>One call of the function of a listener by \<^verbatim>\<open>handle\<close>.\<close>

definition handle_step :: "nat \<Rightarrow> bus \<Rightarrow> bus option" where
  "handle_step l c =
     (case buChan c l of
        [] \<Rightarrow> None
      | m # ms \<Rightarrow> Some (c\<lparr>buChan := (buChan c)(l := ms), buHandled := (buHandled c)(l := buHandled c l @ [m])\<rparr>))"

inductive bus_reach :: "bus \<Rightarrow> bool" where
  bus_new: "bus_reach newBus"
| bus_notify: "bus_reach c \<Longrightarrow> NotifyMsg parse b c = Some c' \<Longrightarrow> bus_reach c'"
| bus_key: "bus_reach c \<Longrightarrow> WatchKey key c = Some c' \<Longrightarrow> bus_reach c'"
| bus_prefix: "bus_reach c \<Longrightarrow> WatchPrefix key c = Some c' \<Longrightarrow> bus_reach c'"
| bus_dispatch: "bus_reach c \<Longrightarrow> (\<And>ls. distinct ls \<Longrightarrow> distinct (order ls) \<and> set (order ls) = set ls) \<Longrightarrow>
    dispatch_step order stop c = Some c' \<Longrightarrow> bus_reach c'"
| bus_handle: "bus_reach c \<Longrightarrow> handle_step l c = Some c' \<Longrightarrow> bus_reach c'"

section \<open>Every listener gets its messages\<close>

fun sending :: "phase \<Rightarrow> nat \<Rightarrow> Message list" where
  "sending (KeySend l' m) l = (if l = l' then [m] else [])"
| "sending (PrefixSend ls m) l = (if l \<in> set ls then [m] else [])"
| "sending _ l = []"

definition bus_delivered :: "bus \<Rightarrow> nat \<Rightarrow> Message list" where
  "bus_delivered c l = buHandled c l @ buChan c l @ sending (buPhase c) l"

fun phase_ok :: "nat \<Rightarrow> Message list \<Rightarrow> phase \<Rightarrow> bool" where
  "phase_ok n taken (KeySend l m) \<longleftrightarrow> l < n \<and> taken \<noteq> [] \<and> last taken = m"
| "phase_ok n taken (KeysDone m) \<longleftrightarrow> taken \<noteq> [] \<and> last taken = m"
| "phase_ok n taken (PrefixSend ls m) \<longleftrightarrow> distinct ls \<and> (\<forall>l \<in> set ls. l < n)"
| "phase_ok n taken _ \<longleftrightarrow> True"

definition bus_ids :: "bus \<Rightarrow> nat list" where
  "bus_ids c = map snd (buKeys c) @ map snd (buPrefixes c)"

definition bus_inv :: "bus \<Rightarrow> bool" where
  "bus_inv c \<longleftrightarrow>
     distinct (map fst (buKeys c)) \<and> distinct (bus_ids c) \<and> (\<forall>l \<in> set (bus_ids c). l < buNext c)
     \<and> phase_ok (buNext c) (buTaken c) (buPhase c)
     \<and> (\<forall>(k, l) \<in> set (buKeys c). buSince c l \<le> length (buTaken c) \<and>
          bus_delivered c l = filter (\<lambda>m. msKey m = k) (drop (buSince c l) (buTaken c)))
     \<and> (\<forall>(p, l) \<in> set (buPrefixes c). buSince c l \<le> length (prefixTaken c) \<and>
          bus_delivered c l = filter (\<lambda>m. prefix p (msKey m)) (drop (buSince c l) (prefixTaken c)))"

lemma bus_invD:
  assumes "bus_inv c"
  shows "distinct (map fst (buKeys c))" and "distinct (map snd (buKeys c))" and "distinct (map snd (buPrefixes c))"
    and "(k, l) \<in> set (buKeys c) \<Longrightarrow> (p, l) \<notin> set (buPrefixes c)"
    and "phase_ok (buNext c) (buTaken c) (buPhase c)"
    and "(k, l) \<in> set (buKeys c) \<Longrightarrow> l < buNext c" and "(p, l) \<in> set (buPrefixes c) \<Longrightarrow> l < buNext c"
    and "(k, l) \<in> set (buKeys c) \<Longrightarrow> buSince c l \<le> length (buTaken c)"
    and "(k, l) \<in> set (buKeys c) \<Longrightarrow> bus_delivered c l = filter (\<lambda>m. msKey m = k) (drop (buSince c l) (buTaken c))"
    and "(p, l) \<in> set (buPrefixes c) \<Longrightarrow> buSince c l \<le> length (prefixTaken c)"
    and "(p, l) \<in> set (buPrefixes c) \<Longrightarrow> bus_delivered c l = filter (\<lambda>m. prefix p (msKey m)) (drop (buSince c l) (prefixTaken c))"
proof -
  have ids: "distinct (map snd (buKeys c))" "distinct (map snd (buPrefixes c))"
    "set (map snd (buKeys c)) \<inter> set (map snd (buPrefixes c)) = {}"
    "\<forall>l \<in> set (map snd (buKeys c)) \<union> set (map snd (buPrefixes c)). l < buNext c"
    using assms unfolding bus_inv_def bus_ids_def distinct_append set_append by blast+
  have mem: "(a, l) \<in> set xs \<Longrightarrow> l \<in> set (map snd xs)" for a and xs :: "(string \<times> nat) list" by force
  show "distinct (map fst (buKeys c))" "distinct (map snd (buKeys c))" "distinct (map snd (buPrefixes c))"
    "phase_ok (buNext c) (buTaken c) (buPhase c)"
    using assms ids(1,2) by (simp_all only: bus_inv_def)
  show "(k, l) \<in> set (buKeys c) \<Longrightarrow> (p, l) \<notin> set (buPrefixes c)" using ids(3) mem by blast
  show "(k, l) \<in> set (buKeys c) \<Longrightarrow> l < buNext c" "(p, l) \<in> set (buPrefixes c) \<Longrightarrow> l < buNext c" using ids(4) mem by blast+
  show "(k, l) \<in> set (buKeys c) \<Longrightarrow> buSince c l \<le> length (buTaken c)"
    "(k, l) \<in> set (buKeys c) \<Longrightarrow> bus_delivered c l = filter (\<lambda>m. msKey m = k) (drop (buSince c l) (buTaken c))"
    "(p, l) \<in> set (buPrefixes c) \<Longrightarrow> buSince c l \<le> length (prefixTaken c)"
    "(p, l) \<in> set (buPrefixes c) \<Longrightarrow> bus_delivered c l = filter (\<lambda>m. prefix p (msKey m)) (drop (buSince c l) (prefixTaken c))"
    using assms unfolding bus_inv_def by blast+
qed

lemma snd_inject: "distinct (map snd xs) \<Longrightarrow> (a, l) \<in> set xs \<Longrightarrow> (b, l) \<in> set xs \<Longrightarrow> a = b"
  by (induction xs) force+

text \<open>Steps that keep the listeners and the messages taken keep the invariant if they keep what is delivered.\<close>

lemma bus_inv_same:
  assumes "bus_inv c" and "buKeys c' = buKeys c" and "buPrefixes c' = buPrefixes c" and "buNext c' = buNext c"
    and "buTaken c' = buTaken c" and "buSince c' = buSince c" and "prefixTaken c' = prefixTaken c"
    and "phase_ok (buNext c) (buTaken c) (buPhase c')" and "\<And>l. bus_delivered c' l = bus_delivered c l"
  shows "bus_inv c'"
  using assms by (auto simp: bus_inv_def bus_ids_def)

lemma notify_inv: "NotifyMsg parse b c = Some c' \<Longrightarrow> bus_inv c \<Longrightarrow> bus_inv c'"
  by (rule bus_inv_same [of c]) (auto simp: NotifyMsg_def bus_delivered_def prefixTaken_def dest: bus_invD(5) split: option.splits if_splits)

lemma handle_inv: "handle_step l c = Some c' \<Longrightarrow> bus_inv c \<Longrightarrow> bus_inv c'"
  by (rule bus_inv_same [of c]) (auto simp: handle_step_def bus_delivered_def prefixTaken_def dest: bus_invD(5) split: list.splits)

lemma sending_fresh: "phase_ok n taken ph \<Longrightarrow> sending ph n = []"
  by (cases ph) auto

lemma phase_ok_mono: "phase_ok n taken ph \<Longrightarrow> phase_ok (Suc n) taken ph"
  by (cases ph) auto

lemma WatchKey_inv:
  assumes "WatchKey key c = Some c'" and "bus_inv c"
  shows "bus_inv c'"
proof -
  note inv = bus_invD [OF assms(2)]
  let ?l = "buNext c"
  have c': "c' = c\<lparr>buKeys := (key, ?l) # filter (\<lambda>(k, _). k \<noteq> key) (buKeys c), buChan := (buChan c)(?l := []),
      buHandled := (buHandled c)(?l := []), buNext := Suc ?l, buSince := (buSince c)(?l := length (buTaken c))\<rparr>"
    using assms(1) by (auto simp: WatchKey_def Let_def split: phase.splits)
  have d: "bus_delivered c' l = (if l = ?l then [] else bus_delivered c l)" for l
    using sending_fresh [OF inv(5)] by (simp add: bus_delivered_def c')
  have t: "prefixTaken c' = prefixTaken c" by (simp add: prefixTaken_def c')
  have "distinct (map fst (buKeys c'))" using inv(1) by (auto simp: c' distinct_map_filter)
  moreover have "distinct (bus_ids c')" "\<forall>l \<in> set (bus_ids c'). l < buNext c'"
    using inv(2-4,6,7) by (fastforce simp: bus_ids_def c' distinct_map_filter)+
  moreover have "phase_ok (buNext c') (buTaken c') (buPhase c')" using phase_ok_mono [OF inv(5)] by (simp add: c')
  moreover have "buSince c' l \<le> length (buTaken c') \<and> bus_delivered c' l = filter (\<lambda>m. msKey m = k) (drop (buSince c' l) (buTaken c'))"
    if "(k, l) \<in> set (buKeys c')" for k l
    using that inv(6) [of k l] inv(8,9) [of k l] unfolding d by (auto simp: c')
  moreover have "buSince c' l \<le> length (prefixTaken c')
      \<and> bus_delivered c' l = filter (\<lambda>m. prefix p (msKey m)) (drop (buSince c' l) (prefixTaken c'))"
    if "(p, l) \<in> set (buPrefixes c')" for p l
    using that inv(7) [of p l] inv(10,11) [of p l] unfolding d t by (auto simp: c')
  ultimately show ?thesis unfolding bus_inv_def by blast
qed

lemma WatchPrefix_inv:
  assumes "WatchPrefix key c = Some c'" and "bus_inv c"
  shows "bus_inv c'"
proof -
  note inv = bus_invD [OF assms(2)]
  let ?l = "buNext c"
  have c': "c' = c\<lparr>buPrefixes := (key, ?l) # filter (\<lambda>(k, _). k \<noteq> key) (buPrefixes c), buChan := (buChan c)(?l := []),
      buHandled := (buHandled c)(?l := []), buNext := Suc ?l, buSince := (buSince c)(?l := length (prefixTaken c))\<rparr>"
    using assms(1) by (auto simp: WatchPrefix_def Let_def split: phase.splits)
  have d: "bus_delivered c' l = (if l = ?l then [] else bus_delivered c l)" for l
    using sending_fresh [OF inv(5)] by (simp add: bus_delivered_def c')
  have t: "prefixTaken c' = prefixTaken c" by (simp add: prefixTaken_def c')
  have "distinct (map fst (buKeys c'))" using inv(1) by (simp add: c')
  moreover have "distinct (bus_ids c')" "\<forall>l \<in> set (bus_ids c'). l < buNext c'"
    using inv(2-4,6,7) by (fastforce simp: bus_ids_def c' distinct_map_filter)+
  moreover have "phase_ok (buNext c') (buTaken c') (buPhase c')" using phase_ok_mono [OF inv(5)] by (simp add: c')
  moreover have "buSince c' l \<le> length (buTaken c') \<and> bus_delivered c' l = filter (\<lambda>m. msKey m = k) (drop (buSince c' l) (buTaken c'))"
    if "(k, l) \<in> set (buKeys c')" for k l
    using that inv(6) [of k l] inv(8,9) [of k l] unfolding d by (auto simp: c')
  moreover have "buSince c' l \<le> length (prefixTaken c')
      \<and> bus_delivered c' l = filter (\<lambda>m. prefix p (msKey m)) (drop (buSince c' l) (prefixTaken c'))"
    if "(p, l) \<in> set (buPrefixes c')" for p l
    using that inv(7) [of p l] inv(10,11) [of p l] unfolding d t by (auto simp: c')
  ultimately show ?thesis unfolding bus_inv_def by blast
qed

lemma sendTo_delivered:
  assumes "sendTo l m c = Some c1" and "\<And>x. sending (buPhase c) x = (if x = l then [m] else []) @ sending ph x"
  shows "bus_delivered (c1\<lparr>buPhase := ph\<rparr>) x = bus_delivered c x"
  using assms(1) assms(2) [of x] by (auto simp: sendTo_def bus_delivered_def split: if_splits)

lemma take_inv:
  assumes "bus_inv c" and "buPhase c = Idle" and "buMsgs c = msg # msgs"
    and c': "c' = c\<lparr>buMsgs := msgs, buTaken := buTaken c @ [msg],
      buPhase := (case map_of (buKeys c) (msKey msg) of Some l \<Rightarrow> KeySend l msg | None \<Rightarrow> KeysDone msg)\<rparr>"
  shows "bus_inv c'"
proof -
  note inv = bus_invD [OF assms(1)]
  have key: "sending (buPhase c') l = (if msKey msg = k then [msg] else [])" if "(k, l) \<in> set (buKeys c)" for k l
  proof -
    have "map_of (buKeys c) k = Some l" using that inv(1) by simp
    moreover have "map_of (buKeys c) (msKey msg) \<noteq> Some l" if "msKey msg \<noteq> k"
      using that snd_inject [OF inv(2)] \<open>(k, l) \<in> set (buKeys c)\<close> by (metis map_of_SomeD)
    ultimately show ?thesis by (auto simp: c' split: option.splits)
  qed
  have pre: "sending (buPhase c') l = []" if "(p, l) \<in> set (buPrefixes c)" for p l
    using that inv(4) [of _ l p] map_of_SomeD [of "buKeys c" "msKey msg"] by (auto simp: c' split: option.splits)
  have t: "prefixTaken c' = prefixTaken c" using assms(2) by (auto simp: prefixTaken_def c' split: option.splits)
  have d: "bus_delivered c' l = bus_delivered c l @ sending (buPhase c') l" for l using assms(2) by (simp add: bus_delivered_def c')
  have "phase_ok (buNext c') (buTaken c') (buPhase c')"
    using inv(6) map_of_SomeD [of "buKeys c" "msKey msg"] by (auto simp: c' split: option.splits)
  moreover have "buSince c' l \<le> length (buTaken c') \<and> bus_delivered c' l = filter (\<lambda>m. msKey m = k) (drop (buSince c' l) (buTaken c'))"
    if "(k, l) \<in> set (buKeys c')" for k l
    using that key [of k l] inv(8,9) [of k l] unfolding d by (auto simp: c')
  moreover have "buSince c' l \<le> length (prefixTaken c')
      \<and> bus_delivered c' l = filter (\<lambda>m. prefix p (msKey m)) (drop (buSince c' l) (prefixTaken c'))"
    if "(p, l) \<in> set (buPrefixes c')" for p l
    using that pre [of p l] inv(10,11) [of p l] unfolding d t by (auto simp: c')
  ultimately show ?thesis using assms(1) unfolding bus_inv_def by (auto simp: c' bus_ids_def)
qed

lemma lookup_inv:
  assumes "bus_inv c" and "buPhase c = KeysDone msg" and c': "c' = c\<lparr>buPhase := PrefixSend ls msg\<rparr>"
    and "distinct ls" and "set ls = set (prefixListeners c msg)"
  shows "bus_inv c'"
proof -
  note inv = bus_invD [OF assms(1)]
  have mem: "l \<in> set ls \<longleftrightarrow> (\<exists>p. (p, l) \<in> set (buPrefixes c) \<and> prefix p (msKey msg))" for l
    unfolding assms(5) by (force simp: prefixListeners_def)
  have d: "bus_delivered c' l = bus_delivered c l @ (if l \<in> set ls then [msg] else [])" for l using assms(2) by (simp add: bus_delivered_def c')
  have "buTaken c \<noteq> []" "last (buTaken c) = msg" using inv(5) assms(2) by simp_all
  then have t: "prefixTaken c' = prefixTaken c @ [msg]"
    using assms(2) append_butlast_last_id [of "buTaken c"] by (simp add: prefixTaken_def c')
  have "phase_ok (buNext c') (buTaken c') (buPhase c')" using assms(4) mem inv(7) by (auto simp: c')
  moreover have "buSince c' l \<le> length (buTaken c') \<and> bus_delivered c' l = filter (\<lambda>m. msKey m = k) (drop (buSince c' l) (buTaken c'))"
    if "(k, l) \<in> set (buKeys c')" for k l
    using that inv(4) [of k l] mem [of l] inv(8,9) [of k l] unfolding d by (auto simp: c')
  moreover have "buSince c' l \<le> length (prefixTaken c')
      \<and> bus_delivered c' l = filter (\<lambda>m. prefix p (msKey m)) (drop (buSince c' l) (prefixTaken c'))"
    if "(p, l) \<in> set (buPrefixes c')" for p l
  proof -
    have p: "(p, l) \<in> set (buPrefixes c)" using that by (simp add: c')
    then have "l \<in> set ls \<longleftrightarrow> prefix p (msKey msg)" using mem snd_inject [OF inv(3) p] by blast
    then show ?thesis using p inv(10,11) [of p l] unfolding d t by (auto simp: c')
  qed
  ultimately show ?thesis using assms(1) unfolding bus_inv_def by (auto simp: c' bus_ids_def)
qed

lemma prefixListeners_distinct: "bus_inv c \<Longrightarrow> distinct (prefixListeners c msg)"
  using bus_invD(3) [of c] by (simp add: prefixListeners_def distinct_map_filter)

lemma dispatch_inv:
  assumes "dispatch_step order stop c = Some c'" and "bus_inv c"
    and "\<And>ls. distinct ls \<Longrightarrow> distinct (order ls) \<and> set (order ls) = set ls"
  shows "bus_inv c'"
proof (cases "buPhase c")
  case Idle
  show ?thesis
  proof (cases stop)
    case True
    then show ?thesis using Idle assms(1,2)
      by (intro bus_inv_same [OF assms(2)]) (auto simp: dispatch_step_def bus_delivered_def prefixTaken_def)
  next
    case False
    then obtain msg msgs where m: "buMsgs c = msg # msgs" using Idle assms(1) by (auto simp: dispatch_step_def split: list.splits)
    then show ?thesis using Idle False assms(1) by (intro take_inv [OF assms(2) Idle m]) (simp add: dispatch_step_def)
  qed
next
  case (KeySend l msg)
  then obtain c1 where c1: "sendTo l msg c = Some c1" "c' = c1\<lparr>buPhase := KeysDone msg\<rparr>" using assms(1) by (auto simp: dispatch_step_def)
  have "bus_delivered c' x = bus_delivered c x" for x unfolding c1(2) by (rule sendTo_delivered [OF c1(1)]) (simp add: KeySend)
  then show ?thesis using KeySend c1 bus_invD(5) [OF assms(2)]
    by (intro bus_inv_same [OF assms(2)]) (auto simp: sendTo_def prefixTaken_def split: if_splits)
next
  case (KeysDone msg)
  then show ?thesis using assms(1) assms(3) [OF prefixListeners_distinct [OF assms(2)]]
    by (intro lookup_inv [OF assms(2) KeysDone, where ls = "order (prefixListeners c msg)"]) (auto simp: dispatch_step_def)
next
  case (PrefixSend ls msg)
  show ?thesis
  proof (cases ls)
    case Nil
    then show ?thesis using PrefixSend assms(1)
      by (intro bus_inv_same [OF assms(2)]) (auto simp: dispatch_step_def bus_delivered_def prefixTaken_def)
  next
    case (Cons l rest)
    then obtain c1 where c1: "sendTo l msg c = Some c1" "c' = c1\<lparr>buPhase := PrefixSend rest msg\<rparr>"
      using assms(1) PrefixSend by (auto simp: dispatch_step_def)
    have "l \<notin> set rest" using bus_invD(5) [OF assms(2)] PrefixSend Cons by simp
    then have "bus_delivered c' x = bus_delivered c x" for x unfolding c1(2)
      by (intro sendTo_delivered [OF c1(1)]) (auto simp: PrefixSend Cons)
    then show ?thesis using PrefixSend Cons c1 bus_invD(5) [OF assms(2)]
      by (intro bus_inv_same [OF assms(2)]) (auto simp: sendTo_def prefixTaken_def split: if_splits)
  qed
next
  case Ended
  then show ?thesis using assms(1) by (simp add: dispatch_step_def)
qed

lemma bus_reach_inv: "bus_reach c \<Longrightarrow> bus_inv c"
proof (induction rule: bus_reach.induct)
  case bus_new
  show ?case by (simp add: bus_inv_def newBus_def bus_ids_def)
qed (blast intro: notify_inv WatchKey_inv WatchPrefix_inv dispatch_inv handle_inv)+

text \<open>
  C20: listeners get every message once and in order. In every interleaving of arriving messages, registrations,
  the dispatcher and the listeners, what the registered listener of a key or of a prefix has handled, has
  waiting or is being sent is exactly the list of the messages with that key or prefix that the dispatcher looked
  up since the registration.
\<close>

theorem listeners_exactly_once:
  assumes "bus_reach c"
  shows "(\<forall>(k, l) \<in> set (buKeys c). buHandled c l @ buChan c l @ sending (buPhase c) l
      = filter (\<lambda>m. msKey m = k) (drop (buSince c l) (buTaken c)))
    \<and> (\<forall>(p, l) \<in> set (buPrefixes c). buHandled c l @ buChan c l @ sending (buPhase c) l
      = filter (\<lambda>m. prefix p (msKey m)) (drop (buSince c l) (prefixTaken c)))"
  using bus_invD(9,11) [OF bus_reach_inv [OF assms]] unfolding bus_delivered_def by blast

definition exMessage :: Message where
  "exMessage = \<lparr>msKey = ''k'', msPayload = [1]\<rparr>"

definition exBus :: bus where
  "exBus = newBus\<lparr>buKeys := [(''k'', 0)], buHandled := (\<lambda>_. [])(0 := [exMessage]), buNext := 1, buTaken := [exMessage],
     buPhase := KeysDone exMessage\<rparr>"

lemma exBus_reach: "bus_reach exBus"
proof -
  let ?b1 = "newBus\<lparr>buKeys := [(''k'', 0)], buNext := 1\<rparr>"
  let ?b3 = "?b1\<lparr>buTaken := [exMessage], buPhase := KeySend 0 exMessage\<rparr>"
  have keep: "distinct ls \<Longrightarrow> distinct ((\<lambda>ls. ls) ls) \<and> set ((\<lambda>ls. ls) ls) = set ls" for ls :: "nat list" by simp
  have "bus_reach ?b1"
    by (rule bus_key [OF bus_new, of "''k''"]) (simp add: WatchKey_def newBus_def fun_eq_iff)
  then have "bus_reach (?b1\<lparr>buMsgs := [exMessage]\<rparr>)"
    by (rule bus_notify [of _ "\<lambda>_. Some exMessage" "[]"]) (simp add: NotifyMsg_def newBus_def)
  then have "bus_reach ?b3"
    by (rule bus_dispatch [of _ "\<lambda>ls. ls" False]) (simp_all add: dispatch_step_def newBus_def exMessage_def)
  then have "bus_reach (?b3\<lparr>buChan := (\<lambda>_. [])(0 := [exMessage]), buPhase := KeysDone exMessage\<rparr>)"
    by (rule bus_dispatch [of _ "\<lambda>ls. ls" False]) (simp_all add: dispatch_step_def sendTo_def newBus_def)
  then show ?thesis
    by (rule bus_handle [of _ 0]) (simp add: handle_step_def exBus_def newBus_def fun_eq_iff)
qed

theorem listeners_exactly_once_witness:
  "buHandled exBus 0 @ buChan exBus 0 @ sending (buPhase exBus) 0 = filter (\<lambda>m. msKey m = ''k'') (drop (buSince exBus 0) (buTaken exBus))
    \<and> buHandled exBus 0 = [exMessage]"
proof -
  have "(''k'', 0) \<in> set (buKeys exBus)" "buHandled exBus 0 = [exMessage]" by (simp_all add: exBus_def)
  then show ?thesis using listeners_exactly_once [OF exBus_reach] by blast
qed

end
