(* ===== verification/Log_Lines.thy ===== *)
theory Log_Lines
  imports Regatta_Prelude "HOL-Library.Sublist"
begin

text \<open>
  The logging adapters: the lines of the gossip library are parsed and logged at their level
  (\<^verbatim>\<open>storage/cluster/logger.go\<close>), and the lines of the Raft library are filtered by the level set for a package
  (\<^verbatim>\<open>log/logger.go\<close>). Lines are strings of bytes.
\<close>

section \<open>Parsing a line\<close>

definition isDigit :: "char \<Rightarrow> bool" where
  "isDigit c \<longleftrightarrow> 48 \<le> (of_char c :: nat) \<and> (of_char c :: nat) \<le> 57"

definition isUpper :: "char \<Rightarrow> bool" where
  "isUpper c \<longleftrightarrow> 65 \<le> (of_char c :: nat) \<and> (of_char c :: nat) \<le> 90"

text \<open>
  The regular expression is a sequence of optional parts followed by a message that matches every text, so the leftmost
  match starts at the beginning and each part takes what it can. A part that is absent yields the empty text, as an unmatched
  group does. In a template, \<open>9\<close> stands for a digit.
\<close>

definition matchTemplate :: "string \<Rightarrow> string \<Rightarrow> string \<times> string" where
  "matchTemplate t s =
     (let p = take (length t) s in
      if list_all2 (\<lambda>x c. if x = CHR ''9'' then isDigit c else c = x) t p then (p, drop (length t) s) else ([], s))"

definition optPrefix :: "string \<Rightarrow> string \<Rightarrow> string" where
  "optPrefix p s = (if prefix p s then drop (length p) s else s)"

definition matchDate :: "string \<Rightarrow> string \<times> string" where
  "matchDate s = matchTemplate ''9999/99/99'' s"

definition matchTime :: "string \<Rightarrow> string \<times> string" where
  "matchTime s =
     (case matchTemplate ''99:99:99'' s of
        ([], r) \<Rightarrow> ([], r)
      | (t, CHR ''.'' # r) \<Rightarrow>
          (if takeWhile isDigit r = [] then (t, CHR ''.'' # r)
           else (t @ CHR ''.'' # takeWhile isDigit r, dropWhile isDigit r))
      | (t, r) \<Rightarrow> (t, r))"

definition matchFile :: "string \<Rightarrow> string \<times> string" where
  "matchFile s =
     (let name = takeWhile (\<lambda>c. c \<noteq> CHR '':'' \<and> c \<noteq> CHR '' '') s in
      case drop (length name) s of
        CHR '':'' # r \<Rightarrow>
          (if name = [] \<or> takeWhile isDigit r = [] then ([], s)
           else (name @ CHR '':'' # takeWhile isDigit r, dropWhile isDigit r))
      | _ \<Rightarrow> ([], s))"

definition matchLevel :: "string \<Rightarrow> string \<times> string" where
  "matchLevel s =
     (case s of
        CHR ''['' # r \<Rightarrow>
          (let l = takeWhile isUpper r; r = dropWhile isUpper r in
           if l \<noteq> [] \<and> prefix ''] '' r then (l, drop 2 r) else ([], s))
      | _ \<Rightarrow> ([], s))"

record logLine =
  llDate :: string
  llTime :: string
  llFile :: string
  llLevel :: string
  llMsg :: string

definition parseLogLine :: "string \<Rightarrow> logLine" where
  "parseLogLine line =
     (let (date, s) = matchDate line; s = optPrefix '' '' s;
          (tm, s) = matchTime s; s = optPrefix '' '' s;
          (file, s) = matchFile s; s = optPrefix '': '' s;
          (level, s) = matchLevel s; s = optPrefix ''memberlist: '' s in
      \<lparr>llDate = date, llTime = tm, llFile = file, llLevel = level, llMsg = takeWhile (\<lambda>c. c \<noteq> CHR 0x0A) s\<rparr>)"

datatype zapLevel = ZDebug | ZInfo | ZWarn | ZError | ZPanic

text \<open>The level is compared in lower case; it consists of capitals, so it is compared with the capitals here.\<close>

definition levelFn :: "string \<Rightarrow> zapLevel" where
  "levelFn lvl =
     (if lvl = ''DEBUG'' then ZDebug else if lvl = ''WARN'' then ZWarn else if lvl = ''INFO'' then ZInfo
      else if lvl = ''ERR'' \<or> lvl = ''ERROR'' then ZError else ZDebug)"

definition loggerAdapter_Write :: "string \<Rightarrow> nat \<times> (zapLevel \<times> string)" where
  "loggerAdapter_Write p = (length p, (levelFn (llLevel (parseLogLine p)), llMsg (parseLogLine p)))"

lemma matchTemplate_hit:
  "list_all2 (\<lambda>x c. if x = CHR ''9'' then isDigit c else c = x) t d \<Longrightarrow> matchTemplate t (d @ s) = (d, s)"
  by (simp add: matchTemplate_def list_all2_lengthD)

lemma matchLevel_hit:
  assumes "lvl \<noteq> []" and "list_all isUpper lvl"
  shows "matchLevel (CHR ''['' # lvl @ CHR '']'' # CHR '' '' # s) = (lvl, s)"
proof -
  have "takeWhile isUpper (lvl @ CHR '']'' # CHR '' '' # s) = lvl" "dropWhile isUpper (lvl @ CHR '']'' # CHR '' '' # s) = CHR '']'' # CHR '' '' # s"
    using assms(2) by (simp_all add: takeWhile_append2 dropWhile_append2 list_all_iff) (simp_all add: isUpper_def)
  then show ?thesis using assms(1) by (simp add: matchLevel_def)
qed

lemma matchFile_miss:
  assumes "list_all isUpper lvl"
  shows "matchFile (CHR ''['' # lvl @ CHR '']'' # CHR '' '' # s) = ([], CHR ''['' # lvl @ CHR '']'' # CHR '' '' # s)"
proof -
  have "\<forall>c \<in> set lvl. c \<noteq> CHR '':'' \<and> c \<noteq> CHR '' ''" using assms by (auto simp: list_all_iff isUpper_def)
  then have "takeWhile (\<lambda>c. c \<noteq> CHR '':'' \<and> c \<noteq> CHR '' '') (CHR ''['' # lvl @ CHR '']'' # CHR '' '' # s) = CHR ''['' # lvl @ '']''"
    by (simp add: takeWhile_append2)
  then show ?thesis by (simp add: matchFile_def)
qed

text \<open>A line as the standard logger of the gossip library writes it.\<close>

definition gossipLine :: "string \<Rightarrow> string \<Rightarrow> string \<Rightarrow> string \<Rightarrow> string" where
  "gossipLine date tm lvl msg = date @ '' '' @ tm @ '' ['' @ lvl @ ''] memberlist: '' @ msg @ [CHR 0x0A]"

text \<open>
  A line of the gossip library keeps its level and its message. A line as the library writes it, with a date, a
  time, a level and a message on one line, is logged at that level with exactly that message, and is taken whole.
\<close>

theorem gossip_line_logged:
  assumes "list_all2 (\<lambda>x c. if x = CHR ''9'' then isDigit c else c = x) ''9999/99/99'' date"
    and "list_all2 (\<lambda>x c. if x = CHR ''9'' then isDigit c else c = x) ''99:99:99'' tm"
    and "lvl \<noteq> []" and "list_all isUpper lvl" and "CHR 0x0A \<notin> set msg"
  shows "loggerAdapter_Write (gossipLine date tm lvl msg) = (length (gossipLine date tm lvl msg), (levelFn lvl, msg))"
proof -
  let ?line = "gossipLine date tm lvl msg"
  let ?rest = "''memberlist: '' @ msg @ [CHR 0x0A]"
  have d: "matchDate ?line = (date, '' '' @ tm @ '' ['' @ lvl @ '']'' @ '' '' @ ?rest)"
    unfolding matchDate_def gossipLine_def using matchTemplate_hit [OF assms(1)] by simp
  have "tm \<noteq> []" using assms(2) by auto
  then have t: "matchTime (tm @ '' ['' @ lvl @ '']'' @ '' '' @ ?rest) = (tm, '' ['' @ lvl @ '']'' @ '' '' @ ?rest)"
    unfolding matchTime_def using matchTemplate_hit [OF assms(2)] by (cases tm) simp_all
  have m: "takeWhile (\<lambda>c. c \<noteq> CHR 0x0A) (msg @ [CHR 0x0A]) = msg" using assms(5) by (subst takeWhile_append2) auto
  have "llLevel (parseLogLine ?line) = lvl \<and> llMsg (parseLogLine ?line) = msg"
    unfolding parseLogLine_def d using t m matchFile_miss [OF assms(4)] matchLevel_hit [OF assms(3,4)]
    by (simp add: optPrefix_def)
  then show ?thesis by (simp add: loggerAdapter_Write_def)
qed

theorem gossip_line_logged_witness:
  "loggerAdapter_Write (gossipLine ''2023/06/01'' ''10:11:12'' ''WARN'' ''node left'')
    = (length (gossipLine ''2023/06/01'' ''10:11:12'' ''WARN'' ''node left''), (levelFn ''WARN'', ''node left''))"
  by (rule gossip_line_logged) (simp_all add: isDigit_def isUpper_def)

section \<open>Levels of the Raft library\<close>

text \<open>\<open>num\<close> is the number of a level of the Raft library.\<close>

datatype dbLevel = ERROR | WARNING | INFO | DEBUG

record zapLogger =
  zlLvl :: int
  zlOut :: "(zapLevel \<times> string) list"

definition trimNewlines :: "string \<Rightarrow> string" where
  "trimNewlines s = rev (dropWhile (\<lambda>c. c = CHR 0x0A) (rev s))"

definition zap_SetLevel :: "int \<Rightarrow> zapLogger \<Rightarrow> zapLogger" where
  "zap_SetLevel lvl l = l\<lparr>zlLvl := lvl\<rparr>"

definition emit :: "zapLevel \<Rightarrow> string \<Rightarrow> zapLogger \<Rightarrow> zapLogger" where
  "emit z s l = l\<lparr>zlOut := zlOut l @ [(z, trimNewlines s)]\<rparr>"

definition zap_Debugf :: "(dbLevel \<Rightarrow> int) \<Rightarrow> string \<Rightarrow> zapLogger \<Rightarrow> zapLogger" where
  "zap_Debugf num s l = (if num DEBUG \<le> zlLvl l then emit ZDebug s l else l)"

definition zap_Infof :: "(dbLevel \<Rightarrow> int) \<Rightarrow> string \<Rightarrow> zapLogger \<Rightarrow> zapLogger" where
  "zap_Infof num s l = (if num INFO \<le> zlLvl l then emit ZInfo s l else l)"

definition zap_Warningf :: "(dbLevel \<Rightarrow> int) \<Rightarrow> string \<Rightarrow> zapLogger \<Rightarrow> zapLogger" where
  "zap_Warningf num s l = (if num WARNING \<le> zlLvl l then emit ZWarn s l else l)"

definition zap_Errorf :: "(dbLevel \<Rightarrow> int) \<Rightarrow> string \<Rightarrow> zapLogger \<Rightarrow> zapLogger" where
  "zap_Errorf num s l = (if num ERROR \<le> zlLvl l then emit ZError s l else l)"

text \<open>The levels the commands set for the packages of the library.\<close>

definition dragonboatLevels :: "(string \<times> dbLevel) list" where
  "dragonboatLevels = [(''raft'', WARNING), (''rsm'', WARNING), (''transport'', ERROR), (''dragonboat'', WARNING), (''logdb'', INFO), (''tan'', INFO), (''settings'', INFO)]"

lemma errors_always_logged:
  assumes "num ERROR < num WARNING" and "num WARNING < num INFO" and "(pkg, lvl) \<in> set dragonboatLevels"
  shows "zap_Errorf num s (zap_SetLevel (num lvl) l) = emit ZError s (zap_SetLevel (num lvl) l)"
  using assms by (auto simp: dragonboatLevels_def zap_Errorf_def zap_SetLevel_def)

end
