(* ===== verification/Node_Config.thy ===== *)
theory Node_Config
  imports Replication_Manager Cluster_Members FSM_Lifecycle Log_Lines
begin

text \<open>
  The configuration of a node: the values the commands read (\<^verbatim>\<open>cmd/leader.go\<close>, \<^verbatim>\<open>cmd/follower.go\<close>,
  \<^verbatim>\<open>cmd/common.go\<close>), the structures they fill (\<^verbatim>\<open>storage/config.go\<close>, \<^verbatim>\<open>storage/table/config.go\<close>) and what the
  engine and the table manager make of them (\<^verbatim>\<open>storage/engine.go\<close>, \<^verbatim>\<open>storage/table/manager.go\<close>); and the tokens of
  the maintenance service. The configuration library is a parameter: a record of its getters.
\<close>

declare decimal.simps [simp del]

section \<open>The structures\<close>

datatype SnapshotRecoveryType = RecoveryTypeSnapshot | RecoveryTypeCheckpoint

datatype LogDBImplementation = Tan | Pebble

record TableConfig =
  tcElectionRTT :: "64 word"
  tcHeartbeatRTT :: "64 word"
  tcSnapshotEntries :: "64 word"
  tcCompactionOverhead :: "64 word"
  tcMaxInMemLogSize :: "64 word"
  tcDataDir :: string
  tcBlockCacheSize :: int
  tcTableCacheSize :: int
  tcRecoveryType :: SnapshotRecoveryType

record MetaConfig =
  mtElectionRTT :: "64 word"
  mtHeartbeatRTT :: "64 word"
  mtSnapshotEntries :: "64 word"
  mtCompactionOverhead :: "64 word"
  mtMaxInMemLogSize :: "64 word"

record GossipConfig =
  gcBindAddress :: string
  gcAdvertiseAddress :: string
  gcInitialMembers :: "string list"

record Config =
  cfClientAddress :: string
  cfNodeID :: "64 word"
  cfInitialMembers :: "(nat \<times> string) list"
  cfWALDir :: string
  cfNodeHostDir :: string
  cfRTTMillisecond :: "64 word"
  cfRaftAddress :: string
  cfListenAddress :: string
  cfEnableMetrics :: bool
  cfMaxSendQueueSize :: "64 word"
  cfMaxReceiveQueueSize :: "64 word"
  cfNotifyCommit :: bool
  cfGossip :: GossipConfig
  cfTable :: TableConfig
  cfMeta :: MetaConfig
  cfLogDB :: LogDBImplementation
  cfLogCacheSize :: int

record ManagerConfig =
  mncNodeID :: "64 word"
  mncTable :: TableConfig
  mncMeta :: MetaConfig

section \<open>Initial members\<close>

datatype parse_error = ErrSyntax string | ErrRange string

text \<open>\<^verbatim>\<open>strconv.ParseUint\<close> with base 10 and 64 bits, on a text.\<close>

definition parseUint64 :: "string \<Rightarrow> parse_error + nat" where
  "parseUint64 s =
     (let v = foldl (\<lambda>a c. 10 * a + (of_char c - 48)) 0 s in
      if s = [] \<or> \<not> list_all isDigit s then Inl (ErrSyntax s)
      else if v < 2 ^ 64 then Inr v else Inl (ErrRange s))"

text \<open>The members in the order in which the map is walked.\<close>

fun parseMembers :: "(string \<times> string) list \<Rightarrow> (nat \<times> string) list \<Rightarrow> parse_error + (nat \<times> string) list" where
  "parseMembers [] initialMembers = Inr initialMembers"
| "parseMembers ((kStr, v) # members) initialMembers =
     rbind (parseUint64 kStr) (\<lambda>kUint. parseMembers members (alist_put kUint v initialMembers))"

definition parseInitialMembers :: "(string \<times> string) list \<Rightarrow> parse_error + (nat \<times> string) list" where
  "parseInitialMembers members = parseMembers members []"

lemma isDigit_digit: "(d :: nat) < 10 \<Longrightarrow> isDigit (char_of (48 + d))"
  by (simp add: isDigit_def of_char_of)

lemma decimal_digits: "list_all isDigit (decimal n)"
proof (induction n rule: decimal.induct)
  case (1 n)
  then show ?case using isDigit_digit [of n] isDigit_digit [of "n mod 10"] by (subst decimal.simps) simp
qed

lemma parseUint64_decimal: "n < 2 ^ 64 \<Longrightarrow> parseUint64 (decimal n) = Inr n"
  using decimal_value [of n] decimal_digits [of n] decimal.simps [of n]
  by (auto simp: parseUint64_def Let_def)

lemma parseMembers_decimal:
  "\<forall>(k, v) \<in> set ms. k < 2 ^ 64 \<Longrightarrow>
    \<exists>r. parseMembers (map (\<lambda>(k, v). (decimal k, v)) ms) acc = Inr r \<and> map_of r = map_of acc ++ map_of (rev ms)"
proof (induction ms arbitrary: acc)
  case Nil
  then show ?case by simp
next
  case (Cons m ms)
  obtain k v where m: "m = (k, v)" by (cases m)
  from Cons obtain r where "parseMembers (map (\<lambda>(k, v). (decimal k, v)) ms) (alist_put k v acc) = Inr r"
    "map_of r = map_of (alist_put k v acc) ++ map_of (rev ms)" by fastforce
  then show ?case using Cons.prems m by (auto simp: parseUint64_decimal result_simps map_of_alist_put map_add_def fun_eq_iff split: option.splits)
qed

lemma parseMembers_sorted: "sorted_keys acc \<Longrightarrow> parseMembers ms acc = Inr r \<Longrightarrow> sorted_keys r"
  by (induction ms acc rule: parseMembers.induct) (auto simp: result_simps sorted_keys_alist_put rbind_Inr_iff)

text \<open>
  The initial members of a cluster are read exactly. If the keys are the decimal texts of different 64-bit ids, the
  result holds every id with its address and nothing else, in whatever order the map is walked.
\<close>

theorem parseInitialMembers_exact:
  assumes "\<forall>(k, v) \<in> set ms. k < 2 ^ 64" and "distinct (map fst ms)"
  shows "\<exists>r. parseInitialMembers (map (\<lambda>(k, v). (decimal k, v)) ms) = Inr r \<and> map_of r = map_of ms \<and> sorted_keys r"
proof -
  obtain r where r: "parseMembers (map (\<lambda>(k, v). (decimal k, v)) ms) [] = Inr r" "map_of r = map_of (rev ms)"
    using parseMembers_decimal [OF assms(1), of "[]"] by auto
  have "map_of (rev ms) = map_of ms" using assms(2) by (simp add: map_of_inject_set rev_map [symmetric])
  with r parseMembers_sorted [OF _ r(1)] show ?thesis by (auto simp: parseInitialMembers_def)
qed

theorem parseInitialMembers_exact_witness:
  "\<exists>r. parseInitialMembers (map (\<lambda>(k, v). (decimal k, v)) [(12, ''b:1''), (1, ''a:1'')]) = Inr r
    \<and> map_of r = map_of [(12, ''b:1''), (1, ''a:1'')] \<and> sorted_keys r"
  by (rule parseInitialMembers_exact) simp_all

section \<open>What the commands read\<close>

record viper =
  vIsSet :: "string \<Rightarrow> bool"
  vString :: "string \<Rightarrow> string"
  vBool :: "string \<Rightarrow> bool"
  vUint64 :: "string \<Rightarrow> 64 word"
  vInt :: "string \<Rightarrow> int"
  vDuration :: "string \<Rightarrow> int"
  vStringSlice :: "string \<Rightarrow> string list"
  vStringMapString :: "string \<Rightarrow> (string \<times> string) list"

definition validateLeaderConfig :: "viper \<Rightarrow> string + unit" where
  "validateLeaderConfig V = (if \<not> vIsSet V ''raft.address'' then Inl ''raft address must be set'' else Inr ())"

definition validateFollowerConfig :: "viper \<Rightarrow> string + unit" where
  "validateFollowerConfig V =
     (if \<not> vIsSet V ''replication.leader-address'' then Inl ''leader address must be set''
      else if \<not> vIsSet V ''raft.address'' then Inl ''raft address must be set'' else Inr ())"

text \<open>\<open>windows\<close> is whether the program runs on that system.\<close>

definition toRecoveryType :: "bool \<Rightarrow> string \<Rightarrow> SnapshotRecoveryType" where
  "toRecoveryType windows str =
     (if str = ''snapshot'' then RecoveryTypeSnapshot
      else if str = ''checkpoint'' then RecoveryTypeCheckpoint
      else if windows then RecoveryTypeSnapshot else RecoveryTypeCheckpoint)"

text \<open>\<^verbatim>\<open>Duration.Milliseconds\<close> rounds towards zero and the conversion wraps around.\<close>

definition toMillis :: "int \<Rightarrow> 64 word" where
  "toMillis d = word_of_int (if 0 \<le> d then d div 1000000 else - (- d div 1000000))"

definition logDBOf :: "string \<Rightarrow> LogDBImplementation run" where
  "logDBOf s = (if s = ''pebble'' then Returned Pebble else if s = ''tan'' then Returned Tan else Panicked)"

definition tableConfigOf :: "bool \<Rightarrow> viper \<Rightarrow> TableConfig" where
  "tableConfigOf windows V =
     \<lparr>tcElectionRTT = vUint64 V ''raft.election-rtt'', tcHeartbeatRTT = vUint64 V ''raft.heartbeat-rtt'',
      tcSnapshotEntries = vUint64 V ''raft.snapshot-entries'', tcCompactionOverhead = vUint64 V ''raft.compaction-overhead'',
      tcMaxInMemLogSize = vUint64 V ''raft.max-in-mem-log-size'', tcDataDir = vString V ''raft.state-machine-dir'',
      tcBlockCacheSize = vInt V ''storage.block-cache-size'', tcTableCacheSize = vInt V ''storage.table-cache-size'',
      tcRecoveryType = toRecoveryType windows (vString V ''raft.snapshot-recovery-type'')\<rparr>"

definition metaConfigOf :: "viper \<Rightarrow> MetaConfig" where
  "metaConfigOf V =
     \<lparr>mtElectionRTT = vUint64 V ''raft.election-rtt'', mtHeartbeatRTT = vUint64 V ''raft.heartbeat-rtt'',
      mtSnapshotEntries = vUint64 V ''raft.snapshot-entries'', mtCompactionOverhead = vUint64 V ''raft.compaction-overhead'',
      mtMaxInMemLogSize = vUint64 V ''raft.max-in-mem-log-size''\<rparr>"

text \<open>The two commands build the same structure but for the size of the log cache.\<close>

definition configOf :: "bool \<Rightarrow> viper \<Rightarrow> int \<Rightarrow> (nat \<times> string) list \<Rightarrow> LogDBImplementation \<Rightarrow> Config" where
  "configOf windows V logCacheSize members logDB =
     \<lparr>cfClientAddress = [], cfNodeID = vUint64 V ''raft.node-id'', cfInitialMembers = members,
      cfWALDir = vString V ''raft.wal-dir'', cfNodeHostDir = vString V ''raft.node-host-dir'',
      cfRTTMillisecond = toMillis (vDuration V ''raft.rtt''), cfRaftAddress = vString V ''raft.address'',
      cfListenAddress = vString V ''raft.listen-address'', cfEnableMetrics = True,
      cfMaxSendQueueSize = vUint64 V ''raft.max-send-queue-size'', cfMaxReceiveQueueSize = vUint64 V ''raft.max-recv-queue-size'',
      cfNotifyCommit = False,
      cfGossip = \<lparr>gcBindAddress = vString V ''memberlist.address'', gcAdvertiseAddress = vString V ''memberlist.advertise-address'',
        gcInitialMembers = vStringSlice V ''memberlist.members''\<rparr>,
      cfTable = tableConfigOf windows V, cfMeta = metaConfigOf V, cfLogDB = logDB, cfLogCacheSize = logCacheSize\<rparr>"

definition readConfig :: "bool \<Rightarrow> viper \<Rightarrow> int \<Rightarrow> Config run" where
  "readConfig windows V logCacheSize =
     (case parseInitialMembers (vStringMapString V ''raft.initial-members'') of
        Inl err \<Rightarrow> Panicked
      | Inr members \<Rightarrow> and_then (logDBOf (vString V ''raft.logdb'')) (\<lambda>db. Returned (configOf windows V logCacheSize members db)))"

definition leader_config :: "bool \<Rightarrow> viper \<Rightarrow> Config run" where
  "leader_config windows V = readConfig windows V (vInt V ''replication.log-cache-size'')"

definition follower_config :: "bool \<Rightarrow> viper \<Rightarrow> Config run" where
  "follower_config windows V = readConfig windows V 0"

section \<open>What the engine makes of it\<close>

text \<open>The fields of the Raft library's configurations the code sets; the others keep their zero value.\<close>

record NodeHostConfig =
  nhcWALDir :: string
  nhcNodeHostDir :: string
  nhcRTTMillisecond :: "64 word"
  nhcRaftAddress :: string
  nhcListenAddress :: string
  nhcEnableMetrics :: bool
  nhcMaxReceiveQueueSize :: "64 word"
  nhcMaxSendQueueSize :: "64 word"
  nhcTanFactory :: bool

record RaftConfig =
  rcReplicaID :: "64 word"
  rcShardID :: "64 word"
  rcCheckQuorum :: bool
  rcPreVote :: bool
  rcOrderedConfigChange :: bool
  rcElectionRTT :: "64 word"
  rcHeartbeatRTT :: "64 word"
  rcSnapshotEntries :: "64 word"
  rcCompactionOverhead :: "64 word"
  rcMaxInMemLogSize :: "64 word"
  rcSnappy :: bool

definition tableRaftConfig :: "64 word \<Rightarrow> 64 word \<Rightarrow> TableConfig \<Rightarrow> RaftConfig" where
  "tableRaftConfig nodeID clusterID cfg =
     \<lparr>rcReplicaID = nodeID, rcShardID = clusterID, rcCheckQuorum = True, rcPreVote = False, rcOrderedConfigChange = True,
      rcElectionRTT = tcElectionRTT cfg, rcHeartbeatRTT = tcHeartbeatRTT cfg, rcSnapshotEntries = tcSnapshotEntries cfg,
      rcCompactionOverhead = tcCompactionOverhead cfg, rcMaxInMemLogSize = tcMaxInMemLogSize cfg, rcSnappy = True\<rparr>"

definition metaRaftConfig :: "64 word \<Rightarrow> MetaConfig \<Rightarrow> RaftConfig" where
  "metaRaftConfig nodeID cfg =
     \<lparr>rcReplicaID = nodeID, rcShardID = 1000, rcCheckQuorum = True, rcPreVote = True, rcOrderedConfigChange = True,
      rcElectionRTT = mtElectionRTT cfg, rcHeartbeatRTT = mtHeartbeatRTT cfg, rcSnapshotEntries = mtSnapshotEntries cfg,
      rcCompactionOverhead = mtCompactionOverhead cfg, rcMaxInMemLogSize = mtMaxInMemLogSize cfg, rcSnappy = False\<rparr>"

text \<open>\<open>prepare\<close> and \<open>newHost\<close> are the library's \<^verbatim>\<open>Prepare\<close> and \<^verbatim>\<open>NewNodeHost\<close>.\<close>

definition nodeHostConfig :: "Config \<Rightarrow> NodeHostConfig" where
  "nodeHostConfig cfg =
     \<lparr>nhcWALDir = cfWALDir cfg, nhcNodeHostDir = cfNodeHostDir cfg, nhcRTTMillisecond = cfRTTMillisecond cfg,
      nhcRaftAddress = cfRaftAddress cfg, nhcListenAddress = cfListenAddress cfg, nhcEnableMetrics = True,
      nhcMaxReceiveQueueSize = cfMaxReceiveQueueSize cfg, nhcMaxSendQueueSize = cfMaxSendQueueSize cfg,
      nhcTanFactory = (cfLogDB cfg = Tan)\<rparr>"

definition createNodeHost :: "(NodeHostConfig \<Rightarrow> string + NodeHostConfig) \<Rightarrow> (NodeHostConfig \<Rightarrow> string + 'h) \<Rightarrow> Config \<Rightarrow> string + 'h" where
  "createNodeHost prepare newHost cfg = rbind (prepare (nodeHostConfig cfg)) newHost"

datatype 'h logReader = CachedReader 'h int | SimpleReader 'h

record ('h, 'ml) node =
  noCfg :: Config
  noHost :: 'h
  noMembers :: "(nat \<times> string) list"
  noManager :: ManagerConfig
  noLogReader :: "'h logReader"
  noCluster :: 'ml

definition Engine_New :: "(NodeHostConfig \<Rightarrow> string + NodeHostConfig) \<Rightarrow> (NodeHostConfig \<Rightarrow> string + 'h) \<Rightarrow> mlConfig
    \<Rightarrow> (mlConfig \<Rightarrow> string + 'ml) \<Rightarrow> ('h \<Rightarrow> Config \<Rightarrow> Info) \<Rightarrow> Config \<Rightarrow> string + ('h, 'ml) node" where
  "Engine_New prepare newHost lan create info cfg =
     rbind (createNodeHost prepare newHost cfg) (\<lambda>nh.
     let manager = \<lparr>mncNodeID = cfNodeID cfg, mncTable = cfTable cfg, mncMeta = cfMeta cfg\<rparr>;
         reader = (if 0 < cfLogCacheSize cfg then CachedReader nh (cfLogCacheSize cfg) else SimpleReader nh) in
     rbind (Cluster_New lan create (gcBindAddress (cfGossip cfg)) (gcAdvertiseAddress (cfGossip cfg)) (info nh cfg)) (\<lambda>clst.
     Inr \<lparr>noCfg = cfg, noHost = nh, noMembers = cfInitialMembers cfg, noManager = manager, noLogReader = reader, noCluster = clst\<rparr>))"

lemma readConfig_panics:
  "readConfig windows V n = Panicked \<longleftrightarrow>
    (\<forall>ms. parseInitialMembers (vStringMapString V ''raft.initial-members'') \<noteq> Inr ms) \<or> vString V ''raft.logdb'' \<notin> {''pebble'', ''tan''}"
  unfolding readConfig_def logDBOf_def
  by (cases "parseInitialMembers (vStringMapString V ''raft.initial-members'')") simp_all

lemma readConfig_Returned:
  assumes "readConfig windows V n = Returned c"
  obtains ms db where "\<And>n. readConfig windows V n = Returned (configOf windows V n ms db)" and "c = configOf windows V n ms db"
  using assms unfolding readConfig_def logDBOf_def
  by (cases "parseInitialMembers (vStringMapString V ''raft.initial-members'')") (simp_all split: if_split_asm)

lemma follower_config_leader:
  assumes "leader_config windows V = Returned c"
  shows "follower_config windows V = Returned (c\<lparr>cfLogCacheSize := 0\<rparr>)"
  using assms unfolding leader_config_def follower_config_def
  by (elim readConfig_Returned) (simp add: configOf_def)

lemma Engine_New_manager:
  assumes "Engine_New prepare newHost lan create info cfg = Inr e"
  shows "noManager e = \<lparr>mncNodeID = cfNodeID cfg, mncTable = cfTable cfg, mncMeta = cfMeta cfg\<rparr>"
  using assms unfolding Engine_New_def Let_def rbind_Inr_iff by fastforce

lemma shards_agree:
  assumes "leader_config windows V = Returned c" and "Engine_New prepare newHost lan create info c = Inr e"
  shows "tableRaftConfig (mncNodeID (noManager e)) i (mncTable (noManager e))
    = (metaRaftConfig (mncNodeID (noManager e)) (mncMeta (noManager e)))\<lparr>rcShardID := i, rcPreVote := False, rcSnappy := True\<rparr>"
  using assms(1) unfolding leader_config_def Engine_New_manager [OF assms(2)]
  by (elim readConfig_Returned)
    (simp add: configOf_def tableConfigOf_def metaConfigOf_def tableRaftConfig_def metaRaftConfig_def)

section \<open>Tokens of the maintenance service\<close>

datatype auth_error = Unauthenticated string

text \<open>\<open>fromMD\<close> is \<^verbatim>\<open>grpc_auth.AuthFromMD\<close> for the bearer scheme, on the metadata of a call.\<close>

definition authFunc :: "((string \<times> string) list \<Rightarrow> auth_error + string) \<Rightarrow> string \<Rightarrow> (string \<times> string) list \<Rightarrow> auth_error + unit" where
  "authFunc fromMD token md =
     (if token = [] then Inr ()
      else rbind (fromMD md) (\<lambda>t. if token \<noteq> t then Inl (Unauthenticated ''Invalid token'') else Inr ()))"

definition GetRequestMetadata :: "string \<Rightarrow> (string \<times> string) list" where
  "GetRequestMetadata t = (if t \<noteq> [] then [(''authorization'', ''Bearer '' @ t)] else [])"

text \<open>
  What the middleware documents: a call without the header is refused, and the token of a bearer header is what
  follows the scheme.
\<close>

definition bearer_laws :: "((string \<times> string) list \<Rightarrow> auth_error + string) \<Rightarrow> bool" where
  "bearer_laws fromMD \<longleftrightarrow>
     (\<forall>md. map_of md ''authorization'' = None \<longrightarrow> (\<exists>e. fromMD md = Inl e)) \<and>
     (\<forall>md t. map_of md ''authorization'' = Some (''Bearer '' @ t) \<longrightarrow> fromMD md = Inr t)"

text \<open>
  A maintenance call is let in exactly if the server has no token or the client has the same one. The metadata
  are those the backup and restore commands send for their token.
\<close>

theorem maintenance_token:
  assumes "bearer_laws fromMD"
  shows "authFunc fromMD token (GetRequestMetadata t) = Inr () \<longleftrightarrow> token = [] \<or> t = token"
proof (cases "t = []")
  case True
  then obtain e where "fromMD (GetRequestMetadata t) = Inl e" using assms unfolding bearer_laws_def GetRequestMetadata_def by fastforce
  then show ?thesis using True by (auto simp: authFunc_def result_simps)
next
  case False
  then have "fromMD (GetRequestMetadata t) = Inr t" using assms by (simp add: bearer_laws_def GetRequestMetadata_def)
  then show ?thesis by (auto simp: authFunc_def result_simps)
qed

definition exFromMD :: "(string \<times> string) list \<Rightarrow> auth_error + string" where
  "exFromMD md = (case map_of md ''authorization'' of None \<Rightarrow> Inl (Unauthenticated ''no bearer'') | Some h \<Rightarrow> Inr (drop 7 h))"

theorem maintenance_token_witness:
  "bearer_laws exFromMD \<and> (authFunc exFromMD ''secret'' (GetRequestMetadata ''secret'') = Inr () \<longleftrightarrow> ''secret'' = [] \<or> ''secret'' = ''secret'')"
proof -
  have "bearer_laws exFromMD" by (simp add: bearer_laws_def exFromMD_def)
  then show ?thesis using maintenance_token [of exFromMD "''secret''" "''secret''"] by blast
qed

end
