(* ===== verification/Node_Start.thy ===== *)
theory Node_Start
  imports Node_Config
begin

text \<open>
  Starting and stopping a node: the start of the table manager and its two loops (\<^verbatim>\<open>storage/table/manager.go\<close>), the start
  and the close of the engine (\<^verbatim>\<open>storage/engine.go\<close>), the tables the leader creates and deletes when it is ready, and the
  order in which the commands start and stop their parts (\<^verbatim>\<open>cmd/leader.go\<close>, \<^verbatim>\<open>cmd/follower.go\<close>). Goroutines are
  the steps of a relation; a closed channel is a flag, and closing it again panics.
\<close>

section \<open>The table manager starts\<close>

text \<open>
  \<open>mrStarters\<close> counts the goroutines of \<open>Start\<close> that still run, \<open>mrReconcilers\<close> and \<open>mrCleaners\<close> those of the two
  loops, \<open>mrReconciled\<close> the reconciliations begun; \<open>mrLed\<close> records that the metadata shard was seen to have a leader.
\<close>

record mgrRun =
  mrStarters :: nat
  mrReady :: bool
  mrClosed :: bool
  mrReconcilers :: nat
  mrCleaners :: nat
  mrReconciled :: nat
  mrLed :: bool

definition newRun :: mgrRun where
  "newRun = \<lparr>mrStarters = 0, mrReady = False, mrClosed = False, mrReconcilers = 0, mrCleaners = 0, mrReconciled = 0, mrLed = False\<rparr>"

text \<open>The replica of the metadata shard joins with the initial members only where it has not run before.\<close>

definition Manager_startReplica :: "((nat \<times> string) list \<Rightarrow> RaftConfig \<Rightarrow> 'e + 'h) \<Rightarrow> bool \<Rightarrow> (nat \<times> string) list \<Rightarrow> ManagerConfig \<Rightarrow> 'e + 'h" where
  "Manager_startReplica start hasNodeInfo members cfg =
     (if hasNodeInfo then start [] (metaRaftConfig (mncNodeID cfg) (mncMeta cfg))
      else start members (metaRaftConfig (mncNodeID cfg) (mncMeta cfg)))"

definition Manager_Start :: "mgrRun \<Rightarrow> mgrRun" where
  "Manager_Start s = s\<lparr>mrStarters := Suc (mrStarters s)\<rparr>"

text \<open>A tick of the goroutine: \<open>ok\<close> is what \<^verbatim>\<open>GetLeaderID\<close> reports.\<close>

definition starter_tick :: "bool \<Rightarrow> mgrRun \<Rightarrow> mgrRun run" where
  "starter_tick ok s =
     (if \<not> ok then Returned s
      else if mrReady s then Panicked
      else Returned (s\<lparr>mrReconcilers := Suc (mrReconcilers s), mrCleaners := Suc (mrCleaners s), mrReady := True,
             mrStarters := mrStarters s - 1, mrLed := mrLed s \<or> ok\<rparr>))"

definition starter_closed :: "mgrRun \<Rightarrow> mgrRun" where
  "starter_closed s = s\<lparr>mrStarters := mrStarters s - 1\<rparr>"

datatype closed_error = ErrManagerClosed


definition Manager_Close :: "mgrRun \<Rightarrow> mgrRun run" where
  "Manager_Close s = (if mrClosed s then Panicked else Returned (s\<lparr>mrClosed := True\<rparr>))"

text \<open>A turn of a loop begins with its work; an error of it is only logged. The loop ends when the manager is closed.\<close>

definition reconcileLoop_turn :: "mgrRun \<Rightarrow> mgrRun" where
  "reconcileLoop_turn s = s\<lparr>mrReconciled := Suc (mrReconciled s)\<rparr>"

definition reconcileLoop_closed :: "mgrRun \<Rightarrow> mgrRun" where
  "reconcileLoop_closed s = s\<lparr>mrReconcilers := mrReconcilers s - 1\<rparr>"

definition cleanupLoop_closed :: "mgrRun \<Rightarrow> mgrRun" where
  "cleanupLoop_closed s = s\<lparr>mrCleaners := mrCleaners s - 1\<rparr>"

text \<open>The runs of a manager that is started \<open>n\<close> times and closed at most once.\<close>

inductive mgr_reach :: "nat \<Rightarrow> mgrRun run \<Rightarrow> bool" where
  init: "mgr_reach 0 (Returned newRun)"
| start: "mgr_reach n (Returned s) \<Longrightarrow> mgr_reach (Suc n) (Returned (Manager_Start s))"
| tick: "mgr_reach n (Returned s) \<Longrightarrow> 0 < mrStarters s \<Longrightarrow> mgr_reach n (starter_tick ok s)"
| stop: "mgr_reach n (Returned s) \<Longrightarrow> 0 < mrStarters s \<Longrightarrow> mrClosed s \<Longrightarrow> mgr_reach n (Returned (starter_closed s))"
| close: "mgr_reach n (Returned s) \<Longrightarrow> \<not> mrClosed s \<Longrightarrow> mgr_reach n (Manager_Close s)"
| turn: "mgr_reach n (Returned s) \<Longrightarrow> 0 < mrReconcilers s \<Longrightarrow> mgr_reach n (Returned (reconcileLoop_turn s))"
| leave: "mgr_reach n (Returned s) \<Longrightarrow> 0 < mrReconcilers s \<Longrightarrow> mrClosed s \<Longrightarrow> mgr_reach n (Returned (reconcileLoop_closed s))"
| clean: "mgr_reach n (Returned s) \<Longrightarrow> 0 < mrCleaners s \<Longrightarrow> mrClosed s \<Longrightarrow> mgr_reach n (Returned (cleanupLoop_closed s))"


lemmas mgr_steps = newRun_def Manager_Start_def starter_tick_def starter_closed_def Manager_Close_def reconcileLoop_turn_def
  reconcileLoop_closed_def cleanupLoop_closed_def





text \<open>A second start is not safe: both goroutines may find the leader, and the second closes a closed channel.\<close>

lemma second_start_panics: "mgr_reach 2 Panicked"
proof -
  let ?s = "newRun\<lparr>mrStarters := 1, mrReconcilers := 1, mrCleaners := 1, mrReady := True, mrLed := True\<rparr>"
  have "mgr_reach (Suc (Suc 0)) (Returned (Manager_Start (Manager_Start newRun)))" by (intro mgr_reach.start mgr_reach.init)
  then have "mgr_reach 2 (starter_tick True (Manager_Start (Manager_Start newRun)))"
    by (intro mgr_reach.tick) (simp_all add: numeral_2_eq_2 mgr_steps)
  then have "mgr_reach 2 (Returned ?s)" by (simp add: mgr_steps)
  then have "mgr_reach 2 (starter_tick True ?s)" by (rule mgr_reach.tick) simp
  then show ?thesis by (simp add: starter_tick_def)
qed

section \<open>The engine starts and closes\<close>

text \<open>
  The members are contacted first, as \<open>Cluster_Start\<close>; its failures are only logged. Closing closes the manager and then
  the host of the Raft library, and leaves the gossip cluster running.
\<close>

definition Engine_Start :: "('c \<Rightarrow> string list \<Rightarrow> 'c) \<Rightarrow> ((nat \<times> string) list \<Rightarrow> RaftConfig \<Rightarrow> 'e + unit) \<Rightarrow> bool \<Rightarrow> ('h, 'c) node \<Rightarrow> mgrRun
    \<Rightarrow> ('e + unit) \<times> ('h, 'c) node \<times> mgrRun" where
  "Engine_Start startCluster start hasNodeInfo e s =
     (let e = e\<lparr>noCluster := startCluster (noCluster e) (gcInitialMembers (cfGossip (noCfg e)))\<rparr> in
      (Manager_startReplica start hasNodeInfo (noMembers e) (noManager e), e, Manager_Start s))"

text \<open>
  From the flags to the metadata shard: on a node that has not run before, the replica is started with the members and the
  id of the command line, in the shard of the metadata.
\<close>

lemma Engine_Start_replica:
  assumes "leader_config windows V = Returned cfg" and "Engine_New prepare newHost lan create info cfg = Inr e"
    and "parseInitialMembers (vStringMapString V ''raft.initial-members'') = Inr ms"
  shows "\<exists>rc. fst (Engine_Start startCluster start False e s) = start ms rc \<and> rcReplicaID rc = vUint64 V ''raft.node-id''
    \<and> rcShardID rc = 1000 \<and> rcElectionRTT rc = vUint64 V ''raft.election-rtt''"
proof -
  have mem: "noMembers e = cfInitialMembers cfg" using assms(2) unfolding Engine_New_def Let_def rbind_Inr_iff by fastforce
  have cfg: "\<exists>db. cfg = configOf windows V (vInt V ''replication.log-cache-size'') ms db"
    using assms(1,3) unfolding leader_config_def readConfig_def logDBOf_def by (simp split: if_split_asm) blast+
  then show ?thesis
    by (auto simp: Engine_Start_def Manager_startReplica_def mem Engine_New_manager [OF assms(2)] configOf_def metaConfigOf_def metaRaftConfig_def Let_def)
qed

definition Engine_Close :: "('h \<Rightarrow> 'h) \<Rightarrow> ('h, 'c) node \<Rightarrow> mgrRun \<Rightarrow> (('h, 'c) node \<times> mgrRun) run" where
  "Engine_Close closeHost e s = and_then (Manager_Close s) (\<lambda>s. Returned (e\<lparr>noHost := closeHost (noHost e)\<rparr>, s))"

lemma Engine_Close_keeps_cluster: "Engine_Close closeHost e s = Returned (e', s') \<Longrightarrow> noCluster e' = noCluster e \<and> mrClosed s'"
  by (auto simp: Engine_Close_def Manager_Close_def split: if_splits)

section \<open>The tables of the leader\<close>

fun createEach :: "'w store \<Rightarrow> 'w nodehost \<Rightarrow> string list \<Rightarrow> 'w \<Rightarrow> 'w" where
  "createEach S H [] w = w"
| "createEach S H (table # tNames) w = createEach S H tNames (snd (CreateTable S H w table))"

fun deleteEach :: "'w store \<Rightarrow> string list \<Rightarrow> 'w \<Rightarrow> 'w" where
  "deleteEach S [] w = w"
| "deleteEach S (table # dNames) w = deleteEach S dNames (snd (DeleteTable S w table))"

definition leader_tables :: "(closed_error + unit) \<Rightarrow> 'w store \<Rightarrow> 'w nodehost \<Rightarrow> viper \<Rightarrow> 'w \<Rightarrow> 'w" where
  "leader_tables ready S H V w =
     (case ready of
        Inl err \<Rightarrow> w
      | Inr _ \<Rightarrow> deleteEach S (vStringSlice V ''tables.delete'') (createEach S H (vStringSlice V ''tables.names'') w))"

text \<open>Where the replication of tables creates all tables it is told, the leader does the same; it goes on where that one stops.\<close>

lemma createEach_createAll: "createAll S H names w = (Inr x, w') \<Longrightarrow> createEach S H names w = w'"
  by (induction S H names w rule: createAll.induct) (auto split: prod.splits sum.splits if_splits)

section \<open>The loop of the replication manager\<close>

text \<open>The goroutine of \<^verbatim>\<open>replication.Manager.Start\<close>: one turn of its loop, whose errors are only logged.\<close>

definition replication_turn :: "'w store \<Rightarrow> 'w nodehost \<Rightarrow> nat \<Rightarrow> nat \<Rightarrow> string + string list \<Rightarrow> RepManager \<Rightarrow> 'w \<Rightarrow> (RepManager \<times> 'w) run" where
  "replication_turn S H nodeID pollMillis response rm w =
     (let w = snd (reconcileTables S H response w) in
      and_then (reconcileWorkers S nodeID pollMillis rm w) (\<lambda>(_, rm, w). Returned (rm, w)))"

text \<open>The turns until the manager is closed: one answer of the leader for each tick.\<close>

fun replication_turns :: "'w store \<Rightarrow> 'w nodehost \<Rightarrow> nat \<Rightarrow> nat \<Rightarrow> (string + string list) list \<Rightarrow> RepManager \<Rightarrow> 'w \<Rightarrow> (RepManager \<times> 'w) run" where
  "replication_turns S H nodeID pollMillis [] rm w = Returned (rm, w)"
| "replication_turns S H nodeID pollMillis (r # rs) rm w =
     and_then (replication_turn S H nodeID pollMillis r rm w) (\<lambda>(rm, w). replication_turns S H nodeID pollMillis rs rm w)"

definition replication_Start :: "(closed_error + unit) run \<Rightarrow> 'w store \<Rightarrow> 'w nodehost \<Rightarrow> nat \<Rightarrow> nat \<Rightarrow> (string + string list) list
    \<Rightarrow> RepManager \<Rightarrow> 'w \<Rightarrow> (RepManager \<times> 'w) run" where
  "replication_Start ready S H nodeID pollMillis responses rm w =
     and_then ready (\<lambda>r. case r of
       Inl err \<Rightarrow> Returned (rm, w)
     | Inr _ \<Rightarrow> replication_turns S H nodeID pollMillis responses rm w)"

section \<open>The commands\<close>

datatype part = PEngine | PApi | PReplication | PMaintenance | PRest | PConn | PWorkers

text \<open>The services a part registers before it is started.\<close>

datatype service = SKV | SReadonlyKV | SMetadata | SSnapshot | SLog | SBackup | SReset

datatype action = Started part | Failed | Stopped part

text \<open>
  A command is a list of checks that panic when they fail, and of parts that are started with a deferred stop. A panic
  and the end of the command run the deferred stops, the last one first.
\<close>

datatype stage = Check bool | Part part "service list"

fun run_command :: "stage list \<Rightarrow> part list \<Rightarrow> action list" where
  "run_command [] ds = map Stopped ds"
| "run_command (Check ok # ss) ds = (if ok then run_command ss ds else Failed # map Stopped ds)"
| "run_command (Part p sv # ss) ds = Started p # run_command ss (p # ds)"

record outcomes =
  ocConfig :: bool
  ocNew :: bool
  ocStart :: bool
  ocApiCert :: bool
  ocReplCert :: bool
  ocCA :: bool
  ocConn :: bool
  ocMaintCert :: bool

definition leader_command :: "viper \<Rightarrow> outcomes \<Rightarrow> stage list" where
  "leader_command V oc =
     [Check (ocConfig oc), Check (ocNew oc), Check (ocStart oc), Part PEngine [], Check (ocApiCert oc), Part PApi [SKV]]
     @ (if vBool V ''replication.enabled'' then [Check (ocReplCert oc), Check (ocCA oc), Part PReplication [SMetadata, SSnapshot, SLog]] else [])
     @ (if vBool V ''maintenance.enabled'' then [Check (ocMaintCert oc), Part PMaintenance [SMetadata, SBackup]] else [])
     @ [Part PRest []]"

definition follower_command :: "viper \<Rightarrow> outcomes \<Rightarrow> stage list" where
  "follower_command V oc =
     [Check (ocConfig oc), Check (ocNew oc), Check (ocStart oc), Part PEngine [], Check (ocReplCert oc), Check (ocCA oc),
      Part PConn [], Check (ocConn oc), Part PWorkers [], Check (ocApiCert oc), Part PApi [SReadonlyKV]]
     @ (if vBool V ''maintenance.enabled'' then [Check (ocMaintCert oc), Part PMaintenance [SReset]] else [])
     @ [Part PRest []]"

fun reached :: "stage list \<Rightarrow> part list" where
  "reached [] = []"
| "reached (Check ok # ss) = (if ok then reached ss else [])"
| "reached (Part p sv # ss) = p # reached ss"

fun all_ok :: "stage list \<Rightarrow> bool" where
  "all_ok [] = True"
| "all_ok (Check ok # ss) \<longleftrightarrow> ok \<and> all_ok ss"
| "all_ok (Part p sv # ss) \<longleftrightarrow> all_ok ss"

lemma run_command_shape:
  "run_command ss ds = map Started (reached ss) @ (if all_ok ss then [] else [Failed]) @ map Stopped (rev (reached ss) @ ds)"
  by (induction ss ds rule: run_command.induct) auto

text \<open>A follower never serves a service that writes to a table for a client.\<close>

lemma follower_serves: "Part p sv \<in> set (follower_command V oc) \<Longrightarrow> set sv \<subseteq> {SReadonlyKV, SReset}"
  by (auto simp: follower_command_def split: if_splits)

text \<open>
  A command stops what it started, in the opposite order and the engine last. Whatever step of the leader or the
  follower fails, the parts that were started before it are stopped, the storage engine after every part that uses it.
\<close>

theorem commands_stop_engine_last:
  assumes "cmd = leader_command V oc \<or> cmd = follower_command V oc"
  shows "\<exists>ps f. run_command cmd [] = map Started ps @ f @ map Stopped (rev ps) \<and> f \<in> {[], [Failed]}
    \<and> (ps = [] \<or> hd ps = PEngine \<and> last (run_command cmd []) = Stopped PEngine)"
proof -
  have "reached cmd = [] \<or> (\<exists>ps. reached cmd = PEngine # ps)"
    using assms by (auto simp: leader_command_def follower_command_def)
  moreover have "run_command cmd [] = map Started (reached cmd) @ (if all_ok cmd then [] else [Failed]) @ map Stopped (rev (reached cmd))"
    using run_command_shape [of cmd "[]"] by simp
  ultimately show ?thesis by (intro exI [of _ "reached cmd"] exI [of _ "if all_ok cmd then [] else [Failed]"]) auto
qed

definition exViper :: viper where
  "exViper = \<lparr>vIsSet = \<lambda>_. True, vString = \<lambda>_. [], vBool = \<lambda>_. True, vUint64 = \<lambda>_. 1, vInt = \<lambda>_. 0, vDuration = \<lambda>_. 0,
     vStringSlice = \<lambda>_. [], vStringMapString = \<lambda>_. []\<rparr>"

definition exOutcomes :: outcomes where
  "exOutcomes = \<lparr>ocConfig = True, ocNew = True, ocStart = True, ocApiCert = True, ocReplCert = True, ocCA = True, ocConn = True, ocMaintCert = False\<rparr>"

theorem commands_stop_engine_last_witness:
  "reached (leader_command exViper exOutcomes) = [PEngine, PApi, PReplication] \<and>
   (\<exists>ps f. run_command (leader_command exViper exOutcomes) [] = map Started ps @ f @ map Stopped (rev ps) \<and> f \<in> {[], [Failed]}
    \<and> (ps = [] \<or> hd ps = PEngine \<and> last (run_command (leader_command exViper exOutcomes) []) = Stopped PEngine))"
  using commands_stop_engine_last [of "leader_command exViper exOutcomes" exViper exOutcomes]
  by (simp add: leader_command_def exViper_def exOutcomes_def)

end
