(* ===== verification/Cert_Reload.thy ===== *)
theory Cert_Reload
  imports Regatta_Prelude
begin

text \<open>
  The certificates of the servers (\<^verbatim>\<open>cert/cert.go\<close>): a key pair that is loaded again from its files when a
  minute has passed since it was loaded. What loading the files gives at each call is a parameter, as are the
  readings of the clock.
\<close>

section \<open>The certificate\<close>

text \<open>The zero time of \<^verbatim>\<open>lastReload\<close> is \<open>None\<close>: it is before every reading of the clock.\<close>

record 'c Reloadable =
  rlCert :: string
  rlKey :: string
  rlInterval :: nat
  rlLastReload :: "nat option"
  rlKeyPair :: "'c option"

text \<open>\<open>load\<close> is \<^verbatim>\<open>tls.LoadX509KeyPair\<close> at the time of the call; \<open>now'\<close> is the clock after it.\<close>

definition reload :: "(string \<Rightarrow> string \<Rightarrow> string + 'c) \<Rightarrow> nat \<Rightarrow> 'c Reloadable \<Rightarrow> string option \<times> 'c Reloadable" where
  "reload load now' w =
     (case load (rlCert w) (rlKey w) of
        Inl err \<Rightarrow> (Some err, w)
      | Inr keyPair \<Rightarrow> (None, w\<lparr>rlKeyPair := Some keyPair, rlLastReload := Some now'\<rparr>))"

definition minute :: nat where
  "minute = 60 * 1000 * 1000 * 1000"

definition Cert_New :: "(string \<Rightarrow> string \<Rightarrow> string + 'c) \<Rightarrow> nat \<Rightarrow> string \<Rightarrow> string \<Rightarrow> string option \<times> 'c Reloadable" where
  "Cert_New load now' certFile keyFile =
     reload load now' \<lparr>rlCert = certFile, rlKey = keyFile, rlInterval = minute, rlLastReload = None, rlKeyPair = None\<rparr>"

definition reloadDue :: "nat \<Rightarrow> 'c Reloadable \<Rightarrow> bool" where
  "reloadDue now w = (case rlLastReload w of None \<Rightarrow> True | Some t \<Rightarrow> t + rlInterval w < now)"

definition getCertificate :: "(string \<Rightarrow> string \<Rightarrow> string + 'c) \<Rightarrow> nat \<Rightarrow> nat \<Rightarrow> 'c Reloadable \<Rightarrow> 'c option \<times> 'c Reloadable" where
  "getCertificate load now now' w =
     (let w = (if reloadDue now w then snd (reload load now' w) else w) in (rlKeyPair w, w))"

text \<open>Both callbacks of a TLS configuration return it and never an error.\<close>

definition GetCertificate :: "(string \<Rightarrow> string \<Rightarrow> string + 'c) \<Rightarrow> nat \<Rightarrow> nat \<Rightarrow> 'c Reloadable \<Rightarrow> (string + 'c option) \<times> 'c Reloadable" where
  "GetCertificate load now now' w = (case getCertificate load now now' w of (c, w) \<Rightarrow> (Inr c, w))"

definition GetClientCertificate :: "(string \<Rightarrow> string \<Rightarrow> string + 'c) \<Rightarrow> nat \<Rightarrow> nat \<Rightarrow> 'c Reloadable \<Rightarrow> (string + 'c option) \<times> 'c Reloadable" where
  "GetClientCertificate load now now' w = (case getCertificate load now now' w of (c, w) \<Rightarrow> (Inr c, w))"

section \<open>Histories of calls\<close>

text \<open>
  A handshake: the two readings of the clock and what the files hold for this certificate. A history of them,
  the newest first; calls are serialised by the mutex.
\<close>

record 'c handshake =
  hsNow :: nat
  hsLoaded :: nat
  hsFiles :: "string + 'c"

fun after_handshakes :: "'c handshake list \<Rightarrow> 'c Reloadable \<Rightarrow> 'c Reloadable" where
  "after_handshakes [] w = w"
| "after_handshakes (h # hs) w = snd (GetCertificate (\<lambda>_ _. hsFiles h) (hsNow h) (hsLoaded h) (after_handshakes hs w))"

text \<open>
  A key pair \<open>kp\<close> loaded at \<open>t\<close> is current in a history if every handshake since came before the interval was over or
  found files that do not load.
\<close>

fun current :: "nat \<Rightarrow> nat \<times> 'c \<Rightarrow> 'c handshake list \<Rightarrow> nat \<times> 'c \<Rightarrow> bool" where
  "current i start [] p \<longleftrightarrow> p = start"
| "current i start (h # hs) (t, kp) \<longleftrightarrow>
     (hsLoaded h = t \<and> hsFiles h = Inr kp) \<or> (hsNow h \<le> t + i \<or> (\<exists>e. hsFiles h = Inl e)) \<and> current i start hs (t, kp)"

lemma getCertificate_keeps: "rlInterval (snd (getCertificate load now now' w)) = rlInterval w"
  by (simp add: getCertificate_def reload_def Let_def split: sum.splits)

lemma after_handshakes_current:
  assumes "rlKeyPair w = Some kp0" and "rlLastReload w = Some t0"
  shows "\<exists>t kp. rlKeyPair (after_handshakes hs w) = Some kp \<and> rlLastReload (after_handshakes hs w) = Some t
    \<and> rlInterval (after_handshakes hs w) = rlInterval w \<and> current (rlInterval w) (t0, kp0) hs (t, kp)"
proof (induction hs)
  case Nil
  then show ?case using assms by simp
next
  case (Cons h hs)
  let ?w = "after_handshakes hs w"
  obtain t kp where IH: "rlKeyPair ?w = Some kp" "rlLastReload ?w = Some t" "rlInterval ?w = rlInterval w"
    "current (rlInterval w) (t0, kp0) hs (t, kp)" using Cons by blast
  show ?case
  proof (cases "t + rlInterval w < hsNow h \<and> (\<exists>c. hsFiles h = Inr c)")
    case True
    then show ?thesis using IH
      by (auto simp: GetCertificate_def getCertificate_def reloadDue_def reload_def)
  next
    case False
    then have "after_handshakes (h # hs) w = ?w"
      using IH by (cases "hsFiles h") (auto simp: GetCertificate_def getCertificate_def reloadDue_def reload_def)
    then show ?thesis using False IH by (cases "hsFiles h") auto
  qed
qed

text \<open>
  C21: a server always has a certificate, and it is current. After a successful start and any history of
  handshakes, the next handshake gets a key pair; it is one that the files held at the start or in a handshake, and
  every handshake after it was loaded came within a minute of the loading or found files that do not load.
\<close>

theorem certificate_current:
  assumes "Cert_New load t0 certFile keyFile = (None, w0)" and "load certFile keyFile = Inr kp0"
  shows "\<exists>t kp w. GetCertificate (\<lambda>_ _. hsFiles h) (hsNow h) (hsLoaded h) (after_handshakes hs w0) = (Inr (Some kp), w)
    \<and> current minute (t0, kp0) (h # hs) (t, kp)"
proof -
  have "rlKeyPair w0 = Some kp0" "rlLastReload w0 = Some t0" "rlInterval w0 = minute"
    using assms by (auto simp: Cert_New_def reload_def)
  then obtain t kp where "rlKeyPair (after_handshakes (h # hs) w0) = Some kp" "current minute (t0, kp0) (h # hs) (t, kp)"
    using after_handshakes_current [of w0 kp0 t0 "h # hs"] by auto
  moreover have "fst (GetCertificate (\<lambda>_ _. hsFiles h) (hsNow h) (hsLoaded h) w)
      = Inr (rlKeyPair (snd (GetCertificate (\<lambda>_ _. hsFiles h) (hsNow h) (hsLoaded h) w)))" for w
    by (simp add: GetCertificate_def getCertificate_def Let_def)
  ultimately show ?thesis by (metis after_handshakes.simps(2) prod.collapse)
qed

theorem certificate_current_witness:
  "\<exists>t kp w. GetCertificate (\<lambda>_ _. Inr (2 :: nat)) (minute + 6) (minute + 7)
      (after_handshakes [] (snd (Cert_New (\<lambda>_ _. Inr 1) 5 ''crt'' ''key''))) = (Inr (Some kp), w)
    \<and> current minute (5, 1) [\<lparr>hsNow = minute + 6, hsLoaded = minute + 7, hsFiles = Inr 2\<rparr>] (t, kp)"
  using certificate_current [where load = "\<lambda>_ _. Inr (1 :: nat)" and certFile = "''crt''" and keyFile = "''key''" and hs = "[]"
      and h = "\<lparr>hsNow = minute + 6, hsLoaded = minute + 7, hsFiles = Inr 2\<rparr>" and ?kp0.0 = 1 and ?t0.0 = 5]
  by (simp add: Cert_New_def reload_def)

end
