(* ===== verification/Observability.thy ===== *)
theory Observability
  imports Table_Manager
begin

text \<open>
  What a node reports: the metrics of a table (\<^verbatim>\<open>storage/table/fsm/metrics.go\<close>), the HTTP endpoints
  (\<^verbatim>\<open>regattaserver/rest.go\<close>) and the lines of the two logging adapters (\<^verbatim>\<open>storage/cluster/logger.go\<close>,
  \<^verbatim>\<open>log/logger.go\<close>). The numbers of the storage engine and the metrics libraries are parameters.
\<close>

section \<open>Metrics of a table\<close>

text \<open>The numbers of \<^verbatim>\<open>pebble.Metrics\<close> that are reported, each as the library returns it.\<close>

record cacheMetrics =
  cmHits :: int
  cmMisses :: int
  cmSize :: int
  cmCount :: int

record 'f pebbleMetrics =
  pmBlockCache :: cacheMetrics
  pmTableCache :: cacheMetrics
  pmFilterHits :: int
  pmFilterMisses :: int
  pmDiskSpaceUsage :: int
  pmReadAmp :: int
  pmWriteAmp :: 'f
  pmBytesIn :: int
  pmCompactions :: "string \<Rightarrow> int"
  pmEstimatedDebt :: int

text \<open>
  The description of a metric: its name, its constant labels and the name of its variable label. Help texts are left
  out. A gauge holds a value, a vector of gauges one for each value of its label that was set, here in the order of these
  values. \<open>flt\<close> is the conversion of an integer to a floating point number.
\<close>

record desc =
  dsName :: string
  dsConst :: "(string \<times> string) list"
  dsVar :: "string option"

record 'f gauge =
  gaDesc :: desc
  gaValue :: 'f

record 'f gaugeVec =
  gvDesc :: desc
  gvValues :: "(string \<times> 'f) list"

record 'f metrics =
  meAppliedIndex :: "'f gauge"
  meCacheHits :: "'f gaugeVec"
  meCacheMisses :: "'f gaugeVec"
  meCacheSize :: "'f gaugeVec"
  meCacheCount :: "'f gaugeVec"
  meFilterHits :: "'f gauge"
  meFilterMisses :: "'f gauge"
  meDiskSpaceUsageBytes :: "'f gauge"
  meReadAmplification :: "'f gauge"
  meTotalWriteAmplification :: "'f gauge"
  meTotalBytesIn :: "'f gauge"
  meCompactCount :: "'f gaugeVec"
  meCompactDebt :: "'f gauge"
  meApplied :: "64 word"

definition constLabels :: "string \<Rightarrow> 64 word \<Rightarrow> (string \<times> string) list" where
  "constLabels tableName clusterID = [(''table'', tableName), (''clusterID'', decimal (unat clusterID))]"

definition NewGauge :: "'f \<Rightarrow> string \<Rightarrow> (string \<times> string) list \<Rightarrow> 'f gauge" where
  "NewGauge zero name consts = \<lparr>gaDesc = \<lparr>dsName = name, dsConst = consts, dsVar = None\<rparr>, gaValue = zero\<rparr>"

definition NewGaugeVec :: "string \<Rightarrow> (string \<times> string) list \<Rightarrow> string \<Rightarrow> 'f gaugeVec" where
  "NewGaugeVec name consts var = \<lparr>gvDesc = \<lparr>dsName = name, dsConst = consts, dsVar = Some var\<rparr>, gvValues = []\<rparr>"

definition newMetrics :: "'f \<Rightarrow> string \<Rightarrow> 64 word \<Rightarrow> 'f metrics" where
  "newMetrics zero tableName clusterID =
     (let cl = constLabels tableName clusterID in
      \<lparr>meAppliedIndex = NewGauge zero ''regatta_applied_index'' cl,
       meCacheHits = NewGaugeVec ''regatta_table_storage_cache_hits'' cl ''type'',
       meCacheMisses = NewGaugeVec ''regatta_table_storage_cache_misses'' cl ''type'',
       meCacheSize = NewGaugeVec ''regatta_table_storage_cache_size_bytes'' cl ''type'',
       meCacheCount = NewGaugeVec ''regatta_table_storage_cache_count'' cl ''type'',
       meFilterHits = NewGauge zero ''regatta_table_storage_filter_hits'' cl,
       meFilterMisses = NewGauge zero ''regatta_table_storage_filter_misses'' cl,
       meDiskSpaceUsageBytes = NewGauge zero ''regatta_table_storage_disk_usage_bytes'' cl,
       meReadAmplification = NewGauge zero ''regatta_table_storage_read_amp'' cl,
       meTotalWriteAmplification = NewGauge zero ''regatta_table_storage_total_write_amp'' cl,
       meTotalBytesIn = NewGauge zero ''regatta_table_storage_total_bytes_in'' cl,
       meCompactCount = NewGaugeVec ''regatta_table_storage_compaction_count'' cl ''kind'',
       meCompactDebt = NewGauge zero ''regatta_table_storage_compaction_debt_bytes'' cl,
       meApplied = 0\<rparr>)"

text \<open>A sample: the description of the metric, the value of its variable label if it has one, and its value.\<close>

type_synonym 'f sample = "desc \<times> string option \<times> 'f"

definition collectGauge :: "'f gauge \<Rightarrow> 'f sample list" where
  "collectGauge g = [(gaDesc g, None, gaValue g)]"

definition collectVec :: "'f gaugeVec \<Rightarrow> 'f sample list" where
  "collectVec g = map (\<lambda>(l, v). (gvDesc g, Some l, v)) (gvValues g)"

definition compactKinds :: "string list" where
  "compactKinds = [''total'', ''default'', ''delete'', ''elision'', ''move'', ''read'', ''multilevel'']"

text \<open>Setting a gauge, and setting the gauges of a vector one after the other.\<close>

definition setG :: "'f \<Rightarrow> 'f gauge \<Rightarrow> 'f gauge" where
  "setG v g = g\<lparr>gaValue := v\<rparr>"

definition setVec :: "string list \<Rightarrow> (string \<Rightarrow> 'f) \<Rightarrow> (string \<times> 'f) list \<Rightarrow> (string \<times> 'f) list" where
  "setVec ls f vs = fold (\<lambda>l. alist_put l (f l)) ls vs"

definition setV :: "string list \<Rightarrow> (string \<Rightarrow> 'f) \<Rightarrow> 'f gaugeVec \<Rightarrow> 'f gaugeVec" where
  "setV ls f g = g\<lparr>gvValues := setVec ls f (gvValues g)\<rparr>"

definition cacheOf :: "'f pebbleMetrics \<Rightarrow> string \<Rightarrow> cacheMetrics" where
  "cacheOf c l = (if l = ''block'' then pmBlockCache c else pmTableCache c)"

definition setGauges :: "(int \<Rightarrow> 'f) \<Rightarrow> 'f pebbleMetrics \<Rightarrow> 'f metrics \<Rightarrow> 'f metrics" where
  "setGauges flt c p =
     \<lparr>meAppliedIndex = setG (flt (uint (meApplied p))) (meAppliedIndex p),
      meCacheHits = setV [''block'', ''table''] (\<lambda>l. flt (cmHits (cacheOf c l))) (meCacheHits p),
      meCacheMisses = setV [''block'', ''table''] (\<lambda>l. flt (cmMisses (cacheOf c l))) (meCacheMisses p),
      meCacheSize = setV [''block'', ''table''] (\<lambda>l. flt (cmSize (cacheOf c l))) (meCacheSize p),
      meCacheCount = setV [''block'', ''table''] (\<lambda>l. flt (cmCount (cacheOf c l))) (meCacheCount p),
      meFilterHits = setG (flt (pmFilterHits c)) (meFilterHits p), meFilterMisses = setG (flt (pmFilterMisses c)) (meFilterMisses p),
      meDiskSpaceUsageBytes = setG (flt (pmDiskSpaceUsage c)) (meDiskSpaceUsageBytes p),
      meReadAmplification = setG (flt (pmReadAmp c)) (meReadAmplification p),
      meTotalWriteAmplification = setG (pmWriteAmp c) (meTotalWriteAmplification p),
      meTotalBytesIn = setG (flt (pmBytesIn c)) (meTotalBytesIn p),
      meCompactCount = setV compactKinds (\<lambda>l. flt (pmCompactions c l)) (meCompactCount p),
      meCompactDebt = setG (flt (pmEstimatedDebt c)) (meCompactDebt p), meApplied = meApplied p\<rparr>"

definition metrics_Collect :: "(int \<Rightarrow> 'f) \<Rightarrow> 'f pebbleMetrics \<Rightarrow> 'f metrics \<Rightarrow> 'f sample list \<times> 'f metrics" where
  "metrics_Collect flt c p =
     (let p = setGauges flt c p in
      (collectGauge (meAppliedIndex p) @ collectVec (meCacheHits p) @ collectVec (meCacheMisses p) @ collectVec (meCacheSize p)
       @ collectVec (meCacheCount p) @ collectGauge (meFilterHits p) @ collectGauge (meFilterMisses p)
       @ collectGauge (meDiskSpaceUsageBytes p) @ collectGauge (meReadAmplification p) @ collectGauge (meTotalWriteAmplification p)
       @ collectGauge (meTotalBytesIn p) @ collectVec (meCompactCount p) @ collectGauge (meCompactDebt p), p))"

definition metrics_Describe :: "'f metrics \<Rightarrow> desc list" where
  "metrics_Describe p =
     [gaDesc (meAppliedIndex p), gvDesc (meCacheHits p), gvDesc (meCacheMisses p), gvDesc (meCacheSize p), gvDesc (meCacheCount p),
      gaDesc (meFilterHits p), gaDesc (meFilterMisses p), gaDesc (meDiskSpaceUsageBytes p), gaDesc (meReadAmplification p),
      gaDesc (meTotalWriteAmplification p), gaDesc (meTotalBytesIn p), gvDesc (meCompactCount p), gaDesc (meCompactDebt p)]"

text \<open>The collections of a run, the newest first: what the engine reported at each and the index applied by then.\<close>

fun after_collects :: "(int \<Rightarrow> 'f) \<Rightarrow> (64 word \<times> 'f pebbleMetrics) list \<Rightarrow> 'f metrics \<Rightarrow> 'f metrics" where
  "after_collects flt [] p = p"
| "after_collects flt ((i, c) # cs) p = snd (metrics_Collect flt c ((after_collects flt cs p)\<lparr>meApplied := i\<rparr>))"

definition vec_ok :: "string list \<Rightarrow> (string \<times> 'f) list \<Rightarrow> bool" where
  "vec_ok ls vs \<longleftrightarrow> sorted_keys vs \<and> fst ` set vs \<subseteq> set ls"

text \<open>Collections keep the descriptions of \<open>q\<close> and set only the labels the code names.\<close>

definition metrics_ok :: "'f metrics \<Rightarrow> 'f metrics \<Rightarrow> bool" where
  "metrics_ok q p \<longleftrightarrow> metrics_Describe p = metrics_Describe q
     \<and> vec_ok [''block'', ''table''] (gvValues (meCacheHits p)) \<and> vec_ok [''block'', ''table''] (gvValues (meCacheMisses p))
     \<and> vec_ok [''block'', ''table''] (gvValues (meCacheSize p)) \<and> vec_ok [''block'', ''table''] (gvValues (meCacheCount p))
     \<and> vec_ok compactKinds (gvValues (meCompactCount p))"

lemma setVec_sorted: "sorted_keys vs \<Longrightarrow> sorted_keys (setVec ls f vs)"
  by (induction ls arbitrary: vs) (simp_all add: setVec_def sorted_keys_alist_put)

lemma fst_setVec: "fst ` set (setVec ls f vs) = set ls \<union> fst ` set vs"
  by (induction ls arbitrary: vs) (auto simp: setVec_def fst_set_alist_put)

lemma map_of_setVec: "map_of (setVec ls f vs) l = (if l \<in> set ls then Some (f l) else map_of vs l)"
  by (induction ls arbitrary: vs) (auto simp: setVec_def map_of_alist_put)

lemma setVec_ok: "vec_ok ls vs \<Longrightarrow> vec_ok ls (setVec ls f vs)"
  by (auto simp: vec_ok_def setVec_sorted fst_setVec)

lemma setVec_fresh:
  assumes "vec_ok ls vs"
  shows "setVec ls f vs = setVec ls f []"
proof (rule sorted_keys_map_of_inject)
  show "sorted_keys (setVec ls f vs)" "sorted_keys (setVec ls f [])" using assms by (simp_all add: vec_ok_def setVec_sorted)
  have "map_of vs l = None" if "l \<notin> set ls" for l using that assms by (auto simp: vec_ok_def map_of_eq_None_iff)
  then show "map_of (setVec ls f vs) = map_of (setVec ls f [])" by (simp add: fun_eq_iff map_of_setVec)
qed

lemma set_descs: "gaDesc (setG v g) = gaDesc g" "gvDesc (setV ls f w) = gvDesc w" "gvValues (setV ls f w) = setVec ls f (gvValues w)"
  by (simp_all add: setG_def setV_def)

lemma metrics_Collect_ok: "metrics_ok q p \<Longrightarrow> metrics_ok q (snd (metrics_Collect flt c p))"
  by (simp add: metrics_ok_def metrics_Collect_def setGauges_def metrics_Describe_def set_descs setVec_ok Let_def)

lemma metrics_ok_applied: "metrics_ok q (p\<lparr>meApplied := i\<rparr>) = metrics_ok q p"
  by (simp add: metrics_ok_def metrics_Describe_def)

lemma after_collects_ok: "metrics_ok (newMetrics z t n) (after_collects flt cs (newMetrics z t n))"
proof (induction cs)
  case Nil
  then show ?case by (simp add: metrics_ok_def newMetrics_def vec_ok_def NewGaugeVec_def Let_def)
next
  case (Cons x cs)
  then show ?case by (cases x) (simp add: metrics_Collect_ok metrics_ok_applied)
qed

lemma collect_set: "collectGauge (setG v g) = [(gaDesc g, None, v)]"
  "vec_ok ls (gvValues w) \<Longrightarrow> collectVec (setV ls f w) = map (\<lambda>(l, v). (gvDesc w, Some l, v)) (setVec ls f [])"
  by (simp_all add: collectGauge_def collectVec_def setG_def setV_def setVec_fresh)

lemma Collect_fresh:
  assumes "metrics_ok q p" and "metrics_ok q q"
  shows "fst (metrics_Collect flt c p) = fst (metrics_Collect flt c (q\<lparr>meApplied := meApplied p\<rparr>))"
  using assms unfolding metrics_ok_def
  by (simp add: metrics_Collect_def setGauges_def metrics_Describe_def collect_set Let_def)

definition sample_keys :: "'f sample list \<Rightarrow> (desc \<times> string option) list" where
  "sample_keys xs = map (\<lambda>(d, l, v). (d, l)) xs"

lemma setVec_caches: "map fst (setVec [''block'', ''table''] f []) = [''block'', ''table'']"
  by code_simp

lemma setVec_kinds: "map fst (setVec compactKinds f []) = [''default'', ''delete'', ''elision'', ''move'', ''multilevel'', ''read'', ''total'']"
  by code_simp

lemma sample_keys_simps:
  "sample_keys (xs @ ys) = sample_keys xs @ sample_keys ys" "sample_keys (collectGauge g) = [(gaDesc g, None)]"
  "sample_keys (collectVec w) = map (\<lambda>l. (gvDesc w, Some l)) (map fst (gvValues w))"
  by (simp_all add: sample_keys_def collectGauge_def collectVec_def case_prod_unfold)

lemma Collect_keys:
  "sample_keys (fst (metrics_Collect flt c ((newMetrics z t n)\<lparr>meApplied := i\<rparr>))) =
     concat (map (\<lambda>d. case dsVar d of None \<Rightarrow> [(d, None)] | Some k \<Rightarrow>
       map (\<lambda>l. (d, Some l)) (if k = ''type'' then [''block'', ''table'']
         else [''default'', ''delete'', ''elision'', ''move'', ''multilevel'', ''read'', ''total''])) (metrics_Describe (newMetrics z t n)))"
proof -
  let ?p = "(newMetrics z t n)\<lparr>meApplied := i\<rparr>"
  have nil: "gvValues (meCacheHits ?p) = []" "gvValues (meCacheMisses ?p) = []" "gvValues (meCacheSize ?p) = []"
    "gvValues (meCacheCount ?p) = []" "gvValues (meCompactCount ?p) = []" by (simp_all add: newMetrics_def NewGaugeVec_def Let_def)
  show ?thesis
    unfolding metrics_Collect_def setGauges_def Let_def fst_conv sample_keys_simps metrics.simps set_descs nil setVec_caches setVec_kinds
    by (simp add: metrics_Describe_def newMetrics_def NewGauge_def NewGaugeVec_def Let_def)
qed

text \<open>
  What a table reports is current and complete. After any number of collections, a collection reports the
  applied index and the numbers of the storage engine as they are now, as a first collection would; it reports every described
  metric, nothing that is not described, and no metric twice with the same label.
\<close>

theorem Collect_exact:
  "\<exists>xs p. metrics_Collect flt c ((after_collects flt cs (newMetrics z t n))\<lparr>meApplied := i\<rparr>) = (xs, p)
    \<and> xs = fst (metrics_Collect flt c ((newMetrics z t n)\<lparr>meApplied := i\<rparr>)) \<and> distinct (sample_keys xs)
    \<and> fst ` set (sample_keys xs) = set (metrics_Describe p) \<and> (gaDesc (meAppliedIndex (newMetrics z t n)), None, flt (uint i)) \<in> set xs"
proof -
  let ?q = "newMetrics z t n"
  let ?p = "(after_collects flt cs ?q)\<lparr>meApplied := i\<rparr>"
  let ?xs = "fst (metrics_Collect flt c (?q\<lparr>meApplied := i\<rparr>))"
  have ok: "metrics_ok ?q ?p" "metrics_ok ?q ?q"
    using after_collects_ok [of z t n flt cs] after_collects_ok [of z t n flt "[]"] by (simp_all add: metrics_ok_applied)
  from Collect_fresh [OF ok, of flt c] have "fst (metrics_Collect flt c ?p) = ?xs" by simp
  moreover have "metrics_Describe (snd (metrics_Collect flt c ?p)) = metrics_Describe ?q"
    using metrics_Collect_ok [OF ok(1)] by (simp add: metrics_ok_def)
  moreover have "distinct (sample_keys ?xs) \<and> fst ` set (sample_keys ?xs) = set (metrics_Describe ?q)"
    unfolding Collect_keys by (simp add: metrics_Describe_def newMetrics_def NewGauge_def NewGaugeVec_def Let_def)
  moreover have "(gaDesc (meAppliedIndex ?q), None, flt (uint i)) \<in> set ?xs"
    by (simp add: metrics_Collect_def setGauges_def collectGauge_def setG_def Let_def)
  ultimately show ?thesis by (metis prod.collapse)
qed

text \<open>The state machine reports nothing before it is opened.\<close>

definition FSM_Collect :: "(int \<Rightarrow> 'f) \<Rightarrow> 'f pebbleMetrics option \<Rightarrow> 'f metrics option \<Rightarrow> 'f sample list \<times> 'f metrics option" where
  "FSM_Collect flt db m =
     (case (m, db) of
        (Some p, Some collected) \<Rightarrow> (case metrics_Collect flt collected p of (xs, p) \<Rightarrow> (xs, Some p))
      | _ \<Rightarrow> ([], m))"

definition FSM_Describe :: "'f metrics option \<Rightarrow> desc list" where
  "FSM_Describe m = (case m of None \<Rightarrow> [] | Some p \<Rightarrow> metrics_Describe p)"

section \<open>The HTTP endpoints\<close>

text \<open>
  A response writer: the status that was sent, if any, and the body. The first write sends the status 200, and a
  status that is set after one was sent is ignored, as \<^verbatim>\<open>net/http\<close> documents.
\<close>

record response =
  rsStatus :: "nat option"
  rsBody :: string

definition WriteHeader :: "nat \<Rightarrow> response \<Rightarrow> response" where
  "WriteHeader code r = (case rsStatus r of None \<Rightarrow> r\<lparr>rsStatus := Some code\<rparr> | Some _ \<Rightarrow> r)"

definition http_Write :: "string \<Rightarrow> response \<Rightarrow> response" where
  "http_Write p r = (WriteHeader 200 r)\<lparr>rsBody := rsBody r @ p\<rparr>"

text \<open>\<open>enc\<close> is the encoder: the text it writes for a family, and whether it fails.\<close>

fun encodeAll :: "('mf \<Rightarrow> string \<times> bool) \<Rightarrow> 'mf list \<Rightarrow> response \<Rightarrow> response" where
  "encodeAll enc [] r = r"
| "encodeAll enc (mf # mfs) r =
     (case enc mf of (txt, failed) \<Rightarrow>
        let r = (if txt = [] then r else http_Write txt r) in
        if failed then WriteHeader 500 r else encodeAll enc mfs r)"

definition metricsHandler :: "string \<Rightarrow> string + 'mf list \<Rightarrow> ('mf \<Rightarrow> string \<times> bool) \<Rightarrow> response \<Rightarrow> response" where
  "metricsHandler prom gathered enc r =
     (let r = (if prom = [] then r else http_Write prom r) in
      case gathered of
        Inl err \<Rightarrow> WriteHeader 500 r
      | Inr mfs \<Rightarrow> encodeAll enc mfs r)"

definition healthzHandler :: "response \<Rightarrow> response" where
  "healthzHandler r = WriteHeader 200 r"

datatype endpoint = EMetrics | EHealthz | EPprof string | ENotFound

text \<open>The routes for a path in its clean form: every pattern but the last names one path, the last takes all others.\<close>

definition restRoute :: "string \<Rightarrow> endpoint" where
  "restRoute path =
     (if path = ''/metrics'' then EMetrics
      else if path = ''/healthz'' then EHealthz
      else if path = ''/debug/pprof'' then EPprof ''index''
      else (case map_of (map (\<lambda>n. (''/debug/'' @ n, n))
          [''allocs'', ''block'', ''goroutine'', ''heap'', ''mutex'', ''threadcreate'', ''cmdline'', ''profile'', ''symbol'', ''trace'']) path of
        Some n \<Rightarrow> EPprof n
      | None \<Rightarrow> ENotFound))"

lemma encodeAll_status: "rsStatus r = Some st \<Longrightarrow> rsStatus (encodeAll enc mfs r) = Some st"
  by (induction enc mfs r rule: encodeAll.induct) (auto simp: WriteHeader_def http_Write_def Let_def split: prod.splits)

text \<open>
  The metrics endpoint reports success when it fails. As soon as the first group of metrics writes anything,
  the answer has status 200, also when gathering or encoding the others fails and the code sets status 500.
\<close>

theorem metrics_failure_hidden:
  assumes "prom \<noteq> []" and "rsStatus r = None"
  shows "rsStatus (metricsHandler prom gathered enc r) = Some 200"
proof -
  have "rsStatus (http_Write prom r) = Some 200" using assms by (simp add: http_Write_def WriteHeader_def)
  then show ?thesis using assms by (auto simp: metricsHandler_def Let_def WriteHeader_def encodeAll_status split: sum.splits)
qed

theorem metrics_failure_hidden_witness:
  "rsStatus (metricsHandler ''go_goroutines 8'' (Inl ''collected metric twice'' :: string + unit list) (\<lambda>_. ([], False))
     \<lparr>rsStatus = None, rsBody = []\<rparr>) = Some 200"
  by (rule metrics_failure_hidden) simp_all

end
