(* ===== verification/Pebble_Options.thy ===== *)
theory Pebble_Options
  imports Regatta_Prelude
begin

text \<open>
  The options of the storage engine (\<^verbatim>\<open>pebble/pebble.go\<close>) and random strings (\<^verbatim>\<open>util/rand.go\<close>). Filling the unset
  fields of a level, opening a database and the source of random numbers are parameters.
\<close>

section \<open>Options\<close>

record LevelOptions =
  loBlockSize :: int
  loSnappy :: bool
  loFilterBits :: "nat option"
  loIndexBlockSize :: int
  loTargetFileSize :: "64 word"

record ('fs, 'c, 'tc, 'l, 'ev) Options =
  opL0CompactionFileThreshold :: int
  opL0StopWritesThreshold :: int
  opLBaseMaxBytes :: int
  opLevels :: "LevelOptions list"
  opMemTableSize :: int
  opMemTableStopWritesThreshold :: int
  opDisableWAL :: bool
  opMaxOpenFiles :: int
  opSplit :: "bytes \<Rightarrow> nat"
  opFS :: "'fs option"
  opCache :: "'c option"
  opTableCache :: "'tc option"
  opLogger :: "'l option"
  opEventListener :: "'ev option"

definition split_key :: "bytes \<Rightarrow> nat" where
  "split_key b = length b"

definition levels :: nat where
  "levels = 7"

definition targetFileSizeBase :: "64 word" where
  "targetFileSizeBase = 16 * 1024 * 1024"

text \<open>The loop over the levels; \<open>ensure\<close> is \<^verbatim>\<open>LevelOptions.EnsureDefaults\<close>.\<close>

fun levelOptions :: "(LevelOptions \<Rightarrow> LevelOptions) \<Rightarrow> nat \<Rightarrow> 64 word \<Rightarrow> LevelOptions list" where
  "levelOptions ensure 0 sz = []"
| "levelOptions ensure (Suc n) sz =
     ensure \<lparr>loBlockSize = 32 * 1024, loSnappy = True, loFilterBits = Some 10, loIndexBlockSize = 256 * 1024, loTargetFileSize = sz\<rparr>
       # levelOptions ensure n (sz * 2)"

definition DefaultOptions :: "(LevelOptions \<Rightarrow> LevelOptions) \<Rightarrow> ('fs, 'c, 'tc, 'l, 'ev) Options" where
  "DefaultOptions ensure =
     (let lvlOpts = levelOptions ensure levels targetFileSizeBase;
          lvlOpts = lvlOpts[length lvlOpts - 1 := (lvlOpts ! (length lvlOpts - 1))\<lparr>loFilterBits := None\<rparr>] in
      \<lparr>opL0CompactionFileThreshold = 8, opL0StopWritesThreshold = 256, opLBaseMaxBytes = 64 * 1024 * 1024, opLevels = lvlOpts,
       opMemTableSize = 16 * 1024 * 1024, opMemTableStopWritesThreshold = 4, opDisableWAL = True, opMaxOpenFiles = 1000,
       opSplit = split_key, opFS = None, opCache = None, opTableCache = None, opLogger = None, opEventListener = None\<rparr>)"

text \<open>An option is one of the five the package offers. \<open>checks\<close> is \<^verbatim>\<open>vfs.WithDiskHealthChecks\<close>.\<close>

datatype ('fs, 'c, 'tc, 'l, 'ev) Option = WithFS 'fs | WithCache 'c | WithTableCache 'tc | WithLogger 'l | WithEventListener 'ev

fun apply_option :: "('fs \<Rightarrow> 'fs) \<Rightarrow> ('fs, 'c, 'tc, 'l, 'ev) Option \<Rightarrow> ('fs, 'c, 'tc, 'l, 'ev) Options \<Rightarrow> ('fs, 'c, 'tc, 'l, 'ev) Options" where
  "apply_option checks (WithFS fs) options = options\<lparr>opFS := Some (checks fs)\<rparr>"
| "apply_option checks (WithCache cache) options = options\<lparr>opCache := Some cache\<rparr>"
| "apply_option checks (WithTableCache cache) options = options\<lparr>opTableCache := Some cache\<rparr>"
| "apply_option checks (WithLogger logger) options = options\<lparr>opLogger := Some logger\<rparr>"
| "apply_option checks (WithEventListener listener) options = options\<lparr>opEventListener := Some listener\<rparr>"

definition OpenDB :: "(LevelOptions \<Rightarrow> LevelOptions) \<Rightarrow> ('fs \<Rightarrow> 'fs) \<Rightarrow> (string \<Rightarrow> ('fs, 'c, 'tc, 'l, 'ev) Options \<Rightarrow> string + 'db)
    \<Rightarrow> string \<Rightarrow> ('fs, 'c, 'tc, 'l, 'ev) Option list \<Rightarrow> string + 'db" where
  "OpenDB ensure checks open_db dbdir options = open_db dbdir (fold (apply_option checks) options (DefaultOptions ensure))"

text \<open>What filling in defaults keeps: every field that is set.\<close>

definition ensure_laws :: "(LevelOptions \<Rightarrow> LevelOptions) \<Rightarrow> bool" where
  "ensure_laws ensure \<longleftrightarrow> (\<forall>l. loBlockSize l \<noteq> 0 \<and> loIndexBlockSize l \<noteq> 0 \<and> loTargetFileSize l \<noteq> 0 \<longrightarrow> ensure l = l)"

lemma unat_target:
  assumes "l < 7"
  shows "unat (targetFileSizeBase * 2 ^ l) = 16 * 1024 * 1024 * 2 ^ l"
proof -
  have "l = 0 \<or> l = 1 \<or> l = 2 \<or> l = 3 \<or> l = 4 \<or> l = 5 \<or> l = 6" using assms by arith
  then show ?thesis by (elim disjE) (simp_all add: targetFileSizeBase_def)
qed

lemma targets_nonzero: "l < 7 \<Longrightarrow> targetFileSizeBase * 2 ^ l \<noteq> 0"
  using unat_target [of l] by (metis mult_eq_0_iff power_not_zero unat_0 zero_neq_numeral)

lemma levelOptions_map:
  assumes "ensure_laws ensure"
  shows "\<forall>k < n. sz * 2 ^ k \<noteq> 0 \<Longrightarrow> levelOptions ensure n sz = map (\<lambda>k.
    \<lparr>loBlockSize = 32 * 1024, loSnappy = True, loFilterBits = Some 10, loIndexBlockSize = 256 * 1024, loTargetFileSize = sz * 2 ^ k\<rparr>) [0..<n]"
proof (induction n arbitrary: sz)
  case 0
  show ?case by simp
next
  case (Suc n)
  have shift: "sz * 2 * 2 ^ k = sz * 2 ^ Suc k" for k by (simp only: power_Suc mult.assoc)
  have "\<forall>k < n. sz * 2 * 2 ^ k \<noteq> 0" unfolding shift using Suc.prems by blast
  note IH = Suc.IH [OF this, unfolded shift]
  have "sz \<noteq> 0" using Suc.prems by force
  then have "ensure \<lparr>loBlockSize = 32 * 1024, loSnappy = True, loFilterBits = Some 10, loIndexBlockSize = 256 * 1024, loTargetFileSize = sz\<rparr>
    = \<lparr>loBlockSize = 32 * 1024, loSnappy = True, loFilterBits = Some 10, loIndexBlockSize = 256 * 1024, loTargetFileSize = sz * 2 ^ 0\<rparr>"
    using assms unfolding ensure_laws_def by simp
  then show ?case unfolding levelOptions.simps IH upt_conv_Cons [OF zero_less_Suc] by (simp only: list.map map_Suc_upt [symmetric] map_map o_def)
qed

lemma levelOptions_nth:
  assumes "ensure_laws ensure" and "\<forall>k < n. sz * 2 ^ k \<noteq> 0"
  shows "length (levelOptions ensure n sz) = n \<and> (\<forall>k < n. levelOptions ensure n sz ! k =
    \<lparr>loBlockSize = 32 * 1024, loSnappy = True, loFilterBits = Some 10, loIndexBlockSize = 256 * 1024, loTargetFileSize = sz * 2 ^ k\<rparr>)"
  unfolding levelOptions_map [OF assms] by simp

lemma apply_option_keeps:
  "opLevels (fold (apply_option checks) options o0) = opLevels o0" "opDisableWAL (fold (apply_option checks) options o0) = opDisableWAL o0"
  "opSplit (fold (apply_option checks) options o0) = opSplit o0"
proof -
  have one: "opLevels (apply_option checks x o1) = opLevels o1 \<and> opDisableWAL (apply_option checks x o1) = opDisableWAL o1
    \<and> opSplit (apply_option checks x o1) = opSplit o1" for x and o1 by (cases x) simp_all
  show "opLevels (fold (apply_option checks) options o0) = opLevels o0" by (induction options arbitrary: o0) (simp_all add: one)
  show "opDisableWAL (fold (apply_option checks) options o0) = opDisableWAL o0" by (induction options arbitrary: o0) (simp_all add: one)
  show "opSplit (fold (apply_option checks) options o0) = opSplit o0" by (induction options arbitrary: o0) (simp_all add: one)
qed

text \<open>
  The layout of a store does not depend on the options it is opened with: seven levels whose file sizes double from
  16 MiB without wrapping around, Bloom filters on all levels but the last, no write-ahead log, and whole keys as prefixes.
\<close>

lemma Default_layout:
  "opLevels (DefaultOptions ensure) = (let ls = levelOptions ensure 7 targetFileSizeBase in
     ls[length ls - 1 := (ls ! (length ls - 1))\<lparr>loFilterBits := None\<rparr>])"
  "opDisableWAL (DefaultOptions ensure)" "opSplit (DefaultOptions ensure) = length"
  unfolding DefaultOptions_def Let_def levels_def split_key_def by (simp_all only: Options.simps fun_eq_iff simp_thms)

lemma Default_level:
  assumes "ensure_laws ensure" and "l < 7"
  shows "opLevels (DefaultOptions ensure) ! l =
    \<lparr>loBlockSize = 32 * 1024, loSnappy = True, loFilterBits = (if l = 6 then None else Some 10), loIndexBlockSize = 256 * 1024,
     loTargetFileSize = targetFileSizeBase * 2 ^ l\<rparr>"
proof -
  have "length (levelOptions ensure 7 targetFileSizeBase) = 7" and "levelOptions ensure 7 targetFileSizeBase ! k =
    \<lparr>loBlockSize = 32 * 1024, loSnappy = True, loFilterBits = Some 10, loIndexBlockSize = 256 * 1024, loTargetFileSize = targetFileSizeBase * 2 ^ k\<rparr>"
    if "k < 7" for k using levelOptions_nth [OF assms(1), of 7 targetFileSizeBase] targets_nonzero that by blast+
  then show ?thesis using assms(2) unfolding Default_layout Let_def by (simp add: nth_list_update)
qed

lemma OpenDB_layout:
  assumes "ensure_laws ensure" and "OpenDB ensure checks (\<lambda>_ opts. Inr opts) dbdir options = Inr o'"
  shows "length (opLevels o') = 7" and "opDisableWAL o'" and "opSplit o' k = length k"
    and "l < 7 \<Longrightarrow> unat (loTargetFileSize (opLevels o' ! l)) = 16 * 1024 * 1024 * 2 ^ l"
    and "l < 7 \<Longrightarrow> loFilterBits (opLevels o' ! l) = (if l = 6 then None else Some 10)"
proof -
  have o': "o' = fold (apply_option checks) options (DefaultOptions ensure)" using assms(2) unfolding OpenDB_def by blast
  have "length (levelOptions ensure 7 targetFileSizeBase) = 7"
    using levelOptions_nth [OF assms(1), of 7 targetFileSizeBase] targets_nonzero by blast
  then show "length (opLevels o') = 7" unfolding o' apply_option_keeps Default_layout Let_def by (simp only: length_list_update)
  show "opDisableWAL o'" "opSplit o' k = length k" unfolding o' apply_option_keeps by (simp_all only: Default_layout)
  show "unat (loTargetFileSize (opLevels o' ! l)) = 16 * 1024 * 1024 * 2 ^ l" if "l < 7"
    unfolding o' apply_option_keeps Default_level [OF assms(1) that] using unat_target [OF that] by (simp only: LevelOptions.simps)
  show "loFilterBits (opLevels o' ! l) = (if l = 6 then None else Some 10)" if "l < 7"
    unfolding o' apply_option_keeps Default_level [OF assms(1) that] by (simp only: LevelOptions.simps)
qed

section \<open>Random strings\<close>

definition letterBytes :: string where
  "letterBytes = ''abcdefghijklmnopqrstuvwxyzABCDEFGHIJKLMNOPQRSTUVWXYZ''"

text \<open>
  The loop: \<open>src k\<close> is the \<open>k\<close>-th number of the source, \<open>n\<close> the letters still to write. It ends only if the source goes on to
  produce indices of letters.
\<close>

partial_function (option) randLoop :: "(nat \<Rightarrow> nat) \<Rightarrow> nat \<Rightarrow> nat \<Rightarrow> nat \<Rightarrow> nat \<Rightarrow> string \<Rightarrow> (string \<times> nat) option" where
  "randLoop src n cache remain k sb =
     (if n = 0 then Some (sb, k)
      else (let c = (if remain = 0 then src k else cache); r = (if remain = 0 then 10 else remain); k = (if remain = 0 then Suc k else k) in
        if c mod 64 < length letterBytes then randLoop src (n - 1) (c div 64) (r - 1) k (sb @ [letterBytes ! (c mod 64)])
        else randLoop src n (c div 64) (r - 1) k sb))"

definition RandString :: "(nat \<Rightarrow> nat) \<Rightarrow> nat \<Rightarrow> nat \<Rightarrow> (string \<times> nat) option" where
  "RandString src k n = randLoop src n (src k) 10 (Suc k) []"

fun RandStrings :: "(nat \<Rightarrow> nat) \<Rightarrow> nat \<Rightarrow> nat \<Rightarrow> nat \<Rightarrow> (string list \<times> nat) option" where
  "RandStrings src k len 0 = Some ([], k)"
| "RandStrings src k len (Suc count) =
     (case RandString src k len of
        None \<Rightarrow> None
      | Some (s, k) \<Rightarrow> map_option (\<lambda>(ss, k). (s # ss, k)) (RandStrings src k len count))"

text \<open>A source that keeps producing numbers whose lowest index is one of a letter.\<close>

definition productive :: "(nat \<Rightarrow> nat) \<Rightarrow> bool" where
  "productive src \<longleftrightarrow> (\<forall>k. \<exists>m \<ge> k. src m mod 64 < length letterBytes)"

definition letter :: "char \<Rightarrow> bool" where
  "letter c \<longleftrightarrow> c \<in> set letterBytes"

lemma randLoop_writes:
  assumes "src m mod 64 < length letterBytes" and "k \<le> m" and "0 < n"
  shows "\<exists>c r k' x. letter x \<and> randLoop src n cache remain k sb = randLoop src (n - 1) c r k' (sb @ [x])"
  using assms(2)
proof (induction "m - k" arbitrary: k cache remain rule: less_induct)
  case outer: less
  show ?case using outer.prems
  proof (induction remain arbitrary: cache)
    case 0
    show ?case
    proof (cases "src k mod 64 < length letterBytes")
      case True
      then have "randLoop src n cache 0 k sb = randLoop src (n - 1) (src k div 64) 9 (Suc k) (sb @ [letterBytes ! (src k mod 64)])"
        using assms(3) by (subst randLoop.simps) (simp add: Let_def)
      then show ?thesis using True unfolding letter_def by (meson nth_mem)
    next
      case False
      then have lt: "Suc k \<le> m" "m - Suc k < m - k" using 0 assms(1) by (metis Suc_leI le_neq_implies_less, metis 0 assms(1) diff_less_mono2 le_neq_implies_less lessI)
      have "randLoop src n cache 0 k sb = randLoop src n (src k div 64) 9 (Suc k) sb"
        using False assms(3) by (subst randLoop.simps) (simp add: Let_def)
      then show ?thesis using outer.hyps [OF lt(2,1)] by metis
    qed
  next
    case (Suc remain)
    show ?case
    proof (cases "cache mod 64 < length letterBytes")
      case True
      then have "randLoop src n cache (Suc remain) k sb = randLoop src (n - 1) (cache div 64) remain k (sb @ [letterBytes ! (cache mod 64)])"
        using assms(3) by (subst randLoop.simps) (simp add: Let_def)
      then show ?thesis using True unfolding letter_def by (meson nth_mem)
    next
      case False
      then have "randLoop src n cache (Suc remain) k sb = randLoop src n (cache div 64) remain k sb"
        using assms(3) by (subst randLoop.simps) (simp add: Let_def)
      then show ?thesis using Suc by metis
    qed
  qed
qed

lemma randLoop_returns:
  assumes "productive src"
  shows "\<exists>s k'. randLoop src n cache remain k sb = Some (sb @ s, k') \<and> length s = n \<and> list_all letter s"
proof (induction n arbitrary: cache remain k sb)
  case 0
  then show ?case by (subst randLoop.simps) simp
next
  case (Suc n)
  obtain m where "k \<le> m" "src m mod 64 < length letterBytes" using assms unfolding productive_def by blast
  then obtain c r k' x where x: "letter x" "randLoop src (Suc n) cache remain k sb = randLoop src n c r k' (sb @ [x])"
    using randLoop_writes [of src m k "Suc n" cache remain sb] by auto
  obtain s k'' where "randLoop src n c r k' (sb @ [x]) = Some ((sb @ [x]) @ s, k'')" "length s = n" "list_all letter s" using Suc by blast
  then show ?case using x by (intro exI [of _ "x # s"] exI [of _ k'']) simp
qed

text \<open>
  Random strings are produced. With a source that keeps producing letters, the function returns, and what it
  returns has the given length and consists of letters.
\<close>

theorem RandString_returns:
  assumes "productive src"
  shows "\<exists>s k'. RandString src k n = Some (s, k') \<and> length s = n \<and> list_all letter s"
  using randLoop_returns [OF assms, of n "src k" 10 "Suc k" "[]"] by (simp add: RandString_def)

theorem RandString_returns_witness:
  "\<exists>s k'. RandString (\<lambda>k. k) 7 3 = Some (s, k') \<and> length s = 3 \<and> list_all letter s"
proof (rule RandString_returns)
  have "k \<le> 64 * k \<and> (64 * k) mod 64 < length letterBytes" for k by (simp add: letterBytes_def)
  then show "productive (\<lambda>k. k)" unfolding productive_def by blast
qed

end
